(* ===== verification/Prelude.thy ===== *)
theory Prelude
  imports Main "HOL-Library.Word"
begin

unbundle bit_operations_syntax

text \<open>
  Shared vocabulary of the development: the machine integer types of the C code,
  undefined or aborting behaviour as a value, byte strings with in-place stores
  (C memory reached through a pointer and an offset), network byte order, and the
  generic contracts of a state machine that the components instantiate.
\<close>

section \<open>Machine integers\<close>

type_synonym u8 = "8 word"
type_synonym u16 = "16 word"
type_synonym u32 = "32 word"
type_synonym u64 = "64 word"
type_synonym bytes = "8 word list"

named_theorems store_simps \<open>how a store changes what a later load sees\<close>
named_theorems inv_intros \<open>operations that keep a component's invariant\<close>

lemma unat_and_3: "unat (w AND 3) = unat (w :: 'a :: len word) mod 4"
proof -
  have "w AND 3 = take_bit 2 w"
    by (simp add: take_bit_eq_mask mask_eq_exp_minus_1)
  then have "unat (w AND 3) = take_bit 2 (unat w)"
    by (simp only: unsigned_take_bit_eq)
  then show ?thesis
    by (simp add: take_bit_eq_mod)
qed

lemma unat_drop_bit_2: "unat (drop_bit 2 w) = unat (w :: 'a :: len word) div 4"
proof -
  have "unat (drop_bit 2 w) = drop_bit 2 (unat w)"
    by (rule unat_drop_bit_eq)
  then show ?thesis
    by (simp add: drop_bit_eq_div)
qed

lemma push_drop_2: "push_bit 2 (drop_bit 2 w) = w - (w AND 3)" for w :: "'a :: len word"
proof -
  have "push_bit 2 (drop_bit 2 w) + take_bit 2 w = w"
    by (rule bits_ident)
  moreover have "w AND 3 = take_bit 2 w"
    by (simp add: take_bit_eq_mask mask_eq_exp_minus_1)
  ultimately show ?thesis
    by (metis add_diff_cancel_right')
qed

lemma unat_align: "unat (push_bit 2 (drop_bit 2 w)) = unat w - unat w mod 4"
  for w :: "'a :: len word"
proof -
  have "w AND 3 \<le> w"
    by (rule word_and_le2)
  then have "unat (w - (w AND 3)) = unat w - unat (w AND 3)"
    by (rule unat_sub)
  then show ?thesis
    by (simp add: push_drop_2 unat_and_3)
qed

section \<open>Faults\<close>

text \<open>
  What a C function does when it does not return normally, or when its effect is not
  defined: a failed \<open>assert\<close>, an access outside an object (\<open>BufferOverflow\<close> for a string
  printed past its buffer), a null dereference; \<open>NoMemory\<close> is
  the \<open>assert (0)\<close> that ends the program after an allocation failed.
\<close>

datatype fault = AssertFailed | OutOfBounds | NullDeref | NoMemory | BufferOverflow | Exited

type_synonym 'a res = "fault + 'a"

definition bindr :: "'a res \<Rightarrow> ('a \<Rightarrow> 'b res) \<Rightarrow> 'b res" where
  "bindr m k = (case m of Inl e \<Rightarrow> Inl e | Inr x \<Rightarrow> k x)"

definition guardr :: "bool \<Rightarrow> fault \<Rightarrow> 'a res \<Rightarrow> 'a res" where
  "guardr b e m = (if b then m else Inl e)"

lemma bindr_simps [simp]: "bindr (Inl e) k = Inl e" "bindr (Inr x) k = k x"
  by (simp_all add: bindr_def)

lemma guardr_simps [simp]: "guardr True e m = m" "guardr False e m = Inl e"
  by (simp_all add: guardr_def)

lemma bindr_cong [fundef_cong]:
  "m = m' \<Longrightarrow> (\<And>x. m' = Inr x \<Longrightarrow> k x = k' x) \<Longrightarrow> bindr m k = bindr m' k'"
  by (cases m') simp_all

lemma bindr_eq_Inr: "bindr m k = Inr y \<longleftrightarrow> (\<exists>x. m = Inr x \<and> k x = Inr y)"
  by (cases m) auto

lemma guardr_eq_Inr: "guardr b e m = Inr y \<longleftrightarrow> b \<and> m = Inr y"
  by (cases b) auto

section \<open>Bytes in memory\<close>

text \<open>
  \<open>load off n m\<close> reads \<open>n\<close> bytes at offset \<open>off\<close>; \<open>store off bs m\<close> writes \<open>bs\<close> there.
  Both are used inside the object only; the components check that.
\<close>

definition load :: "nat \<Rightarrow> nat \<Rightarrow> 'a list \<Rightarrow> 'a list" where
  "load off n m = take n (drop off m)"

definition store :: "nat \<Rightarrow> 'a list \<Rightarrow> 'a list \<Rightarrow> 'a list" where
  "store off bs m = take off m @ bs @ drop (off + length bs) m"

lemma length_store [simp]: "off + length bs \<le> length m \<Longrightarrow> length (store off bs m) = length m"
  by (simp add: store_def)

lemma length_load [simp]: "off + n \<le> length m \<Longrightarrow> length (load off n m) = n"
  by (simp add: load_def)

lemma load_store_same [store_simps]:
  "off + length bs \<le> length m \<Longrightarrow> n = length bs \<Longrightarrow> load off n (store off bs m) = bs"
  by (simp add: load_def store_def)

lemma load_store_below [store_simps]:
  "off + length bs \<le> length m \<Longrightarrow> o' + n \<le> off \<Longrightarrow> load o' n (store off bs m) = load o' n m"
  by (auto simp: load_def store_def min_def drop_take)

lemma load_store_above [store_simps]:
  "off + length bs \<le> length m \<Longrightarrow> off + length bs \<le> o' \<Longrightarrow> load o' n (store off bs m) = load o' n m"
  by (simp add: load_def store_def min_def)

lemma load_append_left [store_simps]: "off + n \<le> length m \<Longrightarrow> load off n (m @ m') = load off n m"
  by (simp add: load_def)

lemma load_append_right [store_simps]:
  "length m \<le> off \<Longrightarrow> load off n (m @ m') = load (off - length m) n m'"
  by (simp add: load_def)

lemma nth_store:
  "off + length bs \<le> length m \<Longrightarrow> i < length m \<Longrightarrow>
   store off bs m ! i = (if off \<le> i \<and> i < off + length bs then bs ! (i - off) else m ! i)"
  by (auto simp: store_def nth_append min_def)

lemma store_Nil [simp]: "store off [] m = m"
  by (simp add: store_def)

lemma take_length_append: "take (length xs) (xs @ ys) = xs"
  by simp

lemma load_all: "load 0 (length m) m = m"
  by (simp add: load_def)

section \<open>Network byte order\<close>

definition be16 :: "u16 \<Rightarrow> bytes" where
  "be16 w = [ucast (drop_bit 8 w), ucast w]"

definition be32 :: "u32 \<Rightarrow> bytes" where
  "be32 w = [ucast (drop_bit 24 w), ucast (drop_bit 16 w), ucast (drop_bit 8 w), ucast w]"

definition be64 :: "u64 \<Rightarrow> bytes" where
  "be64 w = be32 (ucast (drop_bit 32 w)) @ be32 (ucast w)"

definition rd16 :: "bytes \<Rightarrow> u16" where
  "rd16 bs = push_bit 8 (ucast (bs ! 0)) OR ucast (bs ! 1)"

definition rd32 :: "bytes \<Rightarrow> u32" where
  "rd32 bs = push_bit 24 (ucast (bs ! 0)) OR push_bit 16 (ucast (bs ! 1))
    OR push_bit 8 (ucast (bs ! 2)) OR ucast (bs ! 3)"

definition rd64 :: "bytes \<Rightarrow> u64" where
  "rd64 bs = push_bit 32 (ucast (rd32 (take 4 bs))) OR ucast (rd32 (drop 4 bs))"

lemma length_be [simp]: "length (be16 a) = 2" "length (be32 b) = 4" "length (be64 c) = 8"
  by (simp_all add: be16_def be32_def be64_def)

lemma rd16_be16 [simp]: "rd16 (be16 w) = w"
  by (rule bit_word_eqI) (auto simp: rd16_def be16_def bit_simps)

lemma rd32_be32 [simp]: "rd32 (be32 w) = w"
proof (rule bit_word_eqI)
  fix n
  show "bit (rd32 (be32 w)) n = bit w n" if "n < LENGTH(32)"
    using that by (cases "n < 8"; cases "n < 16"; cases "n < 24") (auto simp: rd32_def be32_def bit_simps)
qed

lemma rd64_be64 [simp]: "rd64 (be64 w) = w"
proof -
  have "rd64 (be64 w) = push_bit 32 (ucast (ucast (drop_bit 32 w) :: u32)) OR ucast (ucast w :: u32)"
    by (simp add: rd64_def be64_def)
  also have "\<dots> = w"
    by (rule bit_word_eqI) (auto simp: bit_simps)
  finally show ?thesis .
qed

section \<open>Printed numbers\<close>

definition digit :: "nat \<Rightarrow> char" where
  "digit d = char_of (48 + d)"

fun dec :: "nat \<Rightarrow> string" where
  "dec n = (if n < 10 then [digit n] else dec (n div 10) @ [digit (n mod 10)])"

declare dec.simps [simp del]

definition dec_int :: "int \<Rightarrow> string" where
  "dec_int i = (if i < 0 then CHR ''-'' # dec (nat (- i)) else dec (nat i))"

definition dec_word :: "'a :: len word \<Rightarrow> string" where
  "dec_word w = dec (unat w)"

definition dec_bool :: "bool \<Rightarrow> string" where
  "dec_bool b = dec (if b then 1 else 0)"

section \<open>Contracts of a state machine\<close>

text \<open>
  \<open>preserving\<close>: operations that keep an invariant, for machines whose steps cannot fail.
  \<open>safe_machine\<close>: steps that may fault; under the invariant none does, except by giving up
  in the ways the event allows (an assertion the code reaches when memory runs out). A component
  interprets one of them with its own operations and gets the statements about runs.
\<close>

locale preserving =
  fixes step :: "'e \<Rightarrow> 's \<Rightarrow> 's"
    and inv :: "'s \<Rightarrow> bool"
  assumes step_inv: "inv s \<Longrightarrow> inv (step e s)"
begin

lemma run_inv: "inv s \<Longrightarrow> inv (fold step es s)"
  by (induction es arbitrary: s) (auto intro: step_inv)

end

primrec runr :: "('e \<Rightarrow> 's \<Rightarrow> 's res) \<Rightarrow> 'e list \<Rightarrow> 's \<Rightarrow> 's res" where
  "runr f [] s = Inr s"
| "runr f (e # es) s = bindr (f e s) (runr f es)"

lemma runr_append [simp]: "runr f (xs @ ys) s = bindr (runr f xs s) (runr f ys)"
proof (induction xs arbitrary: s)
  case (Cons x xs)
  then show ?case by (cases "f x s") simp_all
qed simp

lemma bindr_runr_Nil [simp]: "bindr m (runr f []) = m"
  by (cases m) simp_all

locale safe_machine =
  fixes step :: "'e \<Rightarrow> 's \<Rightarrow> 's res"
    and inv :: "'s \<Rightarrow> bool"
    and given_up :: "'e \<Rightarrow> fault set"
  assumes step_ok: "inv s \<Longrightarrow> (\<exists>s'. step e s = Inr s' \<and> inv s') \<or> (\<exists>f\<in>given_up e. step e s = Inl f)"
begin

lemma run_ok:
  "inv s \<Longrightarrow> (\<exists>s'. runr step es s = Inr s' \<and> inv s') \<or> (\<exists>e\<in>set es. \<exists>f\<in>given_up e. runr step es s = Inl f)"
proof (induction es arbitrary: s)
  case Nil
  then show ?case by simp
next
  case (Cons e es)
  from step_ok [OF Cons.prems, of e] consider
      t where "step e s = Inr t" "inv t" | f where "f \<in> given_up e" "step e s = Inl f" by blast
  then show ?case
  proof cases
    case 1
    from Cons.IH [OF 1(2)] show ?thesis by (simp add: 1(1)) blast
  qed auto
qed

text \<open>Events that give nothing up cannot fault.\<close>

lemma run_total:
  "inv s \<Longrightarrow> \<forall>e\<in>set es. given_up e = {} \<Longrightarrow> \<exists>s'. runr step es s = Inr s' \<and> inv s'"
  using run_ok [of s es] by auto

end

end
