(* ===== verification/Tlp.thy ===== *)
theory Tlp
  imports Prelude
begin

text \<open>
  PCIe transaction layer packets: the header structures and accessor macros of
  \<open>sdplane/tlp.h\<close> and the address and length arithmetic of \<open>sdplane/nettlp_support.c\<close>.

  A 16-bit field kept in network order is represented by the value it has on the wire, so
  \<open>ntohs\<close> and \<open>htons\<close> are the identity on it and the macros read as the C ones do.
  The two 4-bit byte-enable fields share one byte, first DW in the low half (the
  little-endian branch of the header).
\<close>

section \<open>The common header\<close>

record tlp_hdr =
  fmt_type :: u8
  tclass :: u8
  falen :: u16

definition tlp_fmt_dw :: "u8 \<Rightarrow> u8" where
  "tlp_fmt_dw ft = ft AND 0x20"

definition tlp_is_3dw :: "u8 \<Rightarrow> bool" where
  "tlp_is_3dw ft \<longleftrightarrow> tlp_fmt_dw ft = 0x00"

definition tlp_is_4dw :: "u8 \<Rightarrow> bool" where
  "tlp_is_4dw ft \<longleftrightarrow> tlp_fmt_dw ft = 0x20"

definition tlp_fmt_data :: "u8 \<Rightarrow> u8" where
  "tlp_fmt_data ft = ft AND 0x40"

definition tlp_is_wo_data :: "u8 \<Rightarrow> bool" where
  "tlp_is_wo_data ft \<longleftrightarrow> tlp_fmt_data ft = 0x00"

definition tlp_is_w_data :: "u8 \<Rightarrow> bool" where
  "tlp_is_w_data ft \<longleftrightarrow> tlp_fmt_data ft = 0x40"

definition tlp_set_fmt :: "u8 \<Rightarrow> u8 \<Rightarrow> u8 \<Rightarrow> u8" where
  "tlp_set_fmt ft dw wd = (ft AND NOT (0x20 OR 0x40)) OR (dw AND 0x20) OR (wd AND 0x40)"

definition tlp_type :: "u8 \<Rightarrow> u8" where
  "tlp_type ft = ft AND 0x1F"

definition tlp_is_mrd :: "u8 \<Rightarrow> bool" where
  "tlp_is_mrd ft \<longleftrightarrow> tlp_type ft = 0x00 \<and> tlp_is_wo_data ft"

definition tlp_is_mwr :: "u8 \<Rightarrow> bool" where
  "tlp_is_mwr ft \<longleftrightarrow> tlp_type ft = 0x00 \<and> tlp_is_w_data ft"

definition tlp_is_cpl :: "u8 \<Rightarrow> bool" where
  "tlp_is_cpl ft \<longleftrightarrow> tlp_type ft = 0x0A"

definition tlp_set_type :: "u8 \<Rightarrow> u8 \<Rightarrow> u8" where
  "tlp_set_type ft v = (ft AND NOT 0x1F) OR (v AND 0x1F)"

definition tlp_tclass :: "u8 \<Rightarrow> u8" where
  "tlp_tclass tc = drop_bit 4 (tc AND 0x70)"

definition tlp_set_tclass :: "u8 \<Rightarrow> u8" where
  "tlp_set_tclass v = push_bit 4 v AND 0x70"

definition tlp_flag :: "u16 \<Rightarrow> u16" where
  "tlp_flag fl = fl AND 0xC000"

definition tlp_flag_digest :: "u16 \<Rightarrow> u16" where
  "tlp_flag_digest fl = tlp_flag fl AND 0x8000"

definition tlp_flag_set_digest :: "u16 \<Rightarrow> u16" where
  "tlp_flag_set_digest fl = fl OR 0x8000"

definition tlp_flag_unset_digest :: "u16 \<Rightarrow> u16" where
  "tlp_flag_unset_digest fl = fl AND NOT 0x8000"

definition tlp_flag_ep :: "u16 \<Rightarrow> u16" where
  "tlp_flag_ep fl = tlp_flag fl AND 0x4000"

definition tlp_flag_set_ep :: "u16 \<Rightarrow> u16" where
  "tlp_flag_set_ep fl = fl OR 0x4000"

definition tlp_flag_unset_ep :: "u16 \<Rightarrow> u16" where
  "tlp_flag_unset_ep fl = fl AND NOT 0x4000"

definition tlp_attr :: "u16 \<Rightarrow> u16" where
  "tlp_attr fl = fl AND 0x3000"

definition tlp_attr_relax :: "u16 \<Rightarrow> u16" where
  "tlp_attr_relax fl = tlp_attr fl AND 0x2000"

definition tlp_attr_set_relax :: "u16 \<Rightarrow> u16" where
  "tlp_attr_set_relax fl = fl OR 0x2000"

definition tlp_attr_unset_relax :: "u16 \<Rightarrow> u16" where
  "tlp_attr_unset_relax fl = fl AND NOT 0x2000"

definition tlp_attr_nosnp :: "u16 \<Rightarrow> u16" where
  "tlp_attr_nosnp fl = tlp_attr fl AND 0x1000"

definition tlp_attr_set_nosnp :: "u16 \<Rightarrow> u16" where
  "tlp_attr_set_nosnp fl = fl OR 0x1000"

definition tlp_attr_unset_nosnp :: "u16 \<Rightarrow> u16" where
  "tlp_attr_unset_nosnp fl = fl AND NOT 0x1000"

definition tlp_length :: "u16 \<Rightarrow> u16" where
  "tlp_length fl = fl AND 0x03FF"

text \<open>\<open>v\<close> is an \<open>int\<close> that is not masked; \<open>htons\<close> truncates the result to 16 bits.\<close>

definition tlp_set_length :: "u16 \<Rightarrow> u32 \<Rightarrow> u16" where
  "tlp_set_length fl v = (fl AND NOT 0x03FF) OR ucast v"

section \<open>Memory request and completion headers\<close>

text \<open>The bytes after the packed header (\<open>mh + 1\<close>) are part of what the code reads.\<close>

record tlp_mr_hdr =
  mr_tlp :: tlp_hdr
  mr_requester :: u16
  mr_tag :: u8
  mr_fstdw :: u8
  mr_lstdw :: u8
  mr_rest :: bytes

record tlp_cpl_hdr =
  cpl_tlp :: tlp_hdr
  cpl_completer :: u16
  cpl_stcnt :: u16
  cpl_requester :: u16
  cpl_tag :: u8
  cpl_lowaddr :: u8

definition tlp_id_to_bus :: "u16 \<Rightarrow> u16" where
  "tlp_id_to_bus w = drop_bit 8 w"

definition tlp_id_to_device :: "u16 \<Rightarrow> u16" where
  "tlp_id_to_device w = w AND 0x00FF"

definition tlp_cpl_status :: "u16 \<Rightarrow> u16" where
  "tlp_cpl_status sc = sc AND 0xE000"

definition tlp_set_cpl_status :: "u16 \<Rightarrow> u16 \<Rightarrow> u16" where
  "tlp_set_cpl_status sc v = (sc AND NOT 0xE000) OR v"

definition tlp_cpl_bcnt :: "u16 \<Rightarrow> u16" where
  "tlp_cpl_bcnt sc = sc AND 0x0FFF"

definition tlp_set_cpl_bcnt :: "u16 \<Rightarrow> u64 \<Rightarrow> u16" where
  "tlp_set_cpl_bcnt sc v = (sc AND NOT 0x0FFF) OR ucast v"

text \<open>The packed structures read out of memory.\<close>

definition tlp_hdr_of :: "bytes \<Rightarrow> tlp_hdr" where
  "tlp_hdr_of m = \<lparr>fmt_type = m ! 0, tclass = m ! 1, falen = rd16 (load 2 2 m)\<rparr>"

definition mr_hdr_of :: "bytes \<Rightarrow> tlp_mr_hdr" where
  "mr_hdr_of m = \<lparr>mr_tlp = tlp_hdr_of m, mr_requester = rd16 (load 4 2 m), mr_tag = m ! 6,
     mr_fstdw = (m ! 7) AND 0xF, mr_lstdw = drop_bit 4 (m ! 7), mr_rest = drop 8 m\<rparr>"

definition cpl_hdr_of :: "bytes \<Rightarrow> tlp_cpl_hdr" where
  "cpl_hdr_of m = \<lparr>cpl_tlp = tlp_hdr_of m, cpl_completer = rd16 (load 4 2 m),
     cpl_stcnt = rd16 (load 6 2 m), cpl_requester = rd16 (load 8 2 m), cpl_tag = m ! 10,
     cpl_lowaddr = m ! 11\<rparr>"

text \<open>Assigning to the two bit fields of the byte-enable byte.\<close>

definition set_fstdw :: "u8 \<Rightarrow> u32 \<Rightarrow> u8" where
  "set_fstdw b v = (b AND 0xF0) OR (ucast v AND 0xF)"

definition set_lstdw :: "u8 \<Rightarrow> u32 \<Rightarrow> u8" where
  "set_lstdw b v = (b AND 0xF) OR push_bit 4 (ucast v AND 0xF)"

section \<open>Byte enables and lengths of a request\<close>

definition tlp_calculate_lstdw :: "u64 \<Rightarrow> u64 \<Rightarrow> u32" where
  "tlp_calculate_lstdw addr count =
    (let start = push_bit 2 (drop_bit 2 addr);
         last = addr + count;
         end_start = (if last AND 3 = 0 then last - 4 else push_bit 2 (drop_bit 2 last));
         end_start = (if end_start \<le> start then addr + 4 else end_start)
     in if last < end_start then 0
        else NOT (push_bit (unat (last - end_start)) 0xF) AND 0xF)"

definition tlp_calculate_fstdw :: "u64 \<Rightarrow> u64 \<Rightarrow> u32" where
  "tlp_calculate_fstdw addr count =
    (let be = (if count < 4 then NOT (push_bit (unat count) 0xF) AND 0xF else 0xF)
     in push_bit (unat (addr AND 3)) be AND 0xF)"

definition tlp_calculate_length :: "u64 \<Rightarrow> u64 \<Rightarrow> u32" where
  "tlp_calculate_length addr count =
    (let start = addr AND 0xFFFFFFFFFFFFFFFC;
         last = addr + count;
         len = drop_bit 2 (last - start);
         len = (if (last - start) AND 3 \<noteq> 0 then len + 1 else len)
     in ucast len)"

text \<open>
  The loops over the four enable bits. The first stops at the first enabled byte, the
  second runs over all four, the third scans the last DW from its high end.
\<close>

fun leading_disabled :: "nat list \<Rightarrow> u8 \<Rightarrow> nat" where
  "leading_disabled [] be = 0"
| "leading_disabled (n # ns) be =
    (if be AND push_bit n 1 = 0 then Suc (leading_disabled ns be) else 0)"

fun all_disabled :: "nat list \<Rightarrow> u8 \<Rightarrow> nat" where
  "all_disabled [] be = 0"
| "all_disabled (n # ns) be = (if be AND push_bit n 1 = 0 then 1 else 0) + all_disabled ns be"

fun trailing_disabled :: "nat list \<Rightarrow> u8 \<Rightarrow> nat" where
  "trailing_disabled [] be = 0"
| "trailing_disabled (n # ns) be =
    (if be AND drop_bit n 0x8 = 0 then Suc (trailing_disabled ns be) else 0)"

definition tlp_mr_addr :: "tlp_mr_hdr \<Rightarrow> u64" where
  "tlp_mr_addr mh =
    (let addr = (if tlp_is_3dw (fmt_type (mr_tlp mh)) then ucast (rd32 (load 0 4 (mr_rest mh)))
                 else rd64 (load 0 8 (mr_rest mh)))
     in if mr_fstdw mh \<noteq> 0 \<and> mr_fstdw mh \<noteq> 0xF
        then addr + of_nat (leading_disabled [0, 1, 2, 3] (mr_fstdw mh)) else addr)"

text \<open>The result is an \<open>int\<close> read out of a \<open>uint32_t\<close>: \<open>sint\<close> of this word.\<close>

definition tlp_mr_data_length :: "tlp_mr_hdr \<Rightarrow> u32" where
  "tlp_mr_data_length mh =
    (let len = push_bit 2 (ucast (tlp_length (falen (mr_tlp mh))));
         len = (if mr_fstdw mh \<noteq> 0 \<and> mr_fstdw mh \<noteq> 0xF
                then len - of_nat (all_disabled [0, 1, 2, 3] (mr_fstdw mh)) else len)
     in if mr_lstdw mh \<noteq> 0 \<and> mr_lstdw mh \<noteq> 0xF
        then len - of_nat (trailing_disabled [0, 1, 2, 3] (mr_lstdw mh)) else len)"

text \<open>The pointer as an offset from \<open>mh + 1\<close>.\<close>

definition tlp_mwr_data :: "tlp_mr_hdr \<Rightarrow> nat" where
  "tlp_mwr_data mh =
    (let p = (if tlp_is_3dw (fmt_type (mr_tlp mh)) then 4 else 8)
     in if mr_fstdw mh \<noteq> 0 \<and> mr_fstdw mh \<noteq> 0xF
        then p + leading_disabled [0, 1, 2, 3] (mr_fstdw mh) else p)"

definition tlp_cpld_data_length :: "tlp_cpl_hdr \<Rightarrow> u32" where
  "tlp_cpld_data_length ch =
    (let len = ucast (tlp_length (falen (cpl_tlp ch)));
         low = ucast (cpl_lowaddr ch AND 0x3);
         bcnt = ucast (tlp_cpl_bcnt (cpl_stcnt ch))
     in if len = drop_bit 2 (low + bcnt + 3) then bcnt else push_bit 2 len - low)"

definition tlp_cpld_data :: "tlp_cpl_hdr \<Rightarrow> nat" where
  "tlp_cpld_data ch =
    (if tlp_is_3dw (fmt_type (cpl_tlp ch)) then 4 else 8) + unat (cpl_lowaddr ch AND 0x3)"

section \<open>Arithmetic of DW alignment\<close>

lemma dw_floor: "x mod 4 \<noteq> 0 \<Longrightarrow> x div 4 = (x - 1) div 4" for x :: nat
  by (cases x) (auto simp: div_Suc)

lemma dw_prev: "x mod 4 = 0 \<Longrightarrow> 0 < x \<Longrightarrow> x - 4 = 4 * ((x - 1) div 4)" for x :: nat
proof -
  assume "x mod 4 = 0" "0 < x"
  then obtain q where "x = 4 * q" "0 < q" by (auto simp: mod_eq_0_iff_dvd elim!: dvdE)
  then obtain p where x: "x = 4 * Suc p" by (cases q) auto
  have "4 * Suc p - 1 = 3 + p * 4" by simp
  then have "(x - 1) div 4 = p" by (simp add: x)
  then show ?thesis by (simp add: x)
qed

lemma dw_single: "0 < c \<Longrightarrow> 4 * ((a + c - 1) div 4) \<le> 4 * (a div 4) \<longleftrightarrow> a mod 4 + c \<le> 4" for a c :: nat
proof -
  assume c: "0 < c"
  define q r where "q = a div 4" and "r = a mod 4"
  have a: "a = r + q * 4" unfolding q_def r_def by (metis div_mult_mod_eq add.commute)
  have "a + c - 1 = (r + c - 1) + q * 4" using c by (simp only: a)
  then have "(a + c - 1) div 4 = q + (r + c - 1) div 4" by (simp only: div_mult_self1)
  moreover have "(r + c - 1) div 4 = 0 \<longleftrightarrow> r + c \<le> 4" using c by (simp only: div_eq_0_iff) linarith
  ultimately show ?thesis unfolding q_def [symmetric] r_def [symmetric] by linarith
qed

lemma dw_last: "0 < x \<Longrightarrow> 4 * ((x - 1) div 4) \<le> x" "0 < x \<Longrightarrow> x - 4 * ((x - 1) div 4) = (x - 1) mod 4 + 1"
  for x :: nat
  using div_mult_mod_eq [of "x - 1" 4] by linarith+

lemma dw_offset: "a + c - 4 * (a div 4) = a mod 4 + c" "4 * (a div 4) \<le> a + c" for a c :: nat
  using div_mult_mod_eq [of a 4] by linarith+

lemma dw_round_up: "(if x mod 4 \<noteq> 0 then x div 4 + 1 else x div 4) = (x + 3) div 4" for x :: nat
  by presburger

lemma dw_tail: "0 < x \<Longrightarrow> (x - 1) mod 4 + 1 = (if x mod 4 = 0 then 4 else x mod 4)" for x :: nat
  by (cases x) (simp_all add: mod_Suc)

lemma mod4_cases: "x mod 4 = 0 \<or> x mod 4 = 1 \<or> x mod 4 = 2 \<or> x mod 4 = 3" for x :: nat
  by presburger

lemma count_cases: "0 < c \<Longrightarrow> c = 1 \<or> c = 2 \<or> c = 3 \<or> 4 \<le> c" for c :: nat
  by arith

lemma unat_add_no_wrap: "unat (a::u64) + unat b < 2 ^ 64 \<Longrightarrow> unat (a + b) = unat a + unat b"
  by (simp add: unat_word_ariths)

lemma align_down: "unat (push_bit 2 (drop_bit 2 w)) = 4 * (unat w div 4)" for w :: u64
  by (simp only: unat_align) (simp add: minus_mod_eq_mult_div)

lemma and_3_eq_0: "w AND 3 = 0 \<longleftrightarrow> unat (w::u64) mod 4 = 0"
  by (simp add: unat_and_3 [symmetric] unat_eq_0)

lemma and_not_3: "w AND NOT 3 = push_bit 2 (drop_bit 2 w)" for w :: u64
proof -
  have m: "(3 :: u64) = mask 2" by (simp add: mask_eq_exp_minus_1)
  have "w AND NOT (mask 2) = push_bit 2 (drop_bit 2 w)"
    by (rule bit_word_eqI) (auto simp only: bit_simps not_less le_add_diff_inverse comp_apply)
  then show ?thesis by (simp only: m)
qed

section \<open>The byte enables as functions of address and count\<close>

lemma fstdw_small:
  assumes "unat count < 4"
  shows "tlp_calculate_fstdw addr count = push_bit (unat addr mod 4) (NOT (push_bit (unat count) 0xF) AND 0xF) AND 0xF"
  using assms by (simp add: tlp_calculate_fstdw_def unat_and_3 word_less_nat_alt)

lemma fstdw_large:
  assumes "4 \<le> unat count"
  shows "tlp_calculate_fstdw addr count = push_bit (unat addr mod 4) 0xF AND 0xF"
  using assms by (simp add: tlp_calculate_fstdw_def unat_and_3 word_less_nat_alt)

lemma fstdw_table:
  assumes "0 < unat count"
  shows "tlp_calculate_fstdw addr count =
    (if 4 \<le> unat count then [0xF, 0xE, 0xC, 0x8] ! (unat addr mod 4)
     else if unat count = 1 then [0x1, 0x2, 0x4, 0x8] ! (unat addr mod 4)
     else if unat count = 2 then [0x3, 0x6, 0xC, 0x8] ! (unat addr mod 4)
     else [0x7, 0xE, 0xC, 0x8] ! (unat addr mod 4))"
  using mod4_cases [of "unat addr"] count_cases [OF assms]
  by (elim disjE) (simp_all add: fstdw_small fstdw_large)

lemma lstdw_val:
  assumes nw: "unat addr + unat count + 4 < 2 ^ 64" and pos: "0 < unat count"
  shows "tlp_calculate_lstdw addr count =
    (if unat addr mod 4 + unat count \<le> 4 then 0
     else NOT (push_bit ((unat addr + unat count - 1) mod 4 + 1) 0xF) AND 0xF)"
proof -
  let ?a = "unat addr" and ?c = "unat count" and ?e = "addr + count"
  let ?es = "if ?e AND 3 = 0 then ?e - 4 else push_bit 2 (drop_bit 2 ?e)"
  have e: "unat ?e = ?a + ?c"
    using nw by (intro unat_add_no_wrap) simp
  have es: "unat ?es = 4 * ((?a + ?c - 1) div 4)"
  proof (cases "?e AND 3 = 0")
    case True
    then have m: "(?a + ?c) mod 4 = 0" by (simp add: and_3_eq_0 e)
    with pos have "4 \<le> ?a + ?c" by (simp add: mod_eq_0_iff_dvd dvd_imp_le)
    then have "unat (?e - 4) = ?a + ?c - 4"
      by (subst unat_sub) (simp_all add: e word_le_nat_alt)
    with True dw_prev [OF m] pos show ?thesis by simp
  next
    case False
    then have "(?a + ?c) mod 4 \<noteq> 0" by (simp add: and_3_eq_0 e)
    from dw_floor [OF this] False show ?thesis by (simp add: align_down e)
  qed
  have st: "unat (push_bit 2 (drop_bit 2 addr)) = 4 * (?a div 4)"
    by (rule align_down)
  have corner: "?es \<le> push_bit 2 (drop_bit 2 addr) \<longleftrightarrow> ?a mod 4 + ?c \<le> 4"
    unfolding word_le_nat_alt es st by (rule dw_single [OF pos])
  show ?thesis
  proof (cases "?a mod 4 + ?c \<le> 4")
    case True
    have a4: "unat (addr + 4) = ?a + 4"
      using nw by (subst unat_add_no_wrap) simp_all
    from True corner have red: "tlp_calculate_lstdw addr count =
        (if ?e < addr + 4 then 0 else NOT (push_bit (unat (?e - (addr + 4))) 0xF) AND 0xF)"
      by (simp only: tlp_calculate_lstdw_def Let_def if_True)
    show ?thesis
    proof (cases "?c < 4")
      case c4: True
      then have "?e < addr + 4" by (simp add: word_less_nat_alt e a4)
      with True red show ?thesis by simp
    next
      case False
      with True have "?c = 4" by simp
      then have "?e = addr + 4" by (simp add: word_unat_eq_iff e a4)
      with True red show ?thesis by simp
    qed
  next
    case False
    have x: "0 < ?a + ?c" using pos by simp
    have ge: "?es \<le> ?e"
      unfolding word_le_nat_alt es e by (rule dw_last(1) [OF x])
    have "unat (?e - ?es) = (?a + ?c - 1) mod 4 + 1"
      by (simp only: unat_sub [OF ge] es e dw_last(2) [OF x])
    moreover from ge have "\<not> ?e < ?es" by simp
    ultimately show ?thesis
      using False corner by (simp only: tlp_calculate_lstdw_def Let_def if_False)
  qed
qed

lemma lstdw_table:
  assumes "unat addr + unat count + 4 < 2 ^ 64" "0 < unat count"
  shows "tlp_calculate_lstdw addr count =
    (if unat addr mod 4 + unat count \<le> 4 then 0
     else [0xF, 0x1, 0x3, 0x7] ! ((unat addr + unat count) mod 4))"
proof -
  have x: "0 < unat addr + unat count" using assms(2) by simp
  show ?thesis
    using mod4_cases [of "unat addr + unat count"]
    unfolding lstdw_val [OF assms] dw_tail [OF x]
    by (elim disjE) simp_all
qed

lemma length_val:
  assumes nw: "unat addr + unat count < 2 ^ 64" and len: "unat addr mod 4 + unat count + 3 < 2 ^ 32"
  shows "unat (tlp_calculate_length addr count) = (unat addr mod 4 + unat count + 3) div 4"
proof -
  let ?a = "unat addr" and ?c = "unat count"
  let ?d = "addr + count - (addr AND 0xFFFFFFFFFFFFFFFC)"
  let ?l = "if ?d AND 3 \<noteq> 0 then drop_bit 2 ?d + 1 else drop_bit 2 ?d"
  have m: "(0xFFFFFFFFFFFFFFFC :: u64) = NOT 3" by simp
  have st: "unat (addr AND 0xFFFFFFFFFFFFFFFC) = 4 * (?a div 4)"
    by (simp only: m and_not_3 align_down)
  have e: "unat (addr + count) = ?a + ?c"
    using nw by (rule unat_add_no_wrap)
  have "addr AND 0xFFFFFFFFFFFFFFFC \<le> addr + count"
    unfolding word_le_nat_alt st e by (rule dw_offset)
  from unat_sub [OF this] have d: "unat ?d = ?a mod 4 + ?c"
    by (simp only: st e dw_offset)
  have "unat ?l = (if unat ?d mod 4 \<noteq> 0 then unat ?d div 4 + 1 else unat ?d div 4)"
    using len by (simp only: and_3_eq_0 split: if_split) (simp add: d unat_drop_bit_2 unat_word_ariths)
  then have l: "unat ?l = (?a mod 4 + ?c + 3) div 4"
    by (simp only: dw_round_up d)
  have "unat (tlp_calculate_length addr count) = unat ?l mod 2 ^ 32"
    unfolding tlp_calculate_length_def Let_def unsigned_ucast_eq take_bit_eq_mod by simp
  then show ?thesis
    using len l by simp
qed

section \<open>Reading the byte enables back\<close>

text \<open>
  The three scans with the guard every caller puts in front of them.
\<close>

definition front_skip :: "u8 \<Rightarrow> nat" where
  "front_skip be = (if be \<noteq> 0 \<and> be \<noteq> 0xF then leading_disabled [0, 1, 2, 3] be else 0)"

definition front_pad :: "u8 \<Rightarrow> nat" where
  "front_pad be = (if be \<noteq> 0 \<and> be \<noteq> 0xF then all_disabled [0, 1, 2, 3] be else 0)"

definition back_pad :: "u8 \<Rightarrow> nat" where
  "back_pad be = (if be \<noteq> 0 \<and> be \<noteq> 0xF then trailing_disabled [0, 1, 2, 3] be else 0)"

lemmas be_defs = front_skip_def front_pad_def back_pad_def

lemma front_skip_fstdw:
  assumes "0 < unat count"
  shows "front_skip (ucast (tlp_calculate_fstdw addr count)) = unat addr mod 4"
  using mod4_cases [of "unat addr"] count_cases [OF assms]
  by (elim disjE) (simp_all add: fstdw_table be_defs)

lemma front_pad_fstdw:
  assumes "0 < unat count"
  shows "front_pad (ucast (tlp_calculate_fstdw addr count)) =
    (if unat addr mod 4 + unat count \<le> 4 then 4 - unat count else unat addr mod 4)"
proof (cases "unat count = 4")
  case True
  then show ?thesis
    using mod4_cases [of "unat addr"] by (elim disjE) (simp_all add: fstdw_table be_defs)
next
  case False
  then show ?thesis
    using mod4_cases [of "unat addr"] count_cases [OF assms]
    by (elim disjE) (simp_all add: fstdw_table be_defs)
qed

lemma back_pad_lstdw:
  assumes "unat addr + unat count + 4 < 2 ^ 64" "0 < unat count"
  shows "back_pad (ucast (tlp_calculate_lstdw addr count)) =
    (if unat addr mod 4 + unat count \<le> 4 then 0 else (4 - (unat addr + unat count) mod 4) mod 4)"
  using mod4_cases [of "unat addr + unat count"]
  by (elim disjE) (simp_all add: lstdw_table [OF assms] be_defs)

lemma mr_addr_skip:
  "tlp_mr_addr mh = (if tlp_is_3dw (fmt_type (mr_tlp mh)) then ucast (rd32 (load 0 4 (mr_rest mh)))
     else rd64 (load 0 8 (mr_rest mh))) + of_nat (front_skip (mr_fstdw mh))"
  by (simp add: tlp_mr_addr_def front_skip_def Let_def)

lemma mwr_data_skip:
  "tlp_mwr_data mh = (if tlp_is_3dw (fmt_type (mr_tlp mh)) then 4 else 8) + front_skip (mr_fstdw mh)"
  by (simp add: tlp_mwr_data_def front_skip_def)

lemma mr_data_length_pads:
  "tlp_mr_data_length mh = push_bit 2 (ucast (tlp_length (falen (mr_tlp mh))))
     - of_nat (front_pad (mr_fstdw mh)) - of_nat (back_pad (mr_lstdw mh))"
  by (simp add: tlp_mr_data_length_def front_pad_def back_pad_def Let_def)

lemma set_length_0: "fl AND 0x03FF = 0 \<Longrightarrow> unat v < 1024 \<Longrightarrow> tlp_length (tlp_set_length fl v) = ucast v"
proof -
  assume fl: "fl AND 0x03FF = 0" and v: "unat v < 1024"
  have m: "(0x03FF :: u16) = mask 10" by (simp add: mask_eq_exp_minus_1)
  have "tlp_length (tlp_set_length fl v) = ucast v AND 0x03FF"
    unfolding tlp_length_def tlp_set_length_def
    by (simp add: bit.conj_disj_distrib2 and.assoc)
  also have "\<dots> = ucast v"
  proof (rule bit_word_eqI)
    show "bit (ucast v AND 0x03FF :: u16) n = bit (ucast v :: u16) n" for n
    proof (cases "n < 10")
      case False
      from v have "v = take_bit 10 v"
        
        by (simp add: word_unat_eq_iff unat_mod take_bit_eq_mod)
      then have "\<not> bit v n" using False by (metis bit_take_bit_iff)
      then show ?thesis by (simp add: bit_simps)
    qed (simp add: m bit_simps)
  qed
  finally show ?thesis .
qed

lemma dw_count:
  fixes c r :: nat
  assumes "0 < c" "r < 4"
  shows "4 * ((r + c + 3) div 4) = c + (if r + c \<le> 4 then 4 - c else r) +
    (if r + c \<le> 4 then 0 else (4 - (r + c) mod 4) mod 4)"
proof -
  define x where "x = r + c"
  have "4 * ((x + 3) div 4) = x + (4 - x mod 4) mod 4"
  proof -
    obtain q s where x: "x = s + q * 4" and s: "s < 4"
      by (metis div_mult_mod_eq add.commute mod_less_divisor zero_less_numeral)
    have "(s + q * 4 + 3) div 4 = q + (s + 3) div 4"
      using div_mult_self1 [of 4 "s + 3" q] by (simp add: ac_simps)
    moreover have "(s + q * 4) mod 4 = s" using s by simp
    moreover from s have "s = 0 \<or> s = 1 \<or> s = 2 \<or> s = 3" by arith
    ultimately show ?thesis unfolding x by (elim disjE) (simp_all only:, simp_all)
  qed
  moreover have "(x + 3) div 4 = 1" if "x \<le> 4" "0 < x"
  proof -
    from that have "x = 1 \<or> x = 2 \<or> x = 3 \<or> x = 4" by arith
    then show ?thesis by (elim disjE) simp_all
  qed
  ultimately show ?thesis using assms by (auto simp: x_def)
qed

text \<open>
  A header that asks for \<open>count\<close> bytes at \<open>addr\<close>: the byte enables and the length the
  routines compute for them, and the DW-aligned address in the address field.
\<close>

definition request_for :: "u64 \<Rightarrow> u64 \<Rightarrow> tlp_mr_hdr \<Rightarrow> bool" where
  "request_for addr count mh \<longleftrightarrow>
     mr_fstdw mh = ucast (tlp_calculate_fstdw addr count) \<and>
     mr_lstdw mh = ucast (tlp_calculate_lstdw addr count) \<and>
     tlp_length (falen (mr_tlp mh)) = ucast (tlp_calculate_length addr count) \<and>
     (if tlp_is_3dw (fmt_type (mr_tlp mh)) then ucast (rd32 (load 0 4 (mr_rest mh)))
      else rd64 (load 0 8 (mr_rest mh))) = push_bit 2 (drop_bit 2 addr)"

lemma align_plus_low: "push_bit 2 (drop_bit 2 addr) + of_nat (unat addr mod 4) = (addr :: u64)"
  by (simp only: push_drop_2 unat_and_3 [symmetric] diff_add_cancel of_nat_unat ucast_id)

lemma decode_request:
  assumes req: "request_for addr count mh"
    and pos: "0 < unat count" and nw: "unat addr + unat count + 4 < 2 ^ 64"
    and fits: "unat addr mod 4 + unat count \<le> 4092"
  shows "tlp_mr_addr mh = addr \<and> tlp_mr_data_length mh = ucast count \<and>
    tlp_mwr_data mh = (if tlp_is_3dw (fmt_type (mr_tlp mh)) then 4 else 8) + unat (addr AND 3)"
proof (intro conjI)
  show "tlp_mr_addr mh = addr"
    using req pos by (simp add: request_for_def mr_addr_skip front_skip_fstdw align_plus_low)
  show "tlp_mwr_data mh = (if tlp_is_3dw (fmt_type (mr_tlp mh)) then 4 else 8) + unat (addr AND 3)"
    using req pos by (simp add: request_for_def mwr_data_skip front_skip_fstdw unat_and_3)
  let ?l = "(unat addr mod 4 + unat count + 3) div 4"
  have l: "unat (tlp_calculate_length addr count) = ?l"
    using nw fits by (intro length_val) simp_all
  have "?l \<le> 1023" using fits by simp
  with l have "push_bit 2 (ucast (ucast (tlp_calculate_length addr count) :: u16)) = (of_nat (4 * ?l) :: u32)"
    by (simp add: word_unat_eq_iff push_bit_eq_mult unsigned_ucast_eq take_bit_eq_mod unat_word_ariths unat_of_nat)
  then have "push_bit 2 (ucast (tlp_length (falen (mr_tlp mh)))) = (of_nat (4 * ?l) :: u32)"
    using req by (simp only: request_for_def)
  then show "tlp_mr_data_length mh = ucast count"
    using req unfolding request_for_def mr_data_length_pads dw_count [OF pos mod_less_divisor [of 4], simplified]
    by (simp add: front_pad_fstdw [OF pos] back_pad_lstdw [OF nw pos] dw_count pos of_nat_unat mod_add_left_eq)
qed

text \<open>
  C19: The byte-enable and length encoding is invertible. For every non-empty range that
  does not reach the top of the address space and spans at most 1023 DWs, a header made of
  what \<open>tlp_calculate_fstdw\<close>, \<open>tlp_calculate_lstdw\<close> and \<open>tlp_calculate_length\<close>
  return is read back by \<open>tlp_mr_addr\<close>, \<open>tlp_mr_data_length\<close> and \<open>tlp_mwr_data\<close> as exactly
  that address, that byte count, and a data pointer at the address' offset in its first DW.
\<close>

theorem request_decodes:
  assumes req: "request_for addr count mh"
    and pos: "0 < unat count" and nw: "unat addr + unat count + 4 < 2 ^ 64"
    and fits: "unat addr mod 4 + unat count \<le> 4092"
  shows "tlp_mr_addr mh = addr \<and> tlp_mr_data_length mh = ucast count \<and>
    tlp_mwr_data mh = (if tlp_is_3dw (fmt_type (mr_tlp mh)) then 4 else 8) + unat (addr AND 3)"
  by (rule decode_request [OF assms])

theorem request_decodes_witness:
  "tlp_mr_addr \<lparr>mr_tlp = \<lparr>fmt_type = 0x40, tclass = 0, falen = 3\<rparr>, mr_requester = 0, mr_tag = 0,
     mr_fstdw = 0xC, mr_lstdw = 0x3, mr_rest = be32 0x1000\<rparr> = 0x1002 \<and>
   tlp_mr_data_length \<lparr>mr_tlp = \<lparr>fmt_type = 0x40, tclass = 0, falen = 3\<rparr>, mr_requester = 0, mr_tag = 0,
     mr_fstdw = 0xC, mr_lstdw = 0x3, mr_rest = be32 0x1000\<rparr> = 8"
  using request_decodes [where addr = "0x1002" and count = 8 and mh = "\<lparr>mr_tlp = \<lparr>fmt_type = 0x40, tclass = 0, falen = 3\<rparr>,
     mr_requester = 0, mr_tag = 0, mr_fstdw = 0xC, mr_lstdw = 0x3, mr_rest = be32 0x1000\<rparr>"]
  by (simp add: request_for_def tlp_calculate_fstdw_def tlp_calculate_lstdw_def
      tlp_calculate_length_def tlp_length_def tlp_is_3dw_def tlp_fmt_dw_def load_def rd32_def be32_def)

section \<open>Field accessors\<close>

lemmas field_defs = tlp_type_def tlp_set_type_def tlp_fmt_dw_def tlp_fmt_data_def tlp_set_fmt_def
  tlp_length_def tlp_set_length_def tlp_flag_def tlp_attr_def tlp_cpl_status_def tlp_cpl_bcnt_def
  tlp_set_cpl_status_def tlp_set_cpl_bcnt_def
  bit.conj_disj_distrib2 and.assoc

text \<open>
  The format and type accessors of the first header byte are independent: setting the type
  writes the low five bits and leaves the size and data bits, setting the format writes
  exactly the size and data bits and leaves the type.
\<close>

theorem fmt_type_fields:
  "tlp_type (tlp_set_type ft t) = t AND 0x1F \<and> tlp_fmt_dw (tlp_set_type ft t) = tlp_fmt_dw ft \<and>
   tlp_fmt_data (tlp_set_type ft t) = tlp_fmt_data ft \<and>
   tlp_type (tlp_set_fmt ft dw wd) = tlp_type ft \<and> tlp_fmt_dw (tlp_set_fmt ft dw wd) = dw AND 0x20 \<and>
   tlp_fmt_data (tlp_set_fmt ft dw wd) = wd AND 0x40"
  by (simp add: field_defs)

text \<open>
  Setting the length does not mask its argument: the length field receives the low ten bits,
  and every higher bit of the value is merged into the attribute and flag bits, so a
  length of 1024 DWs and more turns attributes and flags on.
\<close>

theorem set_length_fields:
  "tlp_length (tlp_set_length fl v) = tlp_length (ucast v) \<and>
   tlp_attr (tlp_set_length fl v) = tlp_attr fl OR tlp_attr (ucast v) \<and>
   tlp_flag (tlp_set_length fl v) = tlp_flag fl OR tlp_flag (ucast v)"
  by (simp add: field_defs)

text \<open>
  Status and byte count of a completion share a word: setting the count writes the low
  twelve bits and merges higher bits of an oversized count into the status, and setting the
  status to successful clears the status and keeps both the count and the bit between them.
\<close>

theorem stcnt_fields:
  "tlp_cpl_bcnt (tlp_set_cpl_bcnt sc n) = ucast n AND 0x0FFF \<and>
   tlp_cpl_status (tlp_set_cpl_bcnt sc n) = tlp_cpl_status sc OR tlp_cpl_status (ucast n) \<and>
   tlp_cpl_status (tlp_set_cpl_status sc 0) = 0 \<and>
   tlp_cpl_bcnt (tlp_set_cpl_status sc 0) = tlp_cpl_bcnt sc \<and>
   tlp_set_cpl_status sc 0 AND 0x1000 = sc AND 0x1000"
  by (simp add: field_defs)

end
