(* ===== verification/Vector.thy ===== *)
theory Vector
  imports Prelude "HOL-Library.Multiset"
begin

text \<open>
  The growable pointer array of \<open>lib/zcmdsh/vector.c\<close>.

  A cell holds a pointer, \<open>None\<close> for \<open>NULL\<close>; the array's length is the C field \<open>limit\<close>.
  \<open>realloc\<close> and \<open>malloc\<close> may fail: their outcome is an argument (for the retry loop, one
  outcome per attempt). A comparison function takes the two pointed-to cells.
\<close>

section \<open>The vector and its operations\<close>

record 'p vector =
  v_array :: "'p option list"
  v_size :: nat

abbreviation v_limit :: "'p vector \<Rightarrow> nat" where
  "v_limit v \<equiv> length (v_array v)"

definition VECTOR_DEFSIZ :: nat where "VECTOR_DEFSIZ = 1"

definition VECTOR_RETRY :: nat where "VECTOR_RETRY = 16"


definition vector_create :: "bool \<Rightarrow> 'p vector option" where
  "vector_create ok = (if ok then Some \<lparr>v_array = replicate VECTOR_DEFSIZ None, v_size = 0\<rparr> else None)"

definition vector_sort :: "('p option list \<Rightarrow> 'p option list) \<Rightarrow> 'p vector \<Rightarrow> 'p vector" where
  "vector_sort qsort v =
    v\<lparr>v_array := qsort (take (v_size v) (v_array v)) @ drop (v_size v) (v_array v)\<rparr>"

text \<open>\<open>None\<close> is the result -1. An access outside the array is a fault.\<close>

fun vector_binsearch ::
  "('p option \<Rightarrow> 'p option \<Rightarrow> int) \<Rightarrow> 'p option \<Rightarrow> nat \<Rightarrow> nat \<Rightarrow> 'p vector \<Rightarrow> nat option res" where
  "vector_binsearch cmp data index n v =
    (let middle = index + n div 2;
         shift = (if n mod 2 = 1 then 1 else 0)
     in guardr (middle < v_limit v) OutOfBounds
       (let ret = cmp data (v_array v ! middle)
        in if ret = 0 then Inr (Some middle)
           else if n = 0 \<or> n = 1 then Inr None
           else if ret < 0 then vector_binsearch cmp data index (n div 2) v
           else vector_binsearch cmp data (middle + shift) (n div 2) v))"

declare vector_binsearch.simps [simp del]

definition vector_lookup_index_bsearch ::
  "('p option \<Rightarrow> 'p option \<Rightarrow> int) \<Rightarrow> 'p option \<Rightarrow> 'p vector \<Rightarrow> nat option res" where
  "vector_lookup_index_bsearch cmp data v =
    (if v_size v = 0 then Inr None
     else bindr (vector_binsearch cmp data 0 (v_size v) v) (\<lambda>r.
       case r of None \<Rightarrow> Inr None
       | Some index \<Rightarrow> Inr (if cmp data (v_array v ! index) = 0 then Some index else None)))"

definition vector_lookup_bsearch ::
  "('p option \<Rightarrow> 'p option \<Rightarrow> int) \<Rightarrow> 'p option \<Rightarrow> 'p vector \<Rightarrow> 'p option res" where
  "vector_lookup_bsearch cmp data v =
    bindr (vector_lookup_index_bsearch cmp data v) (\<lambda>r.
      Inr (case r of None \<Rightarrow> None | Some index \<Rightarrow> v_array v ! index))"

fun lookup_from :: "'p option \<Rightarrow> 'p option list \<Rightarrow> nat \<Rightarrow> nat option" where
  "lookup_from data [] index = None"
| "lookup_from data (x # xs) index = (if x = data then Some index else lookup_from data xs (Suc index))"

definition vector_lookup_index :: "'p option \<Rightarrow> 'p vector \<Rightarrow> nat option" where
  "vector_lookup_index data v = lookup_from data (take (v_size v) (v_array v)) 0"

definition vector_lookup :: "'p option \<Rightarrow> 'p vector \<Rightarrow> 'p option" where
  "vector_lookup data v =
    (case vector_lookup_index data v of None \<Rightarrow> None | Some index \<Rightarrow> v_array v ! index)"

text \<open>
  Doubling computes \<open>limit * 2\<close> as \<open>unsigned int\<close>; from \<open>2 ^ 31\<close> on it is 0 and the following
  \<open>memset\<close> leaves the (freed) block, which is a fault here.
\<close>

definition vector_expand :: "bool \<Rightarrow> 'p vector \<Rightarrow> 'p vector res" where
  "vector_expand ok v =
    (if \<not> ok then Inr v
     else guardr (v_limit v < 2 ^ 31) OutOfBounds
       (Inr (v\<lparr>v_array := v_array v @ replicate (v_limit v) None\<rparr>)))"

fun vector_retry :: "(nat \<Rightarrow> bool) \<Rightarrow> ('p vector \<Rightarrow> bool) \<Rightarrow> nat \<Rightarrow> 'p vector \<Rightarrow> 'p vector res" where
  "vector_retry ok full 0 v = Inr v"
| "vector_retry ok full (Suc retry) v =
    (if full v then bindr (vector_expand (ok retry) v) (vector_retry ok full retry) else Inr v)"

definition vector_add_allow_dup :: "(nat \<Rightarrow> bool) \<Rightarrow> 'p option \<Rightarrow> 'p vector \<Rightarrow> 'p vector res" where
  "vector_add_allow_dup ok data v =
    bindr (vector_retry ok (\<lambda>v. v_size v = v_limit v) VECTOR_RETRY v) (\<lambda>v.
      if v_size v = v_limit v then Inr v
      else guardr (v_size v < v_limit v) OutOfBounds
        (Inr (v\<lparr>v_array := (v_array v)[v_size v := data], v_size := v_size v + 1\<rparr>)))"

definition vector_add :: "(nat \<Rightarrow> bool) \<Rightarrow> 'p option \<Rightarrow> 'p vector \<Rightarrow> 'p vector res" where
  "vector_add ok data v =
    guardr (vector_lookup data v = None) AssertFailed (vector_add_allow_dup ok data v)"

definition vector_add_sort ::
  "(nat \<Rightarrow> bool) \<Rightarrow> ('p option list \<Rightarrow> 'p option list) \<Rightarrow> 'p option \<Rightarrow> 'p vector \<Rightarrow> 'p vector res" where
  "vector_add_sort ok qsort data v = bindr (vector_add ok data v) (\<lambda>v. Inr (vector_sort qsort v))"

text \<open>Clearing the cell, the unsigned decrement, and the \<open>memmove\<close> of the cells above it.\<close>

definition remove_cell :: "nat \<Rightarrow> 'p vector \<Rightarrow> 'p vector res" where
  "remove_cell index v =
    guardr (index < v_limit v) OutOfBounds
      (let cells = (v_array v)[index := None];
           cells = (if index + 1 < v_limit v
                    then store index (drop (index + 1) cells) cells else cells)
       in Inr (v\<lparr>v_array := cells, v_size := (v_size v + (2 ^ 32 - 1)) mod 2 ^ 32\<rparr>))"

definition vector_remove :: "'p option \<Rightarrow> 'p vector \<Rightarrow> 'p vector res" where
  "vector_remove data v =
    (case vector_lookup_index data v of None \<Rightarrow> Inl AssertFailed | Some index \<Rightarrow> remove_cell index v)"

definition vector_remove_index :: "int \<Rightarrow> 'p vector \<Rightarrow> 'p vector res" where
  "vector_remove_index index v = guardr (0 \<le> index) AssertFailed (remove_cell (nat index) v)"

definition vector_clear :: "'p vector \<Rightarrow> 'p vector" where
  "vector_clear v = v\<lparr>v_array := replicate (v_limit v) None, v_size := 0\<rparr>"

text \<open>The index is an \<open>int\<close> compared with an \<open>unsigned int\<close>: a negative one is huge.\<close>

definition uindex :: "int \<Rightarrow> nat" where
  "uindex index = nat (index mod 2 ^ 32)"

definition vector_set :: "(nat \<Rightarrow> bool) \<Rightarrow> int \<Rightarrow> 'p option \<Rightarrow> 'p vector \<Rightarrow> 'p vector res" where
  "vector_set ok index data v =
    bindr (vector_retry ok (\<lambda>v. v_limit v \<le> uindex index) VECTOR_RETRY v) (\<lambda>v.
      if v_limit v \<le> uindex index then Inr v
      else Inr (v\<lparr>v_array := (v_array v)[uindex index := data],
                 v_size := (if v_size v \<le> uindex index then uindex index + 1 else v_size v)\<rparr>))"

definition vector_get :: "'p vector \<Rightarrow> int \<Rightarrow> 'p option" where
  "vector_get v index = (if v_size v \<le> uindex index then None else v_array v ! uindex index)"

section \<open>Iteration\<close>

record 'p vector_node =
  vn_index :: nat
  vn_data :: "'p option"

definition vector_head :: "bool \<Rightarrow> 'p vector \<Rightarrow> 'p vector_node option" where
  "vector_head ok v = (if v_size v = 0 \<or> \<not> ok then None else Some \<lparr>vn_index = 0, vn_data = v_array v ! 0\<rparr>)"

text \<open>A node whose vector lost the current element is reloaded and does not advance.\<close>

definition vector_next :: "'p vector \<Rightarrow> 'p vector_node \<Rightarrow> 'p vector_node option" where
  "vector_next v node =
    (let index = (if vn_data node = v_array v ! vn_index node \<and> vn_index node < v_size v
                  then vn_index node + 1 else vn_index node)
     in if index = v_size v then None else Some \<lparr>vn_index = index, vn_data = v_array v ! index\<rparr>)"

text \<open>
  The data a \<open>for (n = vector_head (v); n; n = vector_next (n))\<close> loop visits while the vector
  stays unchanged, \<open>None\<close> when the fuel is used up first.
\<close>

fun vector_walk :: "nat \<Rightarrow> 'p vector \<Rightarrow> 'p vector_node option \<Rightarrow> 'p option list option" where
  "vector_walk fuel v None = Some []"
| "vector_walk 0 v (Some node) = None"
| "vector_walk (Suc fuel) v (Some node) =
    map_option ((#) (vn_data node)) (vector_walk fuel v (vector_next v node))"

definition visited :: "bool \<Rightarrow> 'p vector \<Rightarrow> 'p option list" where
  "visited ok v = the (vector_walk (v_size v) v (vector_head ok v))"

section \<open>Operations built on the vector\<close>

definition vector_assert :: "'p vector \<Rightarrow> bool" where
  "vector_assert v \<longleftrightarrow>
    list_all (\<lambda>x. x \<noteq> None) (take (v_size v) (v_array v)) \<and>
    list_all (\<lambda>x. x = None) (drop (v_size v) (v_array v))"

definition vector_copy :: "(nat \<Rightarrow> bool) \<Rightarrow> 'p vector \<Rightarrow> 'p vector res" where
  "vector_copy ok v =
    (case vector_create True of None \<Rightarrow> Inl NullDeref
     | Some w \<Rightarrow> runr (\<lambda>index. vector_set ok (int index) (vector_get v (int index))) [0..<v_size v] w)"

definition vector_is_same :: "'p vector \<Rightarrow> 'p vector \<Rightarrow> bool" where
  "vector_is_same va vb \<longleftrightarrow> v_size va = v_size vb \<and>
    list_all (\<lambda>i. v_array va ! i = v_array vb ! i) [0..<v_size va]"

definition vector_cap :: "(nat \<Rightarrow> bool) \<Rightarrow> 'p vector \<Rightarrow> 'p vector \<Rightarrow> 'p vector res" where
  "vector_cap ok va vb =
    (case vector_create True of None \<Rightarrow> Inl NullDeref
     | Some cap \<Rightarrow> runr (\<lambda>a. runr (\<lambda>b cap. if a \<noteq> None \<and> a = b then vector_add ok a cap else Inr cap)
                         (visited True vb)) (visited True va) cap)"

definition vector_is_empty :: "'p vector \<Rightarrow> bool" where
  "vector_is_empty v \<longleftrightarrow> v_size v = 0"

definition vector_empty_index :: "'p vector \<Rightarrow> nat" where
  "vector_empty_index v =
    (case lookup_from None (take (v_size v) (v_array v)) 0 of None \<Rightarrow> v_size v | Some index \<Rightarrow> index)"

definition vector_catenate :: "(nat \<Rightarrow> bool) \<Rightarrow> 'p vector \<Rightarrow> 'p vector \<Rightarrow> 'p vector res" where
  "vector_catenate ok va vb = runr (\<lambda>x. vector_add ok x) (visited True vb) va"

definition vector_merge :: "(nat \<Rightarrow> bool) \<Rightarrow> 'p vector \<Rightarrow> 'p vector \<Rightarrow> 'p vector res" where
  "vector_merge ok dst src =
    runr (\<lambda>x dst. if vector_lookup x dst = None then vector_add ok x dst else Inr dst)
      (visited True src) dst"

section \<open>The sequence a vector stands for\<close>

definition contents :: "'p vector \<Rightarrow> 'p option list" where
  "contents v = take (v_size v) (v_array v)"

definition vector_wf :: "'p vector \<Rightarrow> bool" where
  "vector_wf v \<longleftrightarrow> v_size v \<le> v_limit v \<and> 0 < v_limit v \<and> v_limit v < 2 ^ 32"

lemma length_contents [simp]: "vector_wf v \<Longrightarrow> length (contents v) = v_size v"
  by (simp add: contents_def vector_wf_def)

lemma nth_contents: "i < v_size v \<Longrightarrow> contents v ! i = v_array v ! i"
  by (simp add: contents_def)

lemma lookup_from_None: "lookup_from x xs k = None \<longleftrightarrow> x \<notin> set xs"
  by (induction xs arbitrary: k) auto

lemma lookup_from_Some:
  "lookup_from x xs k = Some (k + i) \<longleftrightarrow> i < length xs \<and> xs ! i = x \<and> x \<notin> set (take i xs)"
proof (induction xs arbitrary: k i)
  case (Cons y xs)
  have ge: "lookup_from x zs j = Some m \<Longrightarrow> j \<le> m" for zs j m
    by (induction zs arbitrary: j) (auto split: if_splits dest: Suc_leD)
  show ?case
  proof (cases i)
    case 0
    then show ?thesis using ge [of xs "Suc k" k] by auto
  next
    case (Suc j)
    then show ?thesis using Cons.IH [of "Suc k" j] by auto
  qed
qed simp

lemma lookup_index_None: "vector_lookup_index x v = None \<longleftrightarrow> x \<notin> set (contents v)"
  by (simp add: vector_lookup_index_def lookup_from_None contents_def)

lemma lookup_index_Some:
  assumes "vector_wf v"
  shows "vector_lookup_index x v = Some i \<longleftrightarrow>
    i < v_size v \<and> contents v ! i = x \<and> x \<notin> set (take i (contents v))"
proof -
  have "length (take (v_size v) (v_array v)) = v_size v"
    using assms by (simp add: vector_wf_def)
  then show ?thesis
    using lookup_from_Some [of x "contents v" 0 i] by (simp add: vector_lookup_index_def contents_def)
qed

lemma lookup_found: "vector_wf v \<Longrightarrow> vector_lookup x v = (if x \<in> set (contents v) then x else None)"
proof (cases "vector_lookup_index x v")
  case (Some i)
  assume "vector_wf v"
  with Some have "i < v_size v" "contents v ! i = x" by (auto simp: lookup_index_Some)
  moreover have "x \<in> set (contents v)" using Some by (metis lookup_index_None option.distinct(1))
  ultimately show ?thesis using Some by (simp add: vector_lookup_def nth_contents)
next
  case None
  then have "x \<notin> set (contents v)" by (simp add: lookup_index_None)
  with None show ?thesis by (simp add: vector_lookup_def)
qed








section \<open>Growing\<close>

lemma expand_ok:
  "v_limit v < 2 ^ 31 \<Longrightarrow> vector_expand True v = Inr (v\<lparr>v_array := v_array v @ replicate (v_limit v) None\<rparr>)"
  by (simp add: vector_expand_def)

text \<open>
  Whatever \<open>realloc\<close> answers, the retry loop keeps size and contents, and only appends
  empty cells.
\<close>

lemma retry_keeps:
  "vector_retry ok full k v = Inr w \<Longrightarrow>
   v_size w = v_size v \<and> (\<exists>m. v_array w = v_array v @ replicate m None) \<and>
   (v_limit v < 2 ^ 32 \<longrightarrow> v_limit w < 2 ^ 32)"
proof (induction k arbitrary: v)
  case (Suc k)
  show ?case
  proof (cases "full v")
    case True
    with Suc.prems obtain u where u: "vector_expand (ok k) v = Inr u" "vector_retry ok full k u = Inr w"
      by (auto simp: bindr_eq_Inr)
    from Suc.IH [OF u(2)] u(1) show ?thesis
      by (auto simp: vector_expand_def guardr_eq_Inr replicate_add [symmetric] split: if_splits)
  next
    case False
    then show ?thesis using Suc.prems by (auto intro: exI [of _ 0])
  qed
qed (auto intro: exI [of _ 0])

lemma retry_fits:
  assumes "\<And>i. ok i" "\<And>u. full u \<longleftrightarrow> v_limit u \<le> n" "0 < v_limit v" "n < 2 ^ 31"
  shows "n < v_limit v * 2 ^ k \<Longrightarrow>
    \<exists>w. vector_retry ok full k v = Inr w \<and> n < v_limit w"
  using assms(3)
proof (induction k arbitrary: v)
  case (Suc k)
  show ?case
  proof (cases "full v")
    case True
    let ?u = "v\<lparr>v_array := v_array v @ replicate (v_limit v) None\<rparr>"
    have "v_limit v < 2 ^ 31" using True assms(2,4) by simp
    then have "vector_expand (ok k) v = Inr ?u" by (simp add: expand_ok assms(1))
    moreover have "n < v_limit ?u * 2 ^ k" "0 < v_limit ?u" using Suc.prems by (simp_all add: algebra_simps)
    ultimately show ?thesis using Suc.IH [of ?u] True by auto
  next
    case False
    then show ?thesis using assms(2) by (auto simp: not_le)
  qed
qed simp

lemma retry_no_fault:
  assumes "vector_wf v" "v_size v < 2 ^ 31"
  shows "\<exists>w. vector_retry ok (\<lambda>v. v_size v = v_limit v) k v = Inr w \<and> vector_wf w \<and> contents w = contents v \<and>
    v_size w = v_size v \<and> (v_size w = v_limit w \<longrightarrow> v_array w = v_array v \<and> (\<forall>i<k. \<not> ok i))"
  using assms
proof (induction k arbitrary: v)
  case (Suc k)
  show ?case
  proof (cases "v_size v = v_limit v")
    case full: True
    show ?thesis
    proof (cases "ok k")
      case True
      let ?u = "v\<lparr>v_array := v_array v @ replicate (v_limit v) None\<rparr>"
      have "v_size ?u < v_limit ?u" using full Suc.prems by (simp add: vector_wf_def)
      then have "vector_retry ok (\<lambda>v. v_size v = v_limit v) k ?u = Inr ?u" by (cases k) auto
      moreover have "vector_expand True v = Inr ?u" using full Suc.prems by (simp add: expand_ok)
      ultimately have "vector_retry ok (\<lambda>v. v_size v = v_limit v) (Suc k) v = Inr ?u"
        using True full by simp
      moreover have "vector_wf ?u" "contents ?u = contents v" "v_size ?u = v_size v" "v_size ?u \<noteq> v_limit ?u"
        using full Suc.prems by (auto simp: vector_wf_def contents_def)
      ultimately show ?thesis by blast
    next
      case False
      with Suc.IH [OF Suc.prems] full show ?thesis by (auto simp: vector_expand_def less_Suc_eq)
    qed
  next
    case False
    with Suc.prems show ?thesis by (simp add: vector_wf_def)
  qed
qed auto

section \<open>Adding, removing, setting\<close>

lemma append_cell:
  assumes "vector_wf v" "v_size v < v_limit v"
  shows "contents (v\<lparr>v_array := (v_array v)[v_size v := x], v_size := v_size v + 1\<rparr>) = contents v @ [x]"
  using assms by (simp add: contents_def take_Suc_conv_app_nth)

lemma add_allow_dup_spec:
  assumes "vector_wf v" "v_size v < 2 ^ 31"
  shows "\<exists>w. vector_add_allow_dup ok x v = Inr w \<and> vector_wf w \<and>
    (contents w = contents v @ [x] \<or> w = v \<and> v_size v = v_limit v \<and> (\<forall>i<VECTOR_RETRY. \<not> ok i))"
proof -
  from retry_no_fault [OF assms] obtain u where
    u: "vector_retry ok (\<lambda>v. v_size v = v_limit v) VECTOR_RETRY v = Inr u" "vector_wf u"
       "contents u = contents v" "v_size u = v_size v"
       "v_size u = v_limit u \<longrightarrow> v_array u = v_array v \<and> (\<forall>i<VECTOR_RETRY. \<not> ok i)"
    by blast
  show ?thesis
  proof (cases "v_size u = v_limit u")
    case True
    with u(5) have arr: "v_array u = v_array v" "\<forall>i<VECTOR_RETRY. \<not> ok i" by blast+
    with u(4) have "u = v" by (intro vector.equality) simp_all
    with True u(1,2) arr show ?thesis by (auto simp: vector_add_allow_dup_def)
  next
    case False
    with u(2) have lt: "v_size u < v_limit u" by (simp add: vector_wf_def)
    let ?w = "u\<lparr>v_array := (v_array u)[v_size u := x], v_size := v_size u + 1\<rparr>"
    have "vector_add_allow_dup ok x v = Inr ?w"
      using lt False by (simp add: vector_add_allow_dup_def u(1))
    moreover have "vector_wf ?w" using u(2) lt by (simp add: vector_wf_def)
    moreover have "contents ?w = contents v @ [x]" using append_cell [OF u(2) lt] u(3) by simp
    ultimately show ?thesis by blast
  qed
qed

lemma add_spec:
  assumes "vector_wf v" "v_size v < 2 ^ 31" "x \<notin> set (contents v) \<or> x = None"
  shows "\<exists>w. vector_add ok x v = Inr w \<and> vector_wf w \<and>
    (contents w = contents v @ [x] \<or> w = v \<and> v_size v = v_limit v \<and> (\<forall>i<VECTOR_RETRY. \<not> ok i))"
proof -
  have "vector_lookup x v = None" using assms(1,3) by (auto simp: lookup_found)
  then show ?thesis using add_allow_dup_spec [OF assms(1,2)] by (simp add: vector_add_def)
qed

lemma remove_cell_spec:
  assumes "vector_wf v" "i < v_size v"
  shows "\<exists>w. remove_cell i v = Inr w \<and> vector_wf w \<and> v_limit w = v_limit v \<and> v_size w = v_size v - 1 \<and>
    contents w = take i (contents v) @ drop (Suc i) (contents v) \<and>
    (\<forall>j. i < j \<and> j < v_limit v \<longrightarrow> v_array w ! (j - 1) = v_array v ! j) \<and>
    v_array w ! (v_limit v - 1) = (if Suc i = v_limit v then None else v_array v ! (v_limit v - 1))"
proof -
  let ?n = "v_limit v"
  let ?cells = "if i + 1 < ?n then take i (v_array v) @ drop (i + 1) (v_array v) @ [last (v_array v)]
    else take i (v_array v) @ [None]"
  have lim: "i < ?n" "v_size v \<le> ?n" "v_size v < 2 ^ 32" using assms by (auto simp: vector_wf_def)
  have cells: "(if i + 1 < ?n then store i (drop (i + 1) ((v_array v)[i := None])) ((v_array v)[i := None])
     else (v_array v)[i := None]) = ?cells"
  proof (cases "i + 1 < ?n")
    case True
    then have "drop (?n - 1) (v_array v) = [last (v_array v)]"
      by (metis append_butlast_last_id append_eq_conv_conj drop_all length_0_conv length_butlast not_less_zero)
    with True show ?thesis by (simp add: store_def)
  next
    case False
    with lim show ?thesis by (simp add: list_update_append1 upd_conv_take_nth_drop)
  qed
  have len: "length ?cells = ?n" using lim by auto
  have sz: "(v_size v + (2 ^ 32 - 1)) mod 2 ^ 32 = v_size v - 1"
    using assms(2) lim(3) by (cases "v_size v") (auto simp: mod_Suc)
  let ?w = "v\<lparr>v_array := ?cells, v_size := v_size v - 1\<rparr>"
  have "remove_cell i v = Inr ?w"
    unfolding remove_cell_def Let_def using lim sz cells by simp
  moreover have "vector_wf ?w" using assms len unfolding vector_wf_def by simp linarith
  moreover have "contents ?w = take i (contents v) @ drop (Suc i) (contents v)"
  proof -
    obtain k where "v_size v = Suc i + k" using assms(2) less_eq_Suc_le nat_le_iff_add by blast
    then show ?thesis using lim by (auto simp: contents_def take_drop min_def add.commute)
  qed
  moreover have "\<forall>j. i < j \<and> j < ?n \<longrightarrow> ?cells ! (j - 1) = v_array v ! j"
    by (auto simp: nth_append)
  moreover have "?cells ! (?n - 1) = (if Suc i = ?n then None else v_array v ! (?n - 1))"
    using lim last_conv_nth [of "v_array v"] by (cases "v_array v = []") (auto simp: nth_append)
  ultimately show ?thesis using len by auto
qed

text \<open>
  \<open>vector_assert\<close> asks for null cells from \<open>size\<close> on; that half is what \<open>vector_set\<close> relies on
  when it moves the end of a vector.
\<close>

definition tail_clear :: "'p vector \<Rightarrow> bool" where
  "tail_clear v \<longleftrightarrow> vector_wf v \<and> list_all (\<lambda>x. x = None) (drop (v_size v) (v_array v))"

lemma tail_clear_nth: "tail_clear v \<Longrightarrow> v_size v \<le> j \<Longrightarrow> j < v_limit v \<Longrightarrow> v_array v ! j = None"
proof -
  assume a: "tail_clear v" "v_size v \<le> j" "j < v_limit v"
  then have "drop (v_size v) (v_array v) ! (j - v_size v) = None"
    unfolding tail_clear_def list_all_length by (metis diff_less_mono length_drop)
  then show ?thesis using a by simp
qed

lemma tail_clearI:
  "vector_wf v \<Longrightarrow> (\<And>j. v_size v \<le> j \<Longrightarrow> j < v_limit v \<Longrightarrow> v_array v ! j = None) \<Longrightarrow> tail_clear v"
  by (auto simp: tail_clear_def list_all_length vector_wf_def)

lemma uindex_int: "i < 2 ^ 31 \<Longrightarrow> uindex (int i) = i"
  by (simp add: uindex_def)

lemma set_spec:
  assumes "\<And>i. ok i" "tail_clear v" "i < 2 ^ 31" "i < v_limit v * 2 ^ VECTOR_RETRY"
  shows "\<exists>w. vector_set ok (int i) x v = Inr w \<and> tail_clear w \<and>
    contents w = (if i < v_size v then (contents v)[i := x]
                  else contents v @ replicate (i - v_size v) None @ [x])"
proof -
  have wf: "vector_wf v" using assms(2) by (simp add: tail_clear_def)
  let ?full = "\<lambda>u :: 'a vector. v_limit u \<le> i"
  from retry_fits [of ok ?full i v VECTOR_RETRY] assms wf obtain u where
    u: "vector_retry ok ?full VECTOR_RETRY v = Inr u" "i < v_limit u" by (auto simp: vector_wf_def)
  from retry_keeps [OF u(1)] wf obtain m where
    k: "v_size u = v_size v" "v_array u = v_array v @ replicate m None" "v_limit u < 2 ^ 32"
    by (auto simp: vector_wf_def)
  have nth: "v_array u ! j = (if j < v_size v then contents v ! j else None)" if "j < v_limit u" for j
    using that k wf tail_clear_nth [OF assms(2), of j]
    by (auto simp: nth_append nth_contents vector_wf_def)
  let ?n = "if v_size u \<le> i then i + 1 else v_size u"
  let ?w = "u\<lparr>v_array := (v_array u)[i := x], v_size := ?n\<rparr>"
  have "vector_set ok (int i) x v = Inr ?w"
    using u by (simp add: vector_set_def uindex_int [OF assms(3)])
  moreover have "vector_wf ?w" using u k wf by (auto simp: vector_wf_def)
  then have "tail_clear ?w" using nth k by (intro tail_clearI) (auto simp: nth_list_update split: if_splits)
  moreover have "contents ?w = (if i < v_size v then (contents v)[i := x]
      else contents v @ replicate (i - v_size v) None @ [x])"
    using k u wf nth
    by (intro nth_equalityI)
       (auto simp: contents_def nth_append nth_list_update vector_wf_def min_def split: if_splits)
  ultimately show ?thesis by blast
qed

section \<open>Iterating\<close>

lemma walk_from:
  assumes "vector_wf v"
  shows "i < v_size v \<Longrightarrow> k = v_size v - i \<Longrightarrow>
    vector_walk k v (Some \<lparr>vn_index = i, vn_data = v_array v ! i\<rparr>) = Some (drop i (contents v))"
proof (induction k arbitrary: i)
  case (Suc k)
  show ?case
  proof (cases "Suc i = v_size v")
    case True
    then have "drop i (contents v) = [v_array v ! i]"
      using assms by (metis Cons_nth_drop_Suc Suc.prems(1) drop_all length_contents nth_contents order_refl)
    moreover have "vector_next v \<lparr>vn_index = i, vn_data = v_array v ! i\<rparr> = None"
      using True Suc.prems by (simp add: vector_next_def)
    ultimately show ?thesis by simp
  next
    case False
    then have "Suc i < v_size v" "k = v_size v - Suc i" using Suc.prems by auto
    from Suc.IH [OF this] have "vector_walk (Suc k) v (Some \<lparr>vn_index = i, vn_data = v_array v ! i\<rparr>) =
        Some (v_array v ! i # drop (Suc i) (contents v))"
      using False Suc.prems(1) by (simp add: vector_next_def)
    then show ?thesis
      using Suc.prems(1) assms by (metis Cons_nth_drop_Suc length_contents nth_contents)
  qed
qed simp

lemma walk_head:
  assumes "vector_wf v"
  shows "vector_walk (v_size v) v (vector_head True v) = Some (contents v)"
  using walk_from [OF assms, of 0 "v_size v"]
  by (cases "v_size v") (auto simp: vector_head_def contents_def)

lemma visited_contents [simp]: "vector_wf v \<Longrightarrow> visited True v = contents v"
  by (simp add: visited_def walk_head)

section \<open>Appending distinct elements: the interface and its clients\<close>

text \<open>
  What the set-like operations use of the vector: a sequence that grows at its end, where adding
  an element twice aborts, up to a number of elements.
\<close>

locale distinct_append =
  fixes inv :: "'s \<Rightarrow> bool" and seq :: "'s \<Rightarrow> 'x list" and add :: "'x \<Rightarrow> 's \<Rightarrow> 's res" and room :: nat
  assumes add_new: "inv s \<Longrightarrow> x \<notin> set (seq s) \<Longrightarrow> length (seq s) < room \<Longrightarrow>
      \<exists>t. add x s = Inr t \<and> inv t \<and> seq t = seq s @ [x]"
begin

lemma add_all:
  "inv s \<Longrightarrow> distinct (seq s @ xs) \<Longrightarrow> length (seq s) + length xs \<le> room \<Longrightarrow>
   \<exists>t. runr add xs s = Inr t \<and> inv t \<and> seq t = seq s @ xs"
proof (induction xs arbitrary: s)
  case (Cons x xs)
  from add_new [of s x] Cons.prems obtain u where u: "add x s = Inr u" "inv u" "seq u = seq s @ [x]" by auto
  from Cons.IH [of u] Cons.prems u show ?case by auto
qed simp

lemma add_some:
  assumes "\<And>x s. f x s = (if x \<in> A then add x s else Inr s)"
  shows "inv s \<Longrightarrow> distinct (seq s @ filter (\<lambda>x. x \<in> A) xs) \<Longrightarrow>
   length (seq s) + length (filter (\<lambda>x. x \<in> A) xs) \<le> room \<Longrightarrow>
   \<exists>t. runr f xs s = Inr t \<and> inv t \<and> seq t = seq s @ filter (\<lambda>x. x \<in> A) xs"
proof (induction xs arbitrary: s)
  case (Cons x xs)
  show ?case
  proof (cases "x \<in> A")
    case True
    from add_new [of s x] Cons.prems True obtain u where
      u: "add x s = Inr u" "inv u" "seq u = seq s @ [x]" by auto
    from Cons.IH [of u] Cons.prems u True show ?thesis by (auto simp: assms)
  next
    case False
    with Cons show ?thesis by (simp add: assms)
  qed
qed simp

lemma add_missing:
  assumes f: "\<And>x s. x \<in> X \<Longrightarrow> inv s \<Longrightarrow> f x s = (if x \<in> set (seq s) then Inr s else add x s)"
  shows "inv s \<Longrightarrow> set xs \<subseteq> X \<Longrightarrow> distinct xs \<Longrightarrow> length (seq s) + length xs \<le> room \<Longrightarrow>
   \<exists>t. runr f xs s = Inr t \<and> inv t \<and>
     seq t = seq s @ filter (\<lambda>x. x \<notin> set (seq s)) xs"
proof (induction xs arbitrary: s)
  case (Cons x xs)
  show ?case
  proof (cases "x \<in> set (seq s)")
    case True
    with Cons show ?thesis by (auto simp: f)
  next
    case False
    from add_new [of s x] Cons.prems False obtain u where
      u: "add x s = Inr u" "inv u" "seq u = seq s @ [x]" by auto
    have "filter (\<lambda>y. y \<notin> set (seq u)) xs = filter (\<lambda>y. y \<notin> set (seq s)) xs"
      using Cons.prems(3) u(3) by (auto intro: filter_cong)
    with Cons.IH [of u] Cons.prems u False show ?thesis by (auto simp: f)
  qed
qed simp

end

interpretation vec: distinct_append vector_wf contents "vector_add (\<lambda>_. True)" "2 ^ 31"
proof
  fix v :: "'a vector" and x
  assume "vector_wf v" "x \<notin> set (contents v)" "length (contents v) < 2 ^ 31"
  then show "\<exists>t. vector_add (\<lambda>_. True) x v = Inr t \<and> vector_wf t \<and> contents t = contents v @ [x]"
    using add_spec [of v x "\<lambda>_. True"] by (fastforce simp: VECTOR_RETRY_def)
qed

lemma add_dup: "vector_wf v \<Longrightarrow> Some x \<in> set (contents v) \<Longrightarrow> vector_add ok (Some x) v = Inl AssertFailed"
  by (simp add: vector_add_def lookup_found)

lemma create_empty: "\<exists>v. vector_create True = Some v \<and> tail_clear v \<and> contents v = []"
  by (simp add: vector_create_def tail_clear_def vector_wf_def contents_def VECTOR_DEFSIZ_def)

lemma get_contents:
  "vector_wf v \<Longrightarrow> vector_get v (int i) = (if uindex (int i) < v_size v then contents v ! uindex (int i) else None)"
  by (simp add: vector_get_def nth_contents)

lemma merge_step:
  "vector_wf s \<Longrightarrow> x \<noteq> None \<Longrightarrow> (vector_lookup x s = None) = (x \<notin> set (contents s))"
  by (auto simp: lookup_found)

section \<open>Properties\<close>


text \<open>
  Adding a pointer to a vector aborts exactly when the vector already holds it. Otherwise
  it appends the pointer at the end, or, only when the vector is full and each of the sixteen
  reallocations fails, gives up and leaves the vector as it was.
\<close>

theorem add_behaviour:
  assumes "vector_wf v" "v_size v < 2 ^ 31"
  shows "if Some x \<in> set (contents v) then vector_add ok (Some x) v = Inl AssertFailed
    else \<exists>w. vector_add ok (Some x) v = Inr w \<and> vector_wf w \<and>
      (contents w = contents v @ [Some x] \<or>
       w = v \<and> v_size v = v_limit v \<and> (\<forall>i<VECTOR_RETRY. \<not> ok i))"
  using add_dup [OF assms(1)] add_spec [OF assms, of "Some x" ok] by auto

text \<open>
  Removing a pointer deletes its first occurrence and closes the gap, and aborts when there is
  none. The last cell of the array is cleared only when it held the removed pointer: in a full
  vector it keeps its old pointer beyond the new size.
\<close>

theorem remove_behaviour:
  assumes "vector_wf v"
  shows "if Some x \<in> set (contents v)
    then \<exists>w. vector_remove (Some x) v = Inr w \<and> vector_wf w \<and> contents w = remove1 (Some x) (contents v) \<and>
      v_array w ! (v_limit v - 1) = (if vector_lookup_index (Some x) v = Some (v_limit v - 1) then None
        else v_array v ! (v_limit v - 1))
    else vector_remove (Some x) v = Inl AssertFailed"
proof (cases "vector_lookup_index (Some x) v")
  case None
  then show ?thesis using lookup_index_None [of "Some x" v] by (simp add: vector_remove_def)
next
  case (Some i)
  then have i: "i < v_size v" "contents v ! i = Some x" "Some x \<notin> set (take i (contents v))"
    using lookup_index_Some [OF assms] by auto
  then have mem: "Some x \<in> set (contents v)" using assms by (metis length_contents nth_mem)
  have "contents v = take i (contents v) @ Some x # drop (Suc i) (contents v)"
    using i assms by (metis id_take_nth_drop length_contents)
  then have "remove1 (Some x) (contents v) = take i (contents v) @ drop (Suc i) (contents v)"
    using i(3) by (metis remove1.simps(2) remove1_append)
  moreover have "Suc i = v_limit v \<longleftrightarrow> i = v_limit v - 1" using assms by (auto simp: vector_wf_def)
  ultimately show ?thesis
    using remove_cell_spec [OF assms i(1)] mem Some by (auto simp: vector_remove_def)
qed

text \<open>
  Setting an index of a vector whose unused cells are null changes the value read at
  that index and at no other one, grows the array as needed (at most 16 doublings), and leaves
  the unused cells null.
\<close>

theorem set_behaviour:
  assumes "tail_clear v" "i < 2 ^ 31" "i < v_limit v * 2 ^ VECTOR_RETRY"
  shows "\<exists>w. vector_set (\<lambda>_. True) (int i) x v = Inr w \<and> tail_clear w \<and>
    (\<forall>j<2 ^ 31. vector_get w (int j) = (if j = i then x else vector_get v (int j)))"
proof -
  from set_spec [of "\<lambda>_. True" v i x] assms obtain w where
    w: "vector_set (\<lambda>_. True) (int i) x v = Inr w" "tail_clear w"
       "contents w = (if i < v_size v then (contents v)[i := x]
                      else contents v @ replicate (i - v_size v) None @ [x])" by auto
  have wf: "vector_wf v" "vector_wf w" using assms w(2) by (auto simp: tail_clear_def)
  have "v_size w = length (contents w)" using wf by simp
  then have sz: "v_size w = (if i < v_size v then v_size v else Suc i)"
    using w(3) wf(1) by auto
  have "vector_get w (int j) = (if j = i then x else vector_get v (int j))" if "j < 2 ^ 31" for j
    using that wf assms(2) by (auto simp: get_contents uindex_int w(3) sz nth_append nth_list_update)
  with w show ?thesis by blast
qed

text \<open>
  Merging a duplicate-free vector appends, in order, exactly the elements the destination
  does not hold yet, so the duplicate check of the addition never aborts.
\<close>

theorem merge_behaviour:
  assumes "vector_wf dst" "vector_wf src" "None \<notin> set (contents src)" "distinct (contents src)"
    "v_size dst + v_size src \<le> 2 ^ 31"
  shows "\<exists>w. vector_merge (\<lambda>_. True) dst src = Inr w \<and> vector_wf w \<and>
    contents w = contents dst @ filter (\<lambda>x. x \<notin> set (contents dst)) (contents src)"
proof -
  have "set (contents src) \<subseteq> - {None}" using assms(3) by auto
  from vec.add_missing [OF _ assms(1) this assms(4)] assms show ?thesis
    by (simp add: vector_merge_def merge_step)
qed

lemma catenate_behaviour:
  assumes "vector_wf va" "vector_wf vb" "v_size va + v_size vb \<le> 2 ^ 31" "distinct (contents va @ contents vb)"
  shows "\<exists>w. vector_catenate (\<lambda>_. True) va vb = Inr w \<and> vector_wf w \<and> contents w = contents va @ contents vb"
  using vec.add_all [of va "contents vb"] assms by (simp add: vector_catenate_def)

lemma copy_prefix:
  assumes "vector_wf v" "tail_clear w" "contents w = []"
  shows "k \<le> v_size v \<Longrightarrow> k < 2 ^ 31 \<Longrightarrow>
    \<exists>u. runr (\<lambda>index. vector_set (\<lambda>_. True) (int index) (vector_get v (int index))) [0..<k] w = Inr u \<and>
      tail_clear u \<and> contents u = take k (contents v)"
proof (induction k)
  case (Suc k)
  then obtain u where u: "runr (\<lambda>index. vector_set (\<lambda>_. True) (int index) (vector_get v (int index))) [0..<k] w = Inr u"
      "tail_clear u" "contents u = take k (contents v)" by auto
  have wf: "vector_wf u" using u(2) by (simp add: tail_clear_def)
  have sz: "v_size u = k" using Suc.prems u(3) length_contents [OF wf] assms(1) by simp
  have "k \<le> v_limit u" "0 < v_limit u" using wf sz by (simp_all only: vector_wf_def)
  then have "k < v_limit u * 2 ^ VECTOR_RETRY"
    unfolding VECTOR_RETRY_def by (intro le_less_trans [OF \<open>k \<le> v_limit u\<close>]) simp
  with set_spec [of "\<lambda>_. True" u k "vector_get v (int k)"] u(2) Suc.prems obtain t where
    t: "vector_set (\<lambda>_. True) (int k) (vector_get v (int k)) u = Inr t" "tail_clear t"
      "contents t = take k (contents v) @ [vector_get v (int k)]" by (auto simp: sz u(3))
  moreover have "take (Suc k) (contents v) = take k (contents v) @ [vector_get v (int k)]"
    using Suc.prems assms(1) by (simp add: take_Suc_conv_app_nth get_contents uindex_int)
  ultimately show ?case using u by simp
qed (use assms in simp)

text \<open>
  Copying a vector gives a vector with the same elements in the same order, null in all
  unused cells, that \<open>vector_is_same\<close> accepts.
\<close>

theorem copy_behaviour:
  fixes v :: "'p vector"
  assumes "vector_wf v" "v_size v < 2 ^ 31"
  shows "\<exists>w. vector_copy (\<lambda>_. True) v = Inr w \<and> tail_clear w \<and> contents w = contents v \<and> vector_is_same v w"
proof -
  obtain e :: "'p vector" where e: "vector_create True = Some e" "tail_clear e" "contents e = []"
    using create_empty by metis
  from copy_prefix [OF assms(1) e(2,3), of "v_size v"] assms(2) e(1) obtain w where
    w: "vector_copy (\<lambda>_. True) v = Inr w" "tail_clear w" "contents w = contents v"
    using assms(1) by (auto simp: vector_copy_def)
  have "vector_wf w" using w(2) by (simp add: tail_clear_def)
  then have "v_size w = v_size v" using w(3) assms(1) by (metis length_contents)
  then have "vector_is_same v w"
    using w(3) nth_contents [of _ v] nth_contents [of _ w] by (auto simp: vector_is_same_def list_all_iff)
  with w show ?thesis by blast
qed

text \<open>
  A loop over an unchanged vector ends after as many steps as the vector has elements and
  visits them in order. When the vector has shrunk below the iterator's index, however,
  the loop never ends, whatever the number of steps.
\<close>

theorem walk_behaviour:
  assumes "vector_wf v"
  shows "vector_walk (v_size v) v (vector_head True v) = Some (contents v) \<and>
    (v_size v < vn_index node \<longrightarrow> vector_walk k v (Some node) = None)"
proof -
  have "v_size v < vn_index node \<Longrightarrow> vector_walk k v (Some node) = None"
    by (induction k arbitrary: node) (auto simp: vector_next_def Let_def)
  then show ?thesis using walk_head [OF assms] by simp
qed

section \<open>Witnesses\<close>

definition three :: "nat vector" where
  "three = \<lparr>v_array = [Some 1, Some 3, Some 5, None], v_size = 3\<rparr>"

definition full_two :: "nat vector" where
  "full_two = \<lparr>v_array = [Some 7, Some 8], v_size = 2\<rparr>"

lemmas sample_defs = three_def full_two_def vector_wf_def contents_def

lemma sample_wf: "vector_wf three" "vector_wf full_two" "tail_clear three" "v_size three = 3" "v_limit three = 4"
    "contents three = [Some 1, Some 3, Some 5]" "contents full_two = [Some 7, Some 8]" "v_size full_two = 2"
  by (simp_all add: sample_defs tail_clear_def)


theorem add_behaviour_witness:
  "vector_add (\<lambda>_. True) (Some 8) full_two = Inl AssertFailed \<and>
   (\<exists>w. vector_add (\<lambda>_. True) (Some 9) full_two = Inr w \<and> contents w = [Some 7, Some 8, Some 9])"
  using add_behaviour [OF sample_wf(2), of 8 "\<lambda>_. True"] add_behaviour [OF sample_wf(2), of 9 "\<lambda>_. True"]
  by (fastforce simp: sample_wf VECTOR_RETRY_def)

theorem remove_behaviour_witness:
  "\<exists>w. vector_remove (Some 7) full_two = Inr w \<and> contents w = [Some 8] \<and> v_array w ! 1 = Some 8"
  using remove_behaviour [OF sample_wf(2), of 7]
  by (auto simp: sample_wf) (auto simp: full_two_def vector_lookup_index_def)

theorem set_behaviour_witness:
  "\<exists>w. vector_set (\<lambda>_. True) 6 (Some 2) three = Inr w \<and> vector_get w 6 = Some 2 \<and> vector_get w 5 = None"
  using set_behaviour [OF sample_wf(3), of 6 "Some 2"]
  by (force simp: sample_wf VECTOR_RETRY_def vector_get_def uindex_def dest: spec [of _ 5] spec [of _ 6])

theorem merge_behaviour_witness:
  "\<exists>w. vector_merge (\<lambda>_. True) three full_two = Inr w \<and>
    contents w = [Some 1, Some 3, Some 5, Some 7, Some 8]"
  using merge_behaviour [OF sample_wf(1,2)] by (simp add: sample_wf) blast

lemma catenate_example:
  "\<exists>w. vector_catenate (\<lambda>_. True) full_two three = Inr w \<and>
    contents w = [Some 7, Some 8, Some 1, Some 3, Some 5]"
  using catenate_behaviour [OF sample_wf(2,1)] by (simp add: sample_wf) blast

theorem copy_behaviour_witness:
  "\<exists>w. vector_copy (\<lambda>_. True) three = Inr w \<and> contents w = [Some 1, Some 3, Some 5]"
  using copy_behaviour [OF sample_wf(1)] by (auto simp: sample_wf)

theorem walk_behaviour_witness:
  "vector_walk 3 three (vector_head True three) = Some [Some 1, Some 3, Some 5] \<and>
   vector_walk 100 three (Some \<lparr>vn_index = 4, vn_data = None\<rparr>) = None"
  using walk_behaviour [OF sample_wf(1), of "\<lparr>vn_index = 4, vn_data = None\<rparr>" 100] by (simp add: sample_wf)

end
