(* ===== verification/Shell.thy ===== *)
theory Shell
  imports Prelude
begin

text \<open>
  The line editor of \<open>lib/zcmdsh/shell.c\<close>.

  The command line is a buffer of characters whose length is the C field \<open>size\<close>; the text is
  the part before \<open>end\<close>, terminated by a null character. Bytes written to the descriptor are
  appended to \<open>sh_out\<close>, bytes printed to the stream to \<open>sh_term\<close>; a write to a negative
  descriptor has no effect. Debug output is not modelled (the debug flags are taken to be off).
\<close>

section \<open>The shell\<close>

text \<open>Every function a key can be bound to in the keymaps of the program.\<close>

datatype keyfunc =
    K_input_char | K_forward_char | K_backward_char | K_move_to_begin | K_move_to_end
  | K_delete_char | K_backspace | K_kill_line | K_kill_all | K_yank | K_clear_screen
  | K_refresh | K_empty_enter | K_insert_tab | K_escape | K_delete_word_backward
  | K_delete_char_advanced | K_normal | K_vty_word_backward | K_vty_word_forward
  | K_vty_delete_word | K_escape_1 | K_escape_2
  | K_iac_start | K_telnet_opt | K_telnet_cmd | K_subnego | K_sb_start | K_sb_end
  | K_clear_terminal | K_execute | K_completion | K_ls_candidate | K_history_prev | K_history_next

datatype keymap = Normal | Escape1 | Escape2 | Iac1 | Iac2 | Subnego

record shell =
  sh_readfd :: int
  sh_writefd :: int
  sh_open :: bool
  sh_flag :: u64
  sh_nl :: string
  sh_prompt :: string
  sh_prompt_size :: nat
  sh_line :: string
  sh_cursor :: nat
  sh_end :: nat
  sh_cut_buffer :: "string option"
  sh_inputch :: u8
  sh_keymap :: keymap
  sh_keymap_normal :: "keyfunc option list"
  sh_out :: string
  sh_term :: string

definition NUL :: char where "NUL = CHR 0x00"

definition BS :: char where "BS = CHR 0x08"

definition SHELL_FLAG_ESCAPE :: u64 where "SHELL_FLAG_ESCAPE = 0x01"
definition SHELL_FLAG_EXIT :: u64 where "SHELL_FLAG_EXIT = 0x02"
definition SHELL_FLAG_CLOSE :: u64 where "SHELL_FLAG_CLOSE = 0x04"
definition SHELL_FLAG_DEBUG :: u64 where "SHELL_FLAG_DEBUG = 0x08"
definition SHELL_FLAG_INTERACTIVE :: u64 where "SHELL_FLAG_INTERACTIVE = 0x10"

lemmas shell_flags = SHELL_FLAG_ESCAPE_def SHELL_FLAG_EXIT_def SHELL_FLAG_CLOSE_def
  SHELL_FLAG_DEBUG_def SHELL_FLAG_INTERACTIVE_def

definition flag_check :: "u64 \<Rightarrow> u64 \<Rightarrow> bool" where
  "flag_check v f \<longleftrightarrow> v AND f \<noteq> 0"

definition flag_set :: "u64 \<Rightarrow> u64 \<Rightarrow> u64" where
  "flag_set v f = v OR f"

definition flag_clear :: "u64 \<Rightarrow> u64 \<Rightarrow> u64" where
  "flag_clear v f = v AND NOT f"

text \<open>A C string: the characters before the first null.\<close>

definition cstr :: "string \<Rightarrow> string" where
  "cstr = takeWhile (\<lambda>c. c \<noteq> NUL)"

definition write_fd :: "string \<Rightarrow> 'z shell_scheme \<Rightarrow> 'z shell_scheme" where
  "write_fd w sh = (if 0 \<le> sh_writefd sh then sh\<lparr>sh_out := sh_out sh @ w\<rparr> else sh)"

definition print_term :: "string \<Rightarrow> 'z shell_scheme \<Rightarrow> 'z shell_scheme res" where
  "print_term w sh = guardr (sh_open sh) NullDeref (Inr (sh\<lparr>sh_term := sh_term sh @ w\<rparr>))"

definition shell_terminate :: "'z shell_scheme \<Rightarrow> 'z shell_scheme" where
  "shell_terminate sh =
    (if length (sh_line sh) \<le> sh_end sh then sh else sh\<lparr>sh_line := (sh_line sh)[sh_end sh := NUL]\<rparr>)"

section \<open>Reformatting\<close>

fun format_loop :: "nat \<Rightarrow> nat \<Rightarrow> nat \<Rightarrow> nat \<Rightarrow> string \<Rightarrow> string \<times> nat" where
  "format_loop cursor i count newcursor [] = ([], newcursor)"
| "format_loop cursor i count newcursor (c # cs) =
    (let count = (if c = CHR '' '' then count + 1 else count)
     in if c = CHR '' '' \<and> count > 1 then format_loop cursor (i + 1) count newcursor cs
        else if c = CHR '' '' \<and> i = 0 then format_loop cursor (i + 1) count newcursor cs
        else let newcursor = (if i < cursor then newcursor + 1 else newcursor);
                 count = (if c \<noteq> CHR '' '' then 0 else count);
                 (line, final) = format_loop cursor (i + 1) count newcursor cs
             in (c # line, final))"

definition shell_format :: "bool \<Rightarrow> 'z shell_scheme \<Rightarrow> 'z shell_scheme" where
  "shell_format ok sh =
    (if \<not> ok then sh
     else let (line, cursor) = format_loop (sh_cursor sh) 0 0 0 (take (sh_end sh) (sh_line sh));
              sh1 = write_fd (replicate (sh_cursor sh) BS) sh;
              sh2 = write_fd (cstr line) sh1;
              sh3 = write_fd (replicate (sh_end sh - length line) CHR '' '') sh2;
              sh4 = write_fd (replicate (sh_end sh - cursor) BS) sh3
          in sh4\<lparr>sh_line := line @ replicate (length (sh_line sh) - length line) NUL,
                 sh_cursor := cursor, sh_end := length line\<rparr>)"

definition shell_linefeed :: "'z shell_scheme \<Rightarrow> 'z shell_scheme res" where
  "shell_linefeed sh = print_term (sh_nl sh) sh"

definition shell_clear :: "'z shell_scheme \<Rightarrow> 'z shell_scheme" where
  "shell_clear sh = shell_terminate (sh\<lparr>sh_cursor := 0, sh_end := 0\<rparr>)"

definition shell_set_prompt :: "bool \<Rightarrow> string \<Rightarrow> 'z shell_scheme \<Rightarrow> 'z shell_scheme" where
  "shell_set_prompt ok prompt sh =
    (let newsize = length prompt div 128 + 128
     in if sh_prompt_size sh < newsize \<and> \<not> ok then sh
        else let n = (if sh_prompt_size sh < newsize then newsize else sh_prompt_size sh)
             in sh\<lparr>sh_prompt := take (n - 1) prompt, sh_prompt_size := n\<rparr>)"

definition shell_prompt :: "'z shell_scheme \<Rightarrow> 'z shell_scheme" where
  "shell_prompt sh =
    (if sh_writefd sh < 0 then sh
     else let sh = (if flag_check (sh_flag sh) SHELL_FLAG_INTERACTIVE
                    then write_fd [CHR 0x0D] sh else sh)
          in write_fd (sh_prompt sh) sh)"

section \<open>Inserting and deleting\<close>

text \<open>
  \<open>realloc\<close> is tried three times; the doubled size is an \<open>int\<close>, and the request for one that
  does not fit fails.
\<close>

definition shell_expand :: "bool \<Rightarrow> 'z shell_scheme \<Rightarrow> 'z shell_scheme res" where
  "shell_expand ok sh =
    guardr (ok \<and> length (sh_line sh) * 2 < 2 ^ 31) NoMemory
      (Inr (sh\<lparr>sh_line := sh_line sh @ replicate (length (sh_line sh)) NUL\<rparr>))"

function expand_for :: "bool \<Rightarrow> nat \<Rightarrow> 'z shell_scheme \<Rightarrow> 'z shell_scheme res" where
  "expand_for ok n sh =
    (if length (sh_line sh) < n \<and> 0 < length (sh_line sh)
     then bindr (shell_expand ok sh) (expand_for ok n) else Inr sh)"
  by pat_completeness auto
termination
  by (relation "measure (\<lambda>(ok, n, sh). n - length (sh_line sh))")
     (auto simp: shell_expand_def guardr_eq_Inr intro!: diff_less_mono2)

declare expand_for.simps [simp del]

definition shell_insert :: "bool \<Rightarrow> string \<Rightarrow> 'z shell_scheme \<Rightarrow> 'z shell_scheme res" where
  "shell_insert ok s sh =
    bindr (expand_for ok (sh_end sh + length s + 1) sh) (\<lambda>sh.
      guardr (sh_cursor sh \<le> sh_end sh \<and> sh_end sh + length s < length (sh_line sh)) OutOfBounds
        (let tail = load (sh_cursor sh) (sh_end sh - sh_cursor sh) (sh_line sh);
             line = store (sh_cursor sh) s (store (sh_cursor sh + length s) tail (sh_line sh));
             sh = shell_terminate (sh\<lparr>sh_line := line, sh_end := sh_end sh + length s\<rparr>)
         in if 0 \<le> sh_writefd sh
            then let sh = write_fd (cstr (drop (sh_cursor sh) (sh_line sh))) sh;
                     cursor = sh_cursor sh + length s
                 in Inr ((write_fd (replicate (sh_end sh - cursor) BS) sh)\<lparr>sh_cursor := cursor\<rparr>)
            else Inr sh))"

definition shell_input_char :: "bool \<Rightarrow> 'z shell_scheme \<Rightarrow> 'z shell_scheme res" where
  "shell_input_char ok sh = shell_insert ok (cstr [char_of (unat (sh_inputch sh))]) sh"

definition shell_insert_char :: "bool \<Rightarrow> char \<Rightarrow> 'z shell_scheme \<Rightarrow> 'z shell_scheme res" where
  "shell_insert_char ok ch sh = shell_insert ok (cstr [ch]) sh"

definition shell_delete_string :: "nat \<Rightarrow> nat \<Rightarrow> 'z shell_scheme \<Rightarrow> 'z shell_scheme res" where
  "shell_delete_string start stop sh =
    guardr (start \<le> stop \<and> stop \<le> sh_end sh) AssertFailed
    (guardr (sh_end sh \<le> length (sh_line sh)) OutOfBounds
      (let size = stop - start;
           movesize = sh_end sh - stop;
           line = store start (load stop movesize (sh_line sh)) (sh_line sh);
           line = store (start + movesize) (replicate (sh_end sh - (start + movesize)) CHR '' '') line;
           sh = shell_terminate (sh\<lparr>sh_line := line\<rparr>);
           sh = write_fd (replicate (sh_cursor sh - start) BS) sh;
           sh = write_fd (cstr (drop start (sh_line sh))) sh;
           sh = write_fd (replicate (sh_end sh - start) BS) (sh\<lparr>sh_cursor := start\<rparr>)
       in Inr (shell_terminate (sh\<lparr>sh_end := sh_end sh - size\<rparr>))))"

definition shell_cut :: "bool \<Rightarrow> nat \<Rightarrow> nat \<Rightarrow> 'z shell_scheme \<Rightarrow> 'z shell_scheme res" where
  "shell_cut ok start stop sh =
    guardr (start \<le> stop \<and> stop \<le> sh_end sh) AssertFailed
      (let size = stop - start
       in if size = 0 then Inr (sh\<lparr>sh_cut_buffer := None\<rparr>)
          else shell_delete_string start stop
            (sh\<lparr>sh_cut_buffer := (if ok then Some (load start size (sh_line sh)) else None)\<rparr>))"

section \<open>Moving\<close>

definition shell_forward :: "nat \<Rightarrow> 'z shell_scheme \<Rightarrow> 'z shell_scheme" where
  "shell_forward num sh =
    (if sh_end sh < sh_cursor sh + num then sh
     else (write_fd (load (sh_cursor sh) num (sh_line sh)) sh)\<lparr>sh_cursor := sh_cursor sh + num\<rparr>)"

definition shell_backward :: "nat \<Rightarrow> 'z shell_scheme \<Rightarrow> 'z shell_scheme" where
  "shell_backward num sh =
    (if sh_cursor sh < num then sh
     else write_fd (replicate num BS) (sh\<lparr>sh_cursor := sh_cursor sh - num\<rparr>))"

definition shell_moveto :: "nat \<Rightarrow> 'z shell_scheme \<Rightarrow> 'z shell_scheme res" where
  "shell_moveto index sh =
    guardr (index \<le> sh_end sh) AssertFailed
      (Inr (if sh_cursor sh < index then shell_forward (index - sh_cursor sh) sh
            else if index < sh_cursor sh then shell_backward (sh_cursor sh - index) sh else sh))"

section \<open>Words\<close>

definition SHELL_WORD_DELIMITERS :: "char \<Rightarrow> bool" where
  "SHELL_WORD_DELIMITERS c \<longleftrightarrow> c = CHR '' ''"

definition SHELL_WORD_DELIMITERS_SUB :: "char \<Rightarrow> bool" where
  "SHELL_WORD_DELIMITERS_SUB c \<longleftrightarrow> c = CHR '' '' \<or> c = CHR ''/''"

text \<open>The tokens that successive \<open>strsep\<close> calls return, as offsets and lengths, empty ones included.\<close>

function tokens :: "(char \<Rightarrow> bool) \<Rightarrow> nat \<Rightarrow> string \<Rightarrow> (nat \<times> nat) list" where
  "tokens d off s =
    (off, length (takeWhile (\<lambda>c. \<not> d c) s)) #
    (case dropWhile (\<lambda>c. \<not> d c) s of [] \<Rightarrow> []
     | c # rest \<Rightarrow> tokens d (off + length (takeWhile (\<lambda>c. \<not> d c) s) + 1) rest)"
  by pat_completeness auto
termination
  by (relation "measure (\<lambda>(d, off, s). length s)")
     (auto dest!: arg_cong [of "dropWhile _ _" _ length], metis Suc_le_lessD length_dropWhile_le)

declare tokens.simps [simp del]

text \<open>The current word while the loop runs: its offset and its length up to the next delimiter.\<close>

fun word_loop :: "nat \<Rightarrow> nat \<times> nat \<Rightarrow> (nat \<times> nat) list \<Rightarrow> nat \<times> nat" where
  "word_loop point word [] = word"
| "word_loop point word (next # ts) =
    (if fst word \<le> point \<and> point < fst next then word
     else word_loop point (if snd next \<noteq> 0 then next else word) ts)"

definition current_word :: "(char \<Rightarrow> bool) \<Rightarrow> nat \<Rightarrow> string \<Rightarrow> nat \<times> nat" where
  "current_word d point line =
    (let ts = tokens d 0 (cstr line) in word_loop point (0, snd (hd ts)) ts)"

definition word_head :: "(char \<Rightarrow> bool) \<Rightarrow> nat \<Rightarrow> 'z shell_scheme \<Rightarrow> (nat \<times> 'z shell_scheme) res" where
  "word_head d point sh =
    guardr (point \<le> sh_end sh) AssertFailed
      (let sh = shell_terminate sh; word = current_word d point (sh_line sh)
       in Inr (if fst word + snd word < point then point else fst word, sh))"

definition shell_word_head :: "nat \<Rightarrow> 'z shell_scheme \<Rightarrow> (nat \<times> 'z shell_scheme) res" where
  "shell_word_head = word_head SHELL_WORD_DELIMITERS"

definition shell_subword_head :: "nat \<Rightarrow> 'z shell_scheme \<Rightarrow> (nat \<times> 'z shell_scheme) res" where
  "shell_subword_head = word_head SHELL_WORD_DELIMITERS_SUB"

definition shell_word_end :: "nat \<Rightarrow> 'z shell_scheme \<Rightarrow> (nat \<times> 'z shell_scheme) res" where
  "shell_word_end point sh =
    guardr (point \<le> sh_end sh) AssertFailed
      (let sh = shell_terminate sh; word = current_word SHELL_WORD_DELIMITERS point (sh_line sh)
       in Inr (if fst word + snd word < point then point else fst word + snd word, sh))"

fun next_loop :: "nat \<Rightarrow> bool \<Rightarrow> (nat \<times> nat) list \<Rightarrow> nat option" where
  "next_loop point passed [] = None"
| "next_loop point passed (word # ts) =
    (if passed then (if snd word \<noteq> 0 then Some (fst word) else None)
     else next_loop point (fst word \<le> point \<and> point \<le> fst word + snd word) ts)"

definition shell_word_next_head :: "nat \<Rightarrow> 'z shell_scheme \<Rightarrow> (nat \<times> 'z shell_scheme) res" where
  "shell_word_next_head point sh =
    guardr (point \<le> sh_end sh) AssertFailed
      (let sh = shell_terminate sh
       in Inr (case next_loop point False (tokens SHELL_WORD_DELIMITERS 0 (cstr (sh_line sh))) of
                 Some head \<Rightarrow> head | None \<Rightarrow> sh_end sh, sh))"

fun prev_loop :: "nat \<Rightarrow> nat \<Rightarrow> (nat \<times> nat) list \<Rightarrow> nat" where
  "prev_loop point prev [] = prev"
| "prev_loop point prev (word # ts) =
    (if fst word \<le> point \<and> point \<le> fst word + snd word then prev
     else prev_loop point (if snd word \<noteq> 0 then fst word else prev) ts)"

definition word_prev_head :: "(char \<Rightarrow> bool) \<Rightarrow> nat \<Rightarrow> 'z shell_scheme \<Rightarrow> (nat \<times> 'z shell_scheme) res" where
  "word_prev_head d point sh =
    guardr (point \<le> sh_end sh) AssertFailed
      (let sh = shell_terminate sh
       in Inr (prev_loop point 0 (tokens d 0 (cstr (sh_line sh))), sh))"

definition shell_word_prev_head :: "nat \<Rightarrow> 'z shell_scheme \<Rightarrow> (nat \<times> 'z shell_scheme) res" where
  "shell_word_prev_head = word_prev_head SHELL_WORD_DELIMITERS"

definition shell_subword_prev_head :: "nat \<Rightarrow> 'z shell_scheme \<Rightarrow> (nat \<times> 'z shell_scheme) res" where
  "shell_subword_prev_head = word_prev_head SHELL_WORD_DELIMITERS_SUB"

text \<open>Where a backward word command goes: the head of this word, or of the previous one.\<close>

definition backward_start :: "'z shell_scheme \<Rightarrow> (nat \<times> 'z shell_scheme) res" where
  "backward_start sh =
    bindr (shell_subword_head (sh_cursor sh) sh) (\<lambda>(start, sh).
      if start = sh_cursor sh then shell_subword_prev_head (sh_cursor sh) sh else Inr (start, sh))"

definition shell_delete_word_backward :: "bool \<Rightarrow> 'z shell_scheme \<Rightarrow> 'z shell_scheme res" where
  "shell_delete_word_backward ok sh =
    bindr (backward_start sh) (\<lambda>(start, sh). shell_cut ok start (sh_cursor sh) sh)"

definition shell_move_word_backward :: "'z shell_scheme \<Rightarrow> 'z shell_scheme res" where
  "shell_move_word_backward sh = bindr (backward_start sh) (\<lambda>(start, sh). shell_moveto start sh)"

definition shell_move_word_forward :: "'z shell_scheme \<Rightarrow> 'z shell_scheme res" where
  "shell_move_word_forward sh =
    bindr (shell_word_next_head (sh_cursor sh) sh) (\<lambda>(start, sh). shell_moveto start sh)"

section \<open>Display, opening and closing\<close>

definition shell_refresh :: "'z shell_scheme \<Rightarrow> 'z shell_scheme" where
  "shell_refresh sh =
    (let sh = shell_terminate (shell_prompt sh);
         sh = write_fd (cstr (sh_line sh)) sh
     in write_fd (replicate (sh_end sh - sh_cursor sh) BS) sh)"

definition shell_read_close :: "'z shell_scheme \<Rightarrow> 'z shell_scheme" where
  "shell_read_close sh = sh\<lparr>sh_flag := flag_set (sh_flag sh) SHELL_FLAG_CLOSE, sh_readfd := -1\<rparr>"

definition shell_write_close :: "'z shell_scheme \<Rightarrow> 'z shell_scheme res" where
  "shell_write_close sh = guardr (sh_open sh) NullDeref (Inr (sh\<lparr>sh_open := False, sh_writefd := -1\<rparr>))"

definition shell_close :: "'z shell_scheme \<Rightarrow> 'z shell_scheme" where
  "shell_close sh = sh\<lparr>sh_flag := flag_set (sh_flag sh) SHELL_FLAG_CLOSE, sh_open := False,
     sh_readfd := -1, sh_writefd := -1\<rparr>"

definition shell_set_terminal :: "bool \<Rightarrow> int \<Rightarrow> int \<Rightarrow> 'z shell_scheme \<Rightarrow> 'z shell_scheme" where
  "shell_set_terminal ok readfd writefd sh = sh\<lparr>sh_flag := flag_clear (sh_flag sh) SHELL_FLAG_CLOSE,
     sh_readfd := readfd, sh_writefd := writefd, sh_open := ok\<rparr>"

text \<open>The entry is written through \<open>keymap\<close>, which points to the shell's own map whenever keys are installed.\<close>

definition shell_install :: "u8 \<Rightarrow> keyfunc \<Rightarrow> 'z shell_scheme \<Rightarrow> 'z shell_scheme" where
  "shell_install key func sh = sh\<lparr>sh_keymap_normal := (sh_keymap_normal sh)[unat key := Some func]\<rparr>"

definition shell_running :: "'z shell_scheme \<Rightarrow> bool" where
  "shell_running sh \<longleftrightarrow>
    \<not> (flag_check (sh_flag sh) SHELL_FLAG_EXIT \<or> flag_check (sh_flag sh) SHELL_FLAG_CLOSE)"

end
