(* ===== verification/Line_Edit.thy ===== *)
theory Line_Edit
  imports Shell
begin

text \<open>
  What the operations of the line editor do to the text, the cursor and the terminal.

  Under \<open>line_ok\<close> every operation of theory Shell is described by the text and cursor it leaves
  (\<open>does\<close>), together with the claim that the bytes it writes bring the terminal line from showing
  the old state to showing the new one (\<open>paints\<close>).
\<close>

section \<open>The text, the terminal, and what an operation does to both\<close>

definition shell_text :: "'z shell_scheme \<Rightarrow> string" where
  "shell_text sh = take (sh_end sh) (sh_line sh)"

definition clean :: "char \<Rightarrow> bool" where
  "clean c \<longleftrightarrow> c \<noteq> NUL \<and> c \<noteq> BS"

definition line_ok :: "'z shell_scheme \<Rightarrow> bool" where
  "line_ok sh \<longleftrightarrow> sh_cursor sh \<le> sh_end sh \<and> sh_end sh < length (sh_line sh) \<and>
     sh_line sh ! sh_end sh = NUL \<and> list_all clean (shell_text sh) \<and>
     (case sh_cut_buffer sh of None \<Rightarrow> True | Some s \<Rightarrow> list_all clean s)"

text \<open>
  The terminal line the output is drawn on: backspace moves left, any other character
  overwrites the cell under the cursor and moves right.
\<close>

fun put :: "char \<Rightarrow> string \<times> nat \<Rightarrow> string \<times> nat" where
  "put c (cells, pos) =
    (if c = BS then (cells, pos - 1) else (take pos cells @ [c] @ drop (pos + 1) cells, pos + 1))"

definition displays :: "'z shell_scheme \<Rightarrow> string \<times> nat \<Rightarrow> bool" where
  "displays sh scr \<longleftrightarrow> snd scr = sh_cursor sh \<and> (\<exists>k. fst scr = shell_text sh @ replicate k CHR '' '')"

definition paints :: "'z shell_scheme \<Rightarrow> 'z shell_scheme \<Rightarrow> bool" where
  "paints sh sh' \<longleftrightarrow> (\<exists>w. sh_out sh' = sh_out sh @ w \<and> (\<forall>scr. displays sh scr \<longrightarrow> displays sh' (fold put w scr)))"

text \<open>Only the line, its two indices, the cut buffer and the output differ.\<close>

definition edited :: "'z shell_scheme \<Rightarrow> 'z shell_scheme \<Rightarrow> bool" where
  "edited sh sh' \<longleftrightarrow> sh_readfd sh' = sh_readfd sh \<and> sh_writefd sh' = sh_writefd sh \<and>
     sh_open sh' = sh_open sh \<and> sh_flag sh' = sh_flag sh \<and> sh_nl sh' = sh_nl sh \<and>
     sh_prompt sh' = sh_prompt sh \<and> sh_prompt_size sh' = sh_prompt_size sh \<and>
     sh_inputch sh' = sh_inputch sh \<and> sh_keymap sh' = sh_keymap sh \<and>
     sh_keymap_normal sh' = sh_keymap_normal sh \<and> sh_term sh' = sh_term sh \<and>
     shell.more sh' = shell.more sh"

definition does :: "'z shell_scheme \<Rightarrow> string \<Rightarrow> nat \<Rightarrow> 'z shell_scheme \<Rightarrow> bool" where
  "does sh t c sh' \<longleftrightarrow> line_ok sh' \<and> edited sh sh' \<and> shell_text sh' = t \<and> sh_cursor sh' = c \<and>
     (0 \<le> sh_writefd sh \<longrightarrow> paints sh sh')"

lemma edited_refl [simp]: "edited sh sh"
  by (simp add: edited_def)

lemma edited_keeps:
  assumes "edited sh sh'"
  shows "sh_readfd sh' = sh_readfd sh" "sh_writefd sh' = sh_writefd sh" "sh_open sh' = sh_open sh"
    "sh_flag sh' = sh_flag sh" "sh_inputch sh' = sh_inputch sh" "sh_keymap sh' = sh_keymap sh"
    "sh_keymap_normal sh' = sh_keymap_normal sh" "sh_term sh' = sh_term sh"
    "shell.more sh' = shell.more sh"
  using assms by (simp_all add: edited_def)

lemma edited_trans: "edited a b \<Longrightarrow> edited b c \<Longrightarrow> edited a c"
  by (simp add: edited_def)

lemma paints_trans: "paints a b \<Longrightarrow> paints b c \<Longrightarrow> paints a c"
proof -
  assume ab: "paints a b" and bc: "paints b c"
  from ab obtain v where v: "sh_out b = sh_out a @ v" "\<And>scr. displays a scr \<Longrightarrow> displays b (fold put v scr)"
    by (auto simp: paints_def)
  from bc obtain w where w: "sh_out c = sh_out b @ w" "\<And>scr. displays b scr \<Longrightarrow> displays c (fold put w scr)"
    by (auto simp: paints_def)
  have "sh_out c = sh_out a @ (v @ w)" "displays a scr \<Longrightarrow> displays c (fold put (v @ w) scr)" for scr
    using v w by simp_all
  then show ?thesis unfolding paints_def by blast
qed

lemma does_trans: "does a t c b \<Longrightarrow> does b t' c' d \<Longrightarrow> does a t' c' d"
  by (auto simp: does_def edited_keeps intro: edited_trans paints_trans)

lemma cstr_clean: "list_all clean xs \<Longrightarrow> cstr (xs @ NUL # ys) = xs"
  by (induction xs) (auto simp: cstr_def clean_def)

lemma cstr_all_clean: "list_all clean xs \<Longrightarrow> cstr xs = xs"
  by (induction xs) (auto simp: cstr_def clean_def)

lemma line_split:
  assumes "line_ok sh"
  shows "sh_line sh = shell_text sh @ NUL # drop (Suc (sh_end sh)) (sh_line sh)" "length (shell_text sh) = sh_end sh"
  using assms id_take_nth_drop [of "sh_end sh" "sh_line sh"] by (auto simp: line_ok_def shell_text_def)

lemma cstr_line: "line_ok sh \<Longrightarrow> cstr (sh_line sh) = shell_text sh"
  using line_split(1) cstr_clean by (metis line_ok_def)

lemma cstr_drop: "line_ok sh \<Longrightarrow> k \<le> sh_end sh \<Longrightarrow> cstr (drop k (sh_line sh)) = drop k (shell_text sh)"
proof -
  assume a: "line_ok sh" "k \<le> sh_end sh"
  have "drop k (sh_line sh) = drop k (shell_text sh) @ NUL # drop (Suc (sh_end sh)) (sh_line sh)"
    using a line_split [OF a(1)] by (metis drop_append diff_is_0_eq drop_0)
  moreover have "list_all clean (drop k (shell_text sh))"
    using a(1) by (auto simp: line_ok_def list_all_iff dest: in_set_dropD)
  ultimately show ?thesis by (simp add: cstr_clean)
qed

lemma terminate_ok: "line_ok sh \<Longrightarrow> shell_terminate sh = sh"
  by (simp add: line_ok_def shell_terminate_def) (metis list_update_id shell.surjective shell.update_convs(8))

lemma write_fd_simps [simp]:
  "sh_line (write_fd w sh) = sh_line sh" "sh_cursor (write_fd w sh) = sh_cursor sh"
  "sh_end (write_fd w sh) = sh_end sh" "sh_cut_buffer (write_fd w sh) = sh_cut_buffer sh"
  "sh_writefd (write_fd w sh) = sh_writefd sh" "sh_flag (write_fd w sh) = sh_flag sh"
  "sh_prompt (write_fd w sh) = sh_prompt sh" "sh_open (write_fd w sh) = sh_open sh"
  "sh_out (write_fd w sh) = (if 0 \<le> sh_writefd sh then sh_out sh @ w else sh_out sh)"
  "shell_text (write_fd w sh) = shell_text sh"
  by (simp_all add: write_fd_def shell_text_def)

lemma edited_write [simp]: "edited sh (write_fd w sh)"
  by (simp add: edited_def write_fd_def)

lemma put_BS [simp]: "(put BS ^^ n) (cells, pos) = (cells, pos - n)"
  by (induction n) auto

lemma put_clean:
  "list_all clean w \<Longrightarrow> pos \<le> length cells \<Longrightarrow>
   fold put w (cells, pos) = (take pos cells @ w @ drop (pos + length w) cells, pos + length w)"
proof (induction w arbitrary: cells pos)
  case (Cons a w)
  have "fold put (a # w) (cells, pos) = fold put w (take pos cells @ [a] @ drop (pos + 1) cells, pos + 1)"
    using Cons.prems(1) by (simp add: clean_def)
  also have "\<dots> = (take pos cells @ (a # w) @ drop (pos + length (a # w)) cells, pos + length (a # w))"
    using Cons.prems by (subst Cons.IH) (auto simp: min_def add.commute)
  finally show ?case .
qed simp

lemma clean_space [simp]: "clean CHR '' ''"
  by (simp add: clean_def NUL_def BS_def)

lemma clean_spaces [simp]: "list_all clean (replicate n CHR '' '')"
  by (simp add: list_all_iff)

lemma clean_take_drop: "list_all clean xs \<Longrightarrow> list_all clean (take n xs)" "list_all clean xs \<Longrightarrow> list_all clean (drop n xs)"
  by (auto simp: list_all_iff dest: in_set_takeD in_set_dropD)

text \<open>The editor state an operation leaves, when only line, indices and output change.\<close>

lemma doesI:
  assumes "edited sh sh'" "line_ok sh'" "shell_text sh' = t" "sh_cursor sh' = c"
    "0 \<le> sh_writefd sh \<Longrightarrow> sh_out sh' = sh_out sh @ w"
    "\<And>k. 0 \<le> sh_writefd sh \<Longrightarrow> \<exists>k'. fold put w (shell_text sh @ replicate k CHR '' '', sh_cursor sh) = (t @ replicate k' CHR '' '', c)"
  shows "does sh t c sh'"
proof -
  have "displays sh' (fold put w scr)" if wf: "0 \<le> sh_writefd sh" and "displays sh scr" for scr
  proof -
    from that(2) obtain k where "scr = (shell_text sh @ replicate k CHR '' '', sh_cursor sh)"
      by (cases scr) (auto simp: displays_def)
    with assms(6) [OF wf, of k] assms(3,4) show ?thesis by (auto simp: displays_def)
  qed
  then show ?thesis using assms unfolding does_def paints_def by blast
qed

lemma does_refl: "line_ok sh \<Longrightarrow> does sh (shell_text sh) (sh_cursor sh) sh"
  by (rule doesI [of _ _ _ _ "[]"]) (auto intro: exI)

lemma overwrite_same: "take pos t @ take n (drop pos t) @ drop (pos + n) t @ r = t @ r"
  by (metis append.assoc append_take_drop_id take_add)

section \<open>Moving\<close>

lemma forward_does:
  assumes "line_ok sh" "sh_cursor sh + n \<le> sh_end sh"
  shows "does sh (shell_text sh) (sh_cursor sh + n) (shell_forward n sh)"
proof (rule doesI)
  let ?w = "take n (drop (sh_cursor sh) (shell_text sh))"
  have w: "load (sh_cursor sh) n (sh_line sh) = ?w"
    using assms(2) by (simp add: load_def shell_text_def drop_take)
  show "edited sh (shell_forward n sh)"
    by (simp add: shell_forward_def edited_def write_fd_def)
  show "line_ok (shell_forward n sh)" "shell_text (shell_forward n sh) = shell_text sh"
      "sh_cursor (shell_forward n sh) = sh_cursor sh + n"
    using assms by (auto simp: shell_forward_def line_ok_def shell_text_def)
  show "sh_out (shell_forward n sh) = sh_out sh @ ?w" if "0 \<le> sh_writefd sh"
    using assms that by (simp add: shell_forward_def w [symmetric])
  have len: "length ?w = n" using assms line_split(2) [OF assms(1)] by simp
  have "list_all clean ?w" using assms(1) by (simp add: line_ok_def clean_take_drop)
  then show "\<exists>k'. fold put ?w (shell_text sh @ replicate k CHR '' '', sh_cursor sh) =
      (shell_text sh @ replicate k' CHR '' '', sh_cursor sh + n)" for k
    using assms line_split(2) [OF assms(1)] len
    by (subst put_clean) (simp_all add: overwrite_same)
qed

lemma backward_does:
  assumes "line_ok sh" "n \<le> sh_cursor sh"
  shows "does sh (shell_text sh) (sh_cursor sh - n) (shell_backward n sh)"
  by (rule doesI [of _ _ _ _ "replicate n BS"])
     (use assms in \<open>auto simp: shell_backward_def edited_def write_fd_def line_ok_def shell_text_def\<close>)

lemma moveto_does:
  assumes "line_ok sh" "i \<le> sh_end sh"
  shows "\<exists>sh'. shell_moveto i sh = Inr sh' \<and> does sh (shell_text sh) i sh'"
proof -
  consider "sh_cursor sh < i" | "sh_cursor sh = i" | "i < sh_cursor sh" by linarith
  then show ?thesis
  proof cases
    case 1
    with forward_does [OF assms(1), of "i - sh_cursor sh"] assms(2) show ?thesis
      by (simp add: shell_moveto_def)
  next
    case 2
    with does_refl [OF assms(1)] assms(2) show ?thesis by (simp add: shell_moveto_def)
  next
    case 3
    with backward_does [OF assms(1), of "sh_cursor sh - i"] assms(2) show ?thesis
      by (simp add: shell_moveto_def)
  qed
qed


section \<open>Deleting and inserting\<close>

text \<open>The two memory moves, on a buffer split into its parts.\<close>

lemma close_gap:
  "length sp = length del \<Longrightarrow>
   store (length pre + length rest) sp (store (length pre) rest (pre @ del @ rest @ tail)) = pre @ rest @ sp @ tail"
  by (simp add: store_def add.commute)

lemma open_gap:
  "length s \<le> length free \<Longrightarrow>
   store (length pre) s (store (length pre + length s) rest (pre @ rest @ free)) =
   pre @ s @ rest @ drop (length s) free"
  by (simp add: store_def add.commute)

lemma delete_does:
  assumes ok: "line_ok sh" and a: "start \<le> stop" "stop \<le> sh_end sh" and c: "start \<le> sh_cursor sh"
  shows "\<exists>sh'. shell_delete_string start stop sh = Inr sh' \<and> sh_cut_buffer sh' = sh_cut_buffer sh \<and>
    does sh (take start (shell_text sh) @ drop stop (shell_text sh)) start sh'"
proof -
  let ?t = "shell_text sh" and ?e = "sh_end sh" and ?mv = "sh_end sh - stop"
  let ?rest = "drop (Suc ?e) (sh_line sh)"
  let ?gap = "replicate (stop - start) CHR '' ''"
  have t: "sh_line sh = ?t @ NUL # ?rest" "length ?t = ?e" using line_split [OF ok] by auto
  have clean: "list_all clean ?t" using ok by (simp add: line_ok_def)
  have lo: "load stop ?mv (sh_line sh) = drop stop ?t"
    using a by (simp add: load_def shell_text_def drop_take)
  define line1 where "line1 = store start (drop stop ?t) (sh_line sh)"
  define line2 where "line2 = store (start + ?mv) (replicate (?e - (start + ?mv)) CHR '' '') line1"
  have gap: "?e - (start + ?mv) = stop - start" using a by simp
  have l2: "line2 = (take start ?t @ drop stop ?t @ ?gap) @ NUL # ?rest"
  proof -
    have "sh_line sh = take start ?t @ load start (stop - start) ?t @ drop stop ?t @ NUL # ?rest"
      using t(1) a overwrite_same [of start ?t "stop - start" "NUL # ?rest"] by (simp add: load_def)
    moreover have "length (take start ?t) = start" "length (drop stop ?t) = ?mv"
        "length (load start (stop - start) ?t) = stop - start" using a t(2) by simp_all
    ultimately show ?thesis
      using close_gap [of ?gap "load start (stop - start) ?t" "take start ?t" "drop stop ?t" "NUL # ?rest"]
      by (simp add: line1_def line2_def gap)
  qed
  let ?sh1 = "sh\<lparr>sh_line := line2\<rparr>"
  have txt1: "shell_text ?sh1 = take start ?t @ drop stop ?t @ ?gap"
    using a t(2) by (simp add: shell_text_def l2)
  have "length line2 = length (sh_line sh)" "line2 ! ?e = NUL"
  proof -
    have L: "?e < length (sh_line sh)" "length (take start ?t @ drop stop ?t @ ?gap) = ?e"
      using ok a t(2) by (simp_all add: line_ok_def)
    show "length line2 = length (sh_line sh)"
      unfolding l2 length_append [of "take start ?t @ drop stop ?t @ ?gap"] L(2) using L(1) by simp
    show "line2 ! ?e = NUL"
      using nth_append_length [of "take start ?t @ drop stop ?t @ ?gap" NUL ?rest] by (simp only: L(2) l2)
  qed
  then have ok1: "line_ok ?sh1"
    using ok txt1 clean by (simp add: line_ok_def clean_take_drop)
  have out: "cstr (drop start line2) = drop stop ?t @ ?gap"
    using cstr_drop [OF ok1, of start] a t(2) txt1 by (simp add: min_def)
  let ?sh2 = "write_fd (cstr (drop start line2)) (write_fd (replicate (sh_cursor sh - start) BS) ?sh1)"
  let ?sh3 = "write_fd (replicate (?e - start) BS) (?sh2\<lparr>sh_cursor := start\<rparr>)"
  let ?sh4 = "?sh3\<lparr>sh_end := ?e - (stop - start)\<rparr>"
  have "shell_delete_string start stop sh = Inr (shell_terminate ?sh4)"
    unfolding shell_delete_string_def Let_def lo line1_def [symmetric] line2_def [symmetric] terminate_ok [OF ok1]
    using a ok by (simp add: line_ok_def)
  moreover have len: "?e - (stop - start) < length line2" using a t(2) by (simp add: l2)
  let ?sh5 = "?sh4\<lparr>sh_line := line2[?e - (stop - start) := NUL]\<rparr>"
  have "shell_terminate ?sh4 = ?sh5" using len by (simp add: shell_terminate_def)
  moreover have tx: "shell_text ?sh5 = take start ?t @ drop stop ?t"
  proof -
    have "length (take start ?t @ drop stop ?t) = ?e - (stop - start)" using a t(2) by simp
    then have "take (?e - (stop - start)) line2 = take start ?t @ drop stop ?t"
      unfolding l2 by (metis append.assoc append_eq_conv_conj)
    then show ?thesis unfolding shell_text_def [of ?sh5] by simp
  qed
  moreover have "does sh (take start ?t @ drop stop ?t) start ?sh5"
  proof (rule doesI)
    show "edited sh ?sh5" by (simp add: edited_def write_fd_def)
    show "line_ok ?sh5" using tx ok a len clean by (auto simp: line_ok_def clean_take_drop)
    let ?w = "replicate (sh_cursor sh - start) BS @ (drop stop ?t @ ?gap) @ replicate (?e - start) BS"
    show "sh_out ?sh5 = sh_out sh @ ?w" if "0 \<le> sh_writefd sh"
      using that by (simp add: out)
    define v where "v = drop stop ?t @ ?gap"
    have v: "list_all clean v" "length v = ?e - start" "sh_cursor sh \<le> ?e"
      using a clean ok t(2) by (auto simp: v_def clean_take_drop line_ok_def)
    have "fold put ?w (?t @ replicate k CHR '' '', sh_cursor sh) =
        ((take start ?t @ drop stop ?t) @ replicate (stop - start + k) CHR '' '', start)" for k
    proof -
      have "fold put ?w (?t @ replicate k CHR '' '', sh_cursor sh) =
          (take start ?t @ v @ replicate k CHR '' '', start)"
        using a c t(2) v by (simp add: v_def [symmetric] put_clean)
      then show ?thesis by (simp add: v_def replicate_add)
    qed
    then show "\<exists>k'. fold put ?w (?t @ replicate k CHR '' '', sh_cursor sh) =
        ((take start ?t @ drop stop ?t) @ replicate k' CHR '' '', start)" for k by blast
  qed (simp_all add: tx)
  ultimately show ?thesis by (intro exI [of _ ?sh5]) simp
qed

lemma expand_for_ok:
  assumes "line_ok sh"
  shows "(\<exists>m. expand_for ok n sh = Inr (sh\<lparr>sh_line := sh_line sh @ replicate m NUL\<rparr>) \<and>
      n \<le> length (sh_line sh) + m) \<or> expand_for ok n sh = Inl NoMemory"
proof -
  have "0 < length (sh_line sh) \<Longrightarrow>
      (\<exists>m. expand_for ok n sh = Inr (sh\<lparr>sh_line := sh_line sh @ replicate m NUL\<rparr>) \<and>
        n \<le> length (sh_line sh) + m) \<or> expand_for ok n sh = Inl NoMemory"
  for sh :: "'a shell_scheme"
  proof (induction ok n sh rule: expand_for.induct)
    case (1 ok n sh)
    show ?case
    proof (cases "length (sh_line sh) < n")
      case True
      show ?thesis
      proof (cases "ok \<and> length (sh_line sh) * 2 < 2 ^ 31")
        case grow: True
        let ?u = "sh\<lparr>sh_line := sh_line sh @ replicate (length (sh_line sh)) NUL\<rparr>"
        have e: "shell_expand ok sh = Inr ?u" using grow by (simp add: shell_expand_def)
        from "1.IH" [OF _ e] True "1.prems" have ih:
          "(\<exists>m. expand_for ok n ?u = Inr (?u\<lparr>sh_line := sh_line ?u @ replicate m NUL\<rparr>) \<and>
            n \<le> length (sh_line ?u) + m) \<or> expand_for ok n ?u = Inl NoMemory" by simp
        show ?thesis
        proof -
          have "expand_for ok n sh = expand_for ok n ?u"
            using True "1.prems" e by (subst expand_for.simps) simp
          moreover have "(\<exists>m. expand_for ok n ?u = Inr (sh\<lparr>sh_line := sh_line sh @ replicate m NUL\<rparr>) \<and>
              n \<le> length (sh_line sh) + m) \<or> expand_for ok n ?u = Inl NoMemory"
            using ih by (auto simp: replicate_add [symmetric] add.assoc)
          ultimately show ?thesis by simp
        qed
      next
        case False
        then have "shell_expand ok sh = Inl NoMemory" by (auto simp: shell_expand_def)
        then show ?thesis using True "1.prems" by (subst (1 2) expand_for.simps) simp
      qed
    next
      case False
      then show ?thesis by (subst (1 2) expand_for.simps) (auto intro: exI [of _ 0])
    qed
  qed
  moreover have "0 < length (sh_line sh)" using assms by (auto simp: line_ok_def)
  ultimately show ?thesis by blast
qed

lemma insert_does:
  assumes ok: "line_ok sh" and s: "list_all clean s" and wf: "0 \<le> sh_writefd sh"
  shows "(\<exists>sh'. shell_insert mem s sh = Inr sh' \<and> sh_cut_buffer sh' = sh_cut_buffer sh \<and>
      does sh (take (sh_cursor sh) (shell_text sh) @ s @ drop (sh_cursor sh) (shell_text sh))
        (sh_cursor sh + length s) sh') \<or> shell_insert mem s sh = Inl NoMemory"
proof (cases "expand_for mem (sh_end sh + length s + 1) sh = Inl NoMemory")
  case True
  then show ?thesis by (simp add: shell_insert_def)
next
  case False
  with expand_for_ok [OF ok, of mem "sh_end sh + length s + 1"] obtain m where
    m: "expand_for mem (sh_end sh + length s + 1) sh = Inr (sh\<lparr>sh_line := sh_line sh @ replicate m NUL\<rparr>)"
       "sh_end sh + length s + 1 \<le> length (sh_line sh) + m" by auto
  let ?t = "shell_text sh" and ?c = "sh_cursor sh" and ?e = "sh_end sh"
  let ?buf = "sh_line sh @ replicate m NUL"
  have c: "?c \<le> ?e" "?e < length (sh_line sh)" and clean: "list_all clean ?t" using ok by (auto simp: line_ok_def)
  have len: "length ?t = ?e" using line_split [OF ok] by simp
  let ?new = "take ?c ?t @ s @ drop ?c ?t"
  define line1 where "line1 = store ?c s (store (?c + length s) (load ?c (?e - ?c) ?buf) ?buf)"
  have tail: "load ?c (?e - ?c) ?buf = drop ?c ?t"
    using c by (simp add: load_def shell_text_def drop_take)
  let ?free = "drop ?e ?buf"
  have buf: "take ?c ?t @ drop ?c ?t @ ?free = ?buf"
  proof -
    have "take ?e ?buf = ?t" using c by (simp add: shell_text_def)
    then have "?t @ ?free = ?buf" by (metis append_take_drop_id)
    then show ?thesis by (simp only: append.assoc [symmetric] append_take_drop_id)
  qed
  have lens: "length (take ?c ?t) = ?c" "length s \<le> length ?free" using c len m(2) by simp_all
  have "line1 = take ?c ?t @ s @ drop ?c ?t @ drop (length s) ?free"
    using open_gap [OF lens(2), of "take ?c ?t" "drop ?c ?t"] by (simp only: buf lens(1) line1_def tail)
  then have l1: "line1 = ?new @ drop (length s) ?free" by simp
  let ?line2 = "line1[?e + length s := NUL]"
  let ?sh1 = "sh\<lparr>sh_line := ?line2, sh_end := ?e + length s\<rparr>"
  have n: "length ?new = ?e + length s" using c len by simp
  have fits: "?e + length s < length line1" using m(2) n by (simp add: l1)
  have tx: "shell_text ?sh1 = ?new" using n by (simp add: shell_text_def l1)
  have ok1: "line_ok ?sh1"
    using ok c tx fits s clean by (auto simp: line_ok_def clean_take_drop)
  have out: "cstr (drop ?c ?line2) = s @ drop ?c ?t"
    using cstr_drop [OF ok1, of ?c] tx c len by (simp add: min_def)
  let ?w = "(s @ drop ?c ?t) @ replicate (?e - ?c) BS"
  let ?sh2 = "(write_fd ?w ?sh1)\<lparr>sh_cursor := ?c + length s\<rparr>"
  have "shell_insert mem s sh = Inr ?sh2"
    using m c wf fits unfolding shell_insert_def
    by (simp add: Let_def line1_def [symmetric] shell_terminate_def out) (simp add: write_fd_def)
  moreover have "does sh ?new (?c + length s) ?sh2"
  proof (rule doesI)
    show "edited sh ?sh2" by (simp add: edited_def write_fd_def)
    show "line_ok ?sh2" using ok1 c by (auto simp: line_ok_def shell_text_def)
    show "shell_text ?sh2 = ?new" using tx by (simp add: shell_text_def)
    show "sh_out ?sh2 = sh_out sh @ ?w" using wf by simp
    show "\<exists>k'. fold put ?w (?t @ replicate k CHR '' '', ?c) = (?new @ replicate k' CHR '' '', ?c + length s)" for k
      using c s clean len
      by (intro exI [of _ "k - length s"]) (simp add: put_clean clean_take_drop)
  qed simp
  ultimately show ?thesis by (intro disjI1 exI [of _ ?sh2]) simp
qed

lemma cut_does:
  assumes ok: "line_ok sh" and a: "start \<le> stop" "stop \<le> sh_end sh" and c: "start \<le> sh_cursor sh"
  shows "\<exists>sh'. shell_cut mem start stop sh = Inr sh' \<and>
    sh_cut_buffer sh' = (if mem \<and> start < stop then Some (load start (stop - start) (shell_text sh)) else None) \<and>
    does sh (take start (shell_text sh) @ drop stop (shell_text sh)) (if start < stop then start else sh_cursor sh) sh'"
proof (cases "start < stop")
  case True
  let ?s = "if mem then Some (load start (stop - start) (sh_line sh)) else None"
  let ?u = "sh\<lparr>sh_cut_buffer := ?s\<rparr>"
  have l: "load start (stop - start) (sh_line sh) = load start (stop - start) (shell_text sh)"
    using a by (simp add: load_def shell_text_def drop_take min_def)
  have cl: "list_all clean (shell_text sh)" using ok by (simp add: line_ok_def)
  have "list_all clean (load start (stop - start) (shell_text sh))"
    unfolding load_def by (intro clean_take_drop cl)
  then have "list_all clean (load start (stop - start) (sh_line sh))" by (simp only: l)
  then have "line_ok ?u" using ok by (auto simp: line_ok_def shell_text_def)
  moreover have "does sh (shell_text sh) (sh_cursor sh) ?u" if "line_ok ?u"
    by (rule doesI [of _ _ _ _ "[]"]) (use that in \<open>auto simp: edited_def shell_text_def intro: exI\<close>)
  moreover have "shell_text ?u = shell_text sh" by (simp add: shell_text_def)
  ultimately show ?thesis
    using True a c delete_does [of ?u start stop] by (auto simp: shell_cut_def l intro: does_trans)
next
  case False
  let ?u = "sh\<lparr>sh_cut_buffer := None\<rparr>"
  have "line_ok ?u" using ok by (auto simp: line_ok_def shell_text_def)
  then have "does sh (shell_text sh) (sh_cursor sh) ?u"
    by (intro doesI [of _ _ _ _ "[]"]) (auto simp: edited_def shell_text_def intro: exI)
  then show ?thesis using False a by (auto simp: shell_cut_def)
qed

section \<open>Reformatting\<close>

text \<open>A space is kept only after a character that is not one.\<close>

fun squeeze :: "bool \<Rightarrow> string \<Rightarrow> string" where
  "squeeze sp [] = []"
| "squeeze sp (c # cs) =
    (if c = CHR '' '' then (if sp then squeeze True cs else c # squeeze True cs)
     else c # squeeze False cs)"

definition after_space :: "bool \<Rightarrow> string \<Rightarrow> bool" where
  "after_space sp cs = (if cs = [] then sp else last cs = CHR '' '')"

lemma squeeze_append: "squeeze sp (xs @ ys) = squeeze sp xs @ squeeze (after_space sp xs) ys"
  by (induction sp xs rule: squeeze.induct) (auto simp: after_space_def)

lemma squeeze_set: "set (squeeze sp xs) \<subseteq> set xs"
  by (induction sp xs rule: squeeze.induct) auto

lemma squeeze_length: "length (squeeze sp xs) \<le> length xs"
  by (induction sp xs rule: squeeze.induct) auto

lemma squeeze_idem: "squeeze sp (squeeze sp xs) = squeeze sp xs"
  by (induction sp xs rule: squeeze.induct) auto

lemma squeeze_words: "filter (\<lambda>c. c \<noteq> CHR '' '') (squeeze sp xs) = filter (\<lambda>c. c \<noteq> CHR '' '') xs"
  by (induction sp xs rule: squeeze.induct) auto

lemma squeeze_no_double: "squeeze sp xs \<noteq> us @ CHR '' '' # CHR '' '' # vs"
proof (induction xs arbitrary: sp us)
  case (Cons c cs)
  have hd: "squeeze True cs \<noteq> CHR '' '' # w" for w by (induction cs) (auto split: if_splits)
  show ?case
    using Cons.IH hd by (auto simp: Cons_eq_append_conv)
qed simp

lemma squeeze_no_leading: "squeeze True xs \<noteq> CHR '' '' # vs"
  by (induction xs) (auto split: if_splits)

lemma format_loop_squeeze:
  "0 < i \<Longrightarrow> format_loop cursor i count nc cs =
    (squeeze (0 < count) cs, nc + length (squeeze (0 < count) (take (cursor - i) cs)))"
proof (induction cursor i count nc cs rule: format_loop.induct)
  case (2 cursor i count nc c cs)
  show ?case
  proof (cases "i < cursor")
    case True
    then have "cursor - i = Suc (cursor - Suc i)" by simp
    with 2 True show ?thesis by (auto simp: Let_def split: prod.splits)
  next
    case False
    with 2 show ?thesis by (auto simp: Let_def split: prod.splits)
  qed
qed simp

lemma format_loop_start:
  "format_loop cursor 0 0 0 cs = (squeeze True cs, length (squeeze True (take cursor cs)))"
proof (cases cs)
  case (Cons c cs')
  show ?thesis
    by (cases cursor) (auto simp: Cons format_loop_squeeze Let_def split: prod.splits)
qed simp

lemma format_does:
  assumes ok: "line_ok sh" and mem: mem
  shows "does sh (squeeze True (shell_text sh)) (length (squeeze True (take (sh_cursor sh) (shell_text sh))))
    (shell_format mem sh)" "sh_cut_buffer (shell_format mem sh) = sh_cut_buffer sh"
proof -
  let ?t = "shell_text sh" and ?c = "sh_cursor sh" and ?e = "sh_end sh"
  let ?q = "squeeze True ?t" and ?nc = "length (squeeze True (take ?c ?t))"
  have len: "length ?t = ?e" and c: "?c \<le> ?e" "?e < length (sh_line sh)" and clean: "list_all clean ?t"
    using ok line_split [OF ok] by (auto simp: line_ok_def)
  have q: "length ?q \<le> ?e" using squeeze_length [of True ?t] len by simp
  have cq: "list_all clean ?q" using clean squeeze_set [of True ?t] by (auto simp: list_all_iff)
  have nc: "?nc \<le> length ?q"
    using squeeze_append [of True "take ?c ?t" "drop ?c ?t"] by simp
  let ?w = "replicate ?c BS @ ?q @ replicate (?e - length ?q) CHR '' '' @ replicate (?e - ?nc) BS"
  let ?r = "(write_fd ?w sh)\<lparr>sh_line := ?q @ replicate (length (sh_line sh) - length ?q) NUL,
      sh_cursor := ?nc, sh_end := length ?q\<rparr>"
  have r: "shell_format mem sh = ?r"
    using mem c unfolding shell_format_def
    by (simp add: shell_text_def [symmetric] format_loop_start cstr_all_clean [OF cq] Let_def) (simp add: write_fd_def)
  show "sh_cut_buffer (shell_format mem sh) = sh_cut_buffer sh" by (simp add: r)
  have tx: "shell_text ?r = ?q" unfolding shell_text_def [of ?r] by simp
  have "does sh ?q ?nc ?r"
  proof (rule doesI)
    show "edited sh ?r" by (simp add: edited_def write_fd_def)
    show "line_ok ?r" using ok q c nc cq tx by (auto simp: line_ok_def nth_append)
    show "sh_out ?r = sh_out sh @ ?w" if "0 \<le> sh_writefd sh" using that by simp
    define v where "v = ?q @ replicate (?e - length ?q) CHR '' ''"
    have v: "list_all clean v" "length v = ?e" using cq q by (auto simp: v_def)
    have "fold put ?w (?t @ replicate k CHR '' '', ?c) = (v @ replicate k CHR '' '', ?nc)" for k
    proof -
      have "fold put ?w (?t @ replicate k CHR '' '', ?c) = fold put (replicate ?c BS @ v @ replicate (?e - ?nc) BS) (?t @ replicate k CHR '' '', ?c)"
        by (simp add: v_def)
      also have "\<dots> = (v @ replicate k CHR '' '', ?nc)"
        using v len nc q by (simp add: put_clean)
      finally show ?thesis .
    qed
    then show "\<exists>k'. fold put ?w (?t @ replicate k CHR '' '', ?c) = (?q @ replicate k' CHR '' '', ?nc)" for k
      by (auto simp: v_def replicate_add [symmetric])
  qed (simp_all add: tx)
  then show "does sh ?q ?nc (shell_format mem sh)" by (simp add: r)
qed

section \<open>Words\<close>

abbreviation plain :: "(char \<Rightarrow> bool) \<Rightarrow> char \<Rightarrow> bool" where
  "plain d c \<equiv> \<not> d c"

definition run_before :: "(char \<Rightarrow> bool) \<Rightarrow> string \<Rightarrow> nat \<Rightarrow> nat" where
  "run_before d t p = length (takeWhile (plain d) (rev (take p t)))"

definition run_after :: "(char \<Rightarrow> bool) \<Rightarrow> string \<Rightarrow> nat \<Rightarrow> nat" where
  "run_after d t p = length (takeWhile (plain d) (drop p t))"

text \<open>The head of the word before or at a position: back over delimiters, then over the word.\<close>

definition skip_back :: "(char \<Rightarrow> bool) \<Rightarrow> string \<Rightarrow> nat \<Rightarrow> string" where
  "skip_back d t p = dropWhile d (rev (take p t))"

definition word_back :: "(char \<Rightarrow> bool) \<Rightarrow> string \<Rightarrow> nat \<Rightarrow> nat" where
  "word_back d t p = length (dropWhile (plain d) (skip_back d t p))"

lemma run_before_le: "run_before d t p \<le> p"
  unfolding run_before_def using length_takeWhile_le [of "plain d" "rev (take p t)"] by simp

lemma word_back_le: "word_back d t p \<le> p"
  unfolding word_back_def skip_back_def
  using length_dropWhile_le [of "plain d" "dropWhile d (rev (take p t))"] length_dropWhile_le [of d "rev (take p t)"]
  by simp

lemma word_back_run: "0 < run_before d t p \<Longrightarrow> word_back d t p = min p (length t) - run_before d t p"
proof -
  assume "0 < run_before d t p"
  then obtain c cs where "rev (take p t) = c # cs" "\<not> d c"
    by (cases "rev (take p t)") (auto simp: run_before_def split: if_splits)
  then have "dropWhile d (rev (take p t)) = rev (take p t)" by simp
  moreover have "length (takeWhile (plain d) (rev (take p t))) + length (dropWhile (plain d) (rev (take p t))) = min p (length t)"
    by (metis length_append length_rev length_take takeWhile_dropWhile_id min.commute)
  ultimately show ?thesis by (simp add: word_back_def skip_back_def run_before_def)
qed


lemma takeWhile_stop: "(\<And>x. x \<in> set xs \<Longrightarrow> P x) \<Longrightarrow> \<not> P y \<Longrightarrow> takeWhile P (xs @ y # ys) = xs"
  by (induction xs) auto

lemma split_token:
  fixes d s
  defines "tk \<equiv> takeWhile (plain d) s"
  obtains "s = tk" "tokens d off s = [(off, length tk)]"
  | e rest where "s = tk @ e # rest" "d e" "tokens d off s = (off, length tk) # tokens d (off + length tk + 1) rest"
proof (cases "dropWhile (plain d) s")
  case Nil
  then have "s = tk" unfolding tk_def by (metis append_Nil2 takeWhile_dropWhile_id)
  moreover have "tokens d off s = [(off, length tk)]" by (subst tokens.simps) (simp only: Nil tk_def list.case)
  ultimately show ?thesis by (rule that(1))
next
  case (Cons e rest)
  then have "s = tk @ e # rest" unfolding tk_def by (metis takeWhile_dropWhile_id)
  moreover have "d e" using Cons by (metis dropWhile_eq_Cons_conv)
  moreover have "tokens d off s = (off, length tk) # tokens d (off + length tk + 1) rest"
    by (subst tokens.simps) (simp only: Cons tk_def list.case)
  ultimately show ?thesis by (rule that(2))
qed

lemma token_plain: "x \<in> set (takeWhile (plain d) s) \<Longrightarrow> \<not> d x"
  by (metis set_takeWhileD)

lemma run_in_token:
  assumes "tk = takeWhile (plain d) s" "q \<le> length tk"
  shows "run_before d s q = q" "run_after d s q = length tk - q"
proof -
  have s: "s = tk @ dropWhile (plain d) s" using assms(1) by (metis takeWhile_dropWhile_id)
  have pl: "x \<in> set tk \<Longrightarrow> \<not> d x" for x using assms(1) token_plain by metis
  have tq: "take q s = take q tk" using assms(2) by (subst s) simp
  have tw: "takeWhile (plain d) (rev (take q tk)) = rev (take q tk)"
    by (rule takeWhile_eq_all_conv [THEN iffD2]) (auto dest!: in_set_takeD pl)
  show "run_before d s q = q" unfolding run_before_def tq tw using assms(2) by simp
  have "drop q s = drop q tk @ dropWhile (plain d) s" using assms(2) by (subst s) simp
  moreover have "takeWhile (plain d) (dropWhile (plain d) s) = []"
    by (induction s) auto
  moreover have "takeWhile (plain d) (drop q tk @ r) = drop q tk @ takeWhile (plain d) r" for r
    by (rule takeWhile_append2) (auto dest!: in_set_dropD pl)
  ultimately show "run_after d s q = length tk - q" by (simp add: run_after_def)
qed

lemma run_past_token:
  assumes "d e"
  shows "run_before d (tk @ e # rest) (length tk + 1 + q) = run_before d rest q"
    "run_after d (tk @ e # rest) (length tk + 1 + q) = run_after d rest q"
proof -
  have "takeWhile (plain d) (xs @ e # ys) = takeWhile (plain d) xs" for xs ys
    using assms by (induction xs) auto
  then show "run_before d (tk @ e # rest) (length tk + 1 + q) = run_before d rest q"
    by (simp add: run_before_def)
qed (simp add: run_after_def)

text \<open>What the head and the end of the word at a position are, given the word the loop stops at.\<close>

lemma word_loop_runs:
  "off \<le> p \<Longrightarrow> p \<le> off + length s \<Longrightarrow> fst w + snd w < off \<or> (off = 0 \<and> w = (0, snd (hd (tokens d 0 s)))) \<Longrightarrow>
   r = word_loop p w (tokens d off s) \<Longrightarrow>
   (if fst r + snd r < p then p else fst r) = p - run_before d s (p - off) \<and>
   (if fst r + snd r < p then p else fst r + snd r) = p + run_after d s (p - off)"
proof (induction "length s" arbitrary: s off w r rule: less_induct)
  case less
  let ?tk = "takeWhile (plain d) s"
  define w1 where "w1 = (if length ?tk \<noteq> 0 then (off, length ?tk) else w)"
  have w: "fst w \<le> p" using less.prems by auto
  have in_tk: "(if fst w1 + snd w1 < p then p else fst w1) = p - run_before d s (p - off) \<and>
      (if fst w1 + snd w1 < p then p else fst w1 + snd w1) = p + run_after d s (p - off)"
    if "p \<le> off + length ?tk"
  proof (cases "length ?tk = 0")
    case True
    then have "p = off" "hd (tokens d 0 s) = (0, 0)" using that less.prems(1) by (auto simp: tokens.simps)
    then show ?thesis
      using True less.prems(3) run_in_token [OF refl, of "p - off" d s] that by (auto simp: w1_def)
  next
    case False
    then show ?thesis
      using that less.prems(1) run_in_token [OF refl, of "p - off" d s] by (auto simp: w1_def)
  qed
  show ?case
  proof (rule split_token [of s d off])
    assume s: "s = ?tk" "tokens d off s = [(off, length ?tk)]"
    have r: "r = w1" using less.prems(1,4) s(2) by (simp add: w1_def)
    have "p \<le> off + length ?tk" using less.prems(2) s(1) by simp
    then show ?thesis unfolding r by (rule in_tk)
  next
    fix e rest
    assume s: "s = ?tk @ e # rest" "d e" "tokens d off s = (off, length ?tk) # tokens d (off + length ?tk + 1) rest"
    let ?off = "off + length ?tk + 1"
    have r: "r = word_loop p w1 (tokens d ?off rest)"
      using less.prems(1,4) s(3) by (simp add: w1_def)
    show ?thesis
    proof (cases "p \<le> off + length ?tk")
      case True
      have "fst w1 \<le> p" using w less.prems(1) by (simp add: w1_def)
      then have "r = w1" using True r by (subst (asm) tokens.simps) simp
      then show ?thesis using in_tk [OF True] by (simp only:)
    next
      case False
      have ls: "length s = length ?tk + 1 + length rest" using arg_cong [OF s(1), of length] by simp
      then have "length rest < length s" by simp
      moreover have "?off \<le> p" using False by simp
      moreover have "p \<le> ?off + length rest" using less.prems(2) ls by simp
      moreover have "fst w1 + snd w1 < ?off" using less.prems(3) by (auto simp: w1_def tokens.simps)
      ultimately have "(if fst r + snd r < p then p else fst r) = p - run_before d rest (p - ?off) \<and>
          (if fst r + snd r < p then p else fst r + snd r) = p + run_after d rest (p - ?off)"
        using less.hyps [of rest ?off w1 r] r by blast
      moreover have "p - off = length ?tk + 1 + (p - ?off)" using False by simp
      then have "run_before d s (p - off) = run_before d rest (p - ?off)"
          "run_after d s (p - off) = run_after d rest (p - ?off)"
        using run_past_token [of d e ?tk rest "p - ?off", OF s(2)] s(1) by metis+
      ultimately show ?thesis by simp
    qed
  qed
qed

lemma dropWhile_into: "\<not> P y \<Longrightarrow> length (dropWhile P (xs @ y # ys)) = length (dropWhile P xs) + 1 + length ys"
  by (induction xs) auto

lemma back_past_token:
  assumes "d e" "tk = takeWhile (plain d) s" "s = tk @ e # rest"
  shows "skip_back d s (length tk + 1 + q) =
      (if skip_back d rest q = [] then rev tk else skip_back d rest q @ e # rev tk)"
    "skip_back d rest q \<noteq> [] \<Longrightarrow> word_back d s (length tk + 1 + q) = length tk + 1 + word_back d rest q"
    "dropWhile (plain d) (rev tk) = []"
proof -
  have pl: "x \<in> set tk \<Longrightarrow> \<not> d x" for x unfolding assms(2) by (rule token_plain)
  have t: "rev (take (length tk + 1 + q) (tk @ e # rest)) = rev (take q rest) @ e # rev tk" by simp
  have tk: "dropWhile d (rev tk) = rev tk"
  proof (cases "rev tk")
    case (Cons a l)
    then have "a \<in> set tk" by (metis list.set_intros(1) set_rev)
    then have "\<not> d a" by (rule pl)
    then show ?thesis by (simp add: Cons)
  qed simp
  have split: "dropWhile d (xs @ e # rev tk) = (if dropWhile d xs = [] then rev tk else dropWhile d xs @ e # rev tk)" for xs
    using assms(1) tk by (induction xs) auto
  show 1: "skip_back d s (length tk + 1 + q) =
      (if skip_back d rest q = [] then rev tk else skip_back d rest q @ e # rev tk)"
    unfolding assms(3) skip_back_def t by (rule split)
  show "word_back d s (length tk + 1 + q) = length tk + 1 + word_back d rest q"
    if "skip_back d rest q \<noteq> []"
    unfolding word_back_def 1 using that assms(1) by (simp add: dropWhile_into)
  show "dropWhile (plain d) (rev tk) = []" using pl by (simp add: dropWhile_eq_Nil_conv)
qed

lemma prev_loop_back:
  "off \<le> p \<Longrightarrow> p \<le> off + length s \<Longrightarrow> run_before d s (p - off) = 0 \<Longrightarrow>
   prev_loop p prv (tokens d off s) =
    (if skip_back d s (p - off) = [] then prv else off + word_back d s (p - off))"
proof (induction "length s" arbitrary: s off prv rule: less_induct)
  case less
  let ?tk = "takeWhile (plain d) s"
  show ?case
  proof (cases "p \<le> off + length ?tk")
    case True
    then have "p = off" using run_in_token(1) [OF refl, of "p - off" d s] less.prems by simp
    then show ?thesis by (subst tokens.simps) (simp add: skip_back_def)
  next
    case False
    show ?thesis
    proof (rule split_token [of s d off])
      assume "s = ?tk"
      then have "length s = length ?tk" by simp
      then show ?thesis using False less.prems(2) by simp
    next
      fix e rest
      assume s: "s = ?tk @ e # rest" "d e" "tokens d off s = (off, length ?tk) # tokens d (off + length ?tk + 1) rest"
      let ?off = "off + length ?tk + 1" and ?prv = "if length ?tk \<noteq> 0 then off else prv"
      let ?q = "p - ?off"
      have ls: "length s = length ?tk + 1 + length rest" using arg_cong [OF s(1), of length] by simp
      have q: "p - off = length ?tk + 1 + ?q" using False by simp
      have "run_before d rest ?q = 0"
        using run_past_token(1) [of d e ?tk rest ?q, OF s(2)] s(1) q less.prems(3) by metis
      then have ih: "prev_loop p ?prv (tokens d ?off rest) =
          (if skip_back d rest ?q = [] then ?prv else ?off + word_back d rest ?q)"
        using False ls less.prems by (intro less.hyps) simp_all
      have "prev_loop p prv (tokens d off s) = prev_loop p ?prv (tokens d ?off rest)"
        using False s(3) by simp
      moreover note b = back_past_token(1,2) [OF s(2) refl s(1), of ?q, folded q] back_past_token(3) [OF s(2) refl s(1)]
      have "word_back d s (p - off) = 0" if "skip_back d rest ?q = []"
        unfolding word_back_def b(1) using that b(3) by simp
      ultimately show ?thesis
        using ih b by simp
    qed
  qed
qed

lemma next_loop_runs:
  "off \<le> p \<Longrightarrow> p \<le> off + length s \<Longrightarrow>
   next_loop p False (tokens d off s) =
    (let e = p - off + run_after d s (p - off)
     in if e + 1 < length s \<and> \<not> d (s ! (e + 1)) then Some (off + e + 1) else None)"
proof (induction "length s" arbitrary: s off rule: less_induct)
  case less
  let ?tk = "takeWhile (plain d) s"
  show ?case
  proof (rule split_token [of s d off])
    assume s: "s = ?tk" "tokens d off s = [(off, length ?tk)]"
    have "length s = length ?tk" using s(1) by simp
    then show ?thesis using s(2) less.prems run_in_token(2) [OF refl, of "p - off" d s] by simp
  next
    fix e rest
    assume s: "s = ?tk @ e # rest" "d e" "tokens d off s = (off, length ?tk) # tokens d (off + length ?tk + 1) rest"
    let ?off = "off + length ?tk + 1"
    have ls: "length s = length ?tk + 1 + length rest" using arg_cong [OF s(1), of length] by simp
    have nth: "s ! (length ?tk + 1 + i) = rest ! i" for i
      using arg_cong [OF s(1), of "\<lambda>x. x ! (length ?tk + 1 + i)"] by (simp add: nth_append)
    show ?thesis
    proof (cases "p \<le> off + length ?tk")
      case True
      then have "p - off + run_after d s (p - off) = length ?tk"
        using run_in_token(2) [OF refl, of "p - off" d s] less.prems by simp
      moreover have "next_loop p True (tokens d ?off rest) =
          (if rest \<noteq> [] \<and> \<not> d (rest ! 0) then Some ?off else None)"
        by (subst tokens.simps) (cases rest, auto)
      ultimately show ?thesis
        using True less.prems(1) s(3) ls nth [of 0] by (auto simp: Let_def)
    next
      case False
      let ?q = "p - ?off"
      have q: "p - off = length ?tk + 1 + ?q" using False by simp
      have r: "run_after d s (p - off) = run_after d rest ?q"
        using run_past_token(2) [of d e ?tk rest ?q, OF s(2)] s(1) q by metis
      define i where "i = ?q + run_after d rest ?q"
      have e: "p - off + run_after d s (p - off) = length ?tk + 1 + i" by (simp add: i_def r) (simp add: q)
      have "next_loop p False (tokens d ?off rest) =
          (let e = i in if e + 1 < length rest \<and> \<not> d (rest ! (e + 1)) then Some (?off + e + 1) else None)"
        unfolding i_def using False ls less.prems by (intro less.hyps) simp_all
      then show ?thesis
        using False s(3) ls nth [of "i + 1"] unfolding e by (simp add: Let_def)
    qed
  qed
qed


section \<open>The word operations\<close>

lemma current_word_runs:
  assumes "line_ok sh" "p \<le> sh_end sh" "r = current_word d p (sh_line sh)"
  shows "(if fst r + snd r < p then p else fst r) = p - run_before d (shell_text sh) p"
    "(if fst r + snd r < p then p else fst r + snd r) = p + run_after d (shell_text sh) p"
  using word_loop_runs [of 0 p "shell_text sh" "(0, snd (hd (tokens d 0 (shell_text sh))))" d r] assms line_split(2) [OF assms(1)]
  by (simp_all add: current_word_def cstr_line Let_def)

lemma word_head_val:
  "line_ok sh \<Longrightarrow> p \<le> sh_end sh \<Longrightarrow> word_head d p sh = Inr (p - run_before d (shell_text sh) p, sh)"
  by (simp add: word_head_def terminate_ok Let_def current_word_runs(1) [OF _ _ refl])

lemma word_end_val:
  "line_ok sh \<Longrightarrow> p \<le> sh_end sh \<Longrightarrow>
   shell_word_end p sh = Inr (p + run_after SHELL_WORD_DELIMITERS (shell_text sh) p, sh)"
  by (simp add: shell_word_end_def terminate_ok Let_def current_word_runs(2) [OF _ _ refl])

lemma word_prev_val:
  assumes "line_ok sh" "p \<le> sh_end sh" "run_before d (shell_text sh) p = 0"
  shows "word_prev_head d p sh = Inr (word_back d (shell_text sh) p, sh)"
  using prev_loop_back [of 0 p "shell_text sh" d 0] assms line_split(2) [OF assms(1)]
  by (auto simp: word_prev_head_def terminate_ok cstr_line word_back_def split: if_splits)

definition next_word :: "string \<Rightarrow> nat \<Rightarrow> nat" where
  "next_word t p =
    (let e = p + run_after SHELL_WORD_DELIMITERS t p
     in if e + 1 < length t \<and> t ! (e + 1) \<noteq> CHR '' '' then e + 1 else length t)"

lemma word_next_val:
  assumes "line_ok sh" "p \<le> sh_end sh"
  shows "shell_word_next_head p sh = Inr (next_word (shell_text sh) p, sh)"
  using next_loop_runs [of 0 p "shell_text sh" SHELL_WORD_DELIMITERS] assms line_split(2) [OF assms(1)]
  by (simp add: shell_word_next_head_def terminate_ok cstr_line next_word_def Let_def SHELL_WORD_DELIMITERS_def)

lemma backward_start_val:
  assumes ok: "line_ok sh"
  shows "backward_start sh = Inr (word_back SHELL_WORD_DELIMITERS_SUB (shell_text sh) (sh_cursor sh), sh)"
proof -
  let ?t = "shell_text sh" and ?p = "sh_cursor sh"
  have p: "?p \<le> sh_end sh" "length ?t = sh_end sh" using ok line_split(2) [OF ok] by (auto simp: line_ok_def)
  have le: "run_before SHELL_WORD_DELIMITERS_SUB ?t ?p \<le> ?p" by (rule run_before_le)
  show ?thesis
  proof (cases "run_before SHELL_WORD_DELIMITERS_SUB ?t ?p = 0")
    case True
    then show ?thesis
      using word_head_val [OF ok p(1)] word_prev_val [OF ok p(1)]
      by (simp add: backward_start_def shell_subword_head_def shell_subword_prev_head_def)
  next
    case False
    then have "?p - run_before SHELL_WORD_DELIMITERS_SUB ?t ?p \<noteq> ?p" using le by linarith
    then show ?thesis
      using word_head_val [OF ok p(1)] word_back_run [of SHELL_WORD_DELIMITERS_SUB ?t ?p] False p
      by (simp add: backward_start_def shell_subword_head_def min_def)
  qed
qed

lemma delete_word_does:
  assumes ok: "line_ok sh" and b: "b = word_back SHELL_WORD_DELIMITERS_SUB (shell_text sh) (sh_cursor sh)"
  shows "\<exists>sh'. shell_delete_word_backward mem sh = Inr sh' \<and>
    sh_cut_buffer sh' = (if mem \<and> b < sh_cursor sh then Some (load b (sh_cursor sh - b) (shell_text sh)) else None) \<and>
    does sh (take b (shell_text sh) @ drop (sh_cursor sh) (shell_text sh)) b sh'"
proof -
  have le: "b \<le> sh_cursor sh" "sh_cursor sh \<le> sh_end sh" using word_back_le ok b by (auto simp: line_ok_def)
  from cut_does [OF ok le le(1), of mem] le show ?thesis
    by (auto simp: shell_delete_word_backward_def backward_start_val [OF ok] b [symmetric] split: if_splits)
qed

lemma next_word_le: "p \<le> length t \<Longrightarrow> next_word t p \<le> length t"
  by (auto simp: next_word_def Let_def)

lemma move_back_does:
  assumes ok: "line_ok sh"
  shows "\<exists>sh'. shell_move_word_backward sh = Inr sh' \<and>
    does sh (shell_text sh) (word_back SHELL_WORD_DELIMITERS_SUB (shell_text sh) (sh_cursor sh)) sh'"
proof -
  let ?b = "word_back SHELL_WORD_DELIMITERS_SUB (shell_text sh) (sh_cursor sh)"
  have "?b \<le> sh_end sh" using word_back_le [of SHELL_WORD_DELIMITERS_SUB "shell_text sh" "sh_cursor sh"] ok
    by (auto simp: line_ok_def)
  from moveto_does [OF ok this] show ?thesis by (simp add: shell_move_word_backward_def backward_start_val [OF ok])
qed

lemma move_forward_does:
  assumes ok: "line_ok sh"
  shows "\<exists>sh'. shell_move_word_forward sh = Inr sh' \<and>
    does sh (shell_text sh) (next_word (shell_text sh) (sh_cursor sh)) sh'"
proof -
  have c: "sh_cursor sh \<le> sh_end sh" "length (shell_text sh) = sh_end sh"
    using ok line_split(2) [OF ok] by (auto simp: line_ok_def)
  then have "next_word (shell_text sh) (sh_cursor sh) \<le> sh_end sh" using next_word_le by metis
  from moveto_does [OF ok this] c show ?thesis by (simp add: shell_move_word_forward_def word_next_val [OF ok])
qed

end
