(* ===== verification/Keyfunc.thy ===== *)
theory Keyfunc
  imports Line_Edit
begin

text \<open>
  The key functions of \<open>lib/zcmdsh/shell_keyfunc.c\<close> and the keymaps for the normal and the
  escaped state. \<open>mem\<close> is the outcome of the allocations a function makes.
\<close>

section \<open>The key functions\<close>

definition shell_keyfunc_forward_char :: "'z shell_scheme \<Rightarrow> 'z shell_scheme" where
  "shell_keyfunc_forward_char sh = shell_forward 1 sh"

definition shell_keyfunc_backward_char :: "'z shell_scheme \<Rightarrow> 'z shell_scheme" where
  "shell_keyfunc_backward_char sh = shell_backward 1 sh"

definition shell_keyfunc_move_to_begin :: "'z shell_scheme \<Rightarrow> 'z shell_scheme" where
  "shell_keyfunc_move_to_begin sh = shell_backward (sh_cursor sh) sh"

definition shell_keyfunc_move_to_end :: "'z shell_scheme \<Rightarrow> 'z shell_scheme" where
  "shell_keyfunc_move_to_end sh = shell_forward (sh_end sh - sh_cursor sh) sh"

definition shell_keyfunc_delete_char :: "'z shell_scheme \<Rightarrow> 'z shell_scheme res" where
  "shell_keyfunc_delete_char sh =
    (if sh_cursor sh < sh_end sh then shell_delete_string (sh_cursor sh) (sh_cursor sh + 1) sh else Inr sh)"

definition shell_keyfunc_backspace :: "bool \<Rightarrow> 'z shell_scheme \<Rightarrow> 'z shell_scheme res" where
  "shell_keyfunc_backspace mem sh =
    (if sh_cursor sh = 0 then Inr sh
     else if flag_check (sh_flag sh) SHELL_FLAG_ESCAPE then shell_delete_word_backward mem sh
     else let sh = shell_backward 1 sh in shell_delete_string (sh_cursor sh) (sh_cursor sh + 1) sh)"

definition shell_keyfunc_kill_line :: "bool \<Rightarrow> 'z shell_scheme \<Rightarrow> 'z shell_scheme res" where
  "shell_keyfunc_kill_line mem sh = shell_cut mem (sh_cursor sh) (sh_end sh) sh"

definition shell_keyfunc_kill_all :: "bool \<Rightarrow> 'z shell_scheme \<Rightarrow> 'z shell_scheme res" where
  "shell_keyfunc_kill_all mem sh =
    (let sh = shell_backward (sh_cursor sh) sh in shell_cut mem 0 (sh_end sh) sh)"

definition shell_keyfunc_yank :: "bool \<Rightarrow> 'z shell_scheme \<Rightarrow> 'z shell_scheme res" where
  "shell_keyfunc_yank mem sh =
    (case sh_cut_buffer sh of None \<Rightarrow> Inr sh | Some s \<Rightarrow> shell_insert mem s sh)"

definition clear_sequence :: string where
  "clear_sequence = [CHR 0x1B, CHR ''['', CHR ''2'', CHR ''J'', CHR 0x1B, CHR ''['', CHR ''1'', CHR '';'', CHR ''1'', CHR ''H'']"

definition shell_keyfunc_clear_screen :: "bool \<Rightarrow> 'z shell_scheme \<Rightarrow> 'z shell_scheme res" where
  "shell_keyfunc_clear_screen mem sh =
    bindr (print_term clear_sequence sh) (\<lambda>sh. Inr (shell_refresh (shell_format mem sh)))"

definition shell_keyfunc_refresh :: "bool \<Rightarrow> 'z shell_scheme \<Rightarrow> 'z shell_scheme res" where
  "shell_keyfunc_refresh mem sh =
    bindr (shell_linefeed (shell_format mem sh)) (\<lambda>sh. Inr (shell_refresh sh))"

definition shell_keyfunc_empty_enter :: "'z shell_scheme \<Rightarrow> 'z shell_scheme res" where
  "shell_keyfunc_empty_enter sh =
    bindr (shell_linefeed sh) (\<lambda>sh. Inr (shell_prompt (shell_clear sh)))"

definition shell_keyfunc_insert_tab :: "bool \<Rightarrow> 'z shell_scheme \<Rightarrow> 'z shell_scheme res" where
  "shell_keyfunc_insert_tab mem sh = shell_insert mem ''<tab>'' sh"

definition shell_keyfunc_escape :: "'z shell_scheme \<Rightarrow> 'z shell_scheme" where
  "shell_keyfunc_escape sh = sh\<lparr>sh_flag := flag_set (sh_flag sh) SHELL_FLAG_ESCAPE\<rparr>"

definition shell_keyfunc_delete_word_backward :: "bool \<Rightarrow> 'z shell_scheme \<Rightarrow> 'z shell_scheme res" where
  "shell_keyfunc_delete_word_backward mem sh = shell_delete_word_backward mem sh"

definition shell_keyfunc_delete_char_advanced :: "'z shell_scheme \<Rightarrow> 'z shell_scheme res" where
  "shell_keyfunc_delete_char_advanced sh =
    (if sh_cursor sh < sh_end sh then shell_delete_string (sh_cursor sh) (sh_cursor sh + 1) sh
     else if 0 < sh_end sh then shell_delete_string (sh_end sh - 1) (sh_end sh) sh
     else Inr sh)"

definition vty_shell_keyfunc_normal :: "'z shell_scheme \<Rightarrow> 'z shell_scheme" where
  "vty_shell_keyfunc_normal sh = sh\<lparr>sh_keymap := Normal\<rparr>"

definition vty_shell_move_word_backward :: "'z shell_scheme \<Rightarrow> 'z shell_scheme res" where
  "vty_shell_move_word_backward sh =
    bindr (shell_move_word_backward sh) (\<lambda>sh. Inr (vty_shell_keyfunc_normal sh))"

definition vty_shell_move_word_forward :: "'z shell_scheme \<Rightarrow> 'z shell_scheme res" where
  "vty_shell_move_word_forward sh =
    bindr (shell_move_word_forward sh) (\<lambda>sh. Inr (vty_shell_keyfunc_normal sh))"

definition vty_shell_delete_word_backward :: "bool \<Rightarrow> 'z shell_scheme \<Rightarrow> 'z shell_scheme res" where
  "vty_shell_delete_word_backward mem sh =
    bindr (shell_delete_word_backward mem sh) (\<lambda>sh. Inr (vty_shell_keyfunc_normal sh))"

definition vty_shell_keyfunc_escape_1 :: "'z shell_scheme \<Rightarrow> 'z shell_scheme" where
  "vty_shell_keyfunc_escape_1 sh = sh\<lparr>sh_keymap := Escape1\<rparr>"

definition vty_shell_keyfunc_escape_2 :: "'z shell_scheme \<Rightarrow> 'z shell_scheme" where
  "vty_shell_keyfunc_escape_2 sh = sh\<lparr>sh_keymap := Escape2\<rparr>"

section \<open>The keymaps\<close>

definition default_keymap :: "keyfunc option list" where
  "default_keymap =
    [None, Some K_move_to_begin, Some K_backward_char, None, Some K_delete_char, Some K_move_to_end,
     Some K_forward_char, None, Some K_backspace, Some K_insert_tab, Some K_empty_enter,
     Some K_kill_line, Some K_clear_screen, Some K_empty_enter, None, None,
     None, None, Some K_refresh, None, None, Some K_kill_all, None, Some K_delete_word_backward,
     None, Some K_yank, None, Some K_escape, None, None, None, None] @
    replicate 95 (Some K_input_char) @ [Some K_delete_char_advanced] @ replicate 128 None"

definition key_func_escape_1 :: "keyfunc option list" where
  "key_func_escape_1 = (replicate 256 (Some K_normal))
    [98 := Some K_vty_word_backward, 102 := Some K_vty_word_forward, 8 := Some K_vty_delete_word,
     0x7F := Some K_vty_delete_word, 91 := Some K_escape_2]"

definition key_func_escape_2 :: "keyfunc option list" where
  "key_func_escape_2 = replicate 256 (Some K_normal)"

definition shell_escape_keyfunc_init :: "'z shell_scheme \<Rightarrow> 'z shell_scheme" where
  "shell_escape_keyfunc_init sh = shell_install 27 K_escape_1 sh"

section \<open>Creating a shell\<close>

definition INITIAL_COMMAND_LINE_SIZE :: nat where "INITIAL_COMMAND_LINE_SIZE = 32"

text \<open>\<open>others\<close> is the zeroed rest of the structure.\<close>

definition shell_create :: "bool \<Rightarrow> 'z \<Rightarrow> 'z shell_scheme" where
  "shell_create mem others = shell_set_prompt mem ''prompt> ''
    \<lparr>sh_readfd = -1, sh_writefd = -1, sh_open = False, sh_flag = SHELL_FLAG_INTERACTIVE,
     sh_nl = [CHR 0x0A], sh_prompt = '''', sh_prompt_size = 0,
     sh_line = replicate INITIAL_COMMAND_LINE_SIZE NUL, sh_cursor = 0, sh_end = 0,
     sh_cut_buffer = None, sh_inputch = 0, sh_keymap = Normal, sh_keymap_normal = default_keymap,
     sh_out = '''', sh_term = '''', \<dots> = others\<rparr>"

end
