(* ===== verification/Telnet.thy ===== *)
theory Telnet
  imports Keyfunc
begin

text \<open>
  Telnet option negotiation in the key stream: \<open>lib/zcmdsh/shell_telnet.c\<close>. The shell
  structure is extended by the telnet fields and the window size. \<open>char\<close> is signed, as on the
  platforms the program is built for; the constants are those of \<open>arpa/telnet.h\<close>.
\<close>

section \<open>State and constants\<close>

record tshell = shell +
  tn_cmd :: u8
  tn_opt :: u8
  tn_size :: nat
  tn_buf :: bytes
  ws_row :: u16
  ws_col :: u16

definition IAC :: u8 where "IAC = 255"
definition DONT :: u8 where "DONT = 254"
definition DO :: u8 where "DO = 253"
definition WONT :: u8 where "WONT = 252"
definition WILL :: u8 where "WILL = 251"
definition SB :: u8 where "SB = 250"
definition SE :: u8 where "SE = 240"
definition TELOPT_ECHO :: u8 where "TELOPT_ECHO = 1"
definition TELOPT_SGA :: u8 where "TELOPT_SGA = 3"
definition TELOPT_NAWS :: u8 where "TELOPT_NAWS = 31"
definition TELOPT_LINEMODE :: u8 where "TELOPT_LINEMODE = 34"

lemmas telnet_consts = IAC_def DONT_def DO_def WONT_def WILL_def SB_def SE_def TELOPT_ECHO_def
  TELOPT_SGA_def TELOPT_NAWS_def TELOPT_LINEMODE_def

definition telcmds2str :: "u8 \<Rightarrow> string" where
  "telcmds2str c = (case map_of
    [(255, ''IAC''), (254, ''DONT''), (253, ''DO''), (252, ''WONT''), (251, ''WILL''),
     (250, ''SB''), (249, ''GA''), (248, ''EL''), (247, ''EC''), (246, ''AYT''), (245, ''AO''),
     (244, ''IP''), (243, ''BREAK''), (242, ''DM''), (241, ''NOP''), (240, ''SE''),
     (239, ''EOR''), (238, ''ABORT''), (237, ''SUSP''), (236, ''xEOF'')] c of Some s \<Rightarrow> s | None \<Rightarrow> '''')"

definition telopts2str :: "u8 \<Rightarrow> string" where
  "telopts2str c = (case map_of
    [(0, ''BINARY''), (1, ''ECHO''), (2, ''RCP''), (3, ''SGA''), (4, ''NAMS''),
     (5, ''STATUS''), (6, ''TM''), (7, ''RCTE''), (8, ''NAOL''), (9, ''NAOP''),
     (10, ''NAOCRD''), (11, ''NAOHTS''), (12, ''NAOHTD''), (13, ''NAOFFD''), (14, ''NAOVTS''),
     (15, ''NAOVTD''), (16, ''NAOLFD''), (17, ''XASCII''), (18, ''LOGOUT''), (19, ''BM''),
     (20, ''DET''), (21, ''SUPDUP''), (22, ''SUPDUPOUTPUT''), (23, ''SNDLOC''),
     (24, ''TTYPE''), (25, ''EOR''), (26, ''TUID''), (27, ''OUTMRK''), (28, ''TTYLOC''),
     (29, ''3270REGIME''), (30, ''X3PAD''), (31, ''NAWS''), (32, ''TSPEED''), (33, ''LFLOW''),
     (34, ''LINEMODE''), (36, ''OLD_ENVIRON''), (37, ''AUTHENTICATION''), (38, ''ENCRYPT''),
     (39, ''NEW_ENVIRON''), (255, ''EXOPL'')] c of Some s \<Rightarrow> s | None \<Rightarrow> '''')"

section \<open>Requests to the peer\<close>

definition byte_char :: "u8 \<Rightarrow> char" where
  "byte_char b = char_of (unat b)"

definition vty_will_echo :: "'z shell_scheme \<Rightarrow> 'z shell_scheme res" where
  "vty_will_echo sh = print_term (map byte_char [IAC, WILL, TELOPT_ECHO]) sh"

definition vty_will_suppress_go_ahead :: "'z shell_scheme \<Rightarrow> 'z shell_scheme res" where
  "vty_will_suppress_go_ahead sh = print_term (map byte_char [IAC, WILL, TELOPT_SGA]) sh"

definition vty_dont_linemode :: "'z shell_scheme \<Rightarrow> 'z shell_scheme res" where
  "vty_dont_linemode sh = print_term (map byte_char [IAC, DONT, TELOPT_LINEMODE]) sh"

definition vty_do_window_size :: "'z shell_scheme \<Rightarrow> 'z shell_scheme res" where
  "vty_do_window_size sh = print_term (map byte_char [IAC, DO, TELOPT_NAWS]) sh"

section \<open>The negotiation\<close>

definition vty_shell_keyfunc_iac_start :: "'z tshell_scheme \<Rightarrow> 'z tshell_scheme" where
  "vty_shell_keyfunc_iac_start sh = sh\<lparr>sh_keymap := Iac1, tn_cmd := 0\<rparr>"

definition vty_shell_keyfunc_telnet_opt :: "'z tshell_scheme \<Rightarrow> 'z tshell_scheme" where
  "vty_shell_keyfunc_telnet_opt sh = sh\<lparr>sh_keymap := Normal, tn_opt := sh_inputch sh\<rparr>"

definition vty_shell_keyfunc_telnet_cmd :: "'z tshell_scheme \<Rightarrow> 'z tshell_scheme" where
  "vty_shell_keyfunc_telnet_cmd sh = sh\<lparr>sh_keymap := Iac2, tn_cmd := sh_inputch sh\<rparr>"

definition vty_shell_keyfunc_subnego :: "'z tshell_scheme \<Rightarrow> 'z tshell_scheme" where
  "vty_shell_keyfunc_subnego sh =
    (if tn_size sh < 256
     then sh\<lparr>tn_buf := (tn_buf sh)[tn_size sh := sh_inputch sh], tn_size := tn_size sh + 1\<rparr>
     else sh)"

definition vty_shell_keyfunc_sb_start :: "'z tshell_scheme \<Rightarrow> 'z tshell_scheme" where
  "vty_shell_keyfunc_sb_start sh = sh\<lparr>sh_keymap := Subnego, tn_size := 0\<rparr>"

text \<open>
  The dump of the subnegotiation into \<open>subnego_str[64]\<close>. Each \<open>snprintf\<close> is given the room
  \<open>end - p\<close>, which is negative, hence huge as a \<open>size_t\<close>, once \<open>p\<close> has moved past \<open>end\<close> (63);
  it advances \<open>p\<close> by the length of the whole piece.
\<close>

definition decimal_digits :: "nat \<Rightarrow> nat" where
  "decimal_digits n = (if n < 10 then 1 else if n < 100 then 2 else 3)"

definition hex_piece :: "u8 \<Rightarrow> nat" where
  "hex_piece b = (if b = 0 then 2 else if b < 16 then 4 else 5)"

fun print_pieces :: "nat list \<Rightarrow> nat \<Rightarrow> nat res" where
  "print_pieces [] p = Inr p"
| "print_pieces (len # ps) p = guardr (p \<le> 63) BufferOverflow (print_pieces ps (p + len))"

definition subnego_pieces :: "'z tshell_scheme \<Rightarrow> nat list" where
  "subnego_pieces sh = (7 + decimal_digits (tn_size sh)) # map hex_piece (take (tn_size sh) (tn_buf sh)) @ [1]"

text \<open>A 16-bit number from two signed bytes.\<close>

definition signed_pair :: "u8 \<Rightarrow> u8 \<Rightarrow> u16" where
  "signed_pair hi lo = ucast (push_bit 8 (ucast (scast hi :: u16)) + scast lo :: u32)"

definition vty_shell_keyfunc_sb_end :: "'z tshell_scheme \<Rightarrow> 'z tshell_scheme res" where
  "vty_shell_keyfunc_sb_end sh =
    (let sh = sh\<lparr>sh_keymap := Normal\<rparr>
     in bindr (print_pieces (subnego_pieces sh) 0) (\<lambda>_.
       let sh = (if 0 < tn_size sh \<and> tn_buf sh ! 0 = TELOPT_NAWS \<and> tn_size sh = 5
                 then sh\<lparr>ws_row := signed_pair (tn_buf sh ! 3) (tn_buf sh ! 4),
                         ws_col := signed_pair (tn_buf sh ! 1) (tn_buf sh ! 2)\<rparr> else sh)
       in Inr (shell_refresh sh)))"

section \<open>The keymaps\<close>

definition key_func_iac_1 :: "keyfunc option list" where
  "key_func_iac_1 = (replicate 256 (Some K_telnet_opt))
    [unat SB := Some K_sb_start, unat SE := Some K_sb_end, unat DO := Some K_telnet_cmd,
     unat WILL := Some K_telnet_cmd, unat DONT := Some K_telnet_cmd, unat WONT := Some K_telnet_cmd]"

definition key_func_iac_2 :: "keyfunc option list" where
  "key_func_iac_2 = replicate 256 (Some K_telnet_opt)"

definition key_func_subnego :: "keyfunc option list" where
  "key_func_subnego = (replicate 256 (Some K_subnego))[unat IAC := Some K_iac_start]"

definition shell_telnet_keyfunc_init :: "'z shell_scheme \<Rightarrow> 'z shell_scheme" where
  "shell_telnet_keyfunc_init sh = shell_install IAC K_iac_start sh"

section \<open>A byte of input\<close>

definition keymap_entry :: "u8 \<Rightarrow> 'z shell_scheme \<Rightarrow> keyfunc option" where
  "keymap_entry ch sh = (case sh_keymap sh of
      Normal \<Rightarrow> sh_keymap_normal sh | Escape1 \<Rightarrow> key_func_escape_1 | Escape2 \<Rightarrow> key_func_escape_2
    | Iac1 \<Rightarrow> key_func_iac_1 | Iac2 \<Rightarrow> key_func_iac_2 | Subnego \<Rightarrow> key_func_subnego) ! unat ch"

text \<open>
  The call through the keymap. The functions a command shell adds (command execution,
  completion, help, history) are the argument \<open>command\<close>; \<open>mem\<close> is the outcome of allocations.
\<close>

fun run_keyfunc ::
  "(keyfunc \<Rightarrow> 'z tshell_scheme \<Rightarrow> 'z tshell_scheme res) \<Rightarrow> bool \<Rightarrow> keyfunc \<Rightarrow> 'z tshell_scheme \<Rightarrow> 'z tshell_scheme res" where
  "run_keyfunc command mem K_input_char sh = shell_input_char mem sh"
| "run_keyfunc command mem K_forward_char sh = Inr (shell_keyfunc_forward_char sh)"
| "run_keyfunc command mem K_backward_char sh = Inr (shell_keyfunc_backward_char sh)"
| "run_keyfunc command mem K_move_to_begin sh = Inr (shell_keyfunc_move_to_begin sh)"
| "run_keyfunc command mem K_move_to_end sh = Inr (shell_keyfunc_move_to_end sh)"
| "run_keyfunc command mem K_delete_char sh = shell_keyfunc_delete_char sh"
| "run_keyfunc command mem K_backspace sh = shell_keyfunc_backspace mem sh"
| "run_keyfunc command mem K_kill_line sh = shell_keyfunc_kill_line mem sh"
| "run_keyfunc command mem K_kill_all sh = shell_keyfunc_kill_all mem sh"
| "run_keyfunc command mem K_yank sh = shell_keyfunc_yank mem sh"
| "run_keyfunc command mem K_clear_screen sh = shell_keyfunc_clear_screen mem sh"
| "run_keyfunc command mem K_refresh sh = shell_keyfunc_refresh mem sh"
| "run_keyfunc command mem K_empty_enter sh = shell_keyfunc_empty_enter sh"
| "run_keyfunc command mem K_insert_tab sh = shell_keyfunc_insert_tab mem sh"
| "run_keyfunc command mem K_escape sh = Inr (shell_keyfunc_escape sh)"
| "run_keyfunc command mem K_delete_word_backward sh = shell_keyfunc_delete_word_backward mem sh"
| "run_keyfunc command mem K_delete_char_advanced sh = shell_keyfunc_delete_char_advanced sh"
| "run_keyfunc command mem K_normal sh = Inr (vty_shell_keyfunc_normal sh)"
| "run_keyfunc command mem K_vty_word_backward sh = vty_shell_move_word_backward sh"
| "run_keyfunc command mem K_vty_word_forward sh = vty_shell_move_word_forward sh"
| "run_keyfunc command mem K_vty_delete_word sh = vty_shell_delete_word_backward mem sh"
| "run_keyfunc command mem K_escape_1 sh = Inr (vty_shell_keyfunc_escape_1 sh)"
| "run_keyfunc command mem K_escape_2 sh = Inr (vty_shell_keyfunc_escape_2 sh)"
| "run_keyfunc command mem K_iac_start sh = Inr (vty_shell_keyfunc_iac_start sh)"
| "run_keyfunc command mem K_telnet_opt sh = Inr (vty_shell_keyfunc_telnet_opt sh)"
| "run_keyfunc command mem K_telnet_cmd sh = Inr (vty_shell_keyfunc_telnet_cmd sh)"
| "run_keyfunc command mem K_subnego sh = Inr (vty_shell_keyfunc_subnego sh)"
| "run_keyfunc command mem K_sb_start sh = Inr (vty_shell_keyfunc_sb_start sh)"
| "run_keyfunc command mem K_sb_end sh = vty_shell_keyfunc_sb_end sh"
| "run_keyfunc command mem k sh = command k sh"

definition shell_input ::
  "(keyfunc \<Rightarrow> 'z tshell_scheme \<Rightarrow> 'z tshell_scheme res) \<Rightarrow> bool \<Rightarrow> u8 \<Rightarrow> 'z tshell_scheme \<Rightarrow> 'z tshell_scheme res" where
  "shell_input command mem ch sh =
    (let escaped = flag_check (sh_flag sh) SHELL_FLAG_ESCAPE;
         sh = sh\<lparr>sh_inputch := ch\<rparr>
     in bindr (case keymap_entry ch sh of None \<Rightarrow> Inr sh | Some k \<Rightarrow> run_keyfunc command mem k sh) (\<lambda>sh.
       let sh = (if escaped then sh\<lparr>sh_flag := flag_clear (sh_flag sh) SHELL_FLAG_ESCAPE\<rparr> else sh)
       in Inr (if flag_check (sh_flag sh) SHELL_FLAG_DEBUG then shell_refresh sh else sh)))"

text \<open>What \<open>read\<close> delivered: an error, the end of the stream, or bytes.\<close>

datatype read_result = ReadError | ReadBytes bytes

definition shell_read ::
  "(keyfunc \<Rightarrow> 'z tshell_scheme \<Rightarrow> 'z tshell_scheme res) \<Rightarrow> bool \<Rightarrow> read_result \<Rightarrow> 'z tshell_scheme \<Rightarrow> (int \<times> 'z tshell_scheme) res" where
  "shell_read command mem r sh = (case r of
      ReadError \<Rightarrow> Inr (-1, sh)
    | ReadBytes buf \<Rightarrow>
        if buf = [] then bindr (shell_linefeed sh) (\<lambda>sh. Inr (0, shell_read_close sh))
        else bindr (runr (shell_input command mem) buf sh) (\<lambda>sh. Inr (0, sh)))"

definition shell_read_nowait ::
  "(keyfunc \<Rightarrow> 'z tshell_scheme \<Rightarrow> 'z tshell_scheme res) \<Rightarrow> bool \<Rightarrow> int \<Rightarrow> read_result \<Rightarrow> 'z tshell_scheme \<Rightarrow> (int \<times> 'z tshell_scheme) res" where
  "shell_read_nowait command mem poll r sh = (if 0 < poll then shell_read command mem r sh else Inr (poll, sh))"

end
