(* ===== verification/Vty_Keys.thy ===== *)
theory Vty_Keys
  imports Telnet
begin

text \<open>
  The key stream as a whole: an abstract line editor that the key functions implement, the
  invariant of a shell that reads keys, and the telnet window size negotiation.
\<close>

section \<open>The abstract editor\<close>

type_synonym editor = "string \<times> nat \<times> string option"

fun ed_insert :: "string \<Rightarrow> editor \<Rightarrow> editor" where
  "ed_insert s (t, c, y) = (take c t @ s @ drop c t, c + length s, y)"

fun ed_delete :: "nat \<Rightarrow> nat \<Rightarrow> editor \<Rightarrow> editor" where
  "ed_delete a b (t, c, y) = (take a t @ drop b t, a, y)"

fun ed_kill :: "bool \<Rightarrow> nat \<Rightarrow> nat \<Rightarrow> editor \<Rightarrow> editor" where
  "ed_kill mem a b (t, c, y) =
    (if a < b then (take a t @ drop b t, a, if mem then Some (take (b - a) (drop a t)) else None)
     else (t, c, None))"

text \<open>
  What each editing key means, for the character it carries and the state of the escape flag;
  without memory (\<open>mem\<close>) the killed text is lost and nothing is reformatted.
\<close>

fun edit :: "bool \<Rightarrow> keyfunc \<Rightarrow> char \<Rightarrow> bool \<Rightarrow> editor \<Rightarrow> editor" where
  "edit mem K_input_char ch esc e = ed_insert [ch] e"
| "edit mem K_insert_tab ch esc e = ed_insert ''<tab>'' e"
| "edit mem K_yank ch esc (t, c, y) = (case y of None \<Rightarrow> (t, c, y) | Some s \<Rightarrow> ed_insert s (t, c, y))"
| "edit mem K_forward_char ch esc (t, c, y) = (t, min (c + 1) (length t), y)"
| "edit mem K_backward_char ch esc (t, c, y) = (t, c - 1, y)"
| "edit mem K_move_to_begin ch esc (t, c, y) = (t, 0, y)"
| "edit mem K_move_to_end ch esc (t, c, y) = (t, length t, y)"
| "edit mem K_delete_char ch esc (t, c, y) = (if c < length t then ed_delete c (c + 1) (t, c, y) else (t, c, y))"
| "edit mem K_delete_char_advanced ch esc (t, c, y) =
    (if c < length t then ed_delete c (c + 1) (t, c, y) else (butlast t, length t - 1, y))"
| "edit mem K_backspace ch esc (t, c, y) =
    (if c = 0 then (t, c, y)
     else if esc then ed_kill mem (word_back SHELL_WORD_DELIMITERS_SUB t c) c (t, c, y)
     else ed_delete (c - 1) c (t, c, y))"
| "edit mem K_kill_line ch esc (t, c, y) = ed_kill mem c (length t) (t, c, y)"
| "edit mem K_kill_all ch esc (t, c, y) = ed_kill mem 0 (length t) (t, 0, y)"
| "edit mem K_delete_word_backward ch esc (t, c, y) = ed_kill mem (word_back SHELL_WORD_DELIMITERS_SUB t c) c (t, c, y)"
| "edit mem K_vty_delete_word ch esc (t, c, y) = ed_kill mem (word_back SHELL_WORD_DELIMITERS_SUB t c) c (t, c, y)"
| "edit mem K_vty_word_backward ch esc (t, c, y) = (t, word_back SHELL_WORD_DELIMITERS_SUB t c, y)"
| "edit mem K_vty_word_forward ch esc (t, c, y) = (t, next_word t c, y)"
| "edit mem K_refresh ch esc (t, c, y) =
    (if mem then (squeeze True t, length (squeeze True (take c t)), y) else (t, c, y))"
| "edit mem K_clear_screen ch esc (t, c, y) =
    (if mem then (squeeze True t, length (squeeze True (take c t)), y) else (t, c, y))"
| "edit mem K_empty_enter ch esc (t, c, y) = ('''', 0, y)"
| "edit mem k ch esc e = e"

definition editor_of :: "'z shell_scheme \<Rightarrow> editor" where
  "editor_of sh = (shell_text sh, sh_cursor sh, sh_cut_buffer sh)"

text \<open>The keys that only change the line, and those that also redraw the screen.\<close>

definition line_keys :: "keyfunc set" where
  "line_keys = {K_input_char, K_insert_tab, K_yank, K_forward_char, K_backward_char, K_move_to_begin,
     K_move_to_end, K_delete_char, K_delete_char_advanced, K_backspace, K_kill_line, K_kill_all,
     K_delete_word_backward, K_vty_delete_word, K_vty_word_backward, K_vty_word_forward}"

definition redraw_keys :: "keyfunc set" where
  "redraw_keys = {K_refresh, K_clear_screen, K_empty_enter}"

section \<open>The key functions implement the editor\<close>

lemma does_refl': "line_ok sh \<Longrightarrow> shell_text sh = t \<Longrightarrow> sh_cursor sh = c \<Longrightarrow> does sh t c sh"
  using does_refl by blast

lemma move_cut [simp]:
  "sh_cut_buffer (shell_forward n sh) = sh_cut_buffer sh" "sh_cut_buffer (shell_backward n sh) = sh_cut_buffer sh"
  by (simp_all add: shell_forward_def shell_backward_def)

lemma moveto_cut: "shell_moveto i sh = Inr sh' \<Longrightarrow> sh_cut_buffer sh' = sh_cut_buffer sh"
  by (auto simp: shell_moveto_def guardr_def split: if_splits)

lemma word_moves_cut:
  assumes "line_ok sh"
  shows "shell_move_word_backward sh = Inr sh' \<Longrightarrow> sh_cut_buffer sh' = sh_cut_buffer sh"
    "shell_move_word_forward sh = Inr sh' \<Longrightarrow> sh_cut_buffer sh' = sh_cut_buffer sh"
  using assms word_next_val [OF assms, of "sh_cursor sh"]
  by (auto simp: shell_move_word_backward_def shell_move_word_forward_def backward_start_val line_ok_def
      dest: moveto_cut)

definition outcome :: "'z shell_scheme \<Rightarrow> editor \<Rightarrow> 'z shell_scheme \<Rightarrow> bool" where
  "outcome sh e sh' \<longleftrightarrow> does sh (fst e) (fst (snd e)) sh' \<and> sh_cut_buffer sh' = snd (snd e)"

lemma outcomeI: "does sh t c sh' \<Longrightarrow> sh_cut_buffer sh' = y \<Longrightarrow> e = (t, c, y) \<Longrightarrow> outcome sh e sh'"
  by (simp add: outcome_def)

lemma outcome_editor: "outcome sh e sh' \<Longrightarrow> editor_of sh' = e"
  by (cases e) (auto simp: outcome_def does_def editor_of_def)

lemma del_outcome:
  assumes "line_ok sh" "a \<le> b" "b \<le> sh_end sh" "a \<le> sh_cursor sh"
  shows "\<exists>sh'. shell_delete_string a b sh = Inr sh' \<and> outcome sh (ed_delete a b (editor_of sh)) sh'"
  using delete_does [OF assms] by (auto simp: editor_of_def intro!: outcomeI)

lemma kill_outcome:
  assumes "line_ok sh" "a \<le> b" "b \<le> sh_end sh" "a \<le> sh_cursor sh"
  shows "\<exists>sh'. shell_cut mem a b sh = Inr sh' \<and> outcome sh (ed_kill mem a b (editor_of sh)) sh'"
proof -
  from cut_does [OF assms(1-4), of mem] obtain sh' where
    s: "shell_cut mem a b sh = Inr sh'"
      "sh_cut_buffer sh' = (if mem \<and> a < b then Some (load a (b - a) (shell_text sh)) else None)"
      "does sh (take a (shell_text sh) @ drop b (shell_text sh)) (if a < b then a else sh_cursor sh) sh'" by blast
  have "\<not> a < b \<Longrightarrow> take a (shell_text sh) @ drop b (shell_text sh) = shell_text sh" using assms(2) by simp
  with s show ?thesis by (auto simp: editor_of_def load_def intro!: outcomeI)
qed

lemma word_kill_outcome:
  assumes "line_ok sh"
  shows "\<exists>sh'. shell_delete_word_backward mem sh = Inr sh' \<and>
    outcome sh (ed_kill mem (word_back SHELL_WORD_DELIMITERS_SUB (shell_text sh) (sh_cursor sh)) (sh_cursor sh) (editor_of sh)) sh'"
proof -
  let ?b = "word_back SHELL_WORD_DELIMITERS_SUB (shell_text sh) (sh_cursor sh)"
  have le: "?b \<le> sh_cursor sh" "sh_cursor sh \<le> sh_end sh" using word_back_le assms by (auto simp: line_ok_def)
  from kill_outcome [OF assms(1) le le(1), of mem] show ?thesis
    by (simp add: shell_delete_word_backward_def backward_start_val [OF assms(1)])
qed

text \<open>The only way an insertion fails: allocation fails, or the line would pass 1 GiB.\<close>

definition no_room :: "bool \<Rightarrow> string \<Rightarrow> 'z shell_scheme \<Rightarrow> bool" where
  "no_room mem s sh \<longleftrightarrow> \<not> mem \<or> 2 ^ 30 < sh_end sh + length s + 1"

lemma expand_room: "0 < length (sh_line sh) \<Longrightarrow> n \<le> 2 ^ 30 \<Longrightarrow> \<exists>sh'. expand_for True n sh = Inr sh'"
proof (induction "True" n sh rule: expand_for.induct)
  case (1 n sh)
  let ?u = "sh\<lparr>sh_line := sh_line sh @ replicate (length (sh_line sh)) NUL\<rparr>"
  show ?case
  proof (cases "length (sh_line sh) < n")
    case True
    then have e: "shell_expand True sh = Inr ?u" using 1(3) by (simp add: shell_expand_def)
    from 1(1) [OF _ e] True 1(2,3) show ?thesis by (subst expand_for.simps) (simp add: e)
  qed (subst expand_for.simps, simp)
qed

lemma insert_fails_only:
  assumes "line_ok sh" "shell_insert mem s sh = Inl NoMemory"
  shows "no_room mem s sh"
proof (rule ccontr)
  assume "\<not> no_room mem s sh"
  moreover have "0 < length (sh_line sh)" using assms(1) by (auto simp: line_ok_def)
  ultimately obtain sh' where "expand_for mem (sh_end sh + length s + 1) sh = Inr sh'"
    using expand_room [of sh "sh_end sh + length s + 1"] by (auto simp: no_room_def)
  with assms(2) show False by (auto simp: shell_insert_def Let_def guardr_def split: if_splits)
qed

lemma insert_outcome:
  assumes "line_ok sh" "list_all clean s" "0 \<le> sh_writefd sh"
  shows "(\<exists>sh'. shell_insert mem s sh = Inr sh' \<and> outcome sh (ed_insert s (editor_of sh)) sh') \<or>
    (shell_insert mem s sh = Inl NoMemory \<and> no_room mem s sh)"
  using insert_does [OF assms, of mem] insert_fails_only [OF assms(1), of mem s]
  by (auto simp: editor_of_def intro!: outcomeI)

lemma moved_outcome:
  "does sh (shell_text sh) c sh' \<Longrightarrow> sh_cut_buffer sh' = sh_cut_buffer sh \<Longrightarrow> c = c' \<Longrightarrow>
   outcome sh (shell_text sh, c', sh_cut_buffer sh) sh'"
  by (rule outcomeI) auto


fun inserted :: "keyfunc \<Rightarrow> char \<Rightarrow> string option \<Rightarrow> string option" where
  "inserted K_input_char ch y = Some [ch]"
| "inserted K_insert_tab ch y = Some ''<tab>''"
| "inserted K_yank ch y = y"
| "inserted k ch y = None"

definition after_key :: "keyfunc \<Rightarrow> 'z shell_scheme \<Rightarrow> 'z shell_scheme" where
  "after_key k sh = (if k \<in> {K_vty_word_backward, K_vty_word_forward, K_vty_delete_word}
     then vty_shell_keyfunc_normal sh else sh)"

lemmas keyfunc_defs = shell_keyfunc_forward_char_def shell_keyfunc_backward_char_def
  shell_keyfunc_move_to_begin_def shell_keyfunc_move_to_end_def shell_keyfunc_delete_char_def
  shell_keyfunc_backspace_def shell_keyfunc_kill_line_def shell_keyfunc_kill_all_def
  shell_keyfunc_yank_def shell_keyfunc_insert_tab_def shell_keyfunc_delete_word_backward_def
  shell_keyfunc_delete_char_advanced_def vty_shell_move_word_backward_def
  vty_shell_move_word_forward_def vty_shell_delete_word_backward_def shell_input_char_def

lemma outcome_refl: "line_ok sh \<Longrightarrow> outcome sh (editor_of sh) sh"
  by (auto simp: editor_of_def intro!: outcomeI does_refl')

lemma outcome_trans: "outcome a (editor_of b) b \<Longrightarrow> outcome b e c \<Longrightarrow> outcome a e c"
  by (auto simp: outcome_def editor_of_def intro: does_trans)

lemma outcome_self: "outcome a e b \<Longrightarrow> outcome a (editor_of b) b"
  using outcome_editor by metis

lemma outcome_line_ok: "outcome a e b \<Longrightarrow> line_ok b"
  by (simp add: outcome_def does_def)

text \<open>One line key, in terms of the abstract editor.\<close>

lemma line_key_outcome:
  assumes ok: "line_ok sh" and wf: "0 \<le> sh_writefd sh" and k: "k \<in> line_keys"
    and ch: "k = K_input_char \<Longrightarrow> clean (char_of (unat (sh_inputch sh)))"
  shows "(\<exists>sh'. run_keyfunc command mem k sh = Inr (after_key k sh') \<and>
      outcome sh (edit mem k (char_of (unat (sh_inputch sh))) (flag_check (sh_flag sh) SHELL_FLAG_ESCAPE) (editor_of sh)) sh') \<or>
    (run_keyfunc command mem k sh = Inl NoMemory \<and>
      (\<exists>s. inserted k (char_of (unat (sh_inputch sh))) (sh_cut_buffer sh) = Some s \<and> no_room mem s sh))"
    (is "(\<exists>sh'. _ \<and> outcome sh (edit mem k ?ch ?esc _) sh') \<or> _")
proof -
  let ?t = "shell_text sh" and ?c = "sh_cursor sh" and ?e = "sh_end sh"
  have c: "?c \<le> ?e" and len: "length ?t = ?e" using ok line_split(2) [OF ok] by (auto simp: line_ok_def)
  have cut: "sh_cut_buffer sh = Some s \<Longrightarrow> list_all clean s" for s using ok by (auto simp: line_ok_def)
  note goal_simps = keyfunc_defs after_key_def editor_of_def len
  from k consider (ins) "k = K_input_char" | (tab) "k = K_insert_tab" | (yank) "k = K_yank" | (fw) "k = K_forward_char"
    | (bw) "k = K_backward_char" | (beg) "k = K_move_to_begin" | (eol) "k = K_move_to_end" | (del) "k = K_delete_char"
    | (adv) "k = K_delete_char_advanced" | (bs) "k = K_backspace" | (kl) "k = K_kill_line" | (ka) "k = K_kill_all"
    | (dw) "k = K_delete_word_backward" | (vdw) "k = K_vty_delete_word" | (vb) "k = K_vty_word_backward"
    | (vf) "k = K_vty_word_forward" unfolding line_keys_def by blast
  then show ?thesis
  proof cases
    case ins
    then show ?thesis
      using insert_outcome [OF ok _ wf, of "[?ch]" mem] ch by (simp add: goal_simps cstr_all_clean)
  next
    case tab
    have "list_all clean ''<tab>''" by (simp add: clean_def NUL_def BS_def)
    then show ?thesis using tab insert_outcome [OF ok _ wf, of "''<tab>''" mem] by (simp add: goal_simps)
  next
    case yank
    then show ?thesis
      using insert_outcome [OF ok cut wf, of _ mem] outcome_refl [OF ok]
      by (cases "sh_cut_buffer sh") (auto simp: goal_simps)
  next
    case fw
    show ?thesis
    proof (cases "?c < ?e")
      case True
      then show ?thesis
        using fw forward_does [OF ok, of 1] by (auto simp: goal_simps intro!: moved_outcome)
    next
      case False
      then show ?thesis
        using fw outcome_refl [OF ok] c by (auto simp: goal_simps shell_forward_def)
    qed
  next
    case bw
    then show ?thesis
      using backward_does [OF ok, of 1] outcome_refl [OF ok]
      by (cases "?c = 0") (auto simp: goal_simps shell_backward_def [of _ sh] intro!: moved_outcome)
  next
    case beg
    then show ?thesis using backward_does [OF ok, of ?c] by (auto simp: goal_simps intro!: moved_outcome)
  next
    case eol
    then show ?thesis using forward_does [OF ok, of "?e - ?c"] c by (auto simp: goal_simps intro!: moved_outcome)
  next
    case del
    then show ?thesis
      using del_outcome [OF ok, of ?c "?c + 1"] outcome_refl [OF ok] c by (auto simp: goal_simps)
  next
    case adv
    have "?c = ?e \<Longrightarrow> take (?e - 1) ?t @ drop ?e ?t = butlast ?t" using len by (simp add: butlast_conv_take)
    moreover have "?e = 0 \<Longrightarrow> ?t = []" using len by simp
    ultimately show ?thesis
      using adv del_outcome [OF ok, of ?c "?c + 1"] del_outcome [OF ok, of "?e - 1" ?e] outcome_refl [OF ok] c len
      by (auto simp: goal_simps)
  next
    case kl
    then show ?thesis using kill_outcome [OF ok c order_refl order_refl, of mem] by (auto simp: goal_simps)
  next
    case ka
    have b: "outcome sh (?t, 0, sh_cut_buffer sh) (shell_backward ?c sh)"
      using backward_does [OF ok, of ?c] by (auto intro!: moved_outcome)
    let ?b = "shell_backward ?c sh"
    have ed: "editor_of ?b = (?t, 0, sh_cut_buffer sh)" using b outcome_editor by blast
    have "sh_end ?b = ?e" by (simp add: shell_backward_def)
    with kill_outcome [OF outcome_line_ok [OF b], of 0 "sh_end ?b" mem] ed outcome_trans [OF outcome_self [OF b]] show ?thesis
      using ka by (fastforce simp: goal_simps)
  next
    case dw
    then show ?thesis using word_kill_outcome [OF ok, of mem] by (auto simp: goal_simps)
  next
    case vdw
    then show ?thesis using word_kill_outcome [OF ok, of mem] by (auto simp: goal_simps)
  next
    case vb
    from move_back_does [OF ok] obtain sh' where m: "shell_move_word_backward sh = Inr sh'"
      "does sh ?t (word_back SHELL_WORD_DELIMITERS_SUB ?t ?c) sh'" by blast
    with vb moved_outcome [OF m(2) word_moves_cut(1) [OF ok m(1)] refl] show ?thesis
      by (auto simp: goal_simps)
  next
    case vf
    from move_forward_does [OF ok] obtain sh' where m: "shell_move_word_forward sh = Inr sh'"
      "does sh ?t (next_word ?t ?c) sh'" by blast
    with vf moved_outcome [OF m(2) word_moves_cut(2) [OF ok m(1)] refl] show ?thesis
      by (auto simp: goal_simps)
  next
    case bs
    have b: "outcome sh (?t, ?c - 1, sh_cut_buffer sh) (shell_backward 1 sh)" if "0 < ?c"
      using backward_does [OF ok, of 1] that by (auto intro!: moved_outcome)
    let ?b = "shell_backward 1 sh"
    show ?thesis
    proof (cases "?c = 0 \<or> ?esc")
      case True
      then show ?thesis
        using bs word_kill_outcome [OF ok, of mem] outcome_refl [OF ok] by (auto simp: goal_simps)
    next
      case False
      then have pos: "0 < ?c" by simp
      note b = b [OF pos]
      have ed: "editor_of ?b = (?t, ?c - 1, sh_cut_buffer sh)" using b outcome_editor by blast
      have "sh_end ?b = ?e" "sh_cursor ?b = ?c - 1" using pos by (simp_all add: shell_backward_def)
      with del_outcome [OF outcome_line_ok [OF b], of "?c - 1" ?c] ed outcome_trans [OF outcome_self [OF b]] c pos show ?thesis
        using bs False by (fastforce simp: goal_simps)
    qed
  qed
qed

section \<open>The keys that redraw\<close>

definition kept :: "'z shell_scheme \<Rightarrow> 'z shell_scheme \<Rightarrow> bool" where
  "kept sh sh' \<longleftrightarrow> sh_writefd sh' = sh_writefd sh \<and> sh_open sh' = sh_open sh \<and> sh_flag sh' = sh_flag sh \<and>
     sh_keymap sh' = sh_keymap sh \<and> sh_keymap_normal sh' = sh_keymap_normal sh \<and> shell.more sh' = shell.more sh"

lemma kept_refl [simp]: "kept sh sh"
  by (simp add: kept_def)

lemma kept_trans: "kept a b \<Longrightarrow> kept b c \<Longrightarrow> kept a c"
  by (simp add: kept_def)

lemma outcome_kept: "outcome sh e sh' \<Longrightarrow> kept sh sh'"
  by (simp add: outcome_def does_def kept_def edited_keeps)

text \<open>Steps that write to the screen and leave the editor alone.\<close>

definition quiet :: "'z shell_scheme \<Rightarrow> 'z shell_scheme \<Rightarrow> bool" where
  "quiet sh sh' \<longleftrightarrow> line_ok sh' \<and> editor_of sh' = editor_of sh \<and> kept sh sh'"

lemma quiet_trans: "quiet a b \<Longrightarrow> quiet b c \<Longrightarrow> quiet a c"
  by (auto simp: quiet_def intro: kept_trans)

lemma quiet_write: "line_ok sh \<Longrightarrow> quiet sh (write_fd w sh)"
  by (simp add: quiet_def write_fd_def line_ok_def editor_of_def shell_text_def kept_def)

lemma quiet_ok: "quiet a b \<Longrightarrow> line_ok b"
  by (simp add: quiet_def)

lemma quiet_write2: "line_ok a \<Longrightarrow> quiet a (write_fd w (write_fd v a))"
  by (metis quiet_ok quiet_trans quiet_write)

lemma quiet_prompt: "line_ok sh \<Longrightarrow> quiet sh (shell_prompt sh)"
  by (auto simp: shell_prompt_def Let_def quiet_write quiet_write2) (simp add: quiet_def)

lemma quiet_refresh: "line_ok sh \<Longrightarrow> quiet sh (shell_refresh sh)"
  using quiet_prompt [of sh]
  by (auto simp: shell_refresh_def Let_def terminate_ok [OF quiet_ok]
      intro: quiet_trans [OF quiet_prompt quiet_write2 [OF quiet_ok]])

lemma quiet_print: "line_ok sh \<Longrightarrow> sh_open sh \<Longrightarrow> \<exists>sh'. print_term w sh = Inr sh' \<and> quiet sh sh'"
  by (simp add: print_term_def quiet_def line_ok_def editor_of_def shell_text_def kept_def)

lemma format_outcome:
  assumes "line_ok sh"
  shows "line_ok (shell_format mem sh)" "kept sh (shell_format mem sh)"
    "editor_of (shell_format mem sh) = edit mem K_refresh ch esc (editor_of sh)"
  using assms format_does [OF assms, of mem]
  by (cases mem; auto simp: does_def editor_of_def kept_def edited_keeps shell_format_def)+

lemma redraw_key_outcome:
  assumes ok: "line_ok sh" and op: "sh_open sh" and k: "k \<in> redraw_keys"
  shows "\<exists>sh'. run_keyfunc command mem k sh = Inr sh' \<and> line_ok sh' \<and>
    editor_of sh' = edit mem k ch esc (editor_of sh) \<and> kept sh sh'"
proof -
  from k consider "k = K_refresh" | "k = K_clear_screen" | "k = K_empty_enter" unfolding redraw_keys_def by blast
  then show ?thesis
  proof cases
    case 1
    note fmt = format_outcome [OF ok, of mem]
    have "sh_open (shell_format mem sh)" using fmt(2) op by (simp add: kept_def)
    from quiet_print [OF fmt(1) this] obtain b where
      b: "shell_linefeed (shell_format mem sh) = Inr b" "quiet (shell_format mem sh) b"
      unfolding shell_linefeed_def by blast
    have "quiet (shell_format mem sh) (shell_refresh b)"
      using b(2) quiet_refresh [OF quiet_ok] quiet_trans by blast
    with b fmt 1 show ?thesis
      by (auto simp: shell_keyfunc_refresh_def quiet_def intro: kept_trans)
  next
    case 2
    from quiet_print [OF ok op] obtain b where b: "print_term clear_sequence sh = Inr b" "quiet sh b" by blast
    note fmt = format_outcome [OF quiet_ok [OF b(2)], of mem]
    have "quiet (shell_format mem b) (shell_refresh (shell_format mem b))" by (rule quiet_refresh [OF fmt(1)])
    with b fmt(2,3) 2 show ?thesis
      by (cases "editor_of sh") (auto simp: shell_keyfunc_clear_screen_def quiet_def intro: kept_trans)
  next
    case 3
    from quiet_print [OF ok op] obtain b where b: "shell_linefeed sh = Inr b" "quiet sh b"
      unfolding shell_linefeed_def by blast
    have c: "line_ok (shell_clear b)" "editor_of (shell_clear b) = ([], 0, sh_cut_buffer b)" "kept b (shell_clear b)"
      using b(2) by (auto simp: shell_clear_def shell_terminate_def quiet_def line_ok_def editor_of_def shell_text_def kept_def)
    have "quiet (shell_clear b) (shell_prompt (shell_clear b))" by (rule quiet_prompt [OF c(1)])
    with b c 3 show ?thesis
      by (auto simp: shell_keyfunc_empty_enter_def quiet_def editor_of_def intro: kept_trans)
  qed
qed

section \<open>The invariant of a shell that reads keys\<close>

definition command_keys :: "keyfunc set" where
  "command_keys = {K_clear_terminal, K_execute, K_completion, K_ls_candidate, K_history_prev, K_history_next}"

definition telnet_keys :: "keyfunc set" where
  "telnet_keys = {K_escape, K_normal, K_escape_1, K_escape_2, K_iac_start, K_telnet_opt, K_telnet_cmd,
     K_subnego, K_sb_start, K_sb_end}"

lemma key_partition: "k \<in> line_keys \<or> k \<in> redraw_keys \<or> k \<in> telnet_keys \<or> k \<in> command_keys"
  by (cases k) (simp_all add: line_keys_def redraw_keys_def telnet_keys_def command_keys_def)

text \<open>
  The keymap binds printable characters only to \<open>shell_input_char\<close>, and among the command
  functions only those of \<open>ks\<close>.
\<close>

definition keymap_ok :: "keyfunc set \<Rightarrow> keyfunc option list \<Rightarrow> bool" where
  "keymap_ok ks km \<longleftrightarrow> length km = 256 \<and>
     (\<forall>i k. i < 256 \<and> km ! i = Some k \<longrightarrow> (k = K_input_char \<longrightarrow> 32 \<le> i \<and> i < 127) \<and> (k \<in> command_keys \<longrightarrow> k \<in> ks))"

definition vty_ok :: "keyfunc set \<Rightarrow> 'z tshell_scheme \<Rightarrow> bool" where
  "vty_ok ks sh \<longleftrightarrow> line_ok sh \<and> 0 \<le> sh_writefd sh \<and> sh_open sh \<and> keymap_ok ks (sh_keymap_normal sh) \<and>
     length (tn_buf sh) = 256 \<and> tn_size sh \<le> 256"

lemma more_fields:
  fixes a b :: "'z tshell_scheme"
  assumes "shell.more a = shell.more b"
  shows "tn_size a = tn_size b" "tn_buf a = tn_buf b" "ws_col a = ws_col b" "ws_row a = ws_row b"
  using assms by (cases a; cases b; simp)+

lemma vty_ok_kept: "vty_ok ks sh \<Longrightarrow> kept sh sh' \<Longrightarrow> line_ok sh' \<Longrightarrow> vty_ok ks sh'"
  unfolding vty_ok_def kept_def using more_fields [of sh' sh] by simp

lemma vty_ok_keymap [simp]:
  "vty_ok ks (sh\<lparr>sh_keymap := m\<rparr>) = vty_ok ks sh" "vty_ok ks (sh\<lparr>sh_flag := f\<rparr>) = vty_ok ks sh"
  "vty_ok ks (sh\<lparr>sh_inputch := c\<rparr>) = vty_ok ks sh" "vty_ok ks (sh\<lparr>tn_cmd := c\<rparr>) = vty_ok ks sh"
  "vty_ok ks (sh\<lparr>tn_opt := c\<rparr>) = vty_ok ks sh" "vty_ok ks (sh\<lparr>ws_row := w, ws_col := w'\<rparr>) = vty_ok ks sh"
  by (simp_all add: vty_ok_def line_ok_def shell_text_def)

lemma escape_maps:
  "i < 256 \<Longrightarrow> key_func_escape_1 ! i = Some k \<Longrightarrow> k \<noteq> K_input_char \<and> k \<notin> command_keys"
  "i < 256 \<Longrightarrow> key_func_escape_2 ! i = Some k \<Longrightarrow> k \<noteq> K_input_char \<and> k \<notin> command_keys"
  "i < 256 \<Longrightarrow> key_func_iac_1 ! i = Some k \<Longrightarrow> k \<noteq> K_input_char \<and> k \<notin> command_keys"
  "i < 256 \<Longrightarrow> key_func_iac_2 ! i = Some k \<Longrightarrow> k \<noteq> K_input_char \<and> k \<notin> command_keys"
  "i < 256 \<Longrightarrow> key_func_subnego ! i = Some k \<Longrightarrow> k \<noteq> K_input_char \<and> k \<notin> command_keys"
  by (auto simp: key_func_escape_1_def key_func_escape_2_def key_func_iac_1_def key_func_iac_2_def
      key_func_subnego_def telnet_consts nth_list_update command_keys_def split: if_splits)

lemma unat_u8: "unat (ch :: u8) < 256"
  using unsigned_less [of ch] by simp

lemma keymap_entry_ok:
  assumes "vty_ok ks sh" "keymap_entry ch sh = Some k"
  shows "(k = K_input_char \<longrightarrow> 32 \<le> unat ch \<and> unat ch < 127) \<and> (k \<in> command_keys \<longrightarrow> k \<in> ks)"
proof (cases "sh_keymap sh")
  case Normal
  then show ?thesis using assms unat_u8 [of ch] by (simp add: keymap_entry_def vty_ok_def keymap_ok_def)
qed (use assms unat_u8 [of ch] escape_maps [of "unat ch" k] in \<open>auto simp: keymap_entry_def\<close>)

lemma clean_printable:
  assumes "32 \<le> n" "n < (256 :: nat)"
  shows "clean (char_of n)"
proof -
  have "of_char (char_of n :: char) = n" using assms by (simp add: of_char_of)
  moreover have "of_char NUL = (0 :: nat)" "of_char BS = (8 :: nat)" by (simp_all add: NUL_def BS_def)
  ultimately show ?thesis using assms unfolding clean_def by (metis not_numeral_le_zero numeral_le_iff semiring_norm(69,71,72))
qed

section \<open>The subnegotiation dump\<close>

lemma print_pieces_ok: "p + sum_list (butlast ls) \<le> 63 \<Longrightarrow> print_pieces ls p = Inr (p + sum_list ls)"
  by (induction ls arbitrary: p) (auto split: if_splits)

lemma print_pieces_cases: "(\<exists>q. print_pieces ls p = Inr q) \<or> print_pieces ls p = Inl BufferOverflow"
  by (induction ls arbitrary: p) (auto simp: guardr_def)

lemma hex_pieces_bound: "sum_list (map hex_piece bs) \<le> 5 * length bs"
  by (induction bs) (auto simp: hex_piece_def)

lemma subnego_short: "tn_size sh \<le> 10 \<Longrightarrow> \<exists>q. print_pieces (subnego_pieces sh) 0 = Inr q"
proof -
  assume n: "tn_size sh \<le> 10"
  let ?b = "take (tn_size sh) (tn_buf sh)"
  have "length ?b \<le> tn_size sh" by simp
  then have "sum_list (map hex_piece ?b) \<le> 5 * tn_size sh"
    using hex_pieces_bound [of ?b] by linarith
  moreover have "7 + decimal_digits (tn_size sh) + 5 * tn_size sh \<le> 59"
    using n by (auto simp: decimal_digits_def)
  ultimately have "sum_list (butlast (subnego_pieces sh)) \<le> 63"
    by (simp add: subnego_pieces_def butlast_append)
  then show ?thesis using print_pieces_ok [of 0 "subnego_pieces sh"] by auto
qed

lemma sb_end_good:
  assumes "vty_ok ks sh"
  shows "(\<exists>sh'. vty_shell_keyfunc_sb_end sh = Inr sh' \<and> vty_ok ks sh') \<or>
    (10 < tn_size sh \<and> vty_shell_keyfunc_sb_end sh = Inl BufferOverflow)"
proof -
  let ?n = "sh\<lparr>sh_keymap := Normal\<rparr>"
  have ref: "vty_ok ks a \<Longrightarrow> vty_ok ks (shell_refresh a)" for a :: "'a tshell_scheme"
    using quiet_refresh [of a] vty_ok_kept [of ks a] by (auto simp: quiet_def vty_ok_def)
  have n: "vty_ok ks ?n" using assms by simp
  consider q where "print_pieces (subnego_pieces ?n) 0 = Inr q"
    | "print_pieces (subnego_pieces ?n) 0 = Inl BufferOverflow" "10 < tn_size sh"
    using print_pieces_cases [of "subnego_pieces ?n" 0] subnego_short [of ?n] by fastforce
  then show ?thesis
    using ref [OF n] ref [of "?n\<lparr>ws_row := _, ws_col := _\<rparr>"] n
    by cases (auto simp: vty_shell_keyfunc_sb_end_def Let_def)
qed

section \<open>One byte of input keeps the invariant\<close>

definition fine :: "keyfunc set \<Rightarrow> 'z tshell_scheme res \<Rightarrow> bool" where
  "fine ks r \<longleftrightarrow> (\<exists>sh'. r = Inr sh' \<and> vty_ok ks sh') \<or> (\<exists>f\<in>{NoMemory, BufferOverflow}. r = Inl f)"

lemma fineI: "r = Inr sh' \<Longrightarrow> vty_ok ks sh' \<Longrightarrow> fine ks r"
  by (auto simp: fine_def)

lemma fine_noMemory: "r = Inl NoMemory \<Longrightarrow> fine ks r"
  by (simp add: fine_def)

lemma vty_ok_outcome: "vty_ok ks sh \<Longrightarrow> outcome sh e sh' \<Longrightarrow> vty_ok ks sh'"
  using vty_ok_kept outcome_kept outcome_line_ok by blast

lemma vty_ok_normal [simp]: "vty_ok ks (vty_shell_keyfunc_normal sh) = vty_ok ks sh"
  by (simp add: vty_shell_keyfunc_normal_def)

lemma after_key_ok [simp]: "vty_ok ks (after_key k sh) = vty_ok ks sh"
  by (simp add: after_key_def)

lemma telnet_key_fine:
  assumes ok: "vty_ok ks sh" and k: "k \<in> telnet_keys"
  shows "fine ks (run_keyfunc command mem k sh)"
proof (cases "k = K_sb_end")
  case True
  then show ?thesis using sb_end_good [OF ok] by (auto simp: fine_def)
next
  case False
  have "vty_ok ks (vty_shell_keyfunc_subnego sh)" "vty_ok ks (vty_shell_keyfunc_sb_start sh)"
    using ok by (auto simp: vty_shell_keyfunc_subnego_def vty_shell_keyfunc_sb_start_def vty_ok_def
        line_ok_def shell_text_def)
  then show ?thesis
    using False k ok unfolding telnet_keys_def
    by (auto simp: fine_def shell_keyfunc_escape_def vty_shell_keyfunc_escape_1_def
        vty_shell_keyfunc_escape_2_def vty_shell_keyfunc_iac_start_def vty_shell_keyfunc_telnet_opt_def
        vty_shell_keyfunc_telnet_cmd_def)
qed

lemma run_keyfunc_fine:
  assumes ok: "vty_ok ks sh" and k: "keymap_entry (sh_inputch sh) sh = Some k"
    and command: "\<And>c s. c \<in> ks \<Longrightarrow> vty_ok ks s \<Longrightarrow> fine ks (command c s)"
  shows "fine ks (run_keyfunc command mem k sh)"
proof -
  have line: "line_ok sh" "0 \<le> sh_writefd sh" "sh_open sh" using ok by (auto simp: vty_ok_def)
  note entry = keymap_entry_ok [OF ok k]
  consider "k \<in> line_keys" | "k \<in> redraw_keys" | "k \<in> telnet_keys" | "k \<in> command_keys"
    using key_partition by blast
  then show ?thesis
  proof cases
    case 1
    have ch: "clean (char_of (unat (sh_inputch sh)))" if "k = K_input_char"
      using entry that by (auto intro: clean_printable)
    show ?thesis
    proof (rule disjE [OF line_key_outcome [where command = command and mem = mem, OF line(1,2) 1]],
        erule ch, elim exE conjE)
      fix sh'
      assume r: "run_keyfunc command mem k sh = Inr (after_key k sh')" and "outcome sh (edit mem k
        (char_of (unat (sh_inputch sh))) (flag_check (sh_flag sh) SHELL_FLAG_ESCAPE) (editor_of sh)) sh'"
      with ok have "vty_ok ks (after_key k sh')" using vty_ok_outcome by simp
      with r show ?thesis by (rule fineI)
    qed (elim conjE, rule fine_noMemory)
  next
    case 2
    from redraw_key_outcome [OF line(1,3) 2, of command mem] show ?thesis
      using vty_ok_kept [OF ok] by (auto simp: fine_def)
  next
    case 3
    then show ?thesis by (rule telnet_key_fine [OF ok])
  next
    case 4
    then have "run_keyfunc command mem k sh = command k sh" by (auto simp: command_keys_def)
    then show ?thesis using entry 4 command ok by simp
  qed
qed

lemma vty_ok_refresh: "vty_ok ks a \<Longrightarrow> vty_ok ks (shell_refresh a)"
  using quiet_refresh [of a] vty_ok_kept [of ks a] by (auto simp: quiet_def vty_ok_def)

lemma shell_input_fine:
  assumes ok: "vty_ok ks sh"
    and command: "\<And>c s. c \<in> ks \<Longrightarrow> vty_ok ks s \<Longrightarrow> fine ks (command c s)"
  shows "fine ks (shell_input command mem ch sh)"
proof -
  let ?s = "sh\<lparr>sh_inputch := ch\<rparr>"
  let ?r = "case keymap_entry ch ?s of None \<Rightarrow> Inr ?s | Some k \<Rightarrow> run_keyfunc command mem k ?s"
  have s: "vty_ok ks ?s" using ok by simp
  have "fine ks ?r"
  proof (cases "keymap_entry ch ?s")
    case (Some k)
    then have "keymap_entry (sh_inputch ?s) ?s = Some k" by simp
    from run_keyfunc_fine [where mem = mem, OF s this command] Some show ?thesis by simp
  qed (use s in \<open>simp add: fine_def\<close>)
  then show ?thesis
    by (auto simp: fine_def shell_input_def Let_def vty_ok_refresh)
qed

interpretation keys: safe_machine "shell_input (\<lambda>_. Inr) mem" "vty_ok {}" "\<lambda>_. {NoMemory, BufferOverflow}" for mem
proof
  fix sh :: "'a tshell_scheme" and ch
  assume "vty_ok {} sh"
  then have "fine {} (shell_input (\<lambda>_. Inr) mem ch sh)" by (rule shell_input_fine) simp
  then show "(\<exists>sh'. shell_input (\<lambda>_. Inr) mem ch sh = Inr sh' \<and> vty_ok {} sh') \<or>
      (\<exists>f\<in>{NoMemory, BufferOverflow}. shell_input (\<lambda>_. Inr) mem ch sh = Inl f)"
    by (simp add: fine_def)
qed

section \<open>A new shell\<close>

definition zero_telnet :: "\<lparr>tn_cmd :: u8, tn_opt :: u8, tn_size :: nat, tn_buf :: bytes, ws_row :: u16, ws_col :: u16\<rparr>" where
  "zero_telnet = \<lparr>tn_cmd = 0, tn_opt = 0, tn_size = 0, tn_buf = replicate 256 0, ws_row = 0, ws_col = 0\<rparr>"

lemma zero_telnet_more: "shell.more (shell_create mem zero_telnet) = zero_telnet"
  by (simp add: shell_create_def shell_set_prompt_def Let_def)

text \<open>A shell on a connection: created, connected, and given the escape and telnet keys.\<close>

definition vty_open :: "bool \<Rightarrow> int \<Rightarrow> int \<Rightarrow> tshell" where
  "vty_open mem readfd writefd = shell_telnet_keyfunc_init (shell_escape_keyfunc_init
     (shell_set_terminal True readfd writefd (shell_create mem zero_telnet)))"

lemma default_keymap_ok:
  "keymap_ok ks ((default_keymap[27 := Some K_escape_1])[unat IAC := Some K_iac_start])"
proof -
  have "(default_keymap[27 := Some K_escape_1])[unat IAC := Some K_iac_start] ! i = Some k \<Longrightarrow>
      (k = K_input_char \<longrightarrow> 32 \<le> i \<and> i < 127) \<and> k \<notin> command_keys" if "i < 256" for i k
    using that
    by (auto simp: default_keymap_def nth_list_update nth_append nth_Cons' command_keys_def IAC_def
        split: if_splits)
  moreover have "length default_keymap = 256" by (simp add: default_keymap_def)
  ultimately show ?thesis by (auto simp: keymap_ok_def)
qed

lemma vty_open_ok: "0 \<le> writefd \<Longrightarrow> vty_ok ks (vty_open mem readfd writefd)"
  using default_keymap_ok [of ks]
  by (simp add: vty_ok_def vty_open_def shell_telnet_keyfunc_init_def shell_escape_keyfunc_init_def
      shell_install_def shell_set_terminal_def shell_create_def shell_set_prompt_def Let_def zero_telnet_def
      line_ok_def shell_text_def INITIAL_COMMAND_LINE_SIZE_def)

lemma vty_open_editor: "editor_of (vty_open mem readfd writefd) = ([], 0, None)"
  by (simp add: editor_of_def vty_open_def shell_telnet_keyfunc_init_def shell_escape_keyfunc_init_def
      shell_install_def shell_set_terminal_def shell_create_def shell_set_prompt_def Let_def shell_text_def)

lemmas vty_open_defs = vty_open_def shell_telnet_keyfunc_init_def shell_escape_keyfunc_init_def shell_install_def
  shell_set_terminal_def shell_create_def shell_set_prompt_def Let_def

lemma vty_open_state:
  "sh_keymap (vty_open mem r w) = Normal"
  "sh_keymap_normal (vty_open mem r w) ! unat IAC = Some K_iac_start"
  "\<not> flag_check (sh_flag (vty_open mem r w)) SHELL_FLAG_DEBUG"
  "\<not> flag_check (sh_flag (vty_open mem r w)) SHELL_FLAG_ESCAPE"
  "sh_end (vty_open mem r w) = 0" "sh_writefd (vty_open mem r w) = w"
proof -
  have "length default_keymap = 256" by (simp add: default_keymap_def)
  then show "sh_keymap (vty_open mem r w) = Normal"
    "sh_keymap_normal (vty_open mem r w) ! unat IAC = Some K_iac_start"
    by (simp_all add: vty_open_defs IAC_def)
  have "sh_flag (vty_open mem r w) = 0x10" by (simp add: vty_open_defs shell_flags flag_clear_def)
  then show "\<not> flag_check (sh_flag (vty_open mem r w)) SHELL_FLAG_DEBUG"
    "\<not> flag_check (sh_flag (vty_open mem r w)) SHELL_FLAG_ESCAPE"
    by (simp_all add: flag_check_def shell_flags)
qed (simp_all add: vty_open_defs)

section \<open>Negotiations as byte sequences\<close>

lemma keymap_entry_inputch [simp]: "keymap_entry ch (sh\<lparr>sh_inputch := c\<rparr>) = keymap_entry ch sh"
  by (cases "sh_keymap sh") (simp_all add: keymap_entry_def)

lemma input_step:
  assumes "\<not> flag_check (sh_flag sh) SHELL_FLAG_DEBUG" "\<not> flag_check (sh_flag sh) SHELL_FLAG_ESCAPE"
    and "keymap_entry ch sh = Some k"
    and "run_keyfunc command mem k (sh\<lparr>sh_inputch := ch\<rparr>) = Inr sh'" "sh_flag sh' = sh_flag sh"
  shows "shell_input command mem ch sh = Inr sh'"
  using assms by (simp add: shell_input_def Let_def)

lemma telnet_entries:
  "sh_keymap sh = Iac1 \<Longrightarrow> keymap_entry SB sh = Some K_sb_start"
  "sh_keymap sh = Iac1 \<Longrightarrow> keymap_entry SE sh = Some K_sb_end"
  "sh_keymap sh = Iac1 \<Longrightarrow> keymap_entry IAC sh = Some K_telnet_opt"
  "sh_keymap sh = Subnego \<Longrightarrow> keymap_entry IAC sh = Some K_iac_start"
  by (simp_all add: keymap_entry_def key_func_iac_1_def key_func_subnego_def telnet_consts)

lemma subnego_entry: "sh_keymap sh = Subnego \<Longrightarrow> b \<noteq> IAC \<Longrightarrow> keymap_entry b sh = Some K_subnego"
  using unat_u8 [of b] by (simp add: keymap_entry_def key_func_subnego_def nth_list_update word_unat_eq_iff)

lemma sb_open:
  assumes "\<not> flag_check (sh_flag sh) SHELL_FLAG_DEBUG" "\<not> flag_check (sh_flag sh) SHELL_FLAG_ESCAPE"
    and "sh_keymap sh = Normal" "sh_keymap_normal sh ! unat IAC = Some K_iac_start"
  shows "runr (shell_input command mem) [IAC, SB] sh =
    Inr (sh\<lparr>sh_inputch := SB, sh_keymap := Subnego, tn_cmd := 0, tn_size := 0\<rparr>)"
proof -
  let ?a = "sh\<lparr>sh_inputch := IAC, sh_keymap := Iac1, tn_cmd := 0\<rparr>"
  have "shell_input command mem IAC sh = Inr ?a"
    by (rule input_step [OF assms(1,2), of _ K_iac_start])
      (simp_all add: assms keymap_entry_def vty_shell_keyfunc_iac_start_def)
  moreover have "shell_input command mem SB ?a = Inr (sh\<lparr>sh_inputch := SB, sh_keymap := Subnego, tn_cmd := 0, tn_size := 0\<rparr>)"
    by (rule input_step [of _ _ K_sb_start])
      (simp_all add: assms telnet_entries vty_shell_keyfunc_sb_start_def)
  ultimately show ?thesis by simp
qed

lemma sb_bytes:
  assumes "\<not> flag_check (sh_flag sh) SHELL_FLAG_DEBUG" "\<not> flag_check (sh_flag sh) SHELL_FLAG_ESCAPE"
    and "sh_keymap sh = Subnego" "IAC \<notin> set bs" "tn_size sh + length bs \<le> 256" "length (tn_buf sh) = 256"
  shows "\<exists>ch. runr (shell_input command mem) bs sh =
    Inr (sh\<lparr>sh_inputch := ch, tn_size := tn_size sh + length bs, tn_buf := store (tn_size sh) bs (tn_buf sh)\<rparr>)"
  using assms
proof (induction bs arbitrary: sh)
  case Nil
  then show ?case by (intro exI [of _ "sh_inputch sh"]) simp
next
  case (Cons b bs)
  let ?s = "sh\<lparr>sh_inputch := b, tn_buf := (tn_buf sh)[tn_size sh := b], tn_size := tn_size sh + 1\<rparr>"
  have "shell_input command mem b sh = Inr ?s"
    using Cons.prems by (intro input_step [of _ _ K_subnego])
      (auto simp: subnego_entry vty_shell_keyfunc_subnego_def)
  moreover have "store (Suc (tn_size sh)) bs ((tn_buf sh)[tn_size sh := b]) = store (tn_size sh) (b # bs) (tn_buf sh)"
    using Cons.prems by (simp add: store_def upd_conv_take_nth_drop min_def take_Suc_conv_app_nth add.commute)
  ultimately show ?case using Cons.IH [of ?s] Cons.prems by simp
qed

lemma sb_close:
  assumes "\<not> flag_check (sh_flag sh) SHELL_FLAG_DEBUG" "\<not> flag_check (sh_flag sh) SHELL_FLAG_ESCAPE"
    and "sh_keymap sh = Subnego"
  shows "runr (shell_input command mem) [IAC, IAC] sh =
    Inr (sh\<lparr>sh_inputch := IAC, sh_keymap := Normal, tn_cmd := 0, tn_opt := IAC\<rparr>)"
    "shell_input command mem IAC sh = Inr (sh\<lparr>sh_inputch := IAC, sh_keymap := Iac1, tn_cmd := 0\<rparr>)"
proof -
  let ?a = "sh\<lparr>sh_inputch := IAC, sh_keymap := Iac1, tn_cmd := 0\<rparr>"
  show a: "shell_input command mem IAC sh = Inr ?a"
    by (rule input_step [OF assms(1,2) telnet_entries(4) [OF assms(3)]])
      (simp_all add: vty_shell_keyfunc_iac_start_def)
  have "shell_input command mem IAC ?a =
      Inr (sh\<lparr>sh_inputch := IAC, sh_keymap := Normal, tn_cmd := 0, tn_opt := IAC\<rparr>)"
    by (rule input_step [of _ _ K_telnet_opt])
      (simp_all add: assms telnet_entries vty_shell_keyfunc_telnet_opt_def)
  with a show "runr (shell_input command mem) [IAC, IAC] sh =
    Inr (sh\<lparr>sh_inputch := IAC, sh_keymap := Normal, tn_cmd := 0, tn_opt := IAC\<rparr>)" by simp
qed

lemma print_pieces_overflow:
  "print_pieces (ls @ [n]) p = Inl BufferOverflow \<longleftrightarrow> 63 < p + sum_list ls"
  by (induction ls arbitrary: p) (auto simp: guardr_def add.assoc)

section \<open>Properties\<close>

text \<open>
  C11: Every editing key implements the abstract editor: on a well-formed line, the function a
  key is bound to terminates without fault, keeps the line well formed and changes text, cursor
  and cut buffer exactly as \<open>edit\<close> says; otherwise it is an inserting key that gives up because
  memory ran out or the line would grow past one gigabyte.
\<close>

theorem keys_edit:
  assumes "line_ok sh" "0 \<le> sh_writefd sh" "k \<in> line_keys"
    and "k = K_input_char \<Longrightarrow> clean (char_of (unat (sh_inputch sh)))"
  shows "(\<exists>sh'. run_keyfunc command mem k sh = Inr sh' \<and> line_ok sh' \<and>
      editor_of sh' = edit mem k (char_of (unat (sh_inputch sh))) (flag_check (sh_flag sh) SHELL_FLAG_ESCAPE) (editor_of sh)) \<or>
    (run_keyfunc command mem k sh = Inl NoMemory \<and>
      (\<exists>s. inserted k (char_of (unat (sh_inputch sh))) (sh_cut_buffer sh) = Some s \<and>
        (\<not> mem \<or> 2 ^ 30 < sh_end sh + length s + 1)))"
proof -
  have after: "line_ok (after_key k sh') = line_ok sh'" "editor_of (after_key k sh') = editor_of sh'" for sh' :: "'a tshell_scheme"
    by (auto simp: after_key_def vty_shell_keyfunc_normal_def line_ok_def editor_of_def shell_text_def)
  from line_key_outcome [where command = command and mem = mem, OF assms(1-3)] assms(4) show ?thesis
    by (auto simp: after outcome_line_ok outcome_editor no_room_def)
qed

theorem keys_edit_witness:
  "(\<exists>sh'. run_keyfunc (\<lambda>_. Inr) True K_kill_line (vty_open True 0 1) = Inr sh' \<and> line_ok sh' \<and>
      editor_of sh' = ([], 0, None))"
proof -
  have "line_ok (vty_open True 0 1)" using vty_open_ok [of 1 "{}" True 0] by (simp add: vty_ok_def)
  then show ?thesis
    using keys_edit [of "vty_open True 0 1" K_kill_line "\<lambda>_. Inr" True]
    by (simp add: line_keys_def vty_open_editor vty_open_state)
qed

text \<open>
  C23: The screen follows the line. If the terminal line shows the text with its cursor in place,
  then after an editing key has run, the bytes it wrote make the terminal show the new text, with
  the cursor at the new position and the rest of the row blank.
\<close>

theorem keys_display:
  assumes "line_ok sh" "0 \<le> sh_writefd sh" "k \<in> line_keys"
    and "k = K_input_char \<Longrightarrow> clean (char_of (unat (sh_inputch sh)))"
    and "run_keyfunc command mem k sh = Inr sh'" "displays sh scr"
  shows "\<exists>w. sh_out sh' = sh_out sh @ w \<and> displays sh' (fold put w scr)"
proof -
  have after: "sh_out (after_key k t) = sh_out t" "displays (after_key k t) = displays t" for t :: "'a tshell_scheme"
    by (auto simp: fun_eq_iff after_key_def vty_shell_keyfunc_normal_def displays_def shell_text_def)
  from line_key_outcome [where command = command and mem = mem, OF assms(1-3)] assms(4,5) obtain t where
    "sh' = after_key k t" "paints sh t"
    by (auto simp: outcome_def does_def assms(2))
  with assms(6) show ?thesis by (cases scr) (auto simp: after paints_def)
qed

theorem keys_display_witness:
  "\<exists>sh' w. run_keyfunc (\<lambda>_. Inr) True K_insert_tab (vty_open True 0 1) = Inr sh' \<and>
     sh_out sh' = sh_out (vty_open True 0 1) @ w \<and> displays sh' (fold put w ([], 0))"
proof -
  let ?s = "vty_open True 0 1"
  have f: "line_ok ?s" "sh_writefd ?s = 1" "sh_end ?s = 0"
    using vty_open_ok [of 1 "{}" True 0] by (simp_all add: vty_ok_def vty_open_state)
  then obtain sh' where r: "run_keyfunc (\<lambda>_. Inr) True K_insert_tab ?s = Inr sh'"
    using line_key_outcome [where k = K_insert_tab and sh = ?s and command = "\<lambda>_. Inr" and mem = True]
    by (auto simp: line_keys_def no_room_def)
  have "displays ?s ([], 0)" using vty_open_editor [of True 0 1] by (simp add: displays_def editor_of_def)
  with keys_display [OF f(1) _ _ _ r, of "([], 0)"] r f(2) show ?thesis by (auto simp: line_keys_def)
qed

text \<open>
  Whatever bytes a connection sends, a freshly opened shell survives them: the invariant
  holds after every byte, and no assertion fails, no null pointer is followed and no index
  leaves its array. The run can end early in two ways only: an allocation failed, or a telnet
  subnegotiation overran the buffer it is printed into.
\<close>

theorem keys_safe:
  assumes "0 \<le> writefd"
  shows "(\<exists>sh'. runr (shell_input (\<lambda>_. Inr) mem) bytes (vty_open ok readfd writefd) = Inr sh' \<and> vty_ok {} sh') \<or>
    (\<exists>f\<in>{NoMemory, BufferOverflow}. runr (shell_input (\<lambda>_. Inr) mem) bytes (vty_open ok readfd writefd) = Inl f)"
  using keys.run_ok [OF vty_open_ok [OF assms]] by blast

theorem keys_safe_witness:
  "(\<exists>sh'. runr (shell_input (\<lambda>_. Inr) True) [104, 105, 23, 12] (vty_open True 0 1) = Inr sh' \<and> vty_ok {} sh') \<or>
    (\<exists>f\<in>{NoMemory, BufferOverflow}. runr (shell_input (\<lambda>_. Inr) True) [104, 105, 23, 12] (vty_open True 0 1) = Inl f)"
  by (rule keys_safe) simp

text \<open>
  C28: Ending a subnegotiation overruns the 64-byte buffer it is printed into exactly when the
  printed bytes pass the 63rd position, which no subnegotiation of at most ten bytes does; otherwise
  it returns, and sets the window size only for a five-byte NAWS option.
\<close>

theorem sb_end_overflow:
  "(vty_shell_keyfunc_sb_end sh = Inl BufferOverflow \<longleftrightarrow>
     63 < 7 + decimal_digits (tn_size sh) + sum_list (map hex_piece (take (tn_size sh) (tn_buf sh)))) \<and>
   (vty_shell_keyfunc_sb_end sh = Inl BufferOverflow \<longrightarrow> 10 < tn_size sh) \<and>
   (\<forall>sh'. vty_shell_keyfunc_sb_end sh = Inr sh' \<and> \<not> (tn_size sh = 5 \<and> tn_buf sh ! 0 = TELOPT_NAWS) \<longrightarrow>
     ws_row sh' = ws_row sh \<and> ws_col sh' = ws_col sh)"
proof -
  let ?n = "sh\<lparr>sh_keymap := Normal\<rparr>"
  have iff: "print_pieces (subnego_pieces ?n) 0 = Inl BufferOverflow \<longleftrightarrow>
      63 < 7 + decimal_digits (tn_size sh) + sum_list (map hex_piece (take (tn_size sh) (tn_buf sh)))"
    using print_pieces_overflow [of "(7 + decimal_digits (tn_size sh)) # map hex_piece (take (tn_size sh) (tn_buf sh))" 1 0]
    by (simp add: subnego_pieces_def)
  have w: "ws_row (shell_refresh a) = ws_row a" "ws_col (shell_refresh a) = ws_col a" for a :: "'a tshell_scheme"
    by (simp_all add: shell_refresh_def shell_prompt_def shell_terminate_def write_fd_def Let_def)
  have fail: "vty_shell_keyfunc_sb_end sh = Inl BufferOverflow \<longleftrightarrow> print_pieces (subnego_pieces ?n) 0 = Inl BufferOverflow"
    using print_pieces_cases [of "subnego_pieces ?n" 0] by (auto simp: vty_shell_keyfunc_sb_end_def Let_def)
  moreover have "print_pieces (subnego_pieces ?n) 0 = Inl BufferOverflow \<Longrightarrow> 10 < tn_size sh"
    using subnego_short [of ?n] by (cases "tn_size sh \<le> 10") auto
  moreover have "ws_row sh' = ws_row sh \<and> ws_col sh' = ws_col sh"
    if "vty_shell_keyfunc_sb_end sh = Inr sh'" "\<not> (tn_size sh = 5 \<and> tn_buf sh ! 0 = TELOPT_NAWS)" for sh'
    using that w by (auto simp: vty_shell_keyfunc_sb_end_def Let_def bindr_eq_Inr)
  ultimately show ?thesis using iff by blast
qed

theorem sb_end_overflow_witness:
  "vty_shell_keyfunc_sb_end ((vty_open True 0 1)\<lparr>tn_size := 12, tn_buf := replicate 256 0xFF\<rparr>) = Inl BufferOverflow"
  using sb_end_overflow [of "(vty_open True 0 1)\<lparr>tn_size := 12, tn_buf := replicate 256 0xFF\<rparr>"]
  by (simp add: decimal_digits_def hex_piece_def sum_list_replicate)

lemma mod_shift: "0 \<le> x \<Longrightarrow> x < 256 \<Longrightarrow> (x + 128) mod 256 - 128 = x - (if 128 \<le> x then 256 else 0)" for x :: int
proof -
  assume x: "0 \<le> x" "x < 256"
  have "(x + 128) mod 256 = x - 128" if "128 \<le> x"
    by (rule int_mod_pos_eq [of _ _ 1]) (use x that in linarith)+
  with x show ?thesis by simp
qed

lemma sint_byte: "sint b = int (unat b) - (if 128 \<le> unat b then 256 else 0)" for b :: u8
proof -
  define n where "n = unat b"
  have lt: "n < 256" using unsigned_less [of b] by (simp add: n_def)
  have "sint b = (int n + 128) mod 256 - 128"
    using int_word_sint [where 'a = 8, of "uint b"] by (simp only: word_of_int_uint uint_nat n_def) simp
  then show ?thesis using mod_shift [of "int n"] lt by (simp add: n_def [symmetric])
qed

lemma word16_wrap: "(65536 :: u16) = 0"
  using word_exp_length_eq_0 [where 'a = 16] by (simp only: len_num1 len_bit0) simp

lemma signed_bytes_value: "(of_int (256 * sint hi + sint lo) :: u16) =
  of_nat (256 * unat hi + unat lo) - (if 128 \<le> unat lo then 256 else 0)" for hi lo :: u8
proof -
  have "(of_int (256 * sint hi + sint lo) :: u16) =
     of_nat (256 * unat hi + unat lo) - (if 128 \<le> unat lo then 256 else 0) - (if 128 \<le> unat hi then 65536 else 0)"
  by (simp add: sint_byte algebra_simps)
  then show ?thesis by (simp only: word16_wrap) simp
qed

lemma signed_pair_value:
  "signed_pair hi lo = of_nat (256 * unat hi + unat lo) - (if 128 \<le> unat lo then 256 else 0)"
proof -
  have "(ucast (push_bit 8 (ucast (scast hi :: u16) :: u32)) :: u16) = push_bit 8 (scast hi)"
    by (rule bit_word_eqI) (auto simp: bit_simps)
  moreover have "(ucast (a + b :: u32) :: u16) = ucast a + ucast b" for a b
    by (simp add: word_unat_eq_iff unat_word_ariths unsigned_ucast_eq take_bit_eq_mod mod_add_eq mod_mod_cancel)
  moreover have "(ucast (scast lo :: u32) :: u16) = scast lo"
    by (rule bit_word_eqI) (auto simp: bit_simps)
  ultimately have "signed_pair hi lo = push_bit 8 (scast hi) + scast lo"
    by (simp add: signed_pair_def)
  also have "\<dots> = of_int (256 * sint hi + sint lo)"
    by (simp only: push_bit_eq_mult scast_eq of_int_add of_int_mult mult.commute) simp
  finally show ?thesis by (simp only: signed_bytes_value)
qed

text \<open>
  A telnet window size option, IAC SB NAWS width height IAC SE, received in the normal state
  without an escaped byte, leaves line, cursor and cut buffer alone and returns to the normal
  keymap. The width and height stored are the two-byte numbers of the option when the low byte is
  below 128, and 256 less otherwise, because the low byte is added as a signed character.
\<close>

theorem naws_negotiation:
  assumes ok: "vty_ok ks sh" and key: "sh_keymap sh = Normal" "sh_keymap_normal sh ! unat IAC = Some K_iac_start"
    and flags: "\<not> flag_check (sh_flag sh) SHELL_FLAG_DEBUG" "\<not> flag_check (sh_flag sh) SHELL_FLAG_ESCAPE"
    and plain: "IAC \<notin> {wh, wl, hh, hl}"
  shows "\<exists>sh'. runr (shell_input command mem) [IAC, SB, TELOPT_NAWS, wh, wl, hh, hl, IAC, SE] sh = Inr sh' \<and>
    vty_ok ks sh' \<and> sh_keymap sh' = Normal \<and> editor_of sh' = editor_of sh \<and>
    ws_col sh' = of_nat (256 * unat wh + unat wl) - (if 128 \<le> unat wl then 256 else 0) \<and>
    ws_row sh' = of_nat (256 * unat hh + unat hl) - (if 128 \<le> unat hl then 256 else 0)"
proof -
  let ?bs = "[TELOPT_NAWS, wh, wl, hh, hl]"
  let ?a = "sh\<lparr>sh_inputch := SB, sh_keymap := Subnego, tn_cmd := 0, tn_size := 0\<rparr>"
  let ?buf = "store 0 ?bs (tn_buf sh)"
  have opened: "runr (shell_input command mem) [IAC, SB] sh = Inr ?a"
    by (rule sb_open [OF flags key])
  have five: "Suc (Suc (Suc (Suc (Suc 0)))) = 5" by simp
  have "IAC \<notin> set ?bs" "length (tn_buf sh) = 256" using plain ok by (auto simp: telnet_consts vty_ok_def)
  with sb_bytes [of ?a ?bs command mem] flags obtain ch where
    body: "runr (shell_input command mem) ?bs ?a = Inr (?a\<lparr>sh_inputch := ch, tn_size := 5, tn_buf := ?buf\<rparr>)"
    by (auto simp: five)
  let ?b = "?a\<lparr>sh_inputch := ch, tn_size := 5, tn_buf := ?buf\<rparr>"
  let ?c = "?b\<lparr>sh_inputch := IAC, sh_keymap := Iac1, tn_cmd := 0\<rparr>"
  have close: "shell_input command mem IAC ?b = Inr ?c" by (rule sb_close(2)) (simp_all add: flags)
  let ?d = "?c\<lparr>sh_inputch := SE, sh_keymap := Normal, ws_row := signed_pair hh hl, ws_col := signed_pair wh wl\<rparr>"
  have buf: "?buf = ?bs @ drop 5 (tn_buf sh)" by (simp add: store_def five)
  obtain q where q: "print_pieces (subnego_pieces (?c\<lparr>sh_inputch := SE, sh_keymap := Normal\<rparr>)) 0 = Inr q"
    using subnego_short [of "?c\<lparr>sh_inputch := SE, sh_keymap := Normal\<rparr>"] by auto
  have "run_keyfunc command mem K_sb_end (?c\<lparr>sh_inputch := SE\<rparr>) = Inr (shell_refresh ?d)"
    using q by (simp add: vty_shell_keyfunc_sb_end_def Let_def buf)
  moreover have d: "vty_ok ks ?d" using ok buf by (simp add: vty_ok_def line_ok_def shell_text_def)
  then have r: "quiet ?d (shell_refresh ?d)" by (intro quiet_refresh) (simp add: vty_ok_def)
  ultimately have "shell_input command mem SE ?c = Inr (shell_refresh ?d)"
    by (intro input_step [of _ _ K_sb_end]) (simp_all add: flags telnet_entries quiet_def kept_def)
  with opened body close have
    "runr (shell_input command mem) ([IAC, SB] @ ?bs @ [IAC, SE]) sh = Inr (shell_refresh ?d)"
    unfolding runr_append by simp
  moreover have "ws_col (shell_refresh ?d) = signed_pair wh wl" "ws_row (shell_refresh ?d) = signed_pair hh hl"
    using r more_fields [of "shell_refresh ?d" ?d] by (simp_all add: quiet_def kept_def)
  ultimately show ?thesis
    using r d vty_ok_refresh [OF d] by (simp add: signed_pair_value quiet_def kept_def editor_of_def shell_text_def)
qed

theorem naws_negotiation_witness:
  "\<exists>sh'. runr (shell_input (\<lambda>_. Inr) True) [IAC, SB, TELOPT_NAWS, 0, 200, 0, 50, IAC, SE] (vty_open True 0 1) = Inr sh' \<and>
    sh_keymap sh' = Normal \<and> ws_col sh' = 0xFFC8 \<and> ws_row sh' = 50"
  using naws_negotiation [OF vty_open_ok [of 1 "{}" True 0] vty_open_state(1-4), of 0 200 0 50 "\<lambda>_. Inr" True]
  by (auto simp: IAC_def)

text \<open>
  A data byte 255 inside a subnegotiation, sent doubled as the telnet protocol asks, aborts
  it: the shell is back in the normal keymap with the window size unchanged, so the rest of the
  option is taken as typed keys.
\<close>

theorem subnego_doubled_iac:
  assumes "vty_ok ks sh" and key: "sh_keymap sh = Normal" "sh_keymap_normal sh ! unat IAC = Some K_iac_start"
    and flags: "\<not> flag_check (sh_flag sh) SHELL_FLAG_DEBUG" "\<not> flag_check (sh_flag sh) SHELL_FLAG_ESCAPE"
    and bs: "IAC \<notin> set bs" "length bs \<le> 256"
  shows "\<exists>sh'. runr (shell_input command mem) ([IAC, SB] @ bs @ [IAC, IAC]) sh = Inr sh' \<and>
    sh_keymap sh' = Normal \<and> ws_col sh' = ws_col sh \<and> ws_row sh' = ws_row sh \<and> editor_of sh' = editor_of sh"
proof -
  let ?a = "sh\<lparr>sh_inputch := SB, sh_keymap := Subnego, tn_cmd := 0, tn_size := 0\<rparr>"
  from sb_bytes [of ?a bs command mem] flags bs assms(1) obtain b where
    body: "runr (shell_input command mem) bs ?a = Inr b" and
    b: "sh_flag b = sh_flag sh" "sh_keymap b = Subnego" "ws_col b = ws_col sh" "ws_row b = ws_row sh" "editor_of b = editor_of sh"
    by (auto simp: vty_ok_def editor_of_def shell_text_def)
  have "runr (shell_input command mem) [IAC, IAC] b =
      Inr (b\<lparr>sh_inputch := IAC, sh_keymap := Normal, tn_cmd := 0, tn_opt := IAC\<rparr>)"
    by (rule sb_close(1)) (simp_all add: b flags)
  then show ?thesis
    unfolding runr_append sb_open [OF flags key] by (simp add: body b editor_of_def shell_text_def)
      (use b(5) in \<open>simp add: editor_of_def shell_text_def\<close>)
qed

theorem subnego_doubled_iac_witness:
  "\<exists>sh'. runr (shell_input (\<lambda>_. Inr) True) ([IAC, SB] @ [TELOPT_NAWS, 0] @ [IAC, IAC]) (vty_open True 0 1) = Inr sh' \<and>
    sh_keymap sh' = Normal \<and> ws_col sh' = ws_col (vty_open True 0 1)"
proof -
  have "IAC \<notin> set [TELOPT_NAWS, 0]" "length [TELOPT_NAWS, 0] \<le> 256" by (simp_all add: telnet_consts)
  from subnego_doubled_iac [OF vty_open_ok [of 1 "{}" True 0] vty_open_state(1-4) this, of "\<lambda>_. Inr" True] show ?thesis
    by (auto simp del: append.simps runr_append)
qed

text \<open>
  Setting the prompt keeps as much of it as the buffer holds. A prompt longer than the
  current buffer gets a new one of a 128th of its length plus 128 bytes, so prompts of fewer than
  128 characters are stored whole and a long one is cut.
\<close>

theorem set_prompt_truncates:
  "sh_prompt (shell_set_prompt True p sh) = take (max (sh_prompt_size sh) (length p div 128 + 128) - 1) p \<and>
   (sh_prompt (shell_set_prompt True p sh) = p \<longleftrightarrow> length p < max (sh_prompt_size sh) (length p div 128 + 128)) \<and>
   sh_prompt_size sh \<le> sh_prompt_size (shell_set_prompt mem p sh)"
proof -
  have "max (sh_prompt_size sh) (length p div 128 + 128) =
     (if sh_prompt_size sh < length p div 128 + 128 then length p div 128 + 128 else sh_prompt_size sh)" by auto
  moreover have "take (n - 1) p = p \<longleftrightarrow> length p < n" if "128 \<le> n" for n using that by auto
  ultimately show ?thesis by (auto simp: shell_set_prompt_def Let_def)
qed

text \<open>
  Formatting normalises the spaces of the line: no leading and no double space remains, the
  other characters are kept in order, the cursor stays before the same rest of the line, the
  screen follows, and formatting again changes nothing.
\<close>

theorem format_normalises:
  assumes "line_ok sh" "0 \<le> sh_writefd sh" "sh' = shell_format True sh"
  shows "line_ok sh' \<and>
    (\<forall>us vs. shell_text sh' \<noteq> CHR '' '' # vs \<and> shell_text sh' \<noteq> us @ CHR '' '' # CHR '' '' # vs) \<and>
    filter (\<lambda>c. c \<noteq> CHR '' '') (shell_text sh') = filter (\<lambda>c. c \<noteq> CHR '' '') (shell_text sh) \<and>
    filter (\<lambda>c. c \<noteq> CHR '' '') (take (sh_cursor sh') (shell_text sh')) =
      filter (\<lambda>c. c \<noteq> CHR '' '') (take (sh_cursor sh) (shell_text sh)) \<and>
    (\<forall>scr. displays sh scr \<longrightarrow> (\<exists>w. sh_out sh' = sh_out sh @ w \<and> displays sh' (fold put w scr))) \<and>
    editor_of (shell_format True sh') = editor_of sh'"
proof -
  let ?t = "shell_text sh" and ?c = "sh_cursor sh"
  have s: "editor_of sh' = (squeeze True ?t, length (squeeze True (take ?c ?t)), sh_cut_buffer sh)" "line_ok sh'"
    using format_outcome [OF assms(1), of True] by (auto simp: assms(3) editor_of_def)
  have paint: "paints sh sh'"
    using format_does [OF assms(1), of True] assms(2) by (simp add: does_def assms(3))
  have c: "?c \<le> length ?t" using line_split(2) [OF assms(1)] assms(1) by (simp add: line_ok_def)
  have split: "squeeze True ?t = squeeze True (take ?c ?t) @ squeeze (after_space True (take ?c ?t)) (drop ?c ?t)"
    using squeeze_append [of True "take ?c ?t" "drop ?c ?t"] by simp
  have tx: "shell_text sh' = squeeze True ?t" "take (sh_cursor sh') (shell_text sh') = squeeze True (take ?c ?t)"
    using s(1) split by (simp_all add: editor_of_def)
  have "editor_of (shell_format True sh') = editor_of sh'"
    using format_outcome(3) [OF s(2), of True] tx by (simp add: editor_of_def squeeze_idem) (metis s(1) editor_of_def prod.inject)
  moreover have "filter (\<lambda>c. c \<noteq> CHR '' '') (take (sh_cursor sh') (shell_text sh')) =
      filter (\<lambda>c. c \<noteq> CHR '' '') (take ?c ?t)"
    unfolding tx(2) by (rule squeeze_words)
  ultimately show ?thesis
    using paint by (auto simp: s(2) tx(1) squeeze_words squeeze_no_double squeeze_no_leading paints_def)
qed

theorem format_normalises_witness:
  "let sh = (vty_open True 0 1)\<lparr>sh_line := ''  a  b'' @ replicate 26 NUL, sh_end := 6, sh_cursor := 4\<rparr>
   in shell_text (shell_format True sh) = ''a b'' \<and> sh_cursor (shell_format True sh) = 2 \<and>
     editor_of (shell_format True (shell_format True sh)) = editor_of (shell_format True sh)"
proof -
  let ?s = "(vty_open True 0 1)\<lparr>sh_line := ''  a  b'' @ replicate 26 NUL, sh_end := 6, sh_cursor := 4\<rparr>"
  have "sh_cut_buffer (vty_open True 0 1) = None"
    using vty_open_editor [of True 0 1] by (simp add: editor_of_def)
  then have ok: "line_ok ?s" by (simp add: line_ok_def shell_text_def clean_def NUL_def BS_def)
  have wf: "0 \<le> sh_writefd ?s" using vty_open_ok [of 1 "{}" True 0] by (simp add: vty_ok_def)
  have "editor_of (shell_format True ?s) = edit True K_refresh (CHR ''a'') False (editor_of ?s)"
    by (rule format_outcome(3) [OF ok])
  then have "shell_text (shell_format True ?s) = ''a b''" "sh_cursor (shell_format True ?s) = 2"
    by (simp_all add: editor_of_def shell_text_def)
  with format_normalises [OF ok wf refl] show ?thesis by (simp add: Let_def)
qed

end
