(* ===== verification/Queue_Config.thy ===== *)
theory Queue_Config
  imports Prelude
begin

text \<open>
  Receive queue assignment: \<open>sdplane/queue_config.c\<close> and the structures of \<open>queue_config.h\<close>.
  The table \<open>thread_qconf\<close> has one entry per lcore; the first \<open>nrxq\<close> cells of an entry are in
  use. \<open>RTE_MAX_LCORE\<close> and \<open>RTE_MAX_ETHPORTS\<close> are constants of the DPDK build (128 and 32 in its
  default configuration).
\<close>

section \<open>Structures\<close>

definition RTE_MAX_LCORE :: nat where "RTE_MAX_LCORE = 128"
definition RTE_MAX_ETHPORTS :: nat where "RTE_MAX_ETHPORTS = 32"
definition MAX_RX_QUEUE_PER_LCORE :: nat where "MAX_RX_QUEUE_PER_LCORE = 16"

record port_queue_conf =
  port_id :: u16
  queue_id :: u16

record sdplane_queue_conf =
  nrxq :: nat
  rx_queue_list :: "port_queue_conf list"

text \<open>The cells in use.\<close>

definition queues :: "sdplane_queue_conf \<Rightarrow> port_queue_conf list" where
  "queues qc = take (nrxq qc) (rx_queue_list qc)"

section \<open>Operations\<close>

text \<open>The first entry of \<open>new\<close> that is also in \<open>old\<close>.\<close>

definition qconf_diff :: "sdplane_queue_conf \<Rightarrow> sdplane_queue_conf \<Rightarrow> port_queue_conf option" where
  "qconf_diff new old = find (\<lambda>p. list_ex (\<lambda>q. port_id p = port_id q \<and> queue_id p = queue_id q) (queues old)) (queues new)"

text \<open>
  The scan that takes the queue away from another lcore. A match is overwritten by the entries
  after it; the index then moves on, so the entry that took its place is not examined.
\<close>

definition remove_entry :: "nat \<Rightarrow> sdplane_queue_conf \<Rightarrow> sdplane_queue_conf" where
  "remove_entry j qc =
    (let num = nrxq qc - (j + 1)
     in qc\<lparr>rx_queue_list := store j (load (j + 1) num (rx_queue_list qc)) (rx_queue_list qc), nrxq := nrxq qc - 1\<rparr>)"

function take_away :: "port_queue_conf \<Rightarrow> nat \<Rightarrow> sdplane_queue_conf \<Rightarrow> sdplane_queue_conf" where
  "take_away pq j qc =
    (if j < nrxq qc
     then take_away pq (j + 1) (if rx_queue_list qc ! j = pq then remove_entry j qc else qc)
     else qc)"
  by pat_completeness auto
termination
  by (relation "measure (\<lambda>(pq, j, qc). nrxq qc - j)") (auto simp: remove_entry_def Let_def)

declare take_away.simps [simp del]

definition take_from_others :: "nat \<Rightarrow> port_queue_conf \<Rightarrow> sdplane_queue_conf list \<Rightarrow> sdplane_queue_conf list" where
  "take_from_others lcore pq table =
    map (\<lambda>(i, qc). if i \<noteq> lcore then take_away pq 0 qc else qc) (zip [0..<length table] table)"

definition add_entry :: "port_queue_conf \<Rightarrow> sdplane_queue_conf \<Rightarrow> sdplane_queue_conf" where
  "add_entry pq qc =
    (if pq \<in> set (queues qc) \<or> \<not> nrxq qc < MAX_RX_QUEUE_PER_LCORE then qc
     else qc\<lparr>rx_queue_list := (rx_queue_list qc)[nrxq qc := pq], nrxq := nrxq qc + 1\<rparr>)"

text \<open>The command's effect on the table; an lcore number past the table is an access outside it.\<close>

definition set_thread_lcore_port_queue :: "u16 \<Rightarrow> u16 \<Rightarrow> u16 \<Rightarrow> sdplane_queue_conf list \<Rightarrow> sdplane_queue_conf list res" where
  "set_thread_lcore_port_queue lcore port queue table =
    (let pq = \<lparr>port_id = port, queue_id = queue\<rparr>; l = unat lcore;
         table = take_from_others l pq table
     in guardr (l < length table) OutOfBounds (Inr (table[l := add_entry pq (table ! l)])))"

section \<open>The table stays well formed\<close>

definition qc_ok :: "sdplane_queue_conf \<Rightarrow> bool" where
  "qc_ok qc \<longleftrightarrow> length (rx_queue_list qc) = MAX_RX_QUEUE_PER_LCORE \<and> nrxq qc \<le> MAX_RX_QUEUE_PER_LCORE \<and>
     distinct (queues qc)"

text \<open>Which lcore polls a queue.\<close>

definition owns :: "sdplane_queue_conf list \<Rightarrow> nat \<Rightarrow> port_queue_conf \<Rightarrow> bool" where
  "owns table l pq \<longleftrightarrow> l < length table \<and> pq \<in> set (queues (table ! l))"

definition table_ok :: "sdplane_queue_conf list \<Rightarrow> bool" where
  "table_ok table \<longleftrightarrow> length table = RTE_MAX_LCORE \<and> (\<forall>qc\<in>set table. qc_ok qc) \<and>
     (\<forall>pq l l'. owns table l pq \<and> owns table l' pq \<longrightarrow> l = l')"

lemma queues_remove:
  assumes "j < nrxq qc" "nrxq qc \<le> length (rx_queue_list qc)"
  shows "queues (remove_entry j qc) = take j (queues qc) @ drop (j + 1) (queues qc)"
    "length (rx_queue_list (remove_entry j qc)) = length (rx_queue_list qc)"
    "nrxq (remove_entry j qc) = nrxq qc - 1"
proof -
  let ?L = "rx_queue_list qc" and ?n = "nrxq qc"
  let ?num = "?n - (j + 1)"
  have l: "length (take j ?L) = j" "length (load (j + 1) ?num ?L) = ?num" using assms by simp_all
  have st: "store j (load (j + 1) ?num ?L) ?L = (take j ?L @ load (j + 1) ?num ?L) @ drop (j + ?num) ?L"
    using l by (simp add: store_def)
  have "?n - 1 = length (take j ?L @ load (j + 1) ?num ?L)" using l assms by simp
  then have "take (?n - 1) (store j (load (j + 1) ?num ?L) ?L) = take j ?L @ load (j + 1) ?num ?L"
    unfolding st by (simp only: take_length_append)
  moreover have "take j (take ?n ?L) = take j ?L" using assms by simp
  moreover have "drop (j + 1) (take ?n ?L) = load (j + 1) ?num ?L" by (simp add: load_def drop_take)
  ultimately show "queues (remove_entry j qc) = take j (queues qc) @ drop (j + 1) (queues qc)"
    by (simp add: queues_def remove_entry_def Let_def)
  show "length (rx_queue_list (remove_entry j qc)) = length ?L" "nrxq (remove_entry j qc) = ?n - 1"
    using assms by (simp_all add: remove_entry_def Let_def)
qed

lemma take_away_absent:
  "(\<forall>i. j \<le> i \<and> i < nrxq qc \<longrightarrow> rx_queue_list qc ! i \<noteq> pq) \<Longrightarrow> take_away pq j qc = qc"
  by (induction pq j qc rule: take_away.induct) (subst take_away.simps, simp)

lemma take_away_removes:
  assumes "qc_ok qc"
  shows "queues (take_away pq 0 qc) = remove1 pq (queues qc) \<and> qc_ok (take_away pq 0 qc)"
proof -
  have "queues (take_away pq j qc) = take j (queues qc) @ remove1 pq (drop j (queues qc)) \<and> qc_ok (take_away pq j qc)"
    if "qc_ok qc" "j \<le> nrxq qc" for j qc
    using that
  proof (induction pq j qc rule: take_away.induct)
    case (1 pq j qc)
    have len: "nrxq qc \<le> length (rx_queue_list qc)" using 1(2) by (simp add: qc_ok_def)
    show ?case
    proof (cases "j < nrxq qc")
      case False
      then show ?thesis using 1(2,3) len by (subst (1 2) take_away.simps) (simp add: queues_def)
    next
      case True
      have split: "drop j (queues qc) = rx_queue_list qc ! j # drop (j + 1) (queues qc)"
        using True len by (simp add: queues_def Cons_nth_drop_Suc [symmetric])
      show ?thesis
      proof (cases "rx_queue_list qc ! j = pq")
        case False
        then have "take_away pq j qc = take_away pq (j + 1) qc" using True by (subst take_away.simps) simp
        moreover have "take (j + 1) (queues qc) = take j (queues qc) @ [rx_queue_list qc ! j]"
          using True len by (simp add: queues_def take_Suc_conv_app_nth)
        ultimately show ?thesis using 1(1) [OF True] 1(2) True False split by simp
      next
        case match: True
        let ?r = "remove_entry j qc"
        note r = queues_remove [OF True len]
        have "distinct (take j (queues qc) @ drop j (queues qc))"
          using 1(2) unfolding append_take_drop_id by (simp add: qc_ok_def)
        then have d: "distinct (take j (queues qc) @ pq # drop (j + 1) (queues qc))"
          unfolding split match .
        have "rx_queue_list ?r ! i \<noteq> pq" if "j + 1 \<le> i" "i < nrxq ?r" for i
        proof -
          have "rx_queue_list ?r ! i = queues ?r ! i" using that by (simp add: queues_def)
          also have "i < length (queues ?r)" using that r len by (simp add: queues_def)
          then have "queues ?r ! i \<in> set (queues ?r)" by (rule nth_mem)
          finally show ?thesis using d by (auto simp: r(1))
        qed
        then have "take_away pq (j + 1) ?r = ?r" by (intro take_away_absent) auto
        then have "take_away pq j qc = ?r" using True match by (subst take_away.simps) simp
        moreover have "qc_ok ?r" using 1(2) r d by (auto simp: qc_ok_def)
        ultimately show ?thesis using r(1) split match by simp
      qed
    qed
  qed
  from this [OF assms, of 0] show ?thesis by simp
qed

lemma take_from_others_nth:
  "i < length table \<Longrightarrow> take_from_others l pq table ! i = (if i \<noteq> l then take_away pq 0 (table ! i) else table ! i)"
  "length (take_from_others l pq table) = length table"
  by (simp_all add: take_from_others_def)

lemma add_entry_queues:
  assumes "qc_ok qc"
  shows "qc_ok (add_entry pq qc)"
    "queues (add_entry pq qc) = (if pq \<in> set (queues qc) \<or> nrxq qc = 16 then queues qc else queues qc @ [pq])"
proof -
  have len: "length (rx_queue_list qc) = 16" "nrxq qc \<le> 16" "distinct (queues qc)"
    using assms by (simp_all add: qc_ok_def MAX_RX_QUEUE_PER_LCORE_def)
  show q: "queues (add_entry pq qc) = (if pq \<in> set (queues qc) \<or> nrxq qc = 16 then queues qc else queues qc @ [pq])"
    using len by (auto simp: add_entry_def queues_def MAX_RX_QUEUE_PER_LCORE_def take_Suc_conv_app_nth)
  show "qc_ok (add_entry pq qc)"
    unfolding qc_ok_def q using len
    by (auto simp: add_entry_def queues_def MAX_RX_QUEUE_PER_LCORE_def)
qed

text \<open>
  C25: Assigning a receive queue to an lcore keeps the table well formed, every queue polled by
  at most one lcore. The queue then belongs to that lcore and to no other, all other queues stay
  where they were, in order; except that a queue assigned to an lcore that already has sixteen is
  taken away from its owner and polled by nobody.
\<close>

theorem assign_queue:
  assumes ok: "table_ok table" and l: "unat lcore < RTE_MAX_LCORE" and pq: "pq = \<lparr>port_id = port, queue_id = queue\<rparr>"
  shows "\<exists>table'. set_thread_lcore_port_queue lcore port queue table = Inr table' \<and> table_ok table' \<and>
    (\<forall>l q. owns table' l q \<longleftrightarrow>
      (if q = pq then l = unat lcore \<and> (owns table l q \<or> nrxq (table ! l) < 16) else owns table l q)) \<and>
    (\<forall>i<length table. i \<noteq> unat lcore \<longrightarrow> queues (table' ! i) = remove1 pq (queues (table ! i)))"
proof -
  let ?l = "unat lcore"
  let ?t = "take_from_others ?l pq table"
  let ?t' = "?t[?l := add_entry pq (?t ! ?l)]"
  have len: "length table = 128" "?l < 128" using ok l by (simp_all add: table_ok_def RTE_MAX_LCORE_def)
  have qc: "qc_ok (table ! i)" if "i < 128" for i using ok that len(1) by (simp add: table_ok_def)
  have at: "?t' ! i = (if i = ?l then add_entry pq (table ! i) else take_away pq 0 (table ! i))" if "i < 128" for i
    using that len by (auto simp: take_from_others_nth nth_list_update)
  have qs: "queues (?t' ! i) = (if i \<noteq> ?l then remove1 pq (queues (table ! i))
      else if pq \<in> set (queues (table ! i)) \<or> nrxq (table ! i) = 16 then queues (table ! i) else queues (table ! i) @ [pq])"
    and ok': "qc_ok (?t' ! i)" if "i < 128" for i
    using qc [OF that] take_away_removes [OF qc [OF that], of pq] add_entry_queues [OF qc [OF that], of pq]
    unfolding at [OF that] by (cases "i = ?l"; simp)+
  have le: "nrxq (table ! i) \<le> 16" "distinct (queues (table ! i))" if "i < 128" for i
    using qc [OF that] by (simp_all add: qc_ok_def MAX_RX_QUEUE_PER_LCORE_def)
  have own: "owns ?t' i q \<longleftrightarrow> (if q = pq then i = ?l \<and> (owns table i q \<or> nrxq (table ! i) < 16) else owns table i q)" for i q
  proof (cases "i < 128")
    case True
    then show ?thesis using qs [OF True] le [OF True] len by (auto simp: owns_def take_from_others_nth)
  next
    case False
    then show ?thesis using len by (auto simp: owns_def take_from_others_nth)
  qed
  have uniq: "owns table i q \<Longrightarrow> owns table k q \<Longrightarrow> i = k" for i k q
    using ok unfolding table_ok_def by blast
  have "owns ?t' i q \<Longrightarrow> owns ?t' k q \<Longrightarrow> i = k" for i k q
    unfolding own using uniq by (cases "q = pq") auto
  moreover have "length ?t' = RTE_MAX_LCORE" using len by (simp add: take_from_others_nth RTE_MAX_LCORE_def)
  moreover have "\<forall>qc\<in>set ?t'. qc_ok qc"
    unfolding list_all_iff [symmetric] list_all_length using ok' len by (simp add: take_from_others_nth(2))
  ultimately have "table_ok ?t'" unfolding table_ok_def by blast
  moreover have "set_thread_lcore_port_queue lcore port queue table = Inr ?t'"
    using len by (simp add: set_thread_lcore_port_queue_def Let_def take_from_others_nth pq)
  moreover have "\<forall>i<length table. i \<noteq> ?l \<longrightarrow> queues (?t' ! i) = remove1 pq (queues (table ! i))"
    unfolding len(1) by (intro allI impI) (simp only: qs if_True not_False_eq_True)
  ultimately show ?thesis using own by (intro exI [of _ ?t']) blast
qed

definition empty_table :: "sdplane_queue_conf list" where
  "empty_table = replicate 128 \<lparr>nrxq = 0, rx_queue_list = replicate 16 \<lparr>port_id = 0, queue_id = 0\<rparr>\<rparr>"

lemma empty_table_ok: "table_ok empty_table"
  by (auto simp: table_ok_def empty_table_def qc_ok_def owns_def queues_def RTE_MAX_LCORE_def MAX_RX_QUEUE_PER_LCORE_def)

theorem assign_queue_witness:
  "\<exists>table'. set_thread_lcore_port_queue 2 1 0 empty_table = Inr table' \<and> table_ok table' \<and>
    owns table' 2 \<lparr>port_id = 1, queue_id = 0\<rparr>"
  using assign_queue [OF empty_table_ok, of 2 "\<lparr>port_id = 1, queue_id = 0\<rparr>" 1 0]
  by (auto simp: RTE_MAX_LCORE_def empty_table_def)

text \<open>
  The lcore number the command accepts as its largest, 128, is outside the table: after the
  queue has been taken from its owner, the command leaves the array.
\<close>

theorem assign_queue_out_of_range:
  "length table = RTE_MAX_LCORE \<Longrightarrow>
   set_thread_lcore_port_queue lcore port queue table = Inl OutOfBounds \<longleftrightarrow> 128 \<le> unat lcore"
  by (auto simp: set_thread_lcore_port_queue_def Let_def guardr_def take_from_others_nth RTE_MAX_LCORE_def)

theorem assign_queue_out_of_range_witness:
  "set_thread_lcore_port_queue 128 0 0 empty_table = Inl OutOfBounds"
  using assign_queue_out_of_range [of empty_table 128 0 0] by (simp add: empty_table_def RTE_MAX_LCORE_def)

end
