(* ===== verification/Internal_Message.thy ===== *)
theory Internal_Message
  imports Prelude
begin

text \<open>
  Messages between threads: \<open>sdplane/internal_message.c\<close>. A message is a header and a body; the
  body is \<open>None\<close> when it was left zeroed. The ring is a DPDK structure: its enqueue and dequeue
  functions are arguments, a failed enqueue leaving the ring as it was.
\<close>

record 'b internal_msg =
  msg_type :: u32
  msg_length :: u32
  msg_content :: "'b option"

definition INTERNAL_MSG_TYPE_NONE :: u16 where "INTERNAL_MSG_TYPE_NONE = 0"
definition INTERNAL_MSG_TYPE_QCONF :: u16 where "INTERNAL_MSG_TYPE_QCONF = 1"
definition INTERNAL_MSG_TYPE_ETH_LINK :: u16 where "INTERNAL_MSG_TYPE_ETH_LINK = 2"
definition INTERNAL_MSG_TYPE_PORT_STATUS :: u16 where "INTERNAL_MSG_TYPE_PORT_STATUS = 3"
definition INTERNAL_MSG_TYPE_NETTLP_SEND_DMA_WRITE :: u16 where "INTERNAL_MSG_TYPE_NETTLP_SEND_DMA_WRITE = 4"
definition INTERNAL_MSG_TYPE_NETTLP_SEND_DMA_READ :: u16 where "INTERNAL_MSG_TYPE_NETTLP_SEND_DMA_READ = 5"
definition INTERNAL_MSG_TYPE_QCONF2 :: u16 where "INTERNAL_MSG_TYPE_QCONF2 = 6"
definition INTERNAL_MSG_TYPE_TXRX_DESC :: u16 where "INTERNAL_MSG_TYPE_TXRX_DESC = 7"

lemmas msg_types = INTERNAL_MSG_TYPE_NONE_def INTERNAL_MSG_TYPE_QCONF_def INTERNAL_MSG_TYPE_ETH_LINK_def
  INTERNAL_MSG_TYPE_PORT_STATUS_def INTERNAL_MSG_TYPE_NETTLP_SEND_DMA_WRITE_def
  INTERNAL_MSG_TYPE_NETTLP_SEND_DMA_READ_def INTERNAL_MSG_TYPE_QCONF2_def INTERNAL_MSG_TYPE_TXRX_DESC_def

definition internal_msg_body :: "'b internal_msg option \<Rightarrow> 'b option option" where
  "internal_msg_body msgp = map_option msg_content msgp"

text \<open>\<open>ok\<close> is the outcome of the allocation.\<close>

definition internal_msg_create :: "bool \<Rightarrow> u16 \<Rightarrow> 'b option \<Rightarrow> u32 \<Rightarrow> 'b internal_msg option" where
  "internal_msg_create ok ty contentp content_length =
    (if ok then Some \<lparr>msg_type = ucast ty, msg_length = content_length, msg_content = contentp\<rparr> else None)"

text \<open>
  Sending hands the pointer to the ring, a null one included; without a ring the message is
  reported and dropped, without being freed. The result is 0 in every case.
\<close>

definition internal_msg_send_to ::
  "('q \<Rightarrow> 'b internal_msg option \<Rightarrow> 'q option) \<Rightarrow> 'q option \<Rightarrow> 'b internal_msg option \<Rightarrow> 'q option \<times> int" where
  "internal_msg_send_to enqueue ring msgp =
    (case ring of None \<Rightarrow> (None, 0)
     | Some q \<Rightarrow> (Some (case enqueue q msgp of None \<Rightarrow> q | Some q' \<Rightarrow> q'), 0))"

definition internal_msg_recv ::
  "('q \<Rightarrow> ('b internal_msg option \<times> 'q) option) \<Rightarrow> 'q option \<Rightarrow> 'b internal_msg option \<times> 'q option" where
  "internal_msg_recv dequeue ring =
    (case ring of None \<Rightarrow> (None, None)
     | Some q \<Rightarrow> (case dequeue q of None \<Rightarrow> (None, Some q) | Some (m, q') \<Rightarrow> (m, Some q')))"

end
