(* ===== verification/Rib_Manager.thy ===== *)
theory Rib_Manager
  imports Queue_Config Internal_Message "HOL-Library.Multiset"
begin

text \<open>
  The routing information base: the structures of \<open>sdplane/rib.h\<close> and the update of the shared
  copy by \<open>sdplane/rib_manager.c\<close>. Readers follow one RCU pointer; the manager builds a new
  copy for every message, publishes it and frees the old one.

  The DPDK calls that answer a question (ports, link states, lcores, ring creation) are the
  fields of \<open>eth_api\<close>; those that configure a device are recorded in the order of the calls.
\<close>

section \<open>Structures\<close>

record eth_link =
  link_speed :: u32
  link_duplex :: bool
  link_autoneg :: bool
  link_status :: bool

record eth_dev_info =
  nb_rx_queues :: nat
  nb_tx_queues :: nat

record port_conf =
  nb_rxd :: u16
  nb_txd :: u16
  port_link :: eth_link
  dev_info :: eth_dev_info

record switch_port =
  sp_type :: u8
  sp_portid :: u8

record vswitch_conf =
  vs_port_size :: u16
  vs_port :: "switch_port list"

text \<open>A \<open>struct lcore_qconf\<close> has the two receive fields of \<open>sdplane_queue_conf\<close>.\<close>

type_synonym lcore_qconf = sdplane_queue_conf

record rib_info =
  ver :: u32
  tapif_size :: u8
  vswitch_size :: u8
  port_size :: u8
  lcore_size :: u8
  tapif :: "int list"
  vswitch :: "vswitch_conf list"
  rib_port :: "port_conf list"
  rib_qconf :: "lcore_qconf list"

definition zero_port :: port_conf where
  "zero_port = \<lparr>nb_rxd = 0, nb_txd = 0,
     port_link = \<lparr>link_speed = 0, link_duplex = False, link_autoneg = False, link_status = False\<rparr>,
     dev_info = \<lparr>nb_rx_queues = 0, nb_tx_queues = 0\<rparr>\<rparr>"

definition zero_rib_info :: rib_info where
  "zero_rib_info = \<lparr>ver = 0, tapif_size = 0, vswitch_size = 0, port_size = 0, lcore_size = 0,
     tapif = replicate 16 0,
     vswitch = replicate 4 \<lparr>vs_port_size = 0, vs_port = replicate 4 \<lparr>sp_type = 0, sp_portid = 0\<rparr>\<rparr>,
     rib_port = replicate RTE_MAX_ETHPORTS zero_port,
     rib_qconf = replicate RTE_MAX_LCORE
       \<lparr>nrxq = 0, rx_queue_list = replicate MAX_RX_QUEUE_PER_LCORE \<lparr>port_id = 0, queue_id = 0\<rparr>\<rparr>\<rparr>"

text \<open>A \<open>struct rib\<close> is its pointer to a \<open>rib_info\<close>.\<close>

type_synonym rib = "rib_info option"

datatype dev_call =
    Dev_stop nat | Dev_configure nat nat nat | Rx_queue_setup nat nat u16 | Tx_queue_setup nat nat u16
  | Dev_start nat

record eth_api =
  dev_count_avail :: nat
  dev_info_get :: "nat \<Rightarrow> eth_dev_info"
  link_get :: "nat \<Rightarrow> eth_link"
  lcore_count :: nat
  zmalloc_ok :: "nat \<Rightarrow> nat \<Rightarrow> bool"
  ring_create_ok :: "u16 \<Rightarrow> u16 \<Rightarrow> bool"

text \<open>
  The manager's state: the shared pointer, the rings and transmit buffers that exist, the device
  calls made, the pointers published, and how many blocks it allocated and has not freed.
\<close>

record rib_state =
  rcu_rib :: "rib option"
  rib_rcu_replace :: u64
  ring_up :: "port_queue_conf set"
  ring_dn :: "port_queue_conf set"
  tx_buffers :: "(nat \<times> nat) set"
  dev_calls :: "dev_call list"
  published :: "rib option list"
  blocks :: int

section \<open>Copying and replacing\<close>

definition rib_info_create :: "bool \<Rightarrow> rib_info option \<Rightarrow> rib_info option" where
  "rib_info_create ok old =
    (if ok then let new = (case old of None \<Rightarrow> zero_rib_info | Some i \<Rightarrow> i) in Some (new\<lparr>ver := ver new + 1\<rparr>)
     else None)"

definition rib_create :: "bool \<Rightarrow> bool \<Rightarrow> rib option \<Rightarrow> rib option" where
  "rib_create ok ok_info old =
    (if ok then Some (rib_info_create ok_info (case old of None \<Rightarrow> None | Some i \<Rightarrow> i)) else None)"

definition rib_blocks :: "rib option \<Rightarrow> int" where
  "rib_blocks r = (case r of None \<Rightarrow> 0 | Some None \<Rightarrow> 1 | Some (Some i) \<Rightarrow> 2)"

definition rib_delete :: "rib \<Rightarrow> rib_state \<Rightarrow> rib_state" where
  "rib_delete old s = s\<lparr>blocks := blocks s - rib_blocks (Some old)\<rparr>"

definition rib_replace :: "rib option \<Rightarrow> rib_state \<Rightarrow> rib_state" where
  "rib_replace new s =
    (let old = rcu_rib s;
         s = s\<lparr>rcu_rib := new, published := published s @ [new]\<rparr>;
         s = (case old of None \<Rightarrow> s | Some r \<Rightarrow> rib_delete r s)
     in s\<lparr>rib_rcu_replace := rib_rcu_replace s + 1\<rparr>)"

section \<open>Checking a queue assignment\<close>

definition port_qconf_compare :: "port_queue_conf \<Rightarrow> port_queue_conf \<Rightarrow> int" where
  "port_qconf_compare a b =
    (if port_id a < port_id b then -1 else if port_id b < port_id a then 1
     else if queue_id a < queue_id b then -1 else if queue_id b < queue_id a then 1 else 0)"

definition MAX_PORT_QCONF :: nat where "MAX_PORT_QCONF = 256"

definition assigned :: "rib_info \<Rightarrow> port_queue_conf list" where
  "assigned new = concat (map queues (take (unat (lcore_size new)) (rib_qconf new)))"

text \<open>The largest lcore, below \<open>lcore_size\<close>, with a queue; 0 when there is none.\<close>

definition max_lcore :: "rib_info \<Rightarrow> nat" where
  "max_lcore new = fold (\<lambda>lcore m. if 0 < nrxq (rib_qconf new ! lcore) \<and> m < lcore then lcore else m)
     [0..<unat (lcore_size new)] 0"

text \<open>The number of queues of each port, or \<open>None\<close> when the ids of a port are not in sequence.\<close>

fun count_queues :: "port_queue_conf list \<Rightarrow> nat list \<Rightarrow> nat list option res" where
  "count_queues [] port_nrxq = Inr (Some port_nrxq)"
| "count_queues (rxq # rest) port_nrxq =
    (let p = unat (port_id rxq)
     in guardr (p < length port_nrxq) OutOfBounds
       (if port_nrxq ! p = unat (queue_id rxq)
        then count_queues rest (port_nrxq[p := port_nrxq ! p + 1])
        else Inr None))"

definition desc_or_default :: "u16 \<Rightarrow> u16" where
  "desc_or_default n = (if n \<noteq> 0 then n else 1024)"

definition configure_port :: "eth_api \<Rightarrow> rib_info \<Rightarrow> nat \<Rightarrow> nat \<Rightarrow> nat \<Rightarrow> rib_state \<Rightarrow> rib_state" where
  "configure_port api new n_tx n_rx i s =
    (let rxd = desc_or_default (nb_rxd (rib_port new ! i)); txd = desc_or_default (nb_txd (rib_port new ! i))
     in s\<lparr>dev_calls := dev_calls s @ [Dev_stop i, Dev_configure i n_rx n_tx] @
            map (\<lambda>j. Rx_queue_setup i j rxd) [0..<n_rx] @ map (\<lambda>j. Tx_queue_setup i j txd) [0..<n_tx] @
            [Dev_start i],
          tx_buffers := tx_buffers s \<union> set (filter (\<lambda>(i, j). zmalloc_ok api i j) (map (Pair i) [0..<n_tx]))\<rparr>)"

definition create_rings :: "eth_api \<Rightarrow> port_queue_conf \<Rightarrow> rib_state \<Rightarrow> rib_state res" where
  "create_rings api rxq s =
    guardr (unat (port_id rxq) < RTE_MAX_ETHPORTS \<and> unat (queue_id rxq) < MAX_RX_QUEUE_PER_LCORE) OutOfBounds
      (Inr (if ring_create_ok api (port_id rxq) (queue_id rxq)
            then s\<lparr>ring_up := insert rxq (ring_up s), ring_dn := insert rxq (ring_dn s)\<rparr> else s))"

text \<open>
  The result is 0 or -1. \<open>qsort\<close> is the library function at the comparison. Rings are created for
  every lcore, those beyond \<open>lcore_size\<close> included.
\<close>

definition rib_check ::
  "eth_api \<Rightarrow> (port_queue_conf list \<Rightarrow> port_queue_conf list) \<Rightarrow> rib_info \<Rightarrow> rib_state \<Rightarrow> (int \<times> rib_state) res" where
  "rib_check api qsort new s =
    guardr (unat (lcore_size new) \<le> length (rib_qconf new)) OutOfBounds
    (guardr (length (assigned new) \<le> MAX_PORT_QCONF) OutOfBounds
      (bindr (count_queues (qsort (assigned new)) (replicate RTE_MAX_ETHPORTS 0)) (\<lambda>r. case r of
         None \<Rightarrow> Inr (-1, s)
       | Some port_nrxq \<Rightarrow>
           let s = fold (\<lambda>i. configure_port api new (max_lcore new + 1) (port_nrxq ! i) i) [0..<dev_count_avail api] s
           in bindr (runr (create_rings api) (concat (map queues (rib_qconf new))) s) (\<lambda>s. Inr (0, s)))))"

section \<open>Messages\<close>

datatype rib_msg_body = Body_qconf "sdplane_queue_conf list" | Body_desc u16 u16 u16 | Body_other bytes

text \<open>Both sizes are stored into 8-bit fields.\<close>

definition update_port_status :: "eth_api \<Rightarrow> rib_info \<Rightarrow> rib_info" where
  "update_port_status api new =
    (let n = dev_count_avail api
     in new\<lparr>port_size := of_nat n,
       rib_port := map (\<lambda>(i, p). if i < n then p\<lparr>dev_info := dev_info_get api i, port_link := link_get api i\<rparr> else p)
         (zip [0..<length (rib_port new)] (rib_port new)),
       lcore_size := of_nat (lcore_count api)\<rparr>)"

text \<open>A queue list is copied only for the lcores the message gives queues to.\<close>

definition copy_qconf :: "sdplane_queue_conf \<Rightarrow> lcore_qconf \<Rightarrow> lcore_qconf" where
  "copy_qconf src dst = (if nrxq src = 0 then dst
     else dst\<lparr>nrxq := nrxq src, rx_queue_list := queues src @ drop (nrxq src) (rx_queue_list dst)\<rparr>)"

definition take_qconf :: "eth_api \<Rightarrow> sdplane_queue_conf list \<Rightarrow> rib_info \<Rightarrow> rib_info" where
  "take_qconf api qconf new =
    new\<lparr>lcore_size := of_nat (lcore_count api),
      rib_qconf := map (\<lambda>(i, src, dst). if i < lcore_count api then copy_qconf src dst else dst)
        (zip [0..<length (rib_qconf new)] (zip qconf (rib_qconf new)))\<rparr>"

definition fixed_qconf :: "eth_api \<Rightarrow> rib_info \<Rightarrow> rib_info" where
  "fixed_qconf api new =
    (let set_nrxq = (\<lambda>n qc. qc\<lparr>nrxq := n\<rparr>); q = rib_qconf new;
         two = (rib_qconf new ! 2)\<lparr>nrxq := 2, rx_queue_list := (rx_queue_list (rib_qconf new ! 2))
           [0 := \<lparr>port_id = 0, queue_id = 0\<rparr>, 1 := \<lparr>port_id = 1, queue_id = 0\<rparr>]\<rparr>
     in new\<lparr>lcore_size := of_nat (lcore_count api),
          rib_qconf := q[0 := set_nrxq 0 (q ! 0), 1 := set_nrxq 0 (q ! 1), 2 := two]\<rparr>)"

text \<open>
  Outcomes of the three allocations a message may need: the new rib, its \<open>rib_info\<close>, and the
  empty rib that is published between two queue assignments.
\<close>

record mallocs =
  malloc_rib :: bool
  malloc_info :: bool
  malloc_zero :: bool

text \<open>After a successful check: publish an empty rib, free the message, publish the new one.\<close>

definition finish :: "rib option \<Rightarrow> rib_state \<Rightarrow> rib_state" where
  "finish new s = rib_replace new (s\<lparr>blocks := blocks s - 1\<rparr>)"

definition replace_zero :: "mallocs \<Rightarrow> rib_state \<Rightarrow> rib_state" where
  "replace_zero mem s =
    (if malloc_zero mem then rib_replace (Some None) (s\<lparr>blocks := blocks s + 1\<rparr>) else s)"

definition apply_qconf ::
  "eth_api \<Rightarrow> (port_queue_conf list \<Rightarrow> port_queue_conf list) \<Rightarrow> mallocs \<Rightarrow> rib_info \<Rightarrow> rib_state \<Rightarrow> rib_state res" where
  "apply_qconf api qsort mem info s =
    bindr (rib_check api qsort info s) (\<lambda>(ret, s).
      Inr (if ret < 0 then s else finish (Some (Some info)) (replace_zero mem s)))"

text \<open>The message pointer has been allocated by the sender and is counted in \<open>blocks\<close>.\<close>

definition rib_manager_process_message ::
  "eth_api \<Rightarrow> (port_queue_conf list \<Rightarrow> port_queue_conf list) \<Rightarrow> mallocs \<Rightarrow> rib_msg_body internal_msg \<Rightarrow>
   rib_state \<Rightarrow> rib_state res" where
  "rib_manager_process_message api qsort mem m s =
    (let new = rib_create (malloc_rib mem) (malloc_info mem) (rcu_rib s);
         s = s\<lparr>blocks := blocks s + rib_blocks new\<rparr>;
         with_info = (\<lambda>f. case new of Some (Some info) \<Rightarrow> f info | _ \<Rightarrow> Inl NullDeref);
         ty = msg_type m
     in if ty = ucast INTERNAL_MSG_TYPE_PORT_STATUS
        then with_info (\<lambda>info. Inr (finish (Some (Some (update_port_status api info))) s))
        else if ty = ucast INTERNAL_MSG_TYPE_QCONF
        then with_info (\<lambda>info. case msg_content m of
               Some (Body_qconf qconf) \<Rightarrow>
                 guardr (lcore_count api \<le> RTE_MAX_LCORE) OutOfBounds (apply_qconf api qsort mem (take_qconf api qconf info) s)
             | _ \<Rightarrow> Inl OutOfBounds)
        else if ty = ucast INTERNAL_MSG_TYPE_QCONF2
        then with_info (\<lambda>info. apply_qconf api qsort mem (fixed_qconf api info) s)
        else if ty = ucast INTERNAL_MSG_TYPE_TXRX_DESC
        then with_info (\<lambda>info. case msg_content m of
               Some (Body_desc portid rxd txd) \<Rightarrow>
                 guardr (unat portid < RTE_MAX_ETHPORTS) OutOfBounds
                   (Inr (finish (Some (Some (info\<lparr>rib_port := (rib_port info)[unat portid :=
                     (rib_port info ! unat portid)\<lparr>nb_rxd := rxd, nb_txd := txd\<rparr>]\<rparr>))) s))
             | _ \<Rightarrow> Inl OutOfBounds)
        else Inr (finish new s))"

text \<open>The thread: one turn of its loop, and the two commands that only send a message.\<close>

definition rib_manager_turn ::
  "eth_api \<Rightarrow> (port_queue_conf list \<Rightarrow> port_queue_conf list) \<Rightarrow> mallocs \<Rightarrow>
   ('q \<Rightarrow> (rib_msg_body internal_msg option \<times> 'q) option) \<Rightarrow> 'q option \<times> rib_state \<Rightarrow> ('q option \<times> rib_state) res" where
  "rib_manager_turn api qsort mem dequeue = (\<lambda>(queue, s).
    case internal_msg_recv dequeue queue of
      (None, queue) \<Rightarrow> Inr (queue, s)
    | (Some m, queue) \<Rightarrow> bindr (rib_manager_process_message api qsort mem m s) (\<lambda>s. Inr (queue, s)))"

definition rib_manager_send_message ::
  "('q \<Rightarrow> rib_msg_body internal_msg option \<Rightarrow> 'q option) \<Rightarrow> 'q option \<Rightarrow> rib_msg_body internal_msg option \<Rightarrow> 'q option" where
  "rib_manager_send_message enqueue queue m = fst (internal_msg_send_to enqueue queue m)"

definition update_port_status_cmd ::
  "('q \<Rightarrow> rib_msg_body internal_msg option \<Rightarrow> 'q option) \<Rightarrow> bool \<Rightarrow> 'q option \<Rightarrow> 'q option" where
  "update_port_status_cmd enqueue ok queue =
    fst (internal_msg_send_to enqueue queue (internal_msg_create ok INTERNAL_MSG_TYPE_PORT_STATUS None 0))"

text \<open>The assignment command: the table is changed, then sent as a whole. \<open>size\<close> is its size in bytes.\<close>

definition set_thread_command ::
  "('q \<Rightarrow> rib_msg_body internal_msg option \<Rightarrow> 'q option) \<Rightarrow> bool \<Rightarrow> u32 \<Rightarrow> u16 \<Rightarrow> u16 \<Rightarrow> u16 \<Rightarrow>
   'q option \<times> sdplane_queue_conf list \<Rightarrow> ('q option \<times> sdplane_queue_conf list) res" where
  "set_thread_command enqueue ok bytes lcore port queue = (\<lambda>(ring, table).
    bindr (set_thread_lcore_port_queue lcore port queue table) (\<lambda>table.
      Inr (fst (internal_msg_send_to enqueue ring
        (internal_msg_create ok INTERNAL_MSG_TYPE_QCONF (Some (Body_qconf table)) bytes)), table)))"

section \<open>Display\<close>

text \<open>What the commands print, line by line; \<open>ptr\<close> is the printed address of the \<open>rib_info\<close>.\<close>

definition show_queues :: "string \<Rightarrow> lcore_qconf \<Rightarrow> nat \<Rightarrow> string list" where
  "show_queues prefix qc i =
    map (\<lambda>j. prefix @ dec i @ '']: rxq['' @ dec j @ '']: port_id: '' @ dec_word (port_id (rx_queue_list qc ! j)) @
      '' queue_id: '' @ dec_word (queue_id (rx_queue_list qc ! j))) [0..<nrxq qc]"

definition show_vswitch :: "vswitch_conf \<Rightarrow> nat \<Rightarrow> string list" where
  "show_vswitch vs i =
    (''rib_info: vswitch['' @ dec i @ '']: port_size: '' @ dec_word (vs_port_size vs)) #
    map (\<lambda>j. ''rib_info: vswitch['' @ dec i @ '']: port['' @ dec j @ '']: type: '' @
      dec_word (sp_type (vs_port vs ! j)) @ '' portid: '' @ dec_word (sp_portid (vs_port vs ! j)))
      [0..<unat (vs_port_size vs)]"

definition show_port :: "port_conf \<Rightarrow> nat \<Rightarrow> string list" where
  "show_port p i =
    (let head = ''rib_info: port['' @ dec i @ '']: ''; link = port_link p
     in [head @ ''nb_rxd: '' @ dec_word (nb_rxd p) @ '' nb_txd: '' @ dec_word (nb_txd p),
         head @ ''link: speed: '' @ dec_word (link_speed link) @ '' duplex: '' @ dec_bool (link_duplex link) @
           '' autoneg: '' @ dec_bool (link_autoneg link) @ '' status: '' @ dec_bool (link_status link),
         head @ ''nrxq: '' @ dec (nb_rx_queues (dev_info p)) @ '' ntxq: '' @ dec (nb_tx_queues (dev_info p))])"

definition show_lcore :: "lcore_qconf \<Rightarrow> nat \<Rightarrow> string list" where
  "show_lcore qc i = (''rib_info: lcore['' @ dec i @ '']: nrxq: '' @ dec (nrxq qc)) # show_queues ''rib_info: lcore['' qc i"

definition show_rib :: "string \<Rightarrow> rib option \<Rightarrow> string list" where
  "show_rib ptr r = (case r of
      None \<Rightarrow> []
    | Some None \<Rightarrow> [''no rib-info.'']
    | Some (Some i) \<Rightarrow>
        [''rib_info: ver: '' @ dec_word (ver i) @ '' ('' @ ptr @ '')'',
         ''rib_info: tapif_size: '' @ dec_word (tapif_size i)] @
        map (\<lambda>k. ''rib_info: tapif['' @ dec k @ '']: sockfd: '' @ dec_int (tapif i ! k)) [0..<unat (tapif_size i)] @
        [''rib_info: vswitch_size: '' @ dec_word (vswitch_size i)] @
        concat (map (\<lambda>k. show_vswitch (vswitch i ! k) k) [0..<unat (vswitch_size i)]) @
        [''rib_info: port_size: '' @ dec_word (port_size i)] @
        concat (map (\<lambda>k. show_port (rib_port i ! k) k) [0..<unat (port_size i)]) @
        [''rib_info: lcore_size: '' @ dec_word (lcore_size i)] @
        concat (map (\<lambda>k. show_lcore (rib_qconf i ! k) k) [0..<unat (lcore_size i)]))"

text \<open>The queue table as it is in use, or as configured while there is no rib.\<close>

definition show_qconf_line :: "string \<Rightarrow> sdplane_queue_conf \<Rightarrow> nat \<Rightarrow> string" where
  "show_qconf_line head qc j = head @ '' rxq['' @ dec j @ ''/'' @ dec (nrxq qc) @ '']: port: '' @
     dec_word (port_id (rx_queue_list qc ! j)) @ '' queue: '' @ dec_word (queue_id (rx_queue_list qc ! j))"

definition show_thread_qconf :: "rib option \<Rightarrow> sdplane_queue_conf list \<Rightarrow> string list" where
  "show_thread_qconf r table = (case r of
      Some (Some info) \<Rightarrow> concat (map (\<lambda>i. map
        (show_qconf_line (''rib->rib_info: lcore: '' @ dec i) (rib_qconf info ! i))
        [0..<nrxq (rib_qconf info ! i)]) [0..<unat (lcore_size info)])
    | _ \<Rightarrow> concat (map (\<lambda>i. map
        (show_qconf_line (''thread_qconf['' @ dec i @ '']: lcore: '' @ dec i) (table ! i))
        [0..<nrxq (table ! i)]) [0..<RTE_MAX_LCORE]))"

section \<open>What the check decides\<close>

text \<open>The contract of \<open>qsort\<close> at this comparison.\<close>

definition qsort_ok :: "(port_queue_conf list \<Rightarrow> port_queue_conf list) \<Rightarrow> bool" where
  "qsort_ok qsort \<longleftrightarrow> (\<forall>xs. mset (qsort xs) = mset xs \<and> sorted_wrt (\<lambda>a b. port_qconf_compare a b \<le> 0) (qsort xs))"

definition port_queues :: "nat \<Rightarrow> port_queue_conf list \<Rightarrow> nat list" where
  "port_queues p xs = map (\<lambda>r. unat (queue_id r)) (filter (\<lambda>r. unat (port_id r) = p) xs)"

lemma port_queues_Cons [simp]:
  "port_queues p (r # xs) = (if unat (port_id r) = p then unat (queue_id r) # port_queues p xs else port_queues p xs)"
  by (simp add: port_queues_def)

lemma port_queues_Nil [simp]: "port_queues p [] = []"
  by (simp add: port_queues_def)

lemma mset_port_queues: "mset xs = mset ys \<Longrightarrow> mset (port_queues p xs) = mset (port_queues p ys)"
  unfolding port_queues_def mset_map mset_filter by simp

text \<open>A list that counts up from \<open>c\<close>.\<close>

primrec run_from :: "nat \<Rightarrow> nat list \<Rightarrow> bool" where
  "run_from c [] \<longleftrightarrow> True"
| "run_from c (q # qs) \<longleftrightarrow> q = c \<and> run_from (Suc c) qs"

lemma run_from_upt: "run_from c qs \<longleftrightarrow> qs = [c..<c + length qs]"
proof (induction qs arbitrary: c)
  case (Cons q qs)
  have "[c..<c + length (q # qs)] = c # [Suc c..<Suc c + length qs]" by (simp add: upt_rec)
  then show ?case using Cons.IH [of "Suc c"] by simp
qed simp

lemma count_queues_eq:
  assumes "\<forall>r\<in>set xs. unat (port_id r) < length c"
  shows "count_queues xs c =
    (if \<forall>p<length c. run_from (c ! p) (port_queues p xs)
     then Inr (Some (map (\<lambda>p. c ! p + length (port_queues p xs)) [0..<length c])) else Inr None)"
  using assms
proof (induction xs arbitrary: c)
  case Nil
  then show ?case by (simp add: map_nth)
next
  case (Cons r xs)
  let ?p = "unat (port_id r)" and ?q = "unat (queue_id r)"
  let ?c = "c[?p := c ! ?p + 1]"
  have p: "?p < length c" using Cons.prems by simp
  have iff: "(\<forall>p<length c. run_from (c ! p) (port_queues p (r # xs))) \<longleftrightarrow>
      ?q = c ! ?p \<and> (\<forall>p<length c. run_from (?c ! p) (port_queues p xs))"
    using p by (auto simp: nth_list_update)
  show ?case
  proof (cases "c ! ?p = ?q")
    case True
    have "map (\<lambda>p. ?c ! p + length (port_queues p xs)) [0..<length c] =
        map (\<lambda>p. c ! p + length (port_queues p (r # xs))) [0..<length c]"
      using p by (auto simp: nth_list_update)
    with True Cons.IH [of ?c] Cons.prems p show ?thesis
      unfolding iff by (simp add: Let_def)
  next
    case False
    then show ?thesis using p unfolding iff by (simp add: Let_def)
  qed
qed

lemma sorted_port_queues:
  "sorted_wrt (\<lambda>a b. port_qconf_compare a b \<le> 0) xs \<Longrightarrow> sorted (port_queues p xs)"
proof (induction xs)
  case (Cons r xs)
  have "unat (queue_id r) \<le> unat (queue_id s)" if "s \<in> set xs" "unat (port_id s) = p" "unat (port_id r) = p" for s
  proof -
    have "port_id r = port_id s" using that by (simp add: word_unat_eq_iff)
    moreover have "port_qconf_compare r s \<le> 0" using Cons.prems that(1) by simp
    ultimately show ?thesis by (auto simp: port_qconf_compare_def word_le_nat_alt word_less_nat_alt split: if_splits)
  qed
  with Cons show ?case by (auto simp: port_queues_def)
qed simp

text \<open>The queue ids of every port are 0, 1, ..., without gap or repetition.\<close>

definition contiguous :: "port_queue_conf list \<Rightarrow> bool" where
  "contiguous xs \<longleftrightarrow> (\<forall>p<RTE_MAX_ETHPORTS.
     distinct (port_queues p xs) \<and> set (port_queues p xs) = {0..<length (port_queues p xs)})"

lemma sorted_interval:
  "sorted qs \<Longrightarrow> qs = [0..<length qs] \<longleftrightarrow> distinct qs \<and> set qs = {0..<length qs}"
  by (metis atLeastLessThan_upt distinct_upt sorted_distinct_set_unique sorted_upt)

lemma count_after_sort:
  assumes "qsort_ok qsort" "\<forall>r\<in>set xs. unat (port_id r) < RTE_MAX_ETHPORTS"
  shows "count_queues (qsort xs) (replicate RTE_MAX_ETHPORTS 0) =
    (if contiguous xs then Inr (Some (map (\<lambda>p. length (port_queues p xs)) [0..<RTE_MAX_ETHPORTS])) else Inr None)"
proof -
  let ?ys = "qsort xs"
  have m: "mset ?ys = mset xs" and so: "sorted_wrt (\<lambda>a b. port_qconf_compare a b \<le> 0) ?ys"
    using assms(1) by (simp_all add: qsort_ok_def)
  have ports: "\<forall>r\<in>set ?ys. unat (port_id r) < length (replicate RTE_MAX_ETHPORTS (0::nat))"
    using assms(2) mset_eq_setD [OF m] by simp
  note pq = mset_port_queues [OF m]
  have len: "length (port_queues p ?ys) = length (port_queues p xs)" for p
    using mset_eq_length [OF pq] .
  have "run_from 0 (port_queues p ?ys) \<longleftrightarrow>
      distinct (port_queues p xs) \<and> set (port_queues p xs) = {0..<length (port_queues p xs)}" for p
    using sorted_interval [OF sorted_port_queues [OF so], of p]
    unfolding run_from_upt add_0 len mset_eq_setD [OF pq] mset_eq_imp_distinct_iff [OF pq] .
  then show ?thesis
    unfolding count_queues_eq [OF ports] by (simp add: contiguous_def len cong: map_cong)
qed

lemma create_rings_run:
  "runr (create_rings api) xs s =
    (if \<forall>r\<in>set xs. unat (port_id r) < RTE_MAX_ETHPORTS \<and> unat (queue_id r) < MAX_RX_QUEUE_PER_LCORE
     then Inr (s\<lparr>ring_up := ring_up s \<union> {r \<in> set xs. ring_create_ok api (port_id r) (queue_id r)},
                ring_dn := ring_dn s \<union> {r \<in> set xs. ring_create_ok api (port_id r) (queue_id r)}\<rparr>)
     else Inl OutOfBounds)"
proof (induction xs arbitrary: s)
  case (Cons r xs)
  have "insert r A \<union> {x \<in> set xs. f x} = A \<union> {x \<in> set (r # xs). f x}" if "f r" for A f using that by auto
  moreover have "{x \<in> set (r # xs). f x} = {x \<in> set xs. f x}" if "\<not> f r" for f using that by auto
  ultimately show ?case using Cons.IH by (auto simp: create_rings_def guardr_def)
qed simp

lemma configure_fold:
  "fold (\<lambda>i. configure_port api new n (f i) i) ps s =
   s\<lparr>dev_calls := dev_calls (fold (\<lambda>i. configure_port api new n (f i) i) ps s),
     tx_buffers := tx_buffers (fold (\<lambda>i. configure_port api new n (f i) i) ps s)\<rparr>"
proof (induction ps arbitrary: s)
  case (Cons p ps)
  show ?case unfolding fold_simps comp_apply
    by (subst Cons.IH) (simp add: configure_port_def Let_def)
qed simp

definition port_calls :: "rib_info \<Rightarrow> nat \<Rightarrow> nat \<Rightarrow> nat \<Rightarrow> dev_call list" where
  "port_calls new n_tx n_rx i = [Dev_stop i, Dev_configure i n_rx n_tx] @
     map (\<lambda>j. Rx_queue_setup i j (desc_or_default (nb_rxd (rib_port new ! i)))) [0..<n_rx] @
     map (\<lambda>j. Tx_queue_setup i j (desc_or_default (nb_txd (rib_port new ! i)))) [0..<n_tx] @ [Dev_start i]"

lemma configure_calls:
  "dev_calls (fold (\<lambda>i. configure_port api new n (f i) i) ps s) =
   dev_calls s @ concat (map (\<lambda>i. port_calls new n (f i) i) ps)"
  by (induction ps arbitrary: s) (simp_all add: configure_port_def port_calls_def Let_def)

text \<open>
  C18: The check accepts a queue assignment exactly when the queue ids given out for every port
  are 0, 1, ... without gap or repetition, in whatever order and over whatever lcores. An
  accepted assignment reconfigures every port with its number of receive queues and one transmit
  queue per lcore up to the last one used, and leaves the table and the shared pointer alone; a
  rejected one changes nothing at all. A port or queue number outside the ring table is an access
  outside it.
\<close>

theorem rib_check_verdict:
  assumes q: "qsort_ok qsort" and n: "unat (lcore_size new) \<le> length (rib_qconf new)"
    and small: "length (assigned new) \<le> 256" and ports: "\<forall>r\<in>set (assigned new). unat (port_id r) < 32"
    and devs: "dev_count_avail api \<le> 32"
  shows "(\<not> contiguous (assigned new) \<longrightarrow> rib_check api qsort new s = Inr (-1, s)) \<and>
    (contiguous (assigned new) \<longrightarrow>
      (if \<forall>r\<in>set (concat (map queues (rib_qconf new))). unat (port_id r) < 32 \<and> unat (queue_id r) < 16
       then \<exists>s'. rib_check api qsort new s = Inr (0, s') \<and> rcu_rib s' = rcu_rib s \<and> published s' = published s \<and>
         blocks s' = blocks s \<and> rib_rcu_replace s' = rib_rcu_replace s \<and>
         dev_calls s' = dev_calls s @ concat (map (\<lambda>i. port_calls new (max_lcore new + 1)
           (length (port_queues i (assigned new))) i) [0..<dev_count_avail api]) \<and>
         ring_up s' = ring_up s \<union> {r \<in> set (concat (map queues (rib_qconf new))). ring_create_ok api (port_id r) (queue_id r)}
       else rib_check api qsort new s = Inl OutOfBounds))"
proof -
  let ?N = "map (\<lambda>p. length (port_queues p (assigned new))) [0..<RTE_MAX_ETHPORTS]"
  have "\<forall>r\<in>set (assigned new). unat (port_id r) < RTE_MAX_ETHPORTS" using ports by (simp add: RTE_MAX_ETHPORTS_def)
  note count = count_after_sort [OF q this]
  define t where "t = fold (\<lambda>i. configure_port api new (max_lcore new + 1) (?N ! i) i) [0..<dev_count_avail api] s"
  have t: "t = s\<lparr>dev_calls := dev_calls t, tx_buffers := tx_buffers t\<rparr>"
    unfolding t_def by (rule configure_fold)
  have calls: "dev_calls t = dev_calls s @ concat (map (\<lambda>i. port_calls new (max_lcore new + 1)
      (length (port_queues i (assigned new))) i) [0..<dev_count_avail api])"
    unfolding t_def configure_calls using devs
    by (intro arg_cong [where f = "\<lambda>xs. dev_calls s @ concat xs"] map_cong refl) (simp add: RTE_MAX_ETHPORTS_def)
  have same: "rcu_rib t = rcu_rib s" "published t = published s" "blocks t = blocks s"
    "rib_rcu_replace t = rib_rcu_replace s" "ring_up t = ring_up s"
    by (subst t, simp)+
  let ?all = "concat (map queues (rib_qconf new))"
  let ?R = "{r \<in> set ?all. ring_create_ok api (port_id r) (queue_id r)}"
  define ok where "ok \<longleftrightarrow> (\<forall>r\<in>set ?all. unat (port_id r) < 32 \<and> unat (queue_id r) < 16)"
  have run: "runr (create_rings api) ?all x =
      (if ok then Inr (x\<lparr>ring_up := ring_up x \<union> ?R, ring_dn := ring_dn x \<union> ?R\<rparr>) else Inl OutOfBounds)" for x
    unfolding create_rings_run ok_def RTE_MAX_ETHPORTS_def MAX_RX_QUEUE_PER_LCORE_def ..
  have "rib_check api qsort new s = (if \<not> contiguous (assigned new) then Inr (-1, s)
      else if ok then Inr (0, t\<lparr>ring_up := ring_up t \<union> ?R, ring_dn := ring_dn t \<union> ?R\<rparr>) else Inl OutOfBounds)"
    using n small unfolding rib_check_def count run MAX_PORT_QCONF_def
    by (simp add: Let_def t_def)
  then show ?thesis unfolding ok_def [symmetric] by (simp add: same calls)
qed

definition sort_queues :: "port_queue_conf list \<Rightarrow> port_queue_conf list" where
  "sort_queues = sort_key (\<lambda>r. unat (port_id r) * 65536 + unat (queue_id r))"

lemma unat16: "unat (w :: u16) < 65536"
  using unsigned_less [of w] by simp

lemma sort_queues_ok: "qsort_ok sort_queues"
proof -
  have "port_qconf_compare a b \<le> 0"
    if "unat (port_id a) * 65536 + unat (queue_id a) \<le> unat (port_id b) * 65536 + unat (queue_id b)" for a b :: port_queue_conf
    using that unat16 [of "queue_id a"] unat16 [of "queue_id b"]
    by (auto simp: port_qconf_compare_def word_less_nat_alt word_le_nat_alt not_less)
  note le = this
  have "sorted_wrt (\<lambda>a b. port_qconf_compare a b \<le> 0) (sort_queues xs)" for xs
    by (rule sorted_wrt_mono_rel [OF le sorted_sort_key [of "\<lambda>r. unat (port_id r) * 65536 + unat (queue_id r)" xs,
          unfolded sorted_map, folded sort_queues_def]])
  then show ?thesis by (simp add: qsort_ok_def) (simp add: sort_queues_def)
qed

definition sample_api :: eth_api where
  "sample_api = \<lparr>dev_count_avail = 2, dev_info_get = (\<lambda>_. \<lparr>nb_rx_queues = 1, nb_tx_queues = 3\<rparr>),
     link_get = (\<lambda>_. \<lparr>link_speed = 0, link_duplex = True, link_autoneg = True, link_status = True\<rparr>),
     lcore_count = 3, zmalloc_ok = (\<lambda>_ _. True), ring_create_ok = (\<lambda>_ _. True)\<rparr>"

definition sample_state :: rib_state where
  "sample_state = \<lparr>rcu_rib = None, rib_rcu_replace = 0, ring_up = {}, ring_dn = {}, tx_buffers = {},
     dev_calls = [], published = [], blocks = 1\<rparr>"

text \<open>An entry with the given queues.\<close>

definition qc_of :: "(u16 \<times> u16) list \<Rightarrow> sdplane_queue_conf" where
  "qc_of ps = \<lparr>nrxq = length ps, rx_queue_list = map (\<lambda>(p, q). \<lparr>port_id = p, queue_id = q\<rparr>) ps @
     replicate (16 - length ps) \<lparr>port_id = 0, queue_id = 0\<rparr>\<rparr>"

definition sample_info :: "(u16 \<times> u16) list list \<Rightarrow> rib_info" where
  "sample_info pss = zero_rib_info\<lparr>lcore_size := of_nat (length pss),
     rib_qconf := map qc_of pss @ replicate (128 - length pss) (qc_of [])\<rparr>"

lemma queues_qc_of [simp]: "queues (qc_of ps) = map (\<lambda>(p, q). \<lparr>port_id = p, queue_id = q\<rparr>) ps"
  by (simp add: qc_of_def queues_def)

lemma sample_assigned:
  assumes "length pss < 128"
  shows "assigned (sample_info pss) = concat (map (map (\<lambda>(p, q). \<lparr>port_id = p, queue_id = q\<rparr>)) pss)"
    "unat (lcore_size (sample_info pss)) = length pss" "length (rib_qconf (sample_info pss)) = 128"
proof -
  show n: "unat (lcore_size (sample_info pss)) = length pss"
    using assms by (simp add: sample_info_def unat_of_nat)
  show "assigned (sample_info pss) = concat (map (map (\<lambda>(p, q). \<lparr>port_id = p, queue_id = q\<rparr>)) pss)"
    unfolding assigned_def n by (simp add: sample_info_def comp_def)
qed (use assms in \<open>simp add: sample_info_def\<close>)

lemma sample_queues:
  "length pss < 128 \<Longrightarrow> set (concat (map queues (rib_qconf (sample_info pss)))) = set (assigned (sample_info pss))"
  by (simp add: sample_assigned) (simp add: sample_info_def)

lemma sort_upt3: "[0..<3] = [0, 1, 2 :: nat]"
  by (simp add: upt_rec)

theorem rib_check_verdict_witness:
  "(\<exists>s'. rib_check sample_api sort_queues (sample_info [[], [(0, 1)], [(0, 0), (1, 0)]]) sample_state = Inr (0, s') \<and>
      Dev_configure 0 2 3 \<in> set (dev_calls s')) \<and>
   rib_check sample_api sort_queues (sample_info [[(0, 0)], [(0, 0)]]) sample_state = Inr (-1, sample_state)"
proof
  let ?i = "sample_info [[], [(0, 1)], [(0, 0), (1, 0)]]"
  have a: "assigned ?i = [\<lparr>port_id = 0, queue_id = 1\<rparr>, \<lparr>port_id = 0, queue_id = 0\<rparr>, \<lparr>port_id = 1, queue_id = 0\<rparr>]"
    by (simp add: sample_assigned)
  have "unat (lcore_size ?i) = 3" by (simp add: sample_assigned)
  then have m: "max_lcore ?i = 2" by (simp add: max_lcore_def sort_upt3) (simp add: sample_info_def qc_of_def)
  have "contiguous (assigned ?i)" by (auto simp: contiguous_def a)
  moreover have "\<forall>r\<in>set (concat (map queues (rib_qconf ?i))). unat (port_id r) < 32 \<and> unat (queue_id r) < 16"
    by (subst sample_queues) (simp_all add: a)
  ultimately obtain s' where s': "rib_check sample_api sort_queues ?i sample_state = Inr (0, s')"
    "dev_calls s' = dev_calls sample_state @ concat (map (\<lambda>i. port_calls ?i (max_lcore ?i + 1)
       (length (port_queues i (assigned ?i))) i) [0..<dev_count_avail sample_api])"
    using rib_check_verdict [OF sort_queues_ok, of ?i sample_api sample_state]
    by (auto simp: sample_assigned(2,3)) (auto simp: a sample_api_def)
  have "Dev_configure 0 2 3 \<in> set (port_calls ?i (max_lcore ?i + 1) (length (port_queues 0 (assigned ?i))) 0)"
    by (simp add: a m port_calls_def)
  moreover have "0 \<in> set [0..<dev_count_avail sample_api]" by (simp add: sample_api_def)
  ultimately have "Dev_configure 0 2 3 \<in> set (dev_calls s')"
    unfolding s'(2) set_append set_concat set_map by blast
  with s'(1) show "\<exists>s'. rib_check sample_api sort_queues ?i sample_state = Inr (0, s') \<and> Dev_configure 0 2 3 \<in> set (dev_calls s')"
    by blast
next
  let ?j = "sample_info [[(0, 0)], [(0, 0)]]"
  have a: "assigned ?j = [\<lparr>port_id = 0, queue_id = 0\<rparr>, \<lparr>port_id = 0, queue_id = 0\<rparr>]"
    by (simp add: sample_assigned)
  then have "\<not> contiguous (assigned ?j)" by (auto simp: contiguous_def RTE_MAX_ETHPORTS_def)
  with rib_check_verdict [OF sort_queues_ok, of ?j sample_api sample_state] a
  show "rib_check sample_api sort_queues ?j sample_state = Inr (-1, sample_state)"
    by (simp add: sample_assigned sample_api_def)
qed

section \<open>What readers see\<close>


lemma finish_simps [simp]:
  "rcu_rib (finish new s) = new" "published (finish new s) = published s @ [new]"
  "blocks (finish new s) = blocks s - 1 - rib_blocks (rcu_rib s)"
  by (auto simp: finish_def rib_replace_def rib_delete_def rib_blocks_def Let_def split: option.splits)


text \<open>The version a new copy gets.\<close>

definition next_ver :: "rib option \<Rightarrow> u32" where
  "next_ver r = (case r of Some (Some i) \<Rightarrow> ver i + 1 | _ \<Rightarrow> 1)"

lemma rib_create_info:
  "rib_create True True r = Some (Some (((case r of Some (Some i) \<Rightarrow> i | _ \<Rightarrow> zero_rib_info)\<lparr>ver := next_ver r\<rparr>)))"
proof -
  have "ver zero_rib_info = 0" by (simp add: zero_rib_info_def)
  then show ?thesis
    by (cases r; cases "the r") (simp_all add: rib_create_def rib_info_create_def next_ver_def Let_def)
qed

lemma update_vers [simp]:
  "ver (update_port_status api i) = ver i" "ver (take_qconf api q i) = ver i" "ver (fixed_qconf api i) = ver i"
  by (simp_all add: update_port_status_def take_qconf_def fixed_qconf_def Let_def)



section \<open>Moving a queue between lcores\<close>

lemma queues_copy:
  "queues (copy_qconf src dst) = (if nrxq src = 0 then queues dst else queues src)"
  if "nrxq src \<le> length (rx_queue_list src)"
proof (cases "nrxq src = 0")
  case False
  have "length (queues src) = nrxq src" using that by (simp add: queues_def)
  then show ?thesis using False by (simp add: copy_qconf_def) (simp add: queues_def)
qed (simp add: copy_qconf_def)

lemma take_qconf_nth:
  assumes "i < length (rib_qconf info)" "length qconf = length (rib_qconf info)"
  shows "rib_qconf (take_qconf api qconf info) ! i =
    (if i < lcore_count api then copy_qconf (qconf ! i) (rib_qconf info ! i) else rib_qconf info ! i)"
    "length (rib_qconf (take_qconf api qconf info)) = length (rib_qconf info)"
  using assms by (simp_all add: take_qconf_def)

lemma repeated_not_contiguous:
  assumes "i < j" "j < n" "n \<le> length qcs" "pq \<in> set (queues (qcs ! i))" "pq \<in> set (queues (qcs ! j))"
    and p: "unat (port_id pq) < RTE_MAX_ETHPORTS"
  shows "\<not> contiguous (concat (map queues (take n qcs)))"
proof
  let ?f = "filter (\<lambda>r. unat (port_id r) = unat (port_id pq))"
  let ?xs = "take n qcs"
  have n: "i < length ?xs" "j < length ?xs" using assms by simp_all
  have "concat (map queues ?xs) = concat (map queues (take j ?xs)) @ queues (?xs ! j) @ concat (map queues (drop (Suc j) ?xs))"
    by (subst id_take_nth_drop [OF n(2)]) simp
  moreover have "?xs ! i \<in> set (take j ?xs)" using assms(1) n by (auto simp: in_set_conv_nth)
  ultimately have "\<not> distinct (?f (concat (map queues ?xs)))"
    using assms by (auto simp: disjoint_iff)
  moreover assume "contiguous (concat (map queues ?xs))"
  then have "distinct (port_queues (unat (port_id pq)) (concat (map queues ?xs)))"
    using p by (simp add: contiguous_def)
  then have "distinct (?f (concat (map queues ?xs)))" by (simp add: port_queues_def distinct_map)
  ultimately show False by blast
qed

text \<open>
  C29: The only queue of an lcore cannot be moved. When an lcore polls one queue, in the
  configuration table and in the published rib, and the queue is assigned to another lcore, the
  message the command sends is rejected: an lcore left without queues keeps its old list in the
  copy, so the queue appears twice. Readers keep the old assignment, while the table has the new
  one, and the copy and the message are leaked.
\<close>

theorem move_last_queue_rejected:
  assumes table: "table_ok table" "queues (table ! a) = [pq]" "nrxq (table ! unat b) < 16"
    and pq: "pq = \<lparr>port_id = port, queue_id = queue\<rparr>" and moved: "set_thread_lcore_port_queue b port queue table = Inr table'"
    and lcores: "a \<noteq> unat b" "a < lcore_count api" "unat b < lcore_count api" "lcore_count api \<le> 128"
    and rib: "rcu_rib s = Some (Some old)" "length (rib_qconf old) = 128" "queues (rib_qconf old ! a) = [pq]"
    and fits: "length (assigned (take_qconf api table' old)) \<le> 256"
      "\<forall>r\<in>set (assigned (take_qconf api table' old)). unat (port_id r) < 32" "dev_count_avail api \<le> 32"
    and mem: "malloc_rib mem" "malloc_info mem" "qsort_ok qsort"
    and m: "msg_type m = ucast INTERNAL_MSG_TYPE_QCONF" "msg_content m = Some (Body_qconf table')"
  shows "rib_manager_process_message api qsort mem m s = Inr (s\<lparr>blocks := blocks s + 2\<rparr>)"
proof -
  let ?new = "take_qconf api table' (old\<lparr>ver := ver old + 1\<rparr>)"
  have l: "unat b < RTE_MAX_LCORE" using lcores by (simp add: RTE_MAX_LCORE_def)
  have a: "a < 128" "length table = 128" using lcores table by (simp_all add: table_ok_def RTE_MAX_LCORE_def)
  from assign_queue [OF table(1) l pq] moved have
    t: "table_ok table'" "owns table' (unat b) pq" "queues (table' ! a) = remove1 pq (queues (table ! a))"
    using lcores(1) a table(3) by auto
  have len: "length table' = 128" "\<And>qc. qc \<in> set table' \<Longrightarrow> nrxq qc \<le> length (rx_queue_list qc)"
    using t(1) by (auto simp: table_ok_def RTE_MAX_LCORE_def qc_ok_def MAX_RX_QUEUE_PER_LCORE_def)
  have wf: "nrxq (table' ! i) \<le> length (rx_queue_list (table' ! i))" if "i < 128" for i
    using len that by simp
  have "nrxq (table' ! a) = 0"
    using t(3) table(2) wf [OF a(1)] by (auto simp: queues_def)
  then have qa: "queues (rib_qconf ?new ! a) = [pq]"
    using lcores rib(2,3) len(1) by (simp add: take_qconf_nth queues_copy)
  have "nrxq (table' ! unat b) \<noteq> 0"
    using t(2) by (cases "nrxq (table' ! unat b)") (simp_all add: owns_def queues_def)
  then have qb: "pq \<in> set (queues (rib_qconf ?new ! unat b))"
    using lcores rib(2) len(1) t(2) wf [of "unat b"] by (simp add: take_qconf_nth queues_copy owns_def)
  have n: "unat (lcore_size ?new) = lcore_count api"
    using lcores(4) by (simp add: take_qconf_def unat_of_nat)
  have same: "assigned ?new = assigned (take_qconf api table' old)" by (simp add: assigned_def take_qconf_def)
  have lq: "length (rib_qconf ?new) = 128" using rib(2) len(1) by (simp add: take_qconf_def)
  have p: "unat (port_id pq) < RTE_MAX_ETHPORTS"
  proof -
    have "rib_qconf ?new ! a \<in> set (take (lcore_count api) (rib_qconf ?new))"
      using lcores(2,4) lq by (auto simp: in_set_conv_nth)
    then have "pq \<in> set (assigned ?new)" using qa unfolding assigned_def n by force
    then show ?thesis using fits(2) same by (simp add: RTE_MAX_ETHPORTS_def)
  qed
  have "\<not> contiguous (assigned ?new)"
  proof (cases "a < unat b")
    case True
    then show ?thesis unfolding assigned_def n
      using repeated_not_contiguous [of a "unat b" "lcore_count api" "rib_qconf ?new" pq] qa qb p lcores lq by simp
  next
    case False
    then show ?thesis unfolding assigned_def n
      using repeated_not_contiguous [of "unat b" a "lcore_count api" "rib_qconf ?new" pq] qa qb p lcores lq by simp
  qed
  then have check: "rib_check api qsort ?new t = Inr (-1, t)" for t
    using rib_check_verdict [OF mem(3), of ?new api t] fits lcores(4) n lq unfolding same by simp
  have create: "rib_create True True (rcu_rib s) = Some (Some (old\<lparr>ver := ver old + 1\<rparr>))"
    using rib(1) by (simp add: rib_create_info next_ver_def)
  show ?thesis
    using mem m lcores(4) unfolding rib_manager_process_message_def Let_def
    by (simp add: create msg_types RTE_MAX_LCORE_def apply_qconf_def check rib_blocks_def)
qed

definition sample_table :: "(u16 \<times> u16) list list \<Rightarrow> sdplane_queue_conf list" where
  "sample_table pss = map qc_of pss @ replicate (128 - length pss) (qc_of [])"

lemma take_3: "3 \<le> length xs \<Longrightarrow> take 3 xs = [xs ! 0, xs ! 1, xs ! 2]"
  by (cases xs; cases "tl xs"; cases "tl (tl xs)") (auto simp: numeral_3_eq_3 numeral_2_eq_2)

lemma sample_table_ok: "table_ok (sample_table [[], [(0, 0)]])"
proof -
  have q: "queues (sample_table [[], [(0, 0)]] ! i) = (if i = 1 then [\<lparr>port_id = 0, queue_id = 0\<rparr>] else [])" if "i < 128" for i
    using that by (auto simp: sample_table_def nth_append nth_Cons')
  have "qc_ok qc" if "qc \<in> set (sample_table [[], [(0, 0)]])" for qc
    using that by (auto simp: sample_table_def qc_ok_def MAX_RX_QUEUE_PER_LCORE_def) (auto simp: qc_of_def)
  moreover have "length (sample_table [[], [(0, 0)]]) = 128" by (simp add: sample_table_def)
  ultimately show ?thesis by (auto simp: table_ok_def owns_def q RTE_MAX_LCORE_def split: if_splits)
qed

theorem move_last_queue_rejected_witness:
  "\<exists>table'. set_thread_lcore_port_queue 2 0 0 (sample_table [[], [(0, 0)]]) = Inr table' \<and>
     rib_manager_process_message sample_api sort_queues \<lparr>malloc_rib = True, malloc_info = True, malloc_zero = True\<rparr>
       \<lparr>msg_type = 1, msg_length = 0, msg_content = Some (Body_qconf table')\<rparr>
       (sample_state\<lparr>rcu_rib := Some (Some (sample_info [[], [(0, 0)]]))\<rparr>) =
     Inr (sample_state\<lparr>rcu_rib := Some (Some (sample_info [[], [(0, 0)]])), blocks := 3\<rparr>)"
proof -
  let ?t = "sample_table [[], [(0, 0)]]" and ?old = "sample_info [[], [(0, 0)]]" and ?pq = "\<lparr>port_id = 0, queue_id = 0\<rparr>"
  let ?s = "sample_state\<lparr>rcu_rib := Some (Some ?old)\<rparr>"
  have l: "unat (2 :: u16) < RTE_MAX_LCORE" by (simp add: RTE_MAX_LCORE_def)
  have t: "queues (?t ! 0) = []" "queues (?t ! 1) = [?pq]" "nrxq (?t ! 2) = 0" "length ?t = 128"
    by (simp_all add: sample_table_def nth_append) (simp add: qc_of_def)
  from assign_queue [OF sample_table_ok l refl, of 0 0] obtain table' where
    t': "set_thread_lcore_port_queue 2 0 0 ?t = Inr table'" "table_ok table'"
      "\<And>q. owns table' 2 q \<Longrightarrow> q = ?pq \<or> owns ?t 2 q" "queues (table' ! 0) = []" "queues (table' ! 1) = []"
    using t by (auto split: if_splits)
  have wf: "i < 128 \<Longrightarrow> nrxq (table' ! i) \<le> length (rx_queue_list (table' ! i))" for i
    using t'(2) by (auto simp: table_ok_def qc_ok_def RTE_MAX_LCORE_def)
  have zero: "nrxq (table' ! 0) = 0" "nrxq (table' ! 1) = 0"
    using t'(4,5) wf [of 0] wf [of 1] by (auto simp: queues_def)
  have len: "length table' = length (rib_qconf ?old)" "length (rib_qconf ?old) = 128"
    using t'(2) by (simp_all add: table_ok_def RTE_MAX_LCORE_def sample_assigned)
  let ?new = "take_qconf sample_api table' ?old"
  have "unat (lcore_size ?new) = 3" by (simp add: take_qconf_def sample_api_def)
  moreover have "length (rib_qconf ?new) = 128" using len by (simp add: take_qconf_def)
  ultimately have "assigned ?new = queues (rib_qconf ?new ! 0) @ queues (rib_qconf ?new ! 1) @ queues (rib_qconf ?new ! 2)"
    by (simp add: assigned_def take_3)
  moreover have q: "queues (rib_qconf ?old ! 0) = []" "queues (rib_qconf ?old ! 1) = [?pq]" "queues (rib_qconf ?old ! 2) = []"
    by (simp_all add: sample_info_def nth_append)
  ultimately have a: "assigned ?new = ?pq # queues (table' ! 2)"
    using zero wf len by (auto simp: take_qconf_nth queues_copy sample_api_def queues_def [of "table' ! 2"])
  have "q \<in> set (queues (table' ! 2)) \<Longrightarrow> q = ?pq" for q
    using t'(3) [of q] len t(3) by (auto simp: owns_def queues_def [of "?t ! 2"])
  moreover have "qc_ok (table' ! 2)" using t'(2) by (simp add: table_ok_def RTE_MAX_LCORE_def)
  then have "length (queues (table' ! 2)) \<le> 16"
    by (simp add: qc_ok_def queues_def MAX_RX_QUEUE_PER_LCORE_def)
  ultimately have "length (assigned ?new) \<le> 256" "\<forall>r\<in>set (assigned ?new). unat (port_id r) < 32"
    unfolding a by (auto, metis port_queue_conf.select_convs(1) unsigned_0 zero_less_numeral)
  from move_last_queue_rejected [OF sample_table_ok t(2) _ refl t'(1), of sample_api ?s ?old] this q(2) t(3) len(2)
  have "rib_manager_process_message sample_api sort_queues \<lparr>malloc_rib = True, malloc_info = True, malloc_zero = True\<rparr>
      \<lparr>msg_type = 1, msg_length = 0, msg_content = Some (Body_qconf table')\<rparr> ?s = Inr (?s\<lparr>blocks := blocks ?s + 2\<rparr>)"
    using sort_queues_ok by (simp add: sample_api_def msg_types)
  with t'(1) show ?thesis by (intro exI [of _ table']) (simp add: sample_state_def)
qed

end
