(* ===== verification/Libc.thy ===== *)
theory Libc
  imports Prelude
begin

text \<open>
  The functions of the C library the commands use on numbers and addresses: \<open>strtoul\<close> and
  \<open>strtol\<close> with base 0, the hexadecimal conversions of \<open>printf\<close>, \<open>inet_pton\<close> and \<open>inet_ntop\<close> for
  IPv4, and the character classes of the C locale. A string is its characters before the
  terminating zero; the end pointer of \<open>strtoul\<close> is the rest of the string.
\<close>

definition code :: "char \<Rightarrow> nat" where
  "code c = of_char c"

definition c_isspace :: "char \<Rightarrow> bool" where
  "c_isspace c \<longleftrightarrow> code c = 32 \<or> (9 \<le> code c \<and> code c \<le> 13)"

definition c_isgraph :: "char \<Rightarrow> bool" where
  "c_isgraph c \<longleftrightarrow> 33 \<le> code c \<and> code c \<le> 126"

definition digit_val :: "char \<Rightarrow> nat" where
  "digit_val c =
    (if 48 \<le> code c \<and> code c \<le> 57 then code c - 48
     else if 97 \<le> code c \<and> code c \<le> 122 then code c - 87
     else if 65 \<le> code c \<and> code c \<le> 90 then code c - 55 else 36)"

section \<open>Reading numbers\<close>

fun digits :: "nat \<Rightarrow> nat \<Rightarrow> string \<Rightarrow> nat \<times> string" where
  "digits base acc [] = (acc, [])"
| "digits base acc (c # cs) =
    (if digit_val c < base then digits base (base * acc + digit_val c) cs else (acc, c # cs))"

text \<open>Sign and base prefix: negative, base, and the digits that follow.\<close>

definition sign :: "string \<Rightarrow> bool \<times> string" where
  "sign s = (case s of [] \<Rightarrow> (False, [])
     | c # cs \<Rightarrow> if c = CHR ''-'' then (True, cs) else if c = CHR ''+'' then (False, cs) else (False, s))"

definition base_of :: "string \<Rightarrow> nat \<times> string" where
  "base_of s = (case s of
      a # b # c # cs \<Rightarrow> if a = CHR ''0'' \<and> (b = CHR ''x'' \<or> b = CHR ''X'') \<and> digit_val c < 16 then (16, c # cs)
        else if a = CHR ''0'' then (8, s) else (10, s)
    | a # cs \<Rightarrow> if a = CHR ''0'' then (8, s) else (10, s)
    | [] \<Rightarrow> (10, []))"

text \<open>Sign, magnitude, rest; without a digit the whole string is left.\<close>

definition scan :: "string \<Rightarrow> bool \<times> nat \<times> string" where
  "scan s =
    (let (neg, s1) = sign (dropWhile c_isspace s); (base, s2) = base_of s1
     in case s2 of [] \<Rightarrow> (False, 0, s)
        | c # cs \<Rightarrow> if digit_val c < base then (neg, digits base 0 s2) else (False, 0, s))"

definition strtoul :: "string \<Rightarrow> u64 \<times> string" where
  "strtoul s = (let (neg, n, rest) = scan s
     in (if 2 ^ 64 \<le> n then - 1 else if neg then - of_nat n else of_nat n, rest))"

definition strtol :: "string \<Rightarrow> u64 \<times> string" where
  "strtol s = (let (neg, n, rest) = scan s
     in (if neg then (if 2 ^ 63 < n then 2 ^ 63 else - of_nat n) else if 2 ^ 63 \<le> n then 2 ^ 63 - 1 else of_nat n, rest))"

section \<open>Printing\<close>

definition hexdigit :: "nat \<Rightarrow> char" where
  "hexdigit d = (if d < 10 then char_of (48 + d) else char_of (87 + d))"

fun hex :: "nat \<Rightarrow> string" where
  "hex n = (if n < 16 then [hexdigit n] else hex (n div 16) @ [hexdigit (n mod 16)])"

declare hex.simps [simp del]

definition hex_word :: "'a :: len word \<Rightarrow> string" where
  "hex_word w = hex (unat w)"

definition dec_sint :: "'a :: len word \<Rightarrow> string" where
  "dec_sint w = dec_int (sint w)"

text \<open>\<open>%p\<close>.\<close>

definition ptr_word :: "u64 \<Rightarrow> string" where
  "ptr_word w = (if w = 0 then ''(nil)'' else ''0x'' @ hex_word w)"

text \<open>\<open>%04x\<close>.\<close>

definition hex04 :: "nat \<Rightarrow> string" where
  "hex04 n = replicate (4 - length (hex n)) (CHR ''0'') @ hex n"

section \<open>IPv4 addresses\<close>

definition byte_of_dec :: "string \<Rightarrow> u8 option" where
  "byte_of_dec s =
    (if s \<noteq> [] \<and> (\<forall>c\<in>set s. digit_val c < 10) \<and> (length s = 1 \<or> hd s \<noteq> CHR ''0'') \<and> fst (digits 10 0 s) < 256
     then Some (of_nat (fst (digits 10 0 s))) else None)"

fun split_on :: "char \<Rightarrow> string \<Rightarrow> string list" where
  "split_on d [] = [[]]"
| "split_on d (c # cs) =
    (if c = d then [] # split_on d cs
     else case split_on d cs of [] \<Rightarrow> [[c]] | w # ws \<Rightarrow> (c # w) # ws)"

definition inet_pton :: "string \<Rightarrow> bytes option" where
  "inet_pton s = (case map byte_of_dec (split_on (CHR ''.'') s) of
      [Some a, Some b, Some c, Some d] \<Rightarrow> Some [a, b, c, d]
    | _ \<Rightarrow> None)"

definition inet_ntop :: "bytes \<Rightarrow> string" where
  "inet_ntop a = dec_word (a ! 0) @ ''.'' @ dec_word (a ! 1) @ ''.'' @ dec_word (a ! 2) @ ''.'' @ dec_word (a ! 3)"

lemma length_inet_pton: "inet_pton s = Some a \<Longrightarrow> length a = 4"
  by (auto simp: inet_pton_def split: list.splits option.splits)

lemma strtoul_samples:
  "strtoul ''0x1F'' = (31, [])" "strtoul ''017x'' = (15, ''x'')" "strtoul ''12 3'' = (12, '' 3'')"
  "strtoul ''zz'' = (0, ''zz'')" "strtoul ''0x'' = (0, ''x'')"
  by (simp_all add: strtoul_def scan_def sign_def base_of_def digit_val_def code_def c_isspace_def)

lemma inet_sample: "inet_pton ''10.0.0.255'' = Some [10, 0, 0, 255]"
  by (simp add: inet_pton_def byte_of_dec_def digit_val_def code_def)

end
