(* ===== verification/Nettlp.thy ===== *)
theory Nettlp
  imports Tlp Rib_Manager Libc
begin

text \<open>
  The NetTLP adapter of \<open>sdplane/nettlp.c\<close>: PCIe memory requests carried over UDP. It sends DMA
  requests on command, and serves requests for a window of memory (\<open>psmem\<close>) that arrive from the
  network: a write stores into the window, a read is answered by completions.

  Packet buffers belong to DPDK. A buffer is a value of the type \<open>'m\<close>, seen through the fields of
  \<open>mbuf_api\<close>: \<open>mb_data\<close> is the memory from the start of the packet to the end of the buffer, whatever
  the packet's length, and \<open>mb_put\<close> replaces it. The contents of a fresh buffer are what the pool
  gives; a field the code does not write keeps them.
\<close>

section \<open>Packet buffers\<close>

record 'm mbuf_api =
  mb_alloc :: "nat \<Rightarrow> 'm option"
  mb_append :: "nat \<Rightarrow> 'm \<Rightarrow> 'm"
  mb_prepend :: "nat \<Rightarrow> 'm \<Rightarrow> 'm"
  mb_len :: "'m \<Rightarrow> nat"
  mb_room :: "'m \<Rightarrow> nat"
  mb_data :: "'m \<Rightarrow> bytes"
  mb_put :: "bytes \<Rightarrow> 'm \<Rightarrow> 'm"
  mb_copy :: "'m \<Rightarrow> 'm option"
  enqueue_ok :: "nat \<Rightarrow> bool"
  tx_zmalloc_ok :: "nat \<Rightarrow> nat \<Rightarrow> bool"
  ipv4_cksum :: "bytes \<Rightarrow> bytes"
  random :: "nat \<Rightarrow> u16"

text \<open>
  The documented behaviour of \<open>rte_pktmbuf_append\<close> and \<open>rte_pktmbuf_prepend\<close>, whose results the
  code ignores: without room they leave the packet as it was.
\<close>

definition mbuf_laws :: "'m mbuf_api \<Rightarrow> bool" where
  "mbuf_laws a \<longleftrightarrow>
    (\<forall>m n. mb_data a (mb_append a n m) = mb_data a m \<and> mb_room a (mb_append a n m) = mb_room a m \<and>
       mb_len a (mb_append a n m) =
         (if mb_len a m + n \<le> length (mb_data a m) then mb_len a m + n else mb_len a m)) \<and>
    (\<forall>m n. if n \<le> mb_room a m
       then drop n (mb_data a (mb_prepend a n m)) = mb_data a m \<and>
         length (mb_data a (mb_prepend a n m)) = n + length (mb_data a m) \<and>
         mb_len a (mb_prepend a n m) = n + mb_len a m \<and> mb_room a (mb_prepend a n m) = mb_room a m - n
       else mb_prepend a n m = m) \<and>
    (\<forall>m d. length d = length (mb_data a m) \<longrightarrow>
       mb_data a (mb_put a d m) = d \<and> mb_len a (mb_put a d m) = mb_len a m \<and> mb_room a (mb_put a d m) = mb_room a m) \<and>
    (\<forall>i m. mb_alloc a i = Some m \<longrightarrow> mb_len a m = 0) \<and> (\<forall>b. length (ipv4_cksum a b) = 2)"

definition poke :: "'m mbuf_api \<Rightarrow> nat \<Rightarrow> bytes \<Rightarrow> 'm \<Rightarrow> 'm res" where
  "poke a off bs m = guardr (off + length bs \<le> length (mb_data a m)) OutOfBounds
     (Inr (mb_put a (store off bs (mb_data a m)) m))"

definition peek :: "'m mbuf_api \<Rightarrow> nat \<Rightarrow> nat \<Rightarrow> 'm \<Rightarrow> bytes res" where
  "peek a off n m = guardr (off + n \<le> length (mb_data a m)) OutOfBounds (Inr (load off n (mb_data a m)))"

section \<open>State\<close>

text \<open>What happens to a buffer: handed to the tap, to a transmit queue, freed, or none of these.\<close>

datatype 'm mbuf_event =
    Tap_up int int "'m option" | Tap_dropped "'m option" | Tap_lost "'m option"
  | Sent nat nat 'm | No_tx_buffer 'm | Freed 'm

record 'm nettlp =
  nt_lcore :: nat
  nt_rib :: "rib option"
  nt_ring_up :: "(nat \<times> nat) set"
  nt_tx_buffers :: "(nat \<times> nat) set"
  rx_portid :: int
  rx_queueid :: int
  tx_portid :: int
  local_ether :: bytes
  remote_ether :: bytes
  local_addr :: bytes
  remote_addr :: bytes
  src_port :: u16
  dst_port :: u16
  bus_number :: u16
  dev_number :: u16
  pci_tag :: u8
  memory_addr :: u64
  payload_size :: u32
  max_payload_size :: u32
  payload_string :: bytes
  requester :: u16
  psmem_addr :: u64
  psmem_memory :: "bytes option"
  psmem_size :: u32
  allocs :: nat
  events :: "'m mbuf_event list"

definition read_payload_size :: u64 where "read_payload_size = 4"

definition nettlp_init :: "nat \<Rightarrow> 'm nettlp" where
  "nettlp_init lcore = \<lparr>nt_lcore = lcore, nt_rib = None, nt_ring_up = {}, nt_tx_buffers = {},
     rx_portid = -1, rx_queueid = -1, tx_portid = 0,
     local_ether = replicate 6 0, remote_ether = replicate 6 0, local_addr = replicate 4 0, remote_addr = replicate 4 0,
     src_port = 0, dst_port = 0, bus_number = 0, dev_number = 0, pci_tag = 0, memory_addr = 0, payload_size = 0,
     max_payload_size = 0, payload_string = replicate 4096 0, requester = 0,
     psmem_addr = 0, psmem_memory = None, psmem_size = 8 * 1024, allocs = 0, events = []\<rparr>"

definition event :: "'m mbuf_event \<Rightarrow> 'm nettlp \<Rightarrow> 'm nettlp" where
  "event e s = s\<lparr>events := events s @ [e]\<rparr>"

definition MAX_RX_QUEUES :: int where "MAX_RX_QUEUES = 16"

section \<open>Sending\<close>

definition nettlp_send_packet_tap_up :: "'m mbuf_api \<Rightarrow> 'm \<Rightarrow> 'm nettlp \<Rightarrow> 'm nettlp res" where
  "nettlp_send_packet_tap_up a m s =
    (let c = mb_copy a m; p = rx_portid s; q = rx_queueid s
     in guardr (0 \<le> p \<and> p < int RTE_MAX_ETHPORTS \<and> 0 \<le> q \<and> q < MAX_RX_QUEUES) OutOfBounds
       (Inr (event (if (nat p, nat q) \<in> nt_ring_up s
               then if enqueue_ok a (length (events s)) then Tap_up p q c else Tap_dropped c
               else Tap_lost c) s)))"

definition tap_if_bound :: "'m mbuf_api \<Rightarrow> 'm \<Rightarrow> 'm nettlp \<Rightarrow> 'm nettlp res" where
  "tap_if_bound a m s =
    (if rx_portid s \<ge> 0 \<and> rx_queueid s \<ge> 0 then nettlp_send_packet_tap_up a m s else Inr s)"

definition alloc_mbuf :: "'m mbuf_api \<Rightarrow> 'm nettlp \<Rightarrow> ('m \<times> 'm nettlp) res" where
  "alloc_mbuf a s = (case mb_alloc a (allocs s) of
      None \<Rightarrow> Inl NullDeref | Some m \<Rightarrow> Inr (m, s\<lparr>allocs := allocs s + 1\<rparr>))"

text \<open>The UDP, IPv4 and Ethernet headers; \<open>ident\<close> is the packet id when the caller sets one.\<close>

definition udp_header :: "'m mbuf_api \<Rightarrow> 'm nettlp \<Rightarrow> 'm \<Rightarrow> 'm res" where
  "udp_header a s m =
    (let m = mb_prepend a 8 m
     in poke a 0 (be16 (src_port s) @ be16 (dst_port s) @ be16 (of_nat (mb_len a m))) m)"

definition ipv4_header :: "'m mbuf_api \<Rightarrow> u16 option \<Rightarrow> 'm nettlp \<Rightarrow> 'm \<Rightarrow> 'm res" where
  "ipv4_header a ident s m =
    (let m = mb_prepend a 20 m
     in bindr (poke a 0 [0x45] m) (\<lambda>m.
        bindr (poke a 2 (be16 (of_nat (mb_len a m))) m) (\<lambda>m.
        bindr (case ident of None \<Rightarrow> Inr m | Some r \<Rightarrow> poke a 4 (be16 r) m) (\<lambda>m.
        bindr (poke a 12 (local_addr s @ remote_addr s) m) (\<lambda>m.
        bindr (poke a 9 [17] m) (\<lambda>m.
        bindr (peek a 0 20 m) (\<lambda>hdr. poke a 10 (ipv4_cksum a hdr) m)))))))"

definition ether_header :: "'m mbuf_api \<Rightarrow> 'm nettlp \<Rightarrow> 'm \<Rightarrow> 'm res" where
  "ether_header a s m =
    (let m = mb_prepend a 14 m
     in bindr (poke a 12 (be16 0x0800) m) (\<lambda>m.
        bindr (poke a 6 (local_ether s) m) (\<lambda>m. poke a 0 (remote_ether s) m)))"

definition frame :: "'m mbuf_api \<Rightarrow> u16 option \<Rightarrow> 'm nettlp \<Rightarrow> 'm \<Rightarrow> 'm res" where
  "frame a ident s m =
    bindr (udp_header a s m) (\<lambda>m. bindr (ipv4_header a ident s m) (\<lambda>m. ether_header a s m))"

definition transmit :: "nat \<Rightarrow> nat \<Rightarrow> 'm \<Rightarrow> 'm nettlp \<Rightarrow> 'm nettlp res" where
  "transmit port queue m s =
    guardr (port < RTE_MAX_ETHPORTS \<and> queue < RTE_MAX_LCORE) OutOfBounds
      (Inr (event (if (port, queue) \<in> nt_tx_buffers s then Sent port queue m else No_tx_buffer m) s))"

definition create_tx_buffer :: "'m mbuf_api \<Rightarrow> nat \<Rightarrow> nat \<Rightarrow> 'm nettlp \<Rightarrow> 'm nettlp" where
  "create_tx_buffer a port queue s =
    (if tx_zmalloc_ok a port queue then s\<lparr>nt_tx_buffers := insert (port, queue) (nt_tx_buffers s)\<rparr> else s)"

text \<open>The guard of both commands: the port exists and has a transmit queue for this lcore.\<close>

definition tx_ready :: "'m nettlp \<Rightarrow> bool res" where
  "tx_ready s = (case nt_rib s of
      Some (Some info) \<Rightarrow>
        if tx_portid s \<ge> int (unat (port_size info)) then Inr False
        else guardr (0 \<le> tx_portid s \<and> nat (tx_portid s) < length (rib_port info)) OutOfBounds
          (Inr (nt_lcore s < nb_tx_queues (dev_info (rib_port info ! nat (tx_portid s)))))
    | _ \<Rightarrow> Inr False)"

text \<open>
  The eight header bytes of a memory request, over what the buffer held: \<open>ft\<close> are the size and
  data bits. The reserved and attribute bits are not written.
\<close>

definition request_header :: "'m nettlp \<Rightarrow> u8 \<Rightarrow> u8 \<Rightarrow> u64 \<Rightarrow> bytes \<Rightarrow> bytes" where
  "request_header s dw wd cnt old =
    [tlp_set_fmt (tlp_set_type (old ! 0) 0x00) dw wd, old ! 1] @
    be16 (tlp_set_length (rd16 (load 2 2 old)) (tlp_calculate_length (memory_addr s) cnt)) @
    be16 (requester s) @
    [pci_tag s, set_fstdw (set_lstdw (old ! 7) (tlp_calculate_lstdw (memory_addr s) cnt))
       (tlp_calculate_fstdw (memory_addr s) cnt)]"

definition short_addr :: "'m nettlp \<Rightarrow> bool" where
  "short_addr s \<longleftrightarrow> memory_addr s < 0xFFFFFFFF"

definition address_field :: "'m nettlp \<Rightarrow> bytes" where
  "address_field s =
    (if short_addr s then be32 (ucast (memory_addr s AND 0xFFFFFFFC)) else be64 (memory_addr s AND 0xFFFFFFFFFFFFFFFC))"

definition put_request :: "'m mbuf_api \<Rightarrow> 'm nettlp \<Rightarrow> u8 \<Rightarrow> u64 \<Rightarrow> 'm \<Rightarrow> 'm res" where
  "put_request a s wd cnt m =
    (let m = mb_append a 14 m
     in bindr (peek a 6 8 m) (\<lambda>old.
        bindr (poke a 6 (request_header s (if short_addr s then 0x00 else 0x20) wd cnt old) m) (\<lambda>m.
        let m = mb_append a (length (address_field s)) m
        in poke a 14 (address_field s) m)))"

text \<open>The padding the write counts: three of the four enable bits, from either side.\<close>

definition write_front_pad :: "u8 \<Rightarrow> nat" where
  "write_front_pad be = (if be \<noteq> 0 \<and> be \<noteq> 0xF then all_disabled [0, 1, 2] be else 0)"

definition high_disabled :: "nat list \<Rightarrow> u8 \<Rightarrow> nat" where
  "high_disabled ns be = length (filter (\<lambda>n. be AND drop_bit n 0x8 = 0) ns)"

definition write_back_pad :: "u8 \<Rightarrow> nat" where
  "write_back_pad be = (if be \<noteq> 0 \<and> be \<noteq> 0xF then high_disabled [0, 1, 2] be else 0)"

definition append_pad :: "'m mbuf_api \<Rightarrow> nat \<Rightarrow> nat \<Rightarrow> 'm \<Rightarrow> 'm res" where
  "append_pad a off n m =
    (if 0 < n then let m = mb_append a n m in poke a off (replicate n 0) m else Inr m)"

definition put_payload :: "'m mbuf_api \<Rightarrow> 'm nettlp \<Rightarrow> 'm \<Rightarrow> 'm res" where
  "put_payload a s m =
    (let cnt = scast (payload_size s) :: u64; n = unat cnt;
         off = 14 + length (address_field s);
         front = write_front_pad (ucast (tlp_calculate_fstdw (memory_addr s) cnt) AND 0xF);
         back = write_back_pad (ucast (tlp_calculate_lstdw (memory_addr s) cnt) AND 0xF)
     in bindr (append_pad a off front m) (\<lambda>m.
        let m = mb_append a (unat (ucast (payload_size s) :: u16)) m
        in guardr (n \<le> length (payload_string s)) OutOfBounds
          (bindr (poke a (off + front) (take n (payload_string s)) m) (\<lambda>m.
             append_pad a (off + front + n) back m))))"

text \<open>Framing, the copy to the tap, and the transmit queue, created when it is missing.\<close>

definition send_request :: "'m mbuf_api \<Rightarrow> u16 option \<Rightarrow> 'm nettlp \<Rightarrow> 'm \<Rightarrow> 'm nettlp res" where
  "send_request a ident s m =
    bindr (frame a ident s m) (\<lambda>m.
    bindr (tap_if_bound a m s) (\<lambda>s.
      let port = nat (tx_portid s)
      in guardr (port < RTE_MAX_ETHPORTS \<and> nt_lcore s < RTE_MAX_LCORE) OutOfBounds
        (transmit port (nt_lcore s) m
          (if (port, nt_lcore s) \<in> nt_tx_buffers s then s else create_tx_buffer a port (nt_lcore s) s))))"

definition nettlp_send_dma_write :: "'m mbuf_api \<Rightarrow> 'm nettlp \<Rightarrow> 'm nettlp res" where
  "nettlp_send_dma_write a s =
    bindr (tx_ready s) (\<lambda>ready.
      if \<not> ready then Inr s
      else bindr (alloc_mbuf a s) (\<lambda>(m, s).
        bindr (put_request a s 0x40 (scast (payload_size s)) m) (\<lambda>m.
        bindr (put_payload a s m) (\<lambda>m. send_request a (Some (random a (allocs s))) s m))))"

definition nettlp_send_dma_read :: "'m mbuf_api \<Rightarrow> 'm nettlp \<Rightarrow> 'm nettlp res" where
  "nettlp_send_dma_read a s =
    bindr (tx_ready s) (\<lambda>ready.
      if \<not> ready then Inr s
      else bindr (alloc_mbuf a s) (\<lambda>(m, s).
        bindr (put_request a s 0x00 read_payload_size m) (\<lambda>m. send_request a None s m)))"

text \<open>A reply leaves by the port the request came in on, if that queue has a transmit buffer.\<close>

definition nettlp_udp_send :: "'m mbuf_api \<Rightarrow> 'm \<Rightarrow> 'm nettlp \<Rightarrow> 'm nettlp res" where
  "nettlp_udp_send a m s =
    bindr (frame a None s m) (\<lambda>m.
    bindr (tap_if_bound a m s) (\<lambda>s.
      transmit (unat (of_int (rx_portid s) :: u16)) (nt_lcore s) m s))"

section \<open>Serving the memory window\<close>

definition MAXPAYLOADSIZE :: u64 where "MAXPAYLOADSIZE = 256"

text \<open>
  The completion header over the twelve bytes copied from the request: the flags, attributes and
  traffic class stay, and so does the bit between status and byte count.
\<close>

definition completion_header :: "'m nettlp \<Rightarrow> bytes \<Rightarrow> u64 \<Rightarrow> u64 \<Rightarrow> u64 \<Rightarrow> bytes" where
  "completion_header s src send_len data_len addr =
    [tlp_set_type (tlp_set_fmt (src ! 0) 0x00 0x40) 0x0A, src ! 1] @
    be16 (tlp_set_length (rd16 (load 2 2 src)) (ucast (drop_bit 2 send_len))) @
    be16 (requester s) @
    be16 (tlp_set_cpl_bcnt (tlp_set_cpl_status (rd16 (load 6 2 src)) 0x0000) data_len) @
    load 4 2 src @ [src ! 6, ucast (addr AND 0x7F)]"

definition align4 :: "u64 \<Rightarrow> u64" where
  "align4 addr = push_bit 2 (drop_bit 2 addr)"

text \<open>Copying \<open>n\<close> bytes out of the window, from the address rounded down to a DW.\<close>

definition psmem_load :: "'m nettlp \<Rightarrow> u64 \<Rightarrow> nat \<Rightarrow> bytes res" where
  "psmem_load s addr n =
    (if n = 0 then Inr []
     else case psmem_memory s of None \<Rightarrow> Inl NullDeref
       | Some mem \<Rightarrow> guardr (unat (align4 addr - psmem_addr s) + n \<le> length mem) OutOfBounds
           (Inr (load (unat (align4 addr - psmem_addr s)) n mem)))"

text \<open>One completion with \<open>send_len\<close> bytes; \<open>src\<close> is the header of the request.\<close>

definition send_completion :: "'m mbuf_api \<Rightarrow> bytes \<Rightarrow> u64 \<Rightarrow> u64 \<Rightarrow> u64 \<Rightarrow> 'm nettlp \<Rightarrow> 'm nettlp res" where
  "send_completion a src send_len data_len addr s =
    bindr (alloc_mbuf a s) (\<lambda>(m, s).
      let m = mb_append a 12 (mb_append a 6 m)
      in bindr (poke a 0 (replicate 6 0) m) (\<lambda>m.
         bindr (poke a 6 (completion_header s src send_len data_len addr) m) (\<lambda>m.
         let m = mb_append a (unat (ucast send_len :: u16)) m
         in bindr (psmem_load s addr (unat send_len)) (\<lambda>chunk.
            bindr (poke a 18 chunk m) (\<lambda>m. nettlp_udp_send a m s)))))"

definition send_length :: "u64 \<Rightarrow> u64" where
  "send_length len = (if sint len < sint MAXPAYLOADSIZE then len else MAXPAYLOADSIZE)"

definition next_data_len :: "u64 \<Rightarrow> u64 \<Rightarrow> u64 \<Rightarrow> u64" where
  "next_data_len len data_len addr = data_len - (send_length len - (addr AND 3))"

definition next_addr :: "u64 \<Rightarrow> u64 \<Rightarrow> u64" where
  "next_addr len addr = align4 addr + send_length len"

text \<open>The \<open>do ... while\<close> loop; \<open>None\<close> when it does not end.\<close>

partial_function (option) completions ::
  "'m mbuf_api \<Rightarrow> bytes \<Rightarrow> u64 \<Rightarrow> u64 \<Rightarrow> u64 \<Rightarrow> 'm nettlp \<Rightarrow> 'm nettlp res option" where
  "completions a src len data_len addr s =
    (case send_completion a src (send_length len) data_len addr s of
       Inl e \<Rightarrow> Some (Inl e)
     | Inr s \<Rightarrow>
         if 0 < sint (next_data_len len data_len addr)
         then completions a src (len - send_length len) (next_data_len len data_len addr) (next_addr len addr) s
         else Some (Inr s))"

text \<open>The window check of both requests, in wrapping 64-bit arithmetic.\<close>

definition outside_window :: "u64 \<Rightarrow> u64 \<Rightarrow> 'm nettlp \<Rightarrow> bool" where
  "outside_window addr len s \<longleftrightarrow> addr < psmem_addr s \<or> psmem_addr s + ucast (psmem_size s) < addr + len"

definition nettlp_psmem_mrd :: "'m mbuf_api \<Rightarrow> bytes \<Rightarrow> 'm nettlp \<Rightarrow> 'm nettlp res option" where
  "nettlp_psmem_mrd a pkt s =
    (let mh = mr_hdr_of pkt;
         len = ucast (push_bit 2 (tlp_length (falen (mr_tlp mh)))) :: u64;
         data_len = scast (tlp_mr_data_length mh);
         addr = tlp_mr_addr mh
     in if outside_window addr len s then Some (Inr s)
        else completions a (take 12 pkt) len data_len addr s)"

definition nettlp_psmem_mwr :: "bytes \<Rightarrow> 'm nettlp \<Rightarrow> 'm nettlp res" where
  "nettlp_psmem_mwr pkt s =
    (let mh = mr_hdr_of pkt; addr = tlp_mr_addr mh; ptr = 8 + tlp_mwr_data mh;
         len = scast (tlp_mr_data_length mh) :: u64; n = unat len
     in if outside_window addr len s \<or> n = 0 then Inr s
        else guardr (ptr + n \<le> length pkt) OutOfBounds
          (case psmem_memory s of None \<Rightarrow> Inl NullDeref
           | Some mem \<Rightarrow> guardr (unat (addr - psmem_addr s) + n \<le> length mem) OutOfBounds
               (Inr (s\<lparr>psmem_memory := Some (store (unat (addr - psmem_addr s)) (load ptr n pkt) mem)\<rparr>))))"

text \<open>
  A received packet. A different Ethernet or IPv4 destination is only logged; the headers are
  taken at fixed offsets, in the memory of the buffer. \<open>tlp\<close> is that memory from the request on.
\<close>

definition needs :: "'m mbuf_api \<Rightarrow> nat \<Rightarrow> 'm \<Rightarrow> 'a res option \<Rightarrow> 'a res option" where
  "needs a n m k = (if n \<le> length (mb_data a m) then k else Some (Inl OutOfBounds))"

definition nettlp_psmem_receive :: "'m mbuf_api \<Rightarrow> 'm \<Rightarrow> 'm nettlp \<Rightarrow> 'm nettlp res option" where
  "nettlp_psmem_receive a m s =
    (let d = mb_data a m;
         done = map_option (\<lambda>r. bindr r (\<lambda>s. Inr (event (Freed m) s)))
     in needs a 14 m
       (if rd16 (load 12 2 d) \<noteq> 0x0800 then Some (Inr s)
        else needs a 34 m
          (if d ! 23 \<noteq> 17 then Some (Inr s)
           else needs a 49 m
             (let tlp = drop 48 d; ft = tlp ! 0;
                  header_len = 48 + 8 + (if tlp_is_3dw ft then 4 else 8)
              in if tlp_is_mrd ft then needs a header_len m (done (nettlp_psmem_mrd a tlp s))
                 else if tlp_is_mwr ft then needs a header_len m (done (Some (nettlp_psmem_mwr tlp s)))
                 else done (Some (Inr s))))))"

section \<open>The thread\<close>

primrec receive_all :: "'m mbuf_api \<Rightarrow> 'm list \<Rightarrow> 'm nettlp \<Rightarrow> 'm nettlp res option" where
  "receive_all a [] s = Some (Inr s)"
| "receive_all a (m # ms) s =
    (case tap_if_bound a m s of Inl e \<Rightarrow> Some (Inl e)
     | Inr s \<Rightarrow> (case nettlp_psmem_receive a m s of
           None \<Rightarrow> None | Some (Inl e) \<Rightarrow> Some (Inl e) | Some (Inr s) \<Rightarrow> receive_all a ms s))"

text \<open>\<open>rx\<close> are the packets each queue delivers.\<close>

primrec poll_queues ::
  "'m mbuf_api \<Rightarrow> rib_info \<Rightarrow> (nat \<Rightarrow> nat \<Rightarrow> 'm list) \<Rightarrow> port_queue_conf list \<Rightarrow> 'm nettlp \<Rightarrow> 'm nettlp res option" where
  "poll_queues a info rx [] s = Some (Inr s)"
| "poll_queues a info rx (pq # pqs) s =
    (let p = unat (port_id pq); q = unat (queue_id pq);
         s = s\<lparr>rx_portid := int p, rx_queueid := int q\<rparr>
     in if length (rib_port info) \<le> p then Some (Inl OutOfBounds)
        else case (if q < nb_rx_queues (dev_info (rib_port info ! p))
                   then receive_all a (take 32 (rx p q)) s else Some (Inr s)) of
            None \<Rightarrow> None | Some (Inl e) \<Rightarrow> Some (Inl e) | Some (Inr s) \<Rightarrow> poll_queues a info rx pqs s)"

definition nettlp_rx_burst :: "'m mbuf_api \<Rightarrow> (nat \<Rightarrow> nat \<Rightarrow> 'm list) \<Rightarrow> 'm nettlp \<Rightarrow> 'm nettlp res option" where
  "nettlp_rx_burst a rx s =
    (case nt_rib s of
       Some (Some info) \<Rightarrow>
         if length (rib_qconf info) \<le> nt_lcore s then Some (Inl OutOfBounds)
         else let qc = rib_qconf info ! nt_lcore s
           in if nrxq qc = 0 then Some (Inr (s\<lparr>rx_portid := -1, rx_queueid := -1\<rparr>))
              else if length (rx_queue_list qc) < nrxq qc then Some (Inl OutOfBounds)
              else poll_queues a info rx (queues qc) s
     | _ \<Rightarrow> Some (Inr s))"

definition nettlp_internal_msg_recv ::
  "'m mbuf_api \<Rightarrow> ('q \<Rightarrow> (bytes internal_msg option \<times> 'q) option) \<Rightarrow> 'q option \<times> 'm nettlp \<Rightarrow> ('q option \<times> 'm nettlp) res" where
  "nettlp_internal_msg_recv a dequeue = (\<lambda>(queue, s).
    case internal_msg_recv dequeue queue of
      (None, queue) \<Rightarrow> Inr (queue, s)
    | (Some m, queue) \<Rightarrow>
        bindr (if msg_type m = ucast INTERNAL_MSG_TYPE_NETTLP_SEND_DMA_WRITE then nettlp_send_dma_write a s
               else if msg_type m = ucast INTERNAL_MSG_TYPE_NETTLP_SEND_DMA_READ then nettlp_send_dma_read a s
               else Inr s) (\<lambda>s. Inr (queue, s)))"

text \<open>One turn of the thread's loop: \<open>r\<close> is the rib published at that moment.\<close>

definition nettlp_turn ::
  "'m mbuf_api \<Rightarrow> ('q \<Rightarrow> (bytes internal_msg option \<times> 'q) option) \<Rightarrow> (nat \<Rightarrow> nat \<Rightarrow> 'm list) \<Rightarrow> rib option \<Rightarrow>
   'q option \<times> 'm nettlp \<Rightarrow> ('q option \<times> 'm nettlp) res option" where
  "nettlp_turn a dequeue rx r = (\<lambda>(queue, s).
    case nettlp_internal_msg_recv a dequeue (queue, s\<lparr>nt_rib := r\<rparr>) of
      Inl e \<Rightarrow> Some (Inl e)
    | Inr (queue, s) \<Rightarrow> map_option (\<lambda>res. bindr res (\<lambda>s. Inr (queue, s))) (nettlp_rx_burst a rx s))"

section \<open>Commands\<close>

text \<open>
  Each command gives the lines it prints and the state it leaves. \<open>arg\<close> is the word in the place
  of the parameter. The allocator's outcomes are arguments: \<open>malloc n\<close> is the block it returns.
\<close>

definition nettlp_send_dma_write_read ::
  "('q \<Rightarrow> bytes internal_msg option \<Rightarrow> 'q option) \<Rightarrow> bool \<Rightarrow> u16 \<Rightarrow> string \<Rightarrow> 'q option \<Rightarrow> 'q option" where
  "nettlp_send_dma_write_read enqueue ok garbage arg queue =
    (let ty = (if arg = ''dma-write'' then INTERNAL_MSG_TYPE_NETTLP_SEND_DMA_WRITE
               else if arg = ''dma-read'' then INTERNAL_MSG_TYPE_NETTLP_SEND_DMA_READ else garbage)
     in fst (internal_msg_send_to enqueue queue (internal_msg_create ok ty (Some (replicate 8 0)) 8)))"

text \<open>A string in a buffer: the characters before the first zero byte.\<close>

definition c_string :: "bytes \<Rightarrow> string" where
  "c_string bs = map (\<lambda>b. char_of (unat b)) (takeWhile (\<lambda>b. b \<noteq> 0) bs)"

definition c_bytes :: "string \<Rightarrow> bytes" where
  "c_bytes s = map (\<lambda>c. of_nat (code c)) s"

definition show_nettlp :: "(bytes \<Rightarrow> string) \<Rightarrow> 'm nettlp \<Rightarrow> string list" where
  "show_nettlp ether_format s =
    [''TX port-id: '' @ dec_int (tx_portid s) @ ''.'',
     ''local-ether: '' @ ether_format (local_ether s),
     ''remote-ether: '' @ ether_format (remote_ether s),
     ''local-addr: '' @ inet_ntop (local_addr s),
     ''remote-addr: '' @ inet_ntop (remote_addr s),
     ''UDP src-port: '' @ dec_word (src_port s) @ ''.'',
     ''UDP dst-port: '' @ dec_word (dst_port s) @ ''.'',
     ''bus_number: '' @ hex_word (bus_number s) @ '':'' @ hex_word (dev_number s) @ ''.'',
     ''pci-tag: '' @ dec_word (pci_tag s) @ ''.'',
     ''memory-addr: '' @ ptr_word (memory_addr s) @ ''.'',
     ''payload-size: '' @ dec_sint (payload_size s) @ ''.'',
     ''MaxPayloadSize: '' @ dec_sint (max_payload_size s) @ ''.'',
     ''payload-string: '' @ c_string (payload_string s) @ ''.'']"

text \<open>The two address commands; a word that is neither name leaves the pointer undefined.\<close>

definition set_nettlp_ether_local_remote ::
  "(string \<Rightarrow> bytes option) \<Rightarrow> string \<Rightarrow> string \<Rightarrow> 'm nettlp \<Rightarrow> (string list \<times> 'm nettlp) res" where
  "set_nettlp_ether_local_remote unformat which arg s =
    guardr (which = ''local-addr'' \<or> which = ''remote-addr'') OutOfBounds
      (Inr (case unformat arg of
         None \<Rightarrow> ([''invalid address format: '' @ arg @ ''.''], s)
       | Some b \<Rightarrow> ([''set '' @ which @ '': '' @ arg],
           if which = ''local-addr'' then s\<lparr>local_ether := b\<rparr> else s\<lparr>remote_ether := b\<rparr>)))"

definition set_nettlp_ipv4_local_remote :: "string \<Rightarrow> string \<Rightarrow> 'm nettlp \<Rightarrow> (string list \<times> 'm nettlp) res" where
  "set_nettlp_ipv4_local_remote which arg s =
    guardr (which = ''local-addr'' \<or> which = ''remote-addr'') OutOfBounds
      (Inr (case inet_pton arg of
         None \<Rightarrow> ([''invalid address format: '' @ arg @ ''.''], s)
       | Some b \<Rightarrow> ([''set '' @ which @ '': '' @ arg],
           if which = ''local-addr'' then s\<lparr>local_addr := b\<rparr> else s\<lparr>remote_addr := b\<rparr>)))"

definition set_nettlp_bus_number :: "string \<Rightarrow> string \<Rightarrow> 'm nettlp \<Rightarrow> string list \<times> 'm nettlp" where
  "set_nettlp_bus_number bus dev s =
    (let b = ucast (fst (strtol bus)); d = ucast (fst (strtol dev))
     in ([''bus_number '' @ hex_word b @ '':'' @ hex_word d],
         s\<lparr>bus_number := b, dev_number := d, requester := push_bit 8 b OR d\<rparr>))"

definition set_nettlp_pci_tag :: "string \<Rightarrow> 'm nettlp \<Rightarrow> string list \<times> 'm nettlp" where
  "set_nettlp_pci_tag arg s =
    (let s = s\<lparr>pci_tag := ucast (fst (strtol arg))\<rparr> in ([''pci-tag: '' @ dec_word (pci_tag s)], s))"

definition set_nettlp_txportid :: "string \<Rightarrow> 'm nettlp \<Rightarrow> string list \<times> 'm nettlp" where
  "set_nettlp_txportid arg s =
    (let s = s\<lparr>tx_portid := sint (ucast (fst (strtol arg)) :: u32)\<rparr> in ([''tx-portid: '' @ dec_int (tx_portid s)], s))"

definition set_nettlp_udp_port :: "string \<Rightarrow> string \<Rightarrow> 'm nettlp \<Rightarrow> (string list \<times> 'm nettlp) res" where
  "set_nettlp_udp_port which arg s =
    guardr (which = ''src-port'' \<or> which = ''dst-port'') OutOfBounds
      (Inr (let p = ucast (fst (strtol arg))
            in ([''UDP '' @ which @ '': '' @ dec_word p],
                if which = ''src-port'' then s\<lparr>src_port := p\<rparr> else s\<lparr>dst_port := p\<rparr>)))"

definition set_nettlp_memory_addr :: "string \<Rightarrow> 'm nettlp \<Rightarrow> string list \<times> 'm nettlp" where
  "set_nettlp_memory_addr arg s =
    (let s = s\<lparr>memory_addr := fst (strtoul arg)\<rparr> in ([''memory-addr: '' @ ptr_word (memory_addr s)], s))"

definition set_nettlp_payload_size :: "string \<Rightarrow> 'm nettlp \<Rightarrow> string list \<times> 'm nettlp" where
  "set_nettlp_payload_size arg s =
    (let s = s\<lparr>payload_size := ucast (fst (strtoul arg))\<rparr> in ([''payload-size: '' @ dec_sint (payload_size s)], s))"

definition set_nettlp_max_payload_size :: "string \<Rightarrow> 'm nettlp \<Rightarrow> string list \<times> 'm nettlp" where
  "set_nettlp_max_payload_size arg s =
    (let s = s\<lparr>max_payload_size := ucast (fst (strtoul arg))\<rparr>
     in ([''MaxPayloadSize: '' @ dec_sint (max_payload_size s)], s))"

definition set_nettlp_payload_string :: "string \<Rightarrow> 'm nettlp \<Rightarrow> string list \<times> 'm nettlp" where
  "set_nettlp_payload_string arg s =
    (let text = c_bytes (take 4095 arg);
         s = s\<lparr>payload_string := text @ replicate (4096 - length text) 0, payload_size := of_nat (length text)\<rparr>
     in ([''payload-string: '' @ c_string (payload_string s) @ '' (size: '' @ dec_sint (payload_size s) @ '')''], s))"

definition psmem_line :: "('m nettlp \<Rightarrow> string) \<Rightarrow> 'm nettlp \<Rightarrow> string" where
  "psmem_line memory_ptr s = ''psmem: 0x'' @ hex_word (psmem_addr s) @ ''--0x'' @
     hex_word (psmem_addr s + ucast (psmem_size s)) @ '' memory: '' @ memory_ptr s @ '' size: '' @ dec_sint (psmem_size s)"

text \<open>
  The allocator: \<open>malloc n\<close> and \<open>realloc block n\<close>. A failed \<open>realloc\<close> leaves the old block allocated,
  but the pointer to it is overwritten.
\<close>

record heap =
  malloc :: "nat \<Rightarrow> bytes option"
  realloc :: "bytes \<Rightarrow> nat \<Rightarrow> bytes option"
  strerror :: string

definition heap_laws :: "heap \<Rightarrow> bool" where
  "heap_laws h \<longleftrightarrow> (\<forall>n b. malloc h n = Some b \<longrightarrow> length b = n) \<and>
    (\<forall>old n b. realloc h old n = Some b \<longrightarrow> length b = n \<and> take (min n (length old)) b = take (min n (length old)) old)"

definition set_nettlp_psmem_addr ::
  "heap \<Rightarrow> ('m nettlp \<Rightarrow> string) \<Rightarrow> string \<Rightarrow> 'm nettlp \<Rightarrow> (string list \<times> 'm nettlp) res" where
  "set_nettlp_psmem_addr h ptr arg s =
    (let (new_addr, endptr) = strtoul arg
     in if endptr \<noteq> [] then Inr ([''invalid addr: '' @ arg], s)
        else case psmem_memory s of
          Some mem \<Rightarrow>
            if new_addr = 0 \<or> psmem_size s = 0
            then let s = s\<lparr>psmem_memory := None\<rparr> in Inr ([psmem_line ptr s], s)
            else (case realloc h mem (unat (psmem_size s)) of
                None \<Rightarrow> let s = s\<lparr>psmem_memory := None\<rparr>
                  in Inr ([''realloc() failed: '' @ strerror h, psmem_line ptr s], s)
              | Some b \<Rightarrow> let s = s\<lparr>psmem_memory := Some b, psmem_addr := new_addr\<rparr>
                  in Inr ([psmem_line ptr s], s))
        | None \<Rightarrow>
            (case malloc h (unat (psmem_size s)) of
                None \<Rightarrow> Inr ([''malloc() failed: '' @ strerror h], s)
              | Some b \<Rightarrow> let s = s\<lparr>psmem_memory := Some b, psmem_addr := new_addr\<rparr>
                  in Inr ([psmem_line ptr s], s)))"

definition set_nettlp_psmem_size ::
  "heap \<Rightarrow> ('m nettlp \<Rightarrow> string) \<Rightarrow> string \<Rightarrow> 'm nettlp \<Rightarrow> (string list \<times> 'm nettlp) res" where
  "set_nettlp_psmem_size h ptr arg s =
    (let (new_size, endptr) = (if arg = ''256M'' then (256 * 1024 * 1024 :: u32, [])
           else let (v, rest) = strtoul arg in (ucast v, rest))
     in if endptr \<noteq> [] then Inr ([''invalid addr: '' @ arg], s)
        else case psmem_memory s of
          Some mem \<Rightarrow>
            if psmem_addr s = 0 \<or> new_size = 0
            then let s = s\<lparr>psmem_memory := None, psmem_size := new_size\<rparr> in Inr ([psmem_line ptr s], s)
            else (case realloc h mem (unat new_size) of
                None \<Rightarrow> let s = s\<lparr>psmem_memory := None\<rparr>
                  in Inr ([''realloc() failed: '' @ strerror h, psmem_line ptr s], s)
              | Some b \<Rightarrow> let s = s\<lparr>psmem_memory := Some b, psmem_size := new_size\<rparr>
                  in Inr ([psmem_line ptr s], s))
        | None \<Rightarrow>
            (case malloc h (unat new_size) of
                None \<Rightarrow> Inr ([''malloc() failed: '' @ strerror h, psmem_line ptr s], s)
              | Some b \<Rightarrow> let s = s\<lparr>psmem_memory := Some b, psmem_size := new_size\<rparr>
                  in Inr ([psmem_line ptr s], s)))"

text \<open>
  The dump of the window: 64 bytes a line, blocks of eight. The counter is 32 bits wide; it does
  not wrap, because the end is at most the 32-bit size.
\<close>

definition psmem_char :: "u8 \<Rightarrow> char" where
  "psmem_char b = (let c = char_of (unat b) in
     if c_isspace c then CHR ''_'' else if unat b = 10 then CHR ''n'' else if c_isgraph c then c else CHR ''#'')"

definition psmem_cell :: "bytes \<Rightarrow> nat \<Rightarrow> string" where
  "psmem_cell mem i =
    (if i mod 64 = 0 then ''0x'' @ hex04 i @ ''  '' else []) @ [psmem_char (mem ! i)] @
    (if i mod 8 = 7 then '' '' else []) @ (if i mod 64 = 63 then [CHR 0x0A] else [])"

primrec psmem_dump :: "bytes \<Rightarrow> nat list \<Rightarrow> string res" where
  "psmem_dump mem [] = Inr []"
| "psmem_dump mem (i # is) =
    guardr (i < length mem) OutOfBounds
      (bindr (psmem_dump mem is) (\<lambda>rest. Inr (psmem_cell mem i @ rest)))"

definition show_nettlp_psmem :: "('m nettlp \<Rightarrow> string) \<Rightarrow> string option \<Rightarrow> 'm nettlp \<Rightarrow> (string list \<times> string) res" where
  "show_nettlp_psmem ptr arg s =
    (let (start, endptr) = (case arg of None \<Rightarrow> (0, []) | Some w \<Rightarrow> strtoul w)
     in if endptr \<noteq> [] then Inr ([''invalid addr: '' @ the arg], [])
        else case psmem_memory s of None \<Rightarrow> Inr ([], [])
          | Some mem \<Rightarrow>
            if psmem_size s = 0 then Inr ([], [])
            else let end_offset = start + 8 * 1024;
                     end_offset = (if ucast (psmem_size s) < end_offset then ucast (psmem_size s) else end_offset)
              in bindr (psmem_dump mem [unat (ucast start :: u32)..<unat end_offset]) (\<lambda>dump. Inr (
                   [psmem_line ptr s,
                    ''show: offset: 0x'' @ hex_word start @ ''--0x'' @ hex_word end_offset @ '' addr: 0x'' @
                      hex_word (psmem_addr s + start) @ ''--0x'' @ hex_word (psmem_addr s + end_offset)], dump)))"

section \<open>Writing into a buffer\<close>

lemma law_append:
  assumes "mbuf_laws a"
  shows "mb_data a (mb_append a n m) = mb_data a m" "mb_room a (mb_append a n m) = mb_room a m"
    "mb_len a m + n \<le> length (mb_data a m) \<Longrightarrow> mb_len a (mb_append a n m) = mb_len a m + n"
  using assms by (simp_all add: mbuf_laws_def)

lemma law_prepend:
  assumes "mbuf_laws a" "n \<le> mb_room a m"
  shows "drop n (mb_data a (mb_prepend a n m)) = mb_data a m"
    "length (mb_data a (mb_prepend a n m)) = n + length (mb_data a m)"
    "mb_len a (mb_prepend a n m) = n + mb_len a m" "mb_room a (mb_prepend a n m) = mb_room a m - n"
  using assms unfolding mbuf_laws_def by meson+

lemma law_put:
  assumes "mbuf_laws a" "length d = length (mb_data a m)"
  shows "mb_data a (mb_put a d m) = d" "mb_len a (mb_put a d m) = mb_len a m" "mb_room a (mb_put a d m) = mb_room a m"
  using assms by (simp_all add: mbuf_laws_def)

text \<open>A buffer with the given memory, packet length and headroom.\<close>

definition buffer :: "'m mbuf_api \<Rightarrow> bytes \<Rightarrow> nat \<Rightarrow> nat \<Rightarrow> 'm \<Rightarrow> bool" where
  "buffer a d l r m \<longleftrightarrow> mb_data a m = d \<and> mb_len a m = l \<and> mb_room a m = r"

lemma buffer_refl: "buffer a (mb_data a m) (mb_len a m) (mb_room a m) m"
  by (simp add: buffer_def)

lemma poke_buffer:
  assumes "mbuf_laws a" "buffer a d l r m" "off + length bs \<le> length d"
  obtains m' where "poke a off bs m = Inr m'" "buffer a (store off bs d) l r m'"
  using assms by (auto simp: poke_def buffer_def law_put)

lemma peek_buffer: "buffer a d l r m \<Longrightarrow> off + n \<le> length d \<Longrightarrow> peek a off n m = Inr (load off n d)"
  by (simp add: peek_def buffer_def)

lemma append_buffer:
  "mbuf_laws a \<Longrightarrow> buffer a d l r m \<Longrightarrow> l + n \<le> length d \<Longrightarrow> buffer a d (l + n) r (mb_append a n m)"
  by (simp add: buffer_def law_append)

lemma prepend_buffer:
  assumes "mbuf_laws a" "buffer a d l r m" "n \<le> r"
  obtains h where "length h = n" "buffer a (h @ d) (n + l) (r - n) (mb_prepend a n m)"
proof
  let ?x = "mb_data a (mb_prepend a n m)"
  from assms show "length (take n ?x) = n" by (auto simp: buffer_def law_prepend)
  have "mb_data a (mb_prepend a n m) = take n ?x @ d"
    using law_prepend(1) [OF assms(1), of n m] assms(2,3) append_take_drop_id [of n ?x] by (simp add: buffer_def)
  then show "buffer a (take n ?x @ d) (n + l) (r - n) (mb_prepend a n m)"
    using assms by (simp add: buffer_def law_prepend)
qed

lemma store_append_left: "off + length bs \<le> length h \<Longrightarrow> store off bs (h @ d) = store off bs h @ d"
  by (simp add: store_def)

lemma law_cksum: "mbuf_laws a \<Longrightarrow> length (ipv4_cksum a b) = 2"
  by (simp add: mbuf_laws_def)

lemma udp_header_ok:
  assumes a: "mbuf_laws a" and m: "buffer a d l r m" and r: "8 \<le> r"
  obtains m' h where "udp_header a s m = Inr m'" "buffer a (h @ d) (8 + l) (r - 8) m'" "length h = 8"
    "load 0 6 h = be16 (src_port s) @ be16 (dst_port s) @ be16 (of_nat (8 + l))"
proof -
  obtain h where h: "length h = 8" "buffer a (h @ d) (8 + l) (r - 8) (mb_prepend a 8 m)"
    by (rule prepend_buffer [OF a m r])
  let ?bs = "be16 (src_port s) @ be16 (dst_port s) @ be16 (of_nat (8 + l))"
  from poke_buffer [OF a h(2), of 0 ?bs] h(1) obtain m' where
    m': "poke a 0 ?bs (mb_prepend a 8 m) = Inr m'" "buffer a (store 0 ?bs (h @ d)) (8 + l) (r - 8) m'"
    by auto
  have "mb_len a (mb_prepend a 8 m) = 8 + l" using h(2) by (simp add: buffer_def)
  with m' h(1) show ?thesis
    by (intro that [of m' "store 0 ?bs h"]) (simp_all add: udp_header_def store_append_left load_store_same)
qed

lemma ipv4_header_ok:
  assumes a: "mbuf_laws a" and m: "buffer a d l r m" and r: "20 \<le> r"
    and addrs: "length (local_addr s) = 4" "length (remote_addr s) = 4"
  obtains m' h where "ipv4_header a ident s m = Inr m'" "buffer a (h @ d) (20 + l) (r - 20) m'" "length h = 20"
    "load 0 1 h = [0x45]" "load 2 2 h = be16 (of_nat (20 + l))" "load 9 1 h = [17]"
    "load 12 8 h = local_addr s @ remote_addr s"
proof -
  obtain h where h: "length h = 20" "buffer a (h @ d) (20 + l) (r - 20) (mb_prepend a 20 m)"
    by (rule prepend_buffer [OF a m r])
  define h1 where "h1 = store 0 [0x45] h"
  define h2 where "h2 = store 2 (be16 (of_nat (20 + l))) h1"
  define h3 where "h3 = (case ident of None \<Rightarrow> h2 | Some v \<Rightarrow> store 4 (be16 v) h2)"
  define h4 where "h4 = store 12 (local_addr s @ remote_addr s) h3"
  define h5 where "h5 = store 9 [17] h4"
  define h6 where "h6 = store 10 (ipv4_cksum a (load 0 20 h5)) h5"
  have len: "length h1 = 20" "length h2 = 20" "length h3 = 20" "length h4 = 20" "length h5 = 20" "length h6 = 20"
    using h(1) addrs by (simp_all add: h1_def h2_def h3_def h4_def h5_def h6_def law_cksum [OF a] split: option.split)
  note sal = store_append_left
  obtain m1 where m1: "poke a 0 [0x45] (mb_prepend a 20 m) = Inr m1" "buffer a (h1 @ d) (20 + l) (r - 20) m1"
    by (rule poke_buffer [OF a h(2), of 0 "[0x45]"]) (simp_all add: h(1) h1_def sal)
  obtain m2 where m2: "poke a 2 (be16 (of_nat (20 + l))) m1 = Inr m2" "buffer a (h2 @ d) (20 + l) (r - 20) m2"
    by (rule poke_buffer [OF a m1(2), of 2 "be16 (of_nat (20 + l))"]) (simp_all add: len h2_def sal)
  obtain m3 where m3: "(case ident of None \<Rightarrow> Inr m2 | Some v \<Rightarrow> poke a 4 (be16 v) m2) = Inr m3"
    "buffer a (h3 @ d) (20 + l) (r - 20) m3"
  proof (cases ident)
    case None
    with m2 show ?thesis by (intro that [of m2]) (simp_all add: h3_def)
  next
    case (Some v)
    show ?thesis
      by (rule poke_buffer [OF a m2(2), of 4 "be16 v"]) (use Some in \<open>auto simp: len h3_def sal intro!: that\<close>)
  qed
  obtain m4 where m4: "poke a 12 (local_addr s @ remote_addr s) m3 = Inr m4" "buffer a (h4 @ d) (20 + l) (r - 20) m4"
    by (rule poke_buffer [OF a m3(2), of 12 "local_addr s @ remote_addr s"]) (simp_all add: len h4_def sal addrs)
  obtain m5 where m5: "poke a 9 [17] m4 = Inr m5" "buffer a (h5 @ d) (20 + l) (r - 20) m5"
    by (rule poke_buffer [OF a m4(2), of 9 "[17]"]) (simp_all add: len h5_def sal)
  have p: "peek a 0 20 m5 = Inr (load 0 20 h5)"
    by (subst peek_buffer [OF m5(2)]) (simp_all add: len load_append_left)
  obtain m6 where m6: "poke a 10 (ipv4_cksum a (load 0 20 h5)) m5 = Inr m6" "buffer a (h6 @ d) (20 + l) (r - 20) m6"
    by (rule poke_buffer [OF a m5(2), of 10 "ipv4_cksum a (load 0 20 h5)"]) (simp_all add: len h6_def sal law_cksum [OF a])
  have l1: "mb_len a m1 = 20 + l" using m1(2) by (simp add: buffer_def)
  have "ipv4_header a ident s m = Inr m6"
    by (simp only: ipv4_header_def Let_def m1 l1 m2 m3 m4 m5 p m6 bindr_simps)
  moreover have "load 0 1 h6 = [0x45]" "load 2 2 h6 = be16 (of_nat (20 + l))" "load 9 1 h6 = [17]"
    "load 12 8 h6 = local_addr s @ remote_addr s"
    using h(1) len addrs
    by (auto simp: h6_def h5_def h4_def h3_def h2_def h1_def store_simps law_cksum [OF a] split: option.splits)
  ultimately show ?thesis using m6(2) len(6) that by blast
qed

lemma ether_header_ok:
  assumes a: "mbuf_laws a" and m: "buffer a d l r m" and r: "14 \<le> r"
    and addrs: "length (local_ether s) = 6" "length (remote_ether s) = 6"
  obtains m' h where "ether_header a s m = Inr m'" "buffer a (h @ d) (14 + l) (r - 14) m'" "length h = 14"
    "load 0 6 h = remote_ether s" "load 6 6 h = local_ether s" "load 12 2 h = be16 0x0800"
proof -
  obtain h where h: "length h = 14" "buffer a (h @ d) (14 + l) (r - 14) (mb_prepend a 14 m)"
    by (rule prepend_buffer [OF a m r])
  define h1 where "h1 = store 12 (be16 0x0800) h"
  define h2 where "h2 = store 6 (local_ether s) h1"
  define h3 where "h3 = store 0 (remote_ether s) h2"
  have len: "length h1 = 14" "length h2 = 14" "length h3 = 14"
    using h(1) addrs by (simp_all add: h1_def h2_def h3_def)
  obtain m1 where m1: "poke a 12 (be16 0x0800) (mb_prepend a 14 m) = Inr m1" "buffer a (h1 @ d) (14 + l) (r - 14) m1"
    by (rule poke_buffer [OF a h(2), of 12 "be16 0x0800"]) (simp_all add: h(1) h1_def store_append_left)
  obtain m2 where m2: "poke a 6 (local_ether s) m1 = Inr m2" "buffer a (h2 @ d) (14 + l) (r - 14) m2"
    by (rule poke_buffer [OF a m1(2), of 6 "local_ether s"]) (simp_all add: len addrs h2_def store_append_left)
  obtain m3 where m3: "poke a 0 (remote_ether s) m2 = Inr m3" "buffer a (h3 @ d) (14 + l) (r - 14) m3"
    by (rule poke_buffer [OF a m2(2), of 0 "remote_ether s"]) (simp_all add: len addrs h3_def store_append_left)
  have "ether_header a s m = Inr m3"
    by (simp only: ether_header_def Let_def m1 m2 m3 bindr_simps)
  moreover have "load 0 6 h3 = remote_ether s" "load 6 6 h3 = local_ether s" "load 12 2 h3 = be16 0x0800"
    using h(1) len addrs by (simp_all add: h3_def h2_def h1_def store_simps)
  ultimately show ?thesis using m3(2) len(3) that by blast
qed

text \<open>The 42 header bytes in front of a payload of \<open>l\<close> bytes.\<close>

definition framed :: "'m nettlp \<Rightarrow> nat \<Rightarrow> bytes \<Rightarrow> bool" where
  "framed s l h \<longleftrightarrow> length h = 42 \<and> load 0 6 h = remote_ether s \<and> load 6 6 h = local_ether s \<and>
     load 12 2 h = be16 0x0800 \<and> load 14 1 h = [0x45] \<and> load 16 2 h = be16 (of_nat (28 + l)) \<and>
     load 23 1 h = [17] \<and> load 26 8 h = local_addr s @ remote_addr s \<and>
     load 34 6 h = be16 (src_port s) @ be16 (dst_port s) @ be16 (of_nat (8 + l))"

definition addrs_ok :: "'m nettlp \<Rightarrow> bool" where
  "addrs_ok s \<longleftrightarrow> length (local_addr s) = 4 \<and> length (remote_addr s) = 4 \<and>
     length (local_ether s) = 6 \<and> length (remote_ether s) = 6"

lemma frame_ok:
  assumes a: "mbuf_laws a" and m: "buffer a d l r m" and r: "42 \<le> r" and s: "addrs_ok s"
  obtains m' h where "frame a ident s m = Inr m'" "buffer a (h @ d) (42 + l) (r - 42) m'" "framed s l h"
proof -
  obtain m1 u where u: "udp_header a s m = Inr m1" "buffer a (u @ d) (8 + l) (r - 8) m1" "length u = 8"
    "load 0 6 u = be16 (src_port s) @ be16 (dst_port s) @ be16 (of_nat (8 + l))"
    by (rule udp_header_ok [OF a m, of s]) (use r in simp_all)
  obtain m2 i where i: "ipv4_header a ident s m1 = Inr m2" "buffer a (i @ u @ d) (20 + (8 + l)) (r - 8 - 20) m2"
    "length i = 20" "load 0 1 i = [0x45]" "load 2 2 i = be16 (of_nat (20 + (8 + l)))" "load 9 1 i = [17]"
    "load 12 8 i = local_addr s @ remote_addr s"
    by (rule ipv4_header_ok [OF a u(2), of s ident]) (use r s in \<open>simp_all add: addrs_ok_def\<close>)
  obtain m3 e where e: "ether_header a s m2 = Inr m3"
    "buffer a (e @ i @ u @ d) (14 + (20 + (8 + l))) (r - 8 - 20 - 14) m3" "length e = 14"
    "load 0 6 e = remote_ether s" "load 6 6 e = local_ether s" "load 12 2 e = be16 0x0800"
    by (rule ether_header_ok [OF a i(2), of s]) (use r s in \<open>simp_all add: addrs_ok_def\<close>)
  have "frame a ident s m = Inr m3" by (simp add: frame_def u i e)
  moreover have "framed s l (e @ i @ u)"
    using u(3,4) i(3-) e(3-) by (simp add: framed_def load_append_left load_append_right add.assoc)
  moreover have "buffer a ((e @ i @ u) @ d) (42 + l) (r - 42) m3" using e(2) by simp
  ultimately show ?thesis using that by blast
qed

section \<open>Building a request\<close>

definition alen :: "'m nettlp \<Rightarrow> nat" where
  "alen s = (if short_addr s then 4 else 8)"

lemma length_address_field [simp]: "length (address_field s) = alen s"
  by (simp add: address_field_def alen_def)

lemma length_request_header [simp]: "length (request_header s dw wd cnt old) = 8"
  by (simp add: request_header_def)

lemma put_request_ok:
  assumes a: "mbuf_laws a" and m: "buffer a d 0 r m" and d: "22 \<le> length d"
  obtains m' d' where "put_request a s wd cnt m = Inr m'" "buffer a d' (14 + alen s) r m'" "length d' = length d"
    "load 6 8 d' = request_header s (if short_addr s then 0x00 else 0x20) wd cnt (load 6 8 d)"
    "load 14 (alen s) d' = address_field s"
proof -
  let ?hdr = "request_header s (if short_addr s then 0x00 else 0x20) wd cnt (load 6 8 d)"
  have al: "alen s \<le> 8" by (simp add: alen_def)
  define d1 where "d1 = store 6 ?hdr d"
  define d2 where "d2 = store 14 (address_field s) d1"
  have len: "length d1 = length d" "length d2 = length d"
    using d al by (simp_all add: d1_def d2_def)
  have m0: "buffer a d 14 r (mb_append a 14 m)"
    using append_buffer [OF a m, of 14] d by simp
  have p: "peek a 6 8 (mb_append a 14 m) = Inr (load 6 8 d)"
    using d by (intro peek_buffer [OF m0]) simp
  obtain m1 where m1: "poke a 6 ?hdr (mb_append a 14 m) = Inr m1" "buffer a d1 14 r m1"
    by (rule poke_buffer [OF a m0, of 6 ?hdr]) (use d in \<open>simp_all add: d1_def\<close>)
  have m2: "buffer a d1 (14 + alen s) r (mb_append a (alen s) m1)"
    using append_buffer [OF a m1(2), of "alen s"] d al len by simp
  obtain m3 where m3: "poke a 14 (address_field s) (mb_append a (alen s) m1) = Inr m3" "buffer a d2 (14 + alen s) r m3"
    by (rule poke_buffer [OF a m2, of 14 "address_field s"]) (use d al len in \<open>simp_all add: d2_def\<close>)
  have "put_request a s wd cnt m = Inr m3"
    by (simp add: put_request_def Let_def p m1 m3)
  moreover have "load 6 8 d2 = ?hdr" "load 14 (alen s) d2 = address_field s"
    using d al len by (simp_all add: d2_def d1_def store_simps)
  ultimately show ?thesis using m3(2) len(2) that by blast
qed

lemma append_pad_ok:
  assumes a: "mbuf_laws a" and m: "buffer a d l r m" and d: "l + n \<le> length d" and off: "off + n \<le> length d"
  obtains m' where "append_pad a off n m = Inr m'" "buffer a (store off (replicate n 0) d) (l + n) r m'"
proof (cases "0 < n")
  case True
  show ?thesis
    by (rule poke_buffer [OF a append_buffer [OF a m d], of off "replicate n 0"])
      (use True off that in \<open>simp_all add: append_pad_def\<close>)
next
  case False
  with m that show ?thesis by (simp add: append_pad_def)
qed

definition payload_count :: "'m nettlp \<Rightarrow> nat" where
  "payload_count s = unat (scast (payload_size s) :: u64)"

definition front_of :: "'m nettlp \<Rightarrow> nat" where
  "front_of s = write_front_pad (ucast (tlp_calculate_fstdw (memory_addr s) (scast (payload_size s))) AND 0xF)"

definition back_of :: "'m nettlp \<Rightarrow> nat" where
  "back_of s = write_back_pad (ucast (tlp_calculate_lstdw (memory_addr s) (scast (payload_size s))) AND 0xF)"

lemma scast_small:
  assumes "unat (w :: u32) < 2 ^ 31"
  shows "(scast w :: u64) = ucast w"
proof -
  have "w = take_bit 31 w"
    using assms by (simp add: word_unat_eq_iff unat_mod take_bit_eq_mod)
  then have "\<not> bit w n" if "31 \<le> n" for n
    using that by (metis bit_take_bit_iff not_le)
  then show ?thesis
    by (intro bit_word_eqI) (auto simp: bit_simps min_def)
qed

lemma payload_small:
  assumes "unat (payload_size s) \<le> 4096"
  shows "payload_count s = unat (payload_size s)" "unat (ucast (payload_size s) :: u16) = unat (payload_size s)"
    "(scast (payload_size s) :: u64) = ucast (payload_size s)"
proof -
  show c: "(scast (payload_size s) :: u64) = ucast (payload_size s)"
    using assms by (intro scast_small) simp
  then show "payload_count s = unat (payload_size s)"
    unfolding payload_count_def c
    using assms by (simp add: unsigned_ucast_eq take_bit_nat_eq_self_iff)
  show "unat (ucast (payload_size s) :: u16) = unat (payload_size s)"
    using assms by (simp add: unsigned_ucast_eq take_bit_nat_eq_self_iff)
qed

lemma put_payload_ok:
  assumes a: "mbuf_laws a" and m: "buffer a d (14 + alen s) r m" and n: "unat (payload_size s) \<le> 4096"
    and ps: "length (payload_string s) = 4096"
    and d: "14 + alen s + front_of s + payload_count s + back_of s \<le> length d"
  obtains m' d' where "put_payload a s m = Inr m'"
    "buffer a d' (14 + alen s + front_of s + payload_count s + back_of s) r m'" "length d' = length d"
    "load 6 (8 + alen s) d' = load 6 (8 + alen s) d"
    "load (14 + alen s) (front_of s) d' = replicate (front_of s) 0"
    "load (14 + alen s + front_of s) (payload_count s) d' = take (payload_count s) (payload_string s)"
proof -
  let ?o = "14 + alen s" and ?f = "front_of s" and ?n = "payload_count s" and ?b = "back_of s"
  define d1 where "d1 = store ?o (replicate ?f 0) d"
  define d2 where "d2 = store (?o + ?f) (take ?n (payload_string s)) d1"
  define d3 where "d3 = store (?o + ?f + ?n) (replicate ?b 0) d2"
  have n': "?n \<le> 4096" "unat (ucast (payload_size s) :: u16) = ?n"
    using payload_small [OF n] n by simp_all
  have len: "length d1 = length d" "length d2 = length d" "length d3 = length d"
    using d n' ps by (simp_all add: d1_def d2_def d3_def)
  obtain m1 where m1: "append_pad a ?o ?f m = Inr m1" "buffer a d1 (?o + ?f) r m1"
    by (rule append_pad_ok [OF a m, of ?f ?o]) (use d in \<open>simp_all add: d1_def\<close>)
  have m2: "buffer a d1 (?o + ?f + ?n) r (mb_append a ?n m1)"
    using append_buffer [OF a m1(2), of ?n] d len by simp
  obtain m3 where m3: "poke a (?o + ?f) (take ?n (payload_string s)) (mb_append a ?n m1) = Inr m3"
    "buffer a d2 (?o + ?f + ?n) r m3"
    by (rule poke_buffer [OF a m2, of "?o + ?f" "take ?n (payload_string s)"]) (use d len n' ps in \<open>simp_all add: d2_def\<close>)
  obtain m4 where m4: "append_pad a (?o + ?f + ?n) ?b m3 = Inr m4" "buffer a d3 (?o + ?f + ?n + ?b) r m4"
    by (rule append_pad_ok [OF a m3(2), of ?b "?o + ?f + ?n"]) (use d len in \<open>simp_all add: d3_def\<close>)
  have "put_payload a s m = Inr m4"
    unfolding put_payload_def Let_def length_address_field front_of_def [symmetric] back_of_def [symmetric]
      payload_count_def [symmetric] m1(1) bindr_simps n'(2) ps m3(1) m4(1)
    using n'(1) by simp
  moreover have "load 6 (8 + alen s) d3 = load 6 (8 + alen s) d" "load ?o ?f d3 = replicate ?f 0"
    "load (?o + ?f) ?n d3 = take ?n (payload_string s)"
    using d len n' ps by (simp_all add: d3_def d2_def d1_def store_simps)
  ultimately show ?thesis using m4(2) len(3) that by blast
qed

section \<open>Reading a request back\<close>

lemma nth_load: "i < n \<Longrightarrow> off + i < length m \<Longrightarrow> load off n m ! i = m ! (off + i)"
  by (simp add: load_def)

lemma load_load: "off + n \<le> k \<Longrightarrow> load off n (load 0 k m) = load off n m"
  by (simp add: load_def drop_take take_take min_def)

lemma load_drop: "load off n (drop k m) = load (k + off) n m"
  by (simp add: load_def add.commute)

lemma nibble [simp]: "(ucast (v AND 0xF :: u32) :: u8) AND 0xF = ucast (v AND 0xF)"
  by (rule bit_word_eqI) (auto simp: bit_simps)

lemma fstdw_nibble: "(ucast (tlp_calculate_fstdw addr cnt) :: u8) AND 0xF = ucast (tlp_calculate_fstdw addr cnt)"
  by (simp add: tlp_calculate_fstdw_def Let_def)

lemma lstdw_nibble: "(ucast (tlp_calculate_lstdw addr cnt) :: u8) AND 0xF = ucast (tlp_calculate_lstdw addr cnt)"
  by (simp add: tlp_calculate_lstdw_def Let_def)

lemma be_byte:
  "set_fstdw b v AND 0xF = ucast v AND 0xF" "drop_bit 4 (set_fstdw (set_lstdw b w) v) = ucast w AND 0xF"
proof -
  have m: "(0xF :: u8) = mask 4" "(0xF0 :: u8) = push_bit 4 (mask 4)" by (simp_all add: mask_eq_exp_minus_1)
  show "set_fstdw b v AND 0xF = ucast v AND 0xF"
    unfolding set_fstdw_def by (simp add: bit.conj_disj_distrib2 and.assoc)
  show "drop_bit 4 (set_fstdw (set_lstdw b w) v) = ucast w AND 0xF"
    unfolding set_fstdw_def set_lstdw_def m by (rule bit_word_eqI) (auto simp: bit_simps)
qed

lemma set_length_small: "unat v < 1024 \<Longrightarrow> tlp_length (tlp_set_length fl v) = ucast v"
proof -
  assume v: "unat v < 1024"
  have "tlp_length (tlp_set_length fl v) = tlp_length (tlp_set_length 0 v)"
    by (simp add: tlp_length_def tlp_set_length_def bit.conj_disj_distrib2 and.assoc)
  with set_length_0 [of 0 v] v show ?thesis by simp
qed

lemma address_field_aligned:
  "(if short_addr s then ucast (rd32 (address_field s)) else rd64 (address_field s)) = push_bit 2 (drop_bit 2 (memory_addr s))"
proof (cases "short_addr s")
  case True
  then have "unat (memory_addr s) < 2 ^ 32" by (simp add: short_addr_def word_less_nat_alt)
  then have t: "memory_addr s = take_bit 32 (memory_addr s)"
    by (simp add: word_unat_eq_iff unat_mod take_bit_eq_mod)
  have s2: "Suc (Suc (n - 2)) = n" if "2 \<le> n" for n using that by arith
  have m: "(0xFFFFFFFC :: u64) = push_bit 2 (mask 30)" by (simp add: mask_eq_exp_minus_1)
  have "ucast (ucast (memory_addr s AND 0xFFFFFFFC) :: u32) = push_bit 2 (drop_bit 2 (take_bit 32 (memory_addr s)))"
    unfolding m by (rule bit_word_eqI) (auto simp: bit_simps s2)
  with True t show ?thesis by (simp add: address_field_def)
next
  case False
  have m: "(0xFFFFFFFFFFFFFFFC :: u64) = NOT 3" by simp
  from False show ?thesis by (simp only: address_field_def if_False rd64_be64 m and_not_3)
qed

definition dw_bit :: "'m nettlp \<Rightarrow> u8" where
  "dw_bit s = (if short_addr s then 0x00 else 0x20)"

lemma request_read:
  assumes hdr: "load 0 8 pkt = request_header s (dw_bit s) wd cnt old" and adr: "load 8 (alen s) pkt = address_field s"
    and len: "8 + alen s \<le> length pkt" and small: "unat (tlp_calculate_length (memory_addr s) cnt) < 1024"
  shows "tlp_is_3dw (pkt ! 0) \<longleftrightarrow> short_addr s" "tlp_type (pkt ! 0) = 0" "tlp_fmt_data (pkt ! 0) = wd AND 0x40"
    "request_for (memory_addr s) cnt (mr_hdr_of pkt)"
proof -
  have nth: "pkt ! i = request_header s (dw_bit s) wd cnt old ! i" if "i < 8" for i
    using nth_load [of i 8 0 pkt] that len hdr by simp
  have p0: "pkt ! 0 = tlp_set_fmt (tlp_set_type (old ! 0) 0x00) (dw_bit s) wd"
    using nth [of 0] by (simp add: request_header_def)
  have p7: "pkt ! 7 = set_fstdw (set_lstdw (old ! 7) (tlp_calculate_lstdw (memory_addr s) cnt)) (tlp_calculate_fstdw (memory_addr s) cnt)"
    using nth [of 7] by (simp add: request_header_def be16_def)
  have p2: "load 2 2 pkt = be16 (tlp_set_length (rd16 (load 2 2 old)) (tlp_calculate_length (memory_addr s) cnt))"
    using load_load [of 2 2 8 pkt] unfolding hdr by (simp add: request_header_def load_def be16_def)
  show dw: "tlp_is_3dw (pkt ! 0) \<longleftrightarrow> short_addr s"
    by (simp add: p0 tlp_is_3dw_def dw_bit_def field_defs)
  show "tlp_type (pkt ! 0) = 0" "tlp_fmt_data (pkt ! 0) = wd AND 0x40"
    by (simp_all add: p0 field_defs)
  have "(if short_addr s then ucast (rd32 (load 0 4 (drop 8 pkt))) else rd64 (load 0 8 (drop 8 pkt))) =
      push_bit 2 (drop_bit 2 (memory_addr s))"
    using address_field_aligned [of s] adr by (simp add: load_drop alen_def split: if_splits)
  then show "request_for (memory_addr s) cnt (mr_hdr_of pkt)"
    unfolding request_for_def using dw
    by (simp add: mr_hdr_of_def tlp_hdr_of_def p7 p2 be_byte fstdw_nibble lstdw_nibble set_length_small [OF small]
        split: if_splits)
qed

text \<open>Where the sender puts the payload is where the receiver looks for it.\<close>

lemma front_pad_write:
  assumes "0 < unat cnt" "3 \<le> unat addr mod 4 + unat cnt"
  shows "write_front_pad (ucast (tlp_calculate_fstdw addr cnt)) = unat addr mod 4"
  using mod4_cases [of "unat addr"] Tlp.count_cases [OF assms(1)] assms(2)
  by (elim disjE) (simp_all add: fstdw_table write_front_pad_def)

lemma front_pad_misplaced:
  assumes "0 < unat cnt" "unat addr mod 4 + unat cnt < 3"
  shows "write_front_pad (ucast (tlp_calculate_fstdw addr cnt)) = 3 - unat cnt"
  using mod4_cases [of "unat addr"] Tlp.count_cases [OF assms(1)] assms(2)
  by (elim disjE) (simp_all add: fstdw_table write_front_pad_def)

lemma back_pad_le: "write_back_pad be \<le> 3"
proof -
  have "length (filter P [0, 1, 2 :: nat]) \<le> 3" for P
    by (rule order_trans [OF length_filter_le]) simp
  then show ?thesis by (simp add: write_back_pad_def high_disabled_def del: filter.simps)
qed

section \<open>A write from sender to receiver\<close>

text \<open>The range lies in the receiver's window, whose memory is allocated; nothing wraps.\<close>

definition in_window :: "u64 \<Rightarrow> nat \<Rightarrow> 'm nettlp \<Rightarrow> bytes \<Rightarrow> bool" where
  "in_window addr n s mem \<longleftrightarrow> psmem_memory s = Some mem \<and> length mem = unat (psmem_size s) \<and>
     unat (psmem_addr s) \<le> unat addr \<and> unat addr + n \<le> unat (psmem_addr s) + unat (psmem_size s) \<and>
     unat (psmem_addr s) + unat (psmem_size s) < 2 ^ 64"

lemma unat_diff_window: "unat (p :: u64) \<le> unat q \<Longrightarrow> unat (q - p) = unat q - unat p"
  by (rule unat_sub) (simp add: word_le_nat_alt)

lemma unat_up32: "unat (ucast (w :: u32) :: u64) = unat w"
proof -
  have "unat w < 2 ^ 32" using unsigned_less [of w] by simp
  then show ?thesis by (simp add: unsigned_ucast_eq take_bit_nat_eq_self_iff)
qed

lemma window_inside:
  assumes "in_window addr (unat len) s mem"
  shows "\<not> outside_window addr len s" "unat (addr - psmem_addr s) + unat len \<le> length mem"
proof -
  have e: "unat (psmem_addr s + ucast (psmem_size s)) = unat (psmem_addr s) + unat (psmem_size s)"
    using assms unat_add_no_wrap [of "psmem_addr s" "ucast (psmem_size s)"] by (simp add: in_window_def unat_up32)
  have l: "unat (addr + len) = unat addr + unat len"
    using assms by (intro unat_add_no_wrap) (simp add: in_window_def)
  show "\<not> outside_window addr len s"
    using assms by (simp add: outside_window_def word_less_nat_alt e l in_window_def)
  show "unat (addr - psmem_addr s) + unat len \<le> length mem"
    using assms unfolding in_window_def by (subst unat_diff_window) auto
qed

lemma mwr_stores:
  assumes w: "in_window (tlp_mr_addr (mr_hdr_of pkt)) n s mem" and n: "0 < n"
    and len: "unat (scast (tlp_mr_data_length (mr_hdr_of pkt)) :: u64) = n"
    and pkt: "8 + tlp_mwr_data (mr_hdr_of pkt) + n \<le> length pkt"
  shows "nettlp_psmem_mwr pkt s = Inr (s\<lparr>psmem_memory := Some (store
     (unat (tlp_mr_addr (mr_hdr_of pkt) - psmem_addr s)) (load (8 + tlp_mwr_data (mr_hdr_of pkt)) n pkt) mem)\<rparr>)"
proof -
  let ?len = "scast (tlp_mr_data_length (mr_hdr_of pkt)) :: u64"
  have w': "in_window (tlp_mr_addr (mr_hdr_of pkt)) (unat ?len) s mem" using w len by simp
  have "psmem_memory s = Some mem" using w by (simp add: in_window_def)
  with window_inside [OF w'] n len pkt show ?thesis
    by (simp add: nettlp_psmem_mwr_def Let_def)
qed

lemma receive_write:
  assumes eth: "load 12 2 d = be16 0x0800" and udp: "load 23 1 d = [17]"
    and hdr: "load 48 8 d = request_header s (dw_bit s) 0x40 cnt old" and adr: "load 56 (alen s) d = address_field s"
    and len: "56 + alen s + unat (memory_addr s) mod 4 + unat cnt \<le> length d" and data: "mb_data a b = d"
    and pos: "0 < unat cnt" and nw: "unat (memory_addr s) + unat cnt + 4 < 2 ^ 64"
    and fits: "unat (memory_addr s) mod 4 + unat cnt \<le> 4092" and w: "in_window (memory_addr s) (unat cnt) r mem"
  shows "nettlp_psmem_receive a b r = Some (Inr (event (Freed b) (r\<lparr>psmem_memory := Some
     (store (unat (memory_addr s - psmem_addr r)) (load (56 + alen s + unat (memory_addr s) mod 4) (unat cnt) d) mem)\<rparr>)))"
proof -
  let ?p = "drop 48 d" and ?a = "memory_addr s"
  have h: "load 0 8 ?p = request_header s (dw_bit s) 0x40 cnt old" "load 8 (alen s) ?p = address_field s"
    "8 + alen s \<le> length ?p"
    using hdr adr len by (simp_all add: load_drop)
  have "unat (tlp_calculate_length ?a cnt) = (unat ?a mod 4 + unat cnt + 3) div 4"
    using nw fits by (intro length_val) simp_all
  then have "unat (tlp_calculate_length ?a cnt) < 1024" using fits by simp
  note rd = request_read [OF h this]
  have ft: "fmt_type (mr_tlp (mr_hdr_of ?p)) = ?p ! 0" by (simp add: mr_hdr_of_def tlp_hdr_of_def)
  have dec: "tlp_mr_addr (mr_hdr_of ?p) = ?a" "tlp_mr_data_length (mr_hdr_of ?p) = ucast cnt"
    "tlp_mwr_data (mr_hdr_of ?p) = alen s + unat ?a mod 4"
    using decode_request [OF rd(4) pos nw fits] by (simp_all add: ft rd(1) alen_def unat_and_3)
  have small: "unat cnt < 2 ^ 31" using fits by simp
  then have u: "unat (ucast cnt :: u32) = unat cnt"
    by (simp add: unsigned_ucast_eq take_bit_nat_eq_self_iff)
  have c: "unat (scast (tlp_mr_data_length (mr_hdr_of ?p)) :: u64) = unat cnt"
    using small unfolding u [symmetric] dec(2) by (subst scast_small) (simp_all only: unat_up32)
  have mwr: "nettlp_psmem_mwr ?p r = Inr (r\<lparr>psmem_memory := Some (store (unat (?a - psmem_addr r))
      (load (56 + alen s + unat ?a mod 4) (unat cnt) d) mem)\<rparr>)"
    using mwr_stores [of ?p "unat cnt" r mem] w pos c len unfolding dec by (simp add: load_drop add.assoc)
  have "d ! 23 = 17" using nth_load [of 0 1 23 d] udp len by simp
  moreover have "\<not> tlp_is_mrd (?p ! 0)" "tlp_is_mwr (?p ! 0)"
    using rd(2,3) by (simp_all add: tlp_is_mrd_def tlp_is_mwr_def tlp_is_wo_data_def tlp_is_w_data_def)
  moreover have "48 + 8 + (if tlp_is_3dw (?p ! 0) then 4 else 8) \<le> length d"
    using len rd(1) by (simp add: alen_def)
  moreover have "49 \<le> length d" using len by simp
  ultimately show ?thesis
    using eth len by (simp add: nettlp_psmem_receive_def Let_def data needs_def mwr)
qed

text \<open>What the sender needs from its surroundings to get a packet of \<open>len\<close> payload bytes out.\<close>

definition can_send :: "'m mbuf_api \<Rightarrow> nat \<Rightarrow> 'm \<Rightarrow> 'm nettlp \<Rightarrow> bool" where
  "can_send a len m s \<longleftrightarrow> tx_ready s = Inr True \<and> mb_alloc a (allocs s) = Some m \<and> 42 \<le> mb_room a m \<and>
     22 \<le> length (mb_data a m) \<and> len \<le> length (mb_data a m) \<and> addrs_ok s \<and> length (payload_string s) = 4096 \<and>
     rx_portid s < 32 \<and> rx_queueid s < 16 \<and> tx_portid s < 32 \<and> nt_lcore s < 128 \<and>
     ((nat (tx_portid s), nt_lcore s) \<in> nt_tx_buffers s \<or> tx_zmalloc_ok a (nat (tx_portid s)) (nt_lcore s))"

definition write_len :: "'m nettlp \<Rightarrow> nat" where
  "write_len s = 14 + alen s + front_of s + payload_count s + back_of s"

lemma tap_if_bound_ok:
  assumes "rx_portid s < 32" "rx_queueid s < 16"
  obtains es where "tap_if_bound a m s = Inr (s\<lparr>events := events s @ es\<rparr>)"
proof (cases "0 \<le> rx_portid s \<and> 0 \<le> rx_queueid s")
  case True
  with assms show ?thesis
    by (intro that) (simp add: tap_if_bound_def nettlp_send_packet_tap_up_def Let_def event_def RTE_MAX_ETHPORTS_def
        MAX_RX_QUEUES_def)
next
  case False
  then show ?thesis by (intro that [of "[]"]) (auto simp: tap_if_bound_def)
qed

lemma send_request_ok:
  assumes a: "mbuf_laws a" and m: "buffer a d l r m" and room: "42 \<le> r" and s: "addrs_ok s"
    and ids: "rx_portid s < 32" "rx_queueid s < 16" "tx_portid s < 32" "nt_lcore s < 128"
    and tx: "(nat (tx_portid s), nt_lcore s) \<in> nt_tx_buffers s \<or> tx_zmalloc_ok a (nat (tx_portid s)) (nt_lcore s)"
  obtains s' m' h where "send_request a ident s m = Inr s'" "last (events s') = Sent (nat (tx_portid s)) (nt_lcore s) m'"
    "buffer a (h @ d) (42 + l) (r - 42) m'" "framed s l h"
proof -
  obtain m' h where f: "frame a ident s m = Inr m'" "buffer a (h @ d) (42 + l) (r - 42) m'" "framed s l h"
    by (rule frame_ok [OF a m room s])
  obtain es where t: "tap_if_bound a m' s = Inr (s\<lparr>events := events s @ es\<rparr>)"
    by (rule tap_if_bound_ok [OF ids(1,2)])
  have "nat (tx_portid s) < 32" using ids(3) by simp
  then obtain s' where "send_request a ident s m = Inr s'" "last (events s') = Sent (nat (tx_portid s)) (nt_lcore s) m'"
    using ids(4) tx unfolding send_request_def f bindr_simps t
    by (auto simp: Let_def transmit_def create_tx_buffer_def event_def RTE_MAX_ETHPORTS_def RTE_MAX_LCORE_def intro: that)
  with f(2,3) show ?thesis by (intro that) simp_all
qed

lemma allocs_irrelevant [simp]:
  "framed (s\<lparr>allocs := k\<rparr>) l h = framed s l h" "alen (s\<lparr>allocs := k\<rparr>) = alen s"
  "front_of (s\<lparr>allocs := k\<rparr>) = front_of s" "payload_count (s\<lparr>allocs := k\<rparr>) = payload_count s"
  "back_of (s\<lparr>allocs := k\<rparr>) = back_of s" "request_header (s\<lparr>allocs := k\<rparr>) dw wd cnt old = request_header s dw wd cnt old"
  "address_field (s\<lparr>allocs := k\<rparr>) = address_field s" "short_addr (s\<lparr>allocs := k\<rparr>) = short_addr s"
  by (simp_all add: framed_def alen_def front_of_def payload_count_def back_of_def request_header_def
      address_field_def short_addr_def)

lemma load_within: "i + n \<le> k \<Longrightarrow> load i n (load off k m) = load (off + i) n m"
  by (simp add: load_def drop_take min_def add.commute)

lemma dma_write_ok:
  assumes a: "mbuf_laws a" and ok: "can_send a (write_len s) m s" and n: "unat (payload_size s) \<le> 4096"
  obtains s' m' h d where "nettlp_send_dma_write a s = Inr s'" "last (events s') = Sent (nat (tx_portid s)) (nt_lcore s) m'"
    "mb_len a m' = 42 + write_len s" "mb_data a m' = h @ d" "framed s (write_len s) h" "write_len s \<le> length d"
    "load 6 8 d = request_header s (dw_bit s) 0x40 (scast (payload_size s)) (load 6 8 (mb_data a m))"
    "load 14 (alen s) d = address_field s"
    "load (14 + alen s) (front_of s) d = replicate (front_of s) 0"
    "load (14 + alen s + front_of s) (payload_count s) d = take (payload_count s) (payload_string s)"
proof -
  let ?s = "s\<lparr>allocs := allocs s + 1\<rparr>"
  have b: "buffer a (mb_data a m) 0 (mb_room a m) m"
    using a ok by (auto simp: buffer_def mbuf_laws_def can_send_def)
  obtain m1 d1 where m1: "put_request a ?s 0x40 (scast (payload_size s)) m = Inr m1" "buffer a d1 (14 + alen s) (mb_room a m) m1"
    "length d1 = length (mb_data a m)" "load 6 8 d1 = request_header s (dw_bit s) 0x40 (scast (payload_size s)) (load 6 8 (mb_data a m))"
    "load 14 (alen s) d1 = address_field s"
    by (rule put_request_ok [OF a b, of ?s "0x40" "scast (payload_size s)"])
      (use ok in \<open>simp_all add: can_send_def dw_bit_def\<close>)
  obtain m2 d2 where m2: "put_payload a ?s m1 = Inr m2" "buffer a d2 (write_len s) (mb_room a m) m2" "length d2 = length d1"
    "load 6 (8 + alen s) d2 = load 6 (8 + alen s) d1"
    "load (14 + alen s) (front_of s) d2 = replicate (front_of s) 0"
    "load (14 + alen s + front_of s) (payload_count s) d2 = take (payload_count s) (payload_string s)"
    by (rule put_payload_ok [OF a, of d1 ?s "mb_room a m" m1])
      (use ok n m1 in \<open>simp_all add: can_send_def write_len_def\<close>)
  obtain s' m3 h where m3: "send_request a (Some (random a (allocs ?s))) ?s m2 = Inr s'"
    "last (events s') = Sent (nat (tx_portid ?s)) (nt_lcore ?s) m3"
    "buffer a (h @ d2) (42 + write_len s) (mb_room a m - 42) m3" "framed ?s (write_len s) h"
    by (rule send_request_ok [OF a m2(2), of ?s "Some (random a (allocs ?s))"])
      (use ok in \<open>simp_all add: can_send_def addrs_ok_def\<close>)
  have sent: "nettlp_send_dma_write a s = Inr s'"
    using ok m1(1) m2(1) m3(1) by (simp add: nettlp_send_dma_write_def alloc_mbuf_def can_send_def)
  have sub: "load 0 8 (load 6 (8 + alen s) x) = load 6 8 x" "load 8 (alen s) (load 6 (8 + alen s) x) = load 14 (alen s) x"
    for x :: bytes
    by (simp_all add: load_within)
  have hdr: "load 6 8 d2 = load 6 8 d1" "load 14 (alen s) d2 = load 14 (alen s) d1"
    using sub [of d1] sub [of d2] unfolding m2(4) by (metis, metis)
  have len: "write_len s \<le> length d2" using ok m1(3) m2(3) by (simp add: can_send_def)
  have f: "framed s (write_len s) h" "last (events s') = Sent (nat (tx_portid s)) (nt_lcore s) m3"
    "mb_len a m3 = 42 + write_len s" "mb_data a m3 = h @ d2"
    using m3(2-4) by (simp_all add: buffer_def)
  show ?thesis
    by (rule that [OF sent f(2,3,4,1) len hdr(1) [unfolded m1(4)] hdr(2) [unfolded m1(5)] m2(5,6)])
qed

text \<open>The network delivers the packet that was sent, in a buffer of the receiver.\<close>

definition delivered :: "'m mbuf_api \<Rightarrow> 'm \<Rightarrow> 'm \<Rightarrow> bool" where
  "delivered a m b \<longleftrightarrow> mb_len a m \<le> length (mb_data a b) \<and>
     take (mb_len a m) (mb_data a b) = take (mb_len a m) (mb_data a m)"

lemma load_delivered:
  "delivered a m b \<Longrightarrow> off + n \<le> mb_len a m \<Longrightarrow> load off n (mb_data a b) = load off n (mb_data a m)"
  using load_load [of off n "mb_len a m" "mb_data a b"] load_load [of off n "mb_len a m" "mb_data a m"]
  by (simp add: delivered_def load_def)

lemma framed_loads:
  assumes "framed s l h"
  shows "length h = 42" "load 12 2 (h @ d) = be16 0x0800" "load 23 1 (h @ d) = [17]" "load (42 + k) n (h @ d) = load k n d"
  using assms by (simp_all add: framed_def load_append_left load_append_right)

text \<open>What a receiver stores of a delivered write: the bytes at the address' offset after the address.\<close>

lemma write_arrives:
  assumes a: "mbuf_laws a" and ok: "can_send a (write_len s) m s"
    and n: "0 < unat (payload_size s)" "unat (memory_addr s) mod 4 + unat (payload_size s) \<le> 4092"
    and nw: "unat (memory_addr s) + unat (payload_size s) + 4 < 2 ^ 64"
    and room: "unat (memory_addr s) mod 4 + unat (payload_size s) \<le> front_of s + payload_count s + back_of s"
  obtains s' m' d where "nettlp_send_dma_write a s = Inr s'" "last (events s') = Sent (nat (tx_portid s)) (nt_lcore s) m'"
    "load 0 (front_of s) d = replicate (front_of s) 0"
    "load (front_of s) (unat (payload_size s)) d = take (unat (payload_size s)) (payload_string s)"
    "\<And>b r mem. delivered a m' b \<Longrightarrow> in_window (memory_addr s) (unat (payload_size s)) r mem \<Longrightarrow>
       nettlp_psmem_receive a b r = Some (Inr (event (Freed b) (r\<lparr>psmem_memory := Some
         (store (unat (memory_addr s - psmem_addr r)) (load (unat (memory_addr s) mod 4) (unat (payload_size s)) d) mem)\<rparr>)))"
proof -
  let ?n = "unat (payload_size s)" and ?a = "memory_addr s" and ?r = "unat (memory_addr s) mod 4"
  have n4: "?n \<le> 4096" using n(2) by simp
  note pc = payload_small(1) [OF n4]
  have c: "unat (scast (payload_size s) :: u64) = ?n" using pc by (simp add: payload_count_def)
  obtain s' m' h d where w: "nettlp_send_dma_write a s = Inr s'" "last (events s') = Sent (nat (tx_portid s)) (nt_lcore s) m'"
    "mb_len a m' = 42 + write_len s" "mb_data a m' = h @ d" "framed s (write_len s) h" "write_len s \<le> length d"
    "load 6 8 d = request_header s (dw_bit s) 0x40 (scast (payload_size s)) (load 6 8 (mb_data a m))"
    "load 14 (alen s) d = address_field s" "load (14 + alen s) (front_of s) d = replicate (front_of s) 0"
    "load (14 + alen s + front_of s) (payload_count s) d = take (payload_count s) (payload_string s)"
    by (rule dma_write_ok [OF a ok n4])
  let ?d = "drop (14 + alen s) d"
  have "nettlp_psmem_receive a b r = Some (Inr (event (Freed b) (r\<lparr>psmem_memory := Some
         (store (unat (?a - psmem_addr r)) (load ?r ?n ?d) mem)\<rparr>)))"
    if del: "delivered a m' b" and win: "in_window ?a ?n r mem" for b r mem
  proof -
    have wl: "14 + alen s + ?r + ?n \<le> write_len s" using room by (simp add: write_len_def)
    have ld: "load off k (mb_data a b) = load off k (h @ d)" if "off + k \<le> 42 + write_len s" for off k
      using load_delivered [OF del] that w(3,4) by simp
    note fl = framed_loads [OF w(5)]
    have al: "alen s \<le> 8" by (simp add: alen_def)
    have p: "load 12 2 (mb_data a b) = be16 0x0800" "load 23 1 (mb_data a b) = [17]"
      "load 48 8 (mb_data a b) = request_header s (dw_bit s) 0x40 (scast (payload_size s)) (load 6 8 (mb_data a m))"
      "load 56 (alen s) (mb_data a b) = address_field s"
      "load (56 + alen s + ?r) ?n (mb_data a b) = load ?r ?n ?d"
      using wl al fl(2,3) w(7,8) fl(4) [of 6 8 d] fl(4) [of 14 "alen s" d] fl(4) [of "14 + alen s + ?r" ?n d]
      by (simp_all add: ld load_drop add.assoc)
    have "56 + alen s + ?r + ?n \<le> length (mb_data a b)" using del w(3) wl by (simp add: delivered_def)
    with receive_write [OF p(1-4) _ refl, of r mem] n nw win show ?thesis
      by (simp add: c p(5))
  qed
  moreover have "load 0 (front_of s) ?d = replicate (front_of s) 0" "load (front_of s) ?n ?d = take ?n (payload_string s)"
    using w(9,10) pc by (simp_all add: load_drop)
  ultimately show ?thesis using w(1,2) that by blast
qed

lemma pads_cover:
  assumes "0 < unat (payload_size s)" "unat (payload_size s) \<le> 4096"
  shows "unat (memory_addr s) mod 4 + unat (payload_size s) \<le> front_of s + payload_count s + back_of s"
    and "3 \<le> unat (memory_addr s) mod 4 + unat (payload_size s) \<Longrightarrow> front_of s = unat (memory_addr s) mod 4"
    and "unat (memory_addr s) mod 4 + unat (payload_size s) < 3 \<Longrightarrow> front_of s = 3 - unat (payload_size s)"
proof -
  note pc = payload_small(1) [OF assms(2)]
  then have c: "unat (scast (payload_size s) :: u64) = unat (payload_size s)" by (simp add: payload_count_def)
  have c0: "0 < unat (scast (payload_size s) :: u64)" using c assms(1) by simp
  show big: "front_of s = unat (memory_addr s) mod 4" if "3 \<le> unat (memory_addr s) mod 4 + unat (payload_size s)"
    using front_pad_write [OF c0, of "memory_addr s"] that by (simp add: front_of_def fstdw_nibble c)
  show small: "front_of s = 3 - unat (payload_size s)" if "unat (memory_addr s) mod 4 + unat (payload_size s) < 3"
    using front_pad_misplaced [OF c0, of "memory_addr s"] that by (simp add: front_of_def fstdw_nibble c)
  show "unat (memory_addr s) mod 4 + unat (payload_size s) \<le> front_of s + payload_count s + back_of s"
    using big small pc by (cases "3 \<le> unat (memory_addr s) mod 4 + unat (payload_size s)") simp_all
qed

text \<open>
  C2: A DMA write reaches the far side unchanged. When the rib has the port and a buffer comes with
  room, \<open>nettlp-send dma-write\<close> transmits one packet; a NetTLP receiver whose window covers the
  address range stores exactly the payload at the address. The request may start at any
  offset in a DW and span up to 1023 DWs, provided offset and size together reach the third
  byte of the DW.
\<close>

theorem dma_write_roundtrip:
  assumes a: "mbuf_laws a" and ok: "can_send a (write_len s) m s" and net: "\<forall>m. delivered a m (net m)"
    and n: "0 < unat (payload_size s)" "unat (memory_addr s) mod 4 + unat (payload_size s) \<le> 4092"
    and third: "3 \<le> unat (memory_addr s) mod 4 + unat (payload_size s)"
    and nw: "unat (memory_addr s) + unat (payload_size s) + 4 < 2 ^ 64"
    and win: "in_window (memory_addr s) (unat (payload_size s)) r mem"
  shows "\<exists>s' m' r'. nettlp_send_dma_write a s = Inr s' \<and> last (events s') = Sent (nat (tx_portid s)) (nt_lcore s) m' \<and>
    nettlp_psmem_receive a (net m') r = Some (Inr r') \<and>
    psmem_memory r' = Some (store (unat (memory_addr s - psmem_addr r)) (take (unat (payload_size s)) (payload_string s)) mem)"
proof -
  have n4: "unat (payload_size s) \<le> 4096" using n(2) by simp
  note pads = pads_cover [OF n(1) n4]
  obtain s' m' d where w: "nettlp_send_dma_write a s = Inr s'" "last (events s') = Sent (nat (tx_portid s)) (nt_lcore s) m'"
    "load 0 (front_of s) d = replicate (front_of s) 0"
    "load (front_of s) (unat (payload_size s)) d = take (unat (payload_size s)) (payload_string s)"
    "\<And>b r mem. delivered a m' b \<Longrightarrow> in_window (memory_addr s) (unat (payload_size s)) r mem \<Longrightarrow>
       nettlp_psmem_receive a b r = Some (Inr (event (Freed b) (r\<lparr>psmem_memory := Some
         (store (unat (memory_addr s - psmem_addr r)) (load (unat (memory_addr s) mod 4) (unat (payload_size s)) d) mem)\<rparr>)))"
    using write_arrives [OF a ok n nw pads(1)] by metis
  have "delivered a m' (net m')" using net ..
  from w(5) [OF this win] w(1,2,4) show ?thesis
    by (simp add: pads(2) [OF third] event_def)
qed

text \<open>A pool of buffers with 64 bytes of headroom and 512 bytes of memory.\<close>

record buf =
  head :: bytes
  used :: nat
  body :: bytes

definition sample_mbufs :: "buf mbuf_api" where
  "sample_mbufs = \<lparr>mb_alloc = (\<lambda>_. Some \<lparr>head = replicate 64 0, used = 0, body = replicate 512 0xFF\<rparr>),
     mb_append = (\<lambda>n b. if min (used b) (length (body b)) + n \<le> length (body b)
        then b\<lparr>used := min (used b) (length (body b)) + n\<rparr> else b),
     mb_prepend = (\<lambda>n b. if n \<le> length (head b)
        then \<lparr>head = take (length (head b) - n) (head b), used = n + min (used b) (length (body b)),
          body = drop (length (head b) - n) (head b) @ body b\<rparr> else b),
     mb_len = (\<lambda>b. min (used b) (length (body b))), mb_room = (\<lambda>b. length (head b)),
     mb_data = body, mb_put = (\<lambda>d b. b\<lparr>body := d\<rparr>), mb_copy = (\<lambda>b. Some b), enqueue_ok = (\<lambda>_. True),
     tx_zmalloc_ok = (\<lambda>_ _. True), ipv4_cksum = (\<lambda>_. [0, 0]), random = (\<lambda>_. 0)\<rparr>"

lemma sample_mbufs_laws: "mbuf_laws sample_mbufs"
  by (auto simp: mbuf_laws_def sample_mbufs_def)

lemma sample_delivered: "\<forall>m. delivered sample_mbufs m (id m)"
  by (auto simp: delivered_def sample_mbufs_def)

text \<open>A node whose rib has one port with a transmit queue.\<close>

definition sample_node :: "buf nettlp" where
  "sample_node = (nettlp_init 0)\<lparr>nt_rib := Some (Some (zero_rib_info\<lparr>port_size := 1,
     rib_port := [zero_port\<lparr>dev_info := \<lparr>nb_rx_queues = 1, nb_tx_queues = 1\<rparr>\<rparr>]\<rparr>))\<rparr>"

definition sample_sender :: "u64 \<Rightarrow> bytes \<Rightarrow> buf nettlp" where
  "sample_sender addr bs = sample_node\<lparr>memory_addr := addr, payload_size := of_nat (length bs),
     payload_string := bs @ replicate (4096 - length bs) 0\<rparr>"

definition sample_receiver :: "buf nettlp" where
  "sample_receiver = sample_node\<lparr>psmem_addr := 0x1000, psmem_memory := Some (replicate 16 0xEE), psmem_size := 16\<rparr>"

lemma sample_can_send:
  assumes "length bs \<le> 64"
  shows "can_send sample_mbufs (write_len (sample_sender addr bs)) \<lparr>head = replicate 64 0, used = 0, body = replicate 512 0xFF\<rparr>
    (sample_sender addr bs)"
proof -
  let ?s = "sample_sender addr bs"
  have "write_front_pad b \<le> 3" for b
  proof -
    have "all_disabled ns b \<le> length ns" for ns by (induction ns) auto
    from this [of "[0, 1, 2]"] show ?thesis by (simp add: write_front_pad_def)
  qed
  then have "front_of ?s \<le> 3" unfolding front_of_def .
  moreover have "back_of ?s \<le> 3" unfolding back_of_def by (rule back_pad_le)
  moreover have "payload_count ?s \<le> 64"
    using assms payload_small(1) [of ?s] by (simp add: sample_sender_def unat_of_nat)
  moreover have "alen ?s \<le> 8" by (simp add: alen_def)
  ultimately have "write_len ?s \<le> 128" by (simp add: write_len_def)
  moreover have "tx_ready ?s = Inr True"
    by (simp add: tx_ready_def sample_sender_def sample_node_def nettlp_init_def)
  ultimately show ?thesis
    using assms by (simp add: can_send_def sample_mbufs_def)
      (simp add: sample_sender_def sample_node_def nettlp_init_def addrs_ok_def)
qed

theorem dma_write_roundtrip_witness:
  "\<exists>s' m' r'. nettlp_send_dma_write sample_mbufs (sample_sender 0x1006 [1, 2, 3, 4, 5]) = Inr s' \<and>
    last (events s') = Sent 0 0 m' \<and> nettlp_psmem_receive sample_mbufs m' sample_receiver = Some (Inr r') \<and>
    psmem_memory r' = Some (replicate 6 0xEE @ [1, 2, 3, 4, 5] @ replicate 5 0xEE)"
proof -
  let ?s = "sample_sender 0x1006 [1, 2, 3, 4, 5]"
  have s: "payload_size ?s = 5" "memory_addr ?s = 0x1006" "tx_portid ?s = 0" "nt_lcore ?s = 0"
    "payload_string ?s = [1, 2, 3, 4, 5] @ replicate 4091 0"
    by (simp_all add: sample_sender_def sample_node_def nettlp_init_def)
  have r: "psmem_addr sample_receiver = 0x1000" "in_window 0x1006 5 sample_receiver (replicate 16 0xEE)"
    by (simp_all add: sample_receiver_def in_window_def)
  have "store 6 (take 5 (payload_string ?s)) (replicate 16 0xEE) = replicate 6 0xEE @ [1, 2, 3, 4, 5] @ replicate 5 0xEE"
    by (simp add: store_def s(5))
  with dma_write_roundtrip [OF sample_mbufs_laws sample_can_send [where addr = "0x1006" and bs = "[1, 2, 3, 4, 5]"]
      sample_delivered, where r = sample_receiver and mem = "replicate 16 0xEE"] r
  show ?thesis by (simp add: s(1-4))
qed

text \<open>
  C32: A smaller write is misplaced. The sender pads three of the four bytes of the first DW instead
  of the bytes before the address, so when the range ends before the third byte of its
  DW the payload moves up: the receiver, which reads where the byte enables say, stores a zero
  in place of the first payload byte.
\<close>

theorem small_write_misplaced:
  assumes a: "mbuf_laws a" and ok: "can_send a (write_len s) m s" and net: "\<forall>m. delivered a m (net m)"
    and n: "0 < unat (payload_size s)" and short: "unat (memory_addr s) mod 4 + unat (payload_size s) < 3"
    and nw: "unat (memory_addr s) + unat (payload_size s) + 4 < 2 ^ 64"
    and win: "in_window (memory_addr s) (unat (payload_size s)) r mem"
  shows "\<exists>s' m' r' mem'. nettlp_send_dma_write a s = Inr s' \<and> last (events s') = Sent (nat (tx_portid s)) (nt_lcore s) m' \<and>
    nettlp_psmem_receive a (net m') r = Some (Inr r') \<and> psmem_memory r' = Some mem' \<and>
    mem' ! unat (memory_addr s - psmem_addr r) = 0"
proof -
  let ?n = "unat (payload_size s)" and ?r = "unat (memory_addr s) mod 4"
  have n4: "?n \<le> 4096" and fits: "?r + ?n \<le> 4092" using short by simp_all
  note pads = pads_cover [OF n n4]
  obtain s' m' d where w: "nettlp_send_dma_write a s = Inr s'" "last (events s') = Sent (nat (tx_portid s)) (nt_lcore s) m'"
    "load 0 (front_of s) d = replicate (front_of s) 0" "load (front_of s) ?n d = take ?n (payload_string s)"
    "\<And>b r mem. delivered a m' b \<Longrightarrow> in_window (memory_addr s) ?n r mem \<Longrightarrow>
       nettlp_psmem_receive a b r = Some (Inr (event (Freed b) (r\<lparr>psmem_memory := Some
         (store (unat (memory_addr s - psmem_addr r)) (load ?r ?n d) mem)\<rparr>)))"
    using write_arrives [OF a ok n fits nw pads(1)] by metis
  have f: "front_of s = 3 - ?n" by (rule pads(3) [OF short])
  then have r: "?r < front_of s" "0 < front_of s" using short by simp_all
  have "length (take ?n (payload_string s)) = ?n" using ok n4 by (simp add: can_send_def)
  then have "length (load (front_of s) ?n d) = ?n" using w(4) by simp
  then have len: "front_of s + ?n \<le> length d" using n by (auto simp: load_def)
  then have ld: "length (load ?r ?n d) = ?n" using r by simp
  have "d ! ?r = load 0 (front_of s) d ! ?r" using nth_load [of ?r "front_of s" 0 d] r len by simp
  then have z: "load ?r ?n d ! 0 = 0" using nth_load [of 0 ?n ?r d] n r len by (simp add: w(3))
  let ?o = "unat (memory_addr s - psmem_addr r)"
  have "?o + ?n \<le> length mem" using win by (auto simp: in_window_def unat_diff_window)
  then have "store ?o (load ?r ?n d) mem ! ?o = 0" using n z ld by (subst nth_store) simp_all
  moreover have "delivered a m' (net m')" using net ..
  ultimately show ?thesis using w(5) [OF _ win] w(1,2) by (auto simp: event_def)
qed

theorem small_write_misplaced_witness:
  "\<exists>s' m' r' mem'. nettlp_send_dma_write sample_mbufs (sample_sender 0x1004 [7]) = Inr s' \<and>
    last (events s') = Sent 0 0 m' \<and> nettlp_psmem_receive sample_mbufs m' sample_receiver = Some (Inr r') \<and>
    psmem_memory r' = Some mem' \<and> mem' ! 4 = 0"
proof -
  let ?s = "sample_sender 0x1004 [7]"
  have s: "payload_size ?s = 1" "memory_addr ?s = 0x1004" "tx_portid ?s = 0" "nt_lcore ?s = 0"
    by (simp_all add: sample_sender_def sample_node_def nettlp_init_def)
  have r: "psmem_addr sample_receiver = 0x1000" "in_window 0x1004 1 sample_receiver (replicate 16 0xEE)"
    by (simp_all add: sample_receiver_def in_window_def)
  from small_write_misplaced [OF sample_mbufs_laws sample_can_send [where addr = "0x1004" and bs = "[7]"]
      sample_delivered, where r = sample_receiver and mem = "replicate 16 0xEE"] r
  show ?thesis by (simp add: s)
qed

end
