(* ===== verification/Nettlp_Window.thy ===== *)
theory Nettlp_Window
  imports Nettlp
begin

text \<open>
  The memory window of the NetTLP adapter under requests and under its commands: which writes are
  stored, dropped or leave the window, which reads are answered and with what, when the
  loop that answers a read ends, and what the commands keep of the window's invariant.
\<close>

section \<open>Writes\<close>

text \<open>
  C12: A write request whose range does not pass the top of the address space is confined to the
  window. A range that is not inside it is dropped; one inside it is stored at its place, leaving
  the rest of the window as it was, if the data is inside the packet buffer, and
  is an access outside that buffer if it is not: the packet's own length is never looked at.
\<close>

theorem mwr_confined:
  assumes mem: "psmem_memory s = Some mem" "length mem = unat (psmem_size s)"
    and top: "unat (psmem_addr s) + unat (psmem_size s) < 2 ^ 64"
    and addr: "addr = tlp_mr_addr (mr_hdr_of pkt)" and ptr: "ptr = 8 + tlp_mwr_data (mr_hdr_of pkt)"
    and n: "scast (tlp_mr_data_length (mr_hdr_of pkt)) = (of_nat n :: u64)" "0 < n" "unat addr + n < 2 ^ 64"
  shows "nettlp_psmem_mwr pkt s =
    (if unat addr < unat (psmem_addr s) \<or> unat (psmem_addr s) + unat (psmem_size s) < unat addr + n then Inr s
     else if length pkt < ptr + n then Inl OutOfBounds
     else Inr (s\<lparr>psmem_memory := Some (store (unat addr - unat (psmem_addr s)) (load ptr n pkt) mem)\<rparr>))"
proof -
  have un: "unat (of_nat n :: u64) = n" using n(3) by (simp add: unat_of_nat)
  have e: "unat (psmem_addr s + ucast (psmem_size s)) = unat (psmem_addr s) + unat (psmem_size s)"
    using top unat_add_no_wrap [of "psmem_addr s" "ucast (psmem_size s)"] by (simp add: unat_up32)
  have l: "unat (addr + of_nat n) = unat addr + n"
    using n(3) by (subst unat_add_no_wrap) (simp_all add: un)
  have out: "outside_window addr (of_nat n) s \<longleftrightarrow>
      unat addr < unat (psmem_addr s) \<or> unat (psmem_addr s) + unat (psmem_size s) < unat addr + n"
    by (simp add: outside_window_def word_less_nat_alt e l)
  show ?thesis
  proof (cases "outside_window addr (of_nat n) s")
    case True
    then show ?thesis using out by (simp add: nettlp_psmem_mwr_def Let_def n(1) addr [symmetric])
  next
    case False
    then have w: "in_window addr n s mem" using out mem top by (simp add: in_window_def)
    then have d: "unat (addr - psmem_addr s) = unat addr - unat (psmem_addr s)"
      by (intro unat_diff_window) (simp add: in_window_def)
    show ?thesis
    proof (cases "length pkt < ptr + n")
      case True
      with False n(2) out show ?thesis
        by (simp add: nettlp_psmem_mwr_def Let_def n(1) un addr [symmetric] ptr [symmetric])
    next
      case short: False
      have "unat (scast (tlp_mr_data_length (mr_hdr_of pkt)) :: u64) = n" by (simp add: n(1) un)
      from mwr_stores [OF w [unfolded addr] n(2) this] short False out show ?thesis
        by (simp add: addr [symmetric] ptr [symmetric] d)
    qed
  qed
qed

definition sample_request :: "u16 \<Rightarrow> u8 \<Rightarrow> u64 \<Rightarrow> bytes \<Rightarrow> bytes" where
  "sample_request dws enables addr bs = [0x60, 0] @ be16 dws @ [0, 0, 7, enables] @ be64 addr @ bs"

lemma sample_hdr:
  "mr_hdr_of (sample_request dws enables addr bs) =
    \<lparr>mr_tlp = \<lparr>fmt_type = 0x60, tclass = 0, falen = dws\<rparr>, mr_requester = 0, mr_tag = 7,
     mr_fstdw = enables AND 0xF, mr_lstdw = drop_bit 4 enables, mr_rest = be64 addr @ bs\<rparr>"
  by (simp add: sample_request_def mr_hdr_of_def tlp_hdr_of_def load_def be16_def rd16_def)
    (rule bit_word_eqI, auto simp: bit_simps)

lemma sample_addr:
  "tlp_mr_addr (mr_hdr_of (sample_request dws enables addr bs)) = addr + of_nat (front_skip (enables AND 0xF))"
  by (simp add: sample_hdr mr_addr_skip tlp_is_3dw_def tlp_fmt_dw_def load_append_left load_all [of "be64 addr", simplified])

lemma sample_ptr:
  "tlp_mwr_data (mr_hdr_of (sample_request dws enables addr bs)) = 8 + front_skip (enables AND 0xF)"
  by (simp add: sample_hdr mwr_data_skip tlp_is_3dw_def tlp_fmt_dw_def)

lemma sample_length:
  "tlp_mr_data_length (mr_hdr_of (sample_request dws enables addr bs)) = push_bit 2 (ucast (tlp_length dws))
     - of_nat (front_pad (enables AND 0xF)) - of_nat (back_pad (drop_bit 4 enables))"
  by (simp add: sample_hdr mr_data_length_pads)

lemma sample_data:
  "length (sample_request dws enables addr bs) = 16 + length bs"
  "load (16 + k) n (sample_request dws enables addr bs) = load k n bs"
proof -
  have h: "length ([0x60, 0] @ be16 dws @ [0, 0, 7, enables] @ be64 addr) = 16" by simp
  have s: "sample_request dws enables addr bs = ([0x60, 0] @ be16 dws @ [0, 0, 7, enables] @ be64 addr) @ bs"
    by (simp add: sample_request_def)
  show "length (sample_request dws enables addr bs) = 16 + length bs" by (simp add: s)
  show "load (16 + k) n (sample_request dws enables addr bs) = load k n bs"
    unfolding s using h by (subst load_append_right) (simp_all del: length_append append_assoc)
qed

theorem mwr_confined_witness:
  "nettlp_psmem_mwr (sample_request 1 0x0F 0x1004 [1, 2, 3, 4]) sample_receiver =
     Inr (sample_receiver\<lparr>psmem_memory := Some (store 4 [1, 2, 3, 4] (replicate 16 0xEE))\<rparr>) \<and>
   nettlp_psmem_mwr (sample_request 1 0x0F 0x100D [1, 2, 3, 4]) sample_receiver = Inr sample_receiver \<and>
   nettlp_psmem_mwr (sample_request 1 0x0F 0x1004 [1, 2]) sample_receiver = Inl OutOfBounds"
proof -
  have r: "psmem_memory sample_receiver = Some (replicate 16 0xEE)" "psmem_size sample_receiver = 16"
    "psmem_addr sample_receiver = 0x1000"
    by (simp_all add: sample_receiver_def)
  have f: "front_skip 0xF = 0" "front_pad 0xF = 0" "back_pad 0 = 0" by (simp_all add: be_defs)
  have u: "unat (0x1004 :: u64) = 0x1004" "unat (0x100D :: u64) = 0x100D" by simp_all
  have d: "take 4 (drop 16 (sample_request 1 0xF 0x1004 [1, 2, 3, 4])) = [1, 2, 3, 4]"
    using sample_data(2) [of 0 4 1 "0xF" "0x1004" "[1, 2, 3, 4]"] by (simp add: load_def)
  show ?thesis
    by (intro conjI; subst mwr_confined [OF r(1) _ _ refl refl, where n = 4])
      (simp_all add: r sample_addr sample_ptr sample_length f tlp_length_def sample_data(1) u d load_def)
qed

text \<open>
  C31: The window check is made in wrapping arithmetic and does not hold the write back when the end
  of the range wraps. That happens for a range that passes the top of the address space, and
  for every request whose byte enables disable more bytes than its length field counts: its
  length is negative. Either way the request is taken to be inside, and the copy leaves the window
  or the packet.
\<close>

theorem window_check_wraps:
  assumes mem: "psmem_memory s = Some mem" "length mem = unat (psmem_size s)"
    and top: "unat (psmem_addr s) + unat (psmem_size s) < 2 ^ 64"
    and addr: "addr = tlp_mr_addr (mr_hdr_of pkt)" "unat (psmem_addr s) \<le> unat addr"
    and n: "n = unat (scast (tlp_mr_data_length (mr_hdr_of pkt)) :: u64)"
    and wraps: "2 ^ 64 \<le> unat addr + n" "unat addr + n - 2 ^ 64 \<le> unat (psmem_addr s) + unat (psmem_size s)"
  shows "nettlp_psmem_mwr pkt s = Inl OutOfBounds"
proof -
  let ?len = "scast (tlp_mr_data_length (mr_hdr_of pkt)) :: u64"
  have e: "unat (psmem_addr s + ucast (psmem_size s)) = unat (psmem_addr s) + unat (psmem_size s)"
    using top unat_add_no_wrap [of "psmem_addr s" "ucast (psmem_size s)"] by (simp add: unat_up32)
  have lt: "unat addr < 2 ^ 64" "n < 2 ^ 64" using unsigned_less [of addr] unsigned_less [of ?len] n by simp_all
  have "unat (addr + ?len) = (unat addr + n) mod 2 ^ 64" by (simp add: unat_word_ariths n)
  also have "\<dots> = (unat addr + n - 2 ^ 64) mod 2 ^ 64"
    by (rule le_mod_geq [OF wraps(1)])
  also have "\<dots> = unat addr + n - 2 ^ 64"
    using lt by (intro mod_less) linarith
  finally have l: "unat (addr + ?len) = unat addr + n - 2 ^ 64" .
  have "\<not> outside_window addr ?len s"
    using addr(2) wraps(2) by (simp add: outside_window_def word_less_nat_alt e l)
  moreover have "0 < n" using wraps(1) lt(1) by linarith
  moreover have "\<not> unat (addr - psmem_addr s) + n \<le> length mem"
    using addr(2) wraps(1) top mem(2) by (simp add: unat_diff_window)
  ultimately show ?thesis
    using mem(1) by (simp add: nettlp_psmem_mwr_def Let_def addr(1) [symmetric] n [symmetric] guardr_def)
qed

theorem window_check_wraps_witness:
  "nettlp_psmem_mwr (sample_request 1 0x0F 0xFFFFFFFFFFFFFFFC [1, 2, 3, 4]) sample_receiver = Inl OutOfBounds \<and>
   nettlp_psmem_mwr (sample_request 0 0x07 0x1004 []) sample_receiver = Inl OutOfBounds"
proof -
  have r: "psmem_memory sample_receiver = Some (replicate 16 0xEE)" "psmem_size sample_receiver = 16"
    "psmem_addr sample_receiver = 0x1000"
    by (simp_all add: sample_receiver_def)
  have f: "front_skip 0xF = 0" "front_pad 0xF = 0" "back_pad 0 = 0" "front_skip 7 = 0" "front_pad 7 = 1"
    by (simp_all add: be_defs)
  have u: "unat (0xFFFFFFFFFFFFFFFC :: u64) = 0xFFFFFFFFFFFFFFFC" "unat (0x1004 :: u64) = 0x1004" "unat (0x1000 :: u64) = 0x1000"
    "unat (scast (4 :: u32) :: u64) = 4" "unat (scast (- 1 :: u32) :: u64) = 2 ^ 64 - 1" "unat (16 :: u32) = 16"
    by (simp_all add: unsigned_minus_1_eq_mask mask_eq_exp_minus_1)
  have l: "tlp_mr_data_length (mr_hdr_of (sample_request 1 0x0F 0xFFFFFFFFFFFFFFFC [1, 2, 3, 4])) = 4"
    "tlp_mr_data_length (mr_hdr_of (sample_request 0 0x07 0x1004 [])) = - 1"
    by (simp_all add: sample_length f tlp_length_def)
  have a: "tlp_mr_addr (mr_hdr_of (sample_request 1 0x0F 0xFFFFFFFFFFFFFFFC [1, 2, 3, 4])) = 0xFFFFFFFFFFFFFFFC"
    "tlp_mr_addr (mr_hdr_of (sample_request 0 0x07 0x1004 [])) = 0x1004"
    by (simp_all add: sample_addr f)
  show ?thesis
    by (intro conjI; rule window_check_wraps [OF r(1) _ _ refl _ refl]) (simp_all only: r l a u, simp_all)
qed

section \<open>The window's memory\<close>

definition psmem_ok :: "'m nettlp \<Rightarrow> bool" where
  "psmem_ok s \<longleftrightarrow> (case psmem_memory s of None \<Rightarrow> True | Some mem \<Rightarrow> length mem = unat (psmem_size s))"

lemma init_psmem_ok: "psmem_ok (nettlp_init lcore)"
  by (simp add: psmem_ok_def nettlp_init_def)

lemma psmem_dump_ok: "\<forall>i\<in>set is. i < length mem \<Longrightarrow> \<exists>out. psmem_dump mem is = Inr out"
  by (induction "is") auto

lemma mwr_psmem_ok:
  assumes "psmem_ok s" "nettlp_psmem_mwr pkt s = Inr s'"
  shows "psmem_ok s' \<and> psmem_addr s' = psmem_addr s \<and> psmem_size s' = psmem_size s"
proof (cases "s' = s")
  case False
  with assms(2) obtain mem off bs where
    s': "psmem_memory s = Some mem" "s' = s\<lparr>psmem_memory := Some (store off bs mem)\<rparr>" "off + length bs \<le> length mem"
    by (auto simp: nettlp_psmem_mwr_def Let_def guardr_eq_Inr split: if_splits option.splits)
  with assms(1) show ?thesis by (simp add: psmem_ok_def)
qed (use assms(1) in simp)

text \<open>
  C30: The memory of the window is as long as its size says, through every command: changing the
  address or the size either allocates, reallocates or releases the block, a failed
  reallocation included, and a word that is not a number changes nothing. Under this invariant
  the dump of the window never reads outside it, whatever start offset it is given.
\<close>

theorem psmem_commands:
  assumes h: "heap_laws h" and ok: "psmem_ok s"
  shows "(\<exists>out s'. set_nettlp_psmem_addr h ptr w s = Inr (out, s') \<and> psmem_ok s' \<and> psmem_size s' = psmem_size s) \<and>
    (\<exists>out s'. set_nettlp_psmem_size h ptr w s = Inr (out, s') \<and> psmem_ok s' \<and> psmem_addr s' = psmem_addr s) \<and>
    (\<exists>out. show_nettlp_psmem ptr arg s = Inr out)"
proof (intro conjI)
  have hl: "malloc h k = Some b \<Longrightarrow> length b = k" "realloc h old k = Some b \<Longrightarrow> length b = k" for k b old
    using h by (simp_all add: heap_laws_def)
  show "\<exists>out s'. set_nettlp_psmem_addr h ptr w s = Inr (out, s') \<and> psmem_ok s' \<and> psmem_size s' = psmem_size s"
    using ok hl by (auto simp: set_nettlp_psmem_addr_def psmem_ok_def Let_def split: prod.splits option.splits if_splits)
  show "\<exists>out s'. set_nettlp_psmem_size h ptr w s = Inr (out, s') \<and> psmem_ok s' \<and> psmem_addr s' = psmem_addr s"
    using ok hl by (auto simp: set_nettlp_psmem_size_def psmem_ok_def Let_def split: prod.splits option.splits if_splits)
  show "\<exists>out. show_nettlp_psmem ptr arg s = Inr out"
  proof (cases "psmem_memory s")
    case (Some mem)
    then have len: "length mem = unat (psmem_size s)" using ok by (simp add: psmem_ok_def)
    have dump: "\<exists>out. psmem_dump mem [unat (ucast start :: u32)..<
        unat (if ucast (psmem_size s) < start + 8 * 1024 then ucast (psmem_size s) else start + 8 * 1024)] = Inr out"
      for start :: u64
      by (rule psmem_dump_ok) (auto simp: len unat_up32 word_less_nat_alt not_less)
    obtain start rest where arg: "(case arg of None \<Rightarrow> (0, []) | Some w \<Rightarrow> strtoul w) = (start, rest)"
      by (cases "case arg of None \<Rightarrow> (0, []) | Some w \<Rightarrow> strtoul w")
    obtain out where "psmem_dump mem [unat (ucast start :: u32)..<
        unat (if ucast (psmem_size s) < start + 8 * 1024 then ucast (psmem_size s) else start + 8 * 1024)] = Inr out"
      using dump by blast
    then show ?thesis
      unfolding show_nettlp_psmem_def arg Some Let_def prod.case option.case by (simp del: mult_numeral_left semiring_norm)
  qed (simp add: show_nettlp_psmem_def split: prod.split)
qed

definition sample_heap :: heap where
  "sample_heap = \<lparr>malloc = (\<lambda>n. Some (replicate n 0)), realloc = (\<lambda>old n. Some (take n (old @ replicate (n - length old) 0))),
     strerror = []\<rparr>"

lemma sample_heap_laws: "heap_laws sample_heap"
  by (auto simp: heap_laws_def sample_heap_def min_def)

lemma sample_receiver_ok: "psmem_ok sample_receiver"
  by (simp add: psmem_ok_def sample_receiver_def)

theorem psmem_commands_witness:
  "(\<exists>out s'. set_nettlp_psmem_addr sample_heap (\<lambda>_. []) ''0x2000'' sample_receiver = Inr (out, s') \<and> psmem_ok s' \<and>
      psmem_size s' = 16) \<and>
   (\<exists>out s'. set_nettlp_psmem_size sample_heap (\<lambda>_. []) ''64'' sample_receiver = Inr (out, s') \<and> psmem_ok s' \<and>
      psmem_addr s' = 0x1000) \<and>
   (\<exists>out. show_nettlp_psmem (\<lambda>_. []) (Some ''8'') sample_receiver = Inr out)"
proof -
  have "psmem_size sample_receiver = 16" "psmem_addr sample_receiver = 0x1000" by (simp_all add: sample_receiver_def)
  with psmem_commands [OF sample_heap_laws sample_receiver_ok, of "\<lambda>_. []" "''0x2000''"]
    psmem_commands [OF sample_heap_laws sample_receiver_ok, of "\<lambda>_. []" "''64''" "Some ''8''"]
  show ?thesis by auto
qed

text \<open>
  Releasing the window leaves its address. After \<open>psmem-address 0\<close> the memory is gone but base and size
  are the old ones, so a write request inside the old window still passes the check and
  is copied through a null pointer.
\<close>

theorem psmem_release_keeps_address:
  assumes zero: "strtoul w = (0, [])" and win: "in_window (tlp_mr_addr (mr_hdr_of pkt)) n s mem"
    and n: "unat (scast (tlp_mr_data_length (mr_hdr_of pkt)) :: u64) = n" "0 < n"
    and pkt: "8 + tlp_mwr_data (mr_hdr_of pkt) + n \<le> length pkt"
  shows "\<exists>out s'. set_nettlp_psmem_addr h ptr w s = Inr (out, s') \<and> psmem_memory s' = None \<and>
    psmem_addr s' = psmem_addr s \<and> psmem_size s' = psmem_size s \<and> nettlp_psmem_mwr pkt s' = Inl NullDeref"
proof -
  let ?s' = "s\<lparr>psmem_memory := None\<rparr>"
  have "psmem_memory s = Some mem" using win by (simp add: in_window_def)
  then have "set_nettlp_psmem_addr h ptr w s = Inr ([psmem_line ptr ?s'], ?s')"
    by (simp add: set_nettlp_psmem_addr_def zero Let_def)
  moreover have "\<not> outside_window (tlp_mr_addr (mr_hdr_of pkt)) (scast (tlp_mr_data_length (mr_hdr_of pkt))) s"
    using window_inside(1) [of _ "scast (tlp_mr_data_length (mr_hdr_of pkt))"] win n(1) by simp
  then have "nettlp_psmem_mwr pkt ?s' = Inl NullDeref"
    using n pkt by (simp add: nettlp_psmem_mwr_def Let_def outside_window_def)
  ultimately show ?thesis by auto
qed

theorem psmem_release_keeps_address_witness:
  "\<exists>out s'. set_nettlp_psmem_addr sample_heap (\<lambda>_. []) ''0'' sample_receiver = Inr (out, s') \<and>
    nettlp_psmem_mwr (sample_request 1 0x0F 0x1004 [1, 2, 3, 4]) s' = Inl NullDeref"
proof -
  let ?p = "sample_request 1 0x0F 0x1004 [1, 2, 3, 4]"
  have f: "front_skip 0xF = 0" "front_pad 0xF = 0" "back_pad 0 = 0" by (simp_all add: be_defs)
  have z: "strtoul ''0'' = (0, [])"
    by (simp add: strtoul_def scan_def sign_def base_of_def digit_val_def code_def c_isspace_def)
  have w: "in_window (tlp_mr_addr (mr_hdr_of ?p)) 4 sample_receiver (replicate 16 0xEE)"
    by (simp add: in_window_def sample_receiver_def sample_addr f)
  have n: "unat (scast (tlp_mr_data_length (mr_hdr_of ?p)) :: u64) = 4" by (simp add: sample_length f tlp_length_def)
  from psmem_release_keeps_address [OF z w n, of sample_heap "\<lambda>_. []"] show ?thesis
    by (auto simp: sample_ptr sample_data(1) f)
qed

section \<open>Reads\<close>

text \<open>The loop in terms of integers: \<open>data_len\<close> stays far from the ends of its type.\<close>

lemma sint_of_int64: "- (2 ^ 63) \<le> x \<Longrightarrow> x < 2 ^ 63 \<Longrightarrow> sint (of_int x :: u64) = x"
  by (simp add: signed_of_int signed_take_bit_int_eq_self)

lemma sint_of_nat64: "k < 2 ^ 63 \<Longrightarrow> sint (of_nat k :: u64) = int k"
  using sint_of_int64 [of "int k"] by simp

lemma sint_small64: "unat (w :: u64) < 2 ^ 63 \<Longrightarrow> sint w = int (unat w)"
  using sint_of_nat64 [of "unat w"] unfolding of_nat_unat ucast_id .

lemma send_length_nat:
  assumes "unat len < 2 ^ 63"
  shows "unat (send_length len) = min (unat len) 256" "unat (len - send_length len) = unat len - min (unat len) 256"
proof -
  have s: "sint (256 :: u64) = 256" by simp
  show l: "unat (send_length len) = min (unat len) 256"
  proof -
    have k: "int k < 256 \<longleftrightarrow> k < 256" for k by linarith
    show ?thesis
      unfolding send_length_def MAXPAYLOADSIZE_def s sint_small64 [OF assms] k by (simp add: min_def)
  qed
  then have "send_length len \<le> len" by (simp add: word_le_nat_alt)
  then show "unat (len - send_length len) = unat len - min (unat len) 256" by (simp add: unat_sub l)
qed

lemma next_data_len_int:
  assumes "unat len < 2 ^ 63"
  shows "next_data_len len (of_int x) addr = of_int (x - (int (min (unat len) 256) - int (unat addr mod 4)))"
proof -
  have "(of_int (int (min (unat len) 256)) :: u64) = send_length len"
    by (simp add: of_nat_unat flip: send_length_nat(1) [OF assms])
  moreover have "(of_int (int (unat addr mod 4)) :: u64) = addr AND 3"
    by (simp add: of_nat_unat flip: unat_and_3)
  ultimately show ?thesis unfolding next_data_len_def of_int_diff by simp
qed

lemma align4_mod [simp]: "unat (align4 addr) mod 4 = 0"
  unfolding align4_def align_down by simp

lemma next_addr_aligned:
  assumes "unat len < 2 ^ 63" "unat len mod 4 = 0"
  shows "unat (next_addr len addr) mod 4 = 0"
proof -
  have "min (unat len) 256 mod 4 = 0" using assms(2) by (simp add: min_def)
  then have "(unat (align4 addr) + unat (send_length len)) mod 4 = 0"
    by (simp add: send_length_nat [OF assms(1)] mod_add_eq [symmetric])
  moreover have "unat (next_addr len addr) mod 4 = (unat (align4 addr) + unat (send_length len)) mod 2 ^ 64 mod 4"
    by (simp add: next_addr_def unat_word_ariths)
  moreover have "x mod 2 ^ 64 mod 4 = x mod 4" for x :: nat
    by (rule mod_mod_cancel) simp
  ultimately show ?thesis by simp
qed

text \<open>
  The loop ends if the data that is left never exceeds what the remaining DWs hold.
\<close>

lemma completions_end:
  assumes "unat len mod 4 = 0" "unat len \<le> 4096" "- 4096 \<le> x" "x + int (unat addr mod 4) \<le> int (unat len)"
  shows "\<exists>y. completions a src len (of_int x) addr s = Some y"
  using assms
proof (induction "unat len" arbitrary: len x addr s rule: less_induct)
  case less
  have l: "unat len < 2 ^ 63" using less.prems(2) by simp
  let ?x = "x - (int (min (unat len) 256) - int (unat addr mod 4))"
  have am: "unat addr mod 4 < 4" by simp
  have "- (2 ^ 63) \<le> y" "y < 2 ^ 63" if "- 5000 \<le> y" "y \<le> 5000" for y :: int using that by simp_all
  moreover have "- 5000 \<le> ?x" "?x \<le> 5000" using less.prems(2-4) am by linarith+
  ultimately have xr: "- (2 ^ 63) \<le> ?x" "?x < 2 ^ 63" by blast+
  have cond: "0 < sint (next_data_len len (of_int x) addr) \<longleftrightarrow> 0 < ?x"
    unfolding next_data_len_int [OF l] using sint_of_int64 [OF xr] by simp
  show ?case
  proof (cases "send_completion a src (send_length len) (of_int x) addr s")
    case (Inl e)
    then show ?thesis by (subst completions.simps) simp
  next
    case (Inr t)
    show ?thesis
    proof (cases "0 < ?x")
      case True
      let ?l = "len - send_length len"
      have nl: "unat ?l = unat len - min (unat len) 256" by (rule send_length_nat(2) [OF l])
      have pos: "0 < unat len" using True less.prems(4) by linarith
      then have lt: "unat ?l < unat len" by (simp add: nl)
      have m: "unat ?l mod 4 = 0" using less.prems(1) unfolding nl by (simp add: min_def mod_eq_0_iff_dvd)
      have le: "unat ?l \<le> 4096" using less.prems(2) by (simp add: nl)
      have xl: "- 4096 \<le> ?x" using True by linarith
      have xu: "?x + int (unat (next_addr len addr) mod 4) \<le> int (unat ?l)"
        using next_addr_aligned [OF l less.prems(1)] less.prems(4) by (simp add: nl of_nat_diff)
      obtain y where "completions a src ?l (of_int ?x) (next_addr len addr) t = Some y"
        using less.hyps [OF lt m le xl xu] by blast
      with Inr True cond show ?thesis
        by (subst completions.simps) (simp add: next_data_len_int [OF l])
    next
      case False
      with Inr cond show ?thesis by (subst completions.simps) simp
    qed
  qed
qed

lemma disabled_le:
  "leading_disabled ns be \<le> all_disabled ns be" "all_disabled ns be \<le> length ns" "trailing_disabled ns be \<le> length ns"
  by (induction ns) auto

lemma pads_le: "front_skip be \<le> front_pad be" "front_pad be \<le> 4" "back_pad be \<le> 4"
  using disabled_le(1) [of "[0, 1, 2, 3]" be] disabled_le(2,3) [of _ be, of "[0, 1, 2, 3]"] disabled_le(3) [of "[0, 1, 2, 3]" be]
  by (simp_all add: be_defs)

text \<open>The address field of a request, and the integer its data length stands for.\<close>

definition mr_field :: "tlp_mr_hdr \<Rightarrow> u64" where
  "mr_field mh = (if tlp_is_3dw (fmt_type (mr_tlp mh)) then ucast (rd32 (load 0 4 (mr_rest mh)))
     else rd64 (load 0 8 (mr_rest mh)))"

definition dw_bytes :: "tlp_mr_hdr \<Rightarrow> nat" where
  "dw_bytes mh = 4 * unat (tlp_length (falen (mr_tlp mh)))"

definition data_bytes :: "tlp_mr_hdr \<Rightarrow> int" where
  "data_bytes mh = int (dw_bytes mh) - int (front_pad (mr_fstdw mh)) - int (back_pad (mr_lstdw mh))"

lemma length_field_le: "unat (tlp_length fl) \<le> 1023"
proof -
  have "fl AND 0x03FF \<le> 0x03FF" by (rule word_and_le1)
  then show ?thesis by (simp add: tlp_length_def word_le_nat_alt)
qed

lemma dw_bytes_word:
  "unat (ucast (push_bit 2 (tlp_length (falen (mr_tlp mh)))) :: u64) = dw_bytes mh" "dw_bytes mh \<le> 4092" "dw_bytes mh mod 4 = 0"
proof -
  have "unat (push_bit 2 (tlp_length (falen (mr_tlp mh)))) = dw_bytes mh"
    using length_field_le [of "falen (mr_tlp mh)"]
    by (simp add: dw_bytes_def push_bit_eq_mult unat_word_ariths)
  then show "unat (ucast (push_bit 2 (tlp_length (falen (mr_tlp mh)))) :: u64) = dw_bytes mh"
    using length_field_le [of "falen (mr_tlp mh)"] by (simp add: unsigned_ucast_eq take_bit_nat_eq_self_iff dw_bytes_def)
  show "dw_bytes mh \<le> 4092" "dw_bytes mh mod 4 = 0"
    using length_field_le [of "falen (mr_tlp mh)"] by (simp_all add: dw_bytes_def)
qed

lemma data_bytes_word: "(scast (tlp_mr_data_length mh) :: u64) = of_int (data_bytes mh)"
proof -
  have l: "unat (tlp_length (falen (mr_tlp mh))) \<le> 1023" by (rule length_field_le)
  then have "(push_bit 2 (ucast (tlp_length (falen (mr_tlp mh)))) :: u32) = of_nat (dw_bytes mh)"
    by (simp add: word_unat_eq_iff dw_bytes_def push_bit_eq_mult unat_word_ariths unsigned_ucast_eq
        take_bit_eq_mod unat_of_nat)
  then have "tlp_mr_data_length mh = (of_int (data_bytes mh) :: u32)"
    by (simp add: mr_data_length_pads data_bytes_def)
  moreover have "- (2 ^ 31) \<le> data_bytes mh" "data_bytes mh < 2 ^ 31"
    using dw_bytes_word(2) [of mh] pads_le(2) [of "mr_fstdw mh"] pads_le(3) [of "mr_lstdw mh"] by (simp_all add: data_bytes_def)
  then have "sint (of_int (data_bytes mh) :: u32) = data_bytes mh"
    by (simp add: signed_of_int signed_take_bit_int_eq_self)
  ultimately show ?thesis by (metis scast_eq)
qed

lemma mr_addr_field: "tlp_mr_addr mh = mr_field mh + of_nat (front_skip (mr_fstdw mh))"
  by (simp add: mr_addr_skip mr_field_def)

lemma mr_addr_low: "unat (tlp_mr_addr mh) mod 4 = (unat (mr_field mh) mod 4 + front_skip (mr_fstdw mh)) mod 4"
proof -
  have "unat (tlp_mr_addr mh) = (unat (mr_field mh) + front_skip (mr_fstdw mh) mod 2 ^ 64) mod 2 ^ 64"
    by (simp add: mr_addr_field unat_word_ariths unat_of_nat)
  moreover have "x mod 2 ^ 64 mod 4 = x mod 4" for x :: nat by (rule mod_mod_cancel) simp
  moreover have "front_skip (mr_fstdw mh) mod 2 ^ 64 = front_skip (mr_fstdw mh)"
    using pads_le(1,2) [of "mr_fstdw mh"] by simp
  ultimately show ?thesis by (simp add: mod_add_left_eq)
qed

lemma mrd_unfold:
  "nettlp_psmem_mrd a pkt s =
    (if outside_window (tlp_mr_addr (mr_hdr_of pkt)) (of_nat (dw_bytes (mr_hdr_of pkt))) s then Some (Inr s)
     else completions a (take 12 pkt) (of_nat (dw_bytes (mr_hdr_of pkt))) (of_int (data_bytes (mr_hdr_of pkt)))
       (tlp_mr_addr (mr_hdr_of pkt)) s)"
proof -
  have "(ucast (push_bit 2 (tlp_length (falen (mr_tlp (mr_hdr_of pkt))))) :: u64) = of_nat (dw_bytes (mr_hdr_of pkt))"
    using dw_bytes_word(1,2) [of "mr_hdr_of pkt"] by (simp add: word_unat_eq_iff unat_of_nat)
  then show ?thesis by (simp add: nettlp_psmem_mrd_def Let_def data_bytes_word)
qed

lemma dw_bytes_unat: "unat (of_nat (dw_bytes mh) :: u64) = dw_bytes mh"
  using dw_bytes_word(2) [of mh] by (simp add: unat_of_nat)

text \<open>
  C14: A read request whose address field is a multiple of four is always finished: whatever its
  length, byte enables and address, whatever the pool and the window hold, the loop that sends the
  completions ends. (It ends early, with a fault, when a buffer is missing.)
\<close>

theorem mrd_returns:
  assumes "unat (mr_field (mr_hdr_of pkt)) mod 4 = 0"
  shows "\<exists>y. nettlp_psmem_mrd a pkt s = Some y"
proof -
  let ?mh = "mr_hdr_of pkt"
  note pads = pads_le [of "mr_fstdw ?mh"] pads_le(3) [of "mr_lstdw ?mh"] and dw = dw_bytes_word(2,3) [of ?mh]
  have "unat (tlp_mr_addr ?mh) mod 4 \<le> front_pad (mr_fstdw ?mh)"
    using assms pads(1) mod_less_eq_dividend [of "front_skip (mr_fstdw ?mh)" 4] by (simp add: mr_addr_low)
  then have "\<exists>y. completions a (take 12 pkt) (of_nat (dw_bytes ?mh)) (of_int (data_bytes ?mh)) (tlp_mr_addr ?mh) s = Some y"
    using dw pads by (intro completions_end) (simp_all add: dw_bytes_unat data_bytes_def)
  then show ?thesis by (simp add: mrd_unfold)
qed

theorem mrd_returns_witness:
  "\<exists>y. nettlp_psmem_mrd sample_mbufs (sample_request 4 0xF3 0x1000 []) sample_receiver = Some y"
  by (rule mrd_returns) (simp add: mr_field_def sample_hdr tlp_is_3dw_def tlp_fmt_dw_def load_append_left
      load_all [of "be64 addr" for addr, simplified])

section \<open>What a read is answered with\<close>

fun sent_packets :: "'m mbuf_event list \<Rightarrow> 'm list" where
  "sent_packets [] = []"
| "sent_packets (Sent p q m # es) = m # sent_packets es"
| "sent_packets (e # es) = sent_packets es"

lemma sent_packets_append [simp]: "sent_packets (xs @ ys) = sent_packets xs @ sent_packets ys"
  by (induction xs rule: sent_packets.induct) simp_all

text \<open>Buffers with room, a port to answer on, and its transmit buffer.\<close>

definition reply_ok :: "'m mbuf_api \<Rightarrow> 'm nettlp \<Rightarrow> bool" where
  "reply_ok a s \<longleftrightarrow> (\<forall>i. \<exists>m. mb_alloc a i = Some m \<and> 42 \<le> mb_room a m \<and> 274 \<le> length (mb_data a m)) \<and>
     addrs_ok s \<and> 0 \<le> rx_portid s \<and> rx_portid s < 32 \<and> 0 \<le> rx_queueid s \<and> rx_queueid s < 16 \<and> nt_lcore s < 128 \<and>
     (nat (rx_portid s), nt_lcore s) \<in> nt_tx_buffers s"

text \<open>The state after some buffers were allocated and some events happened.\<close>

definition later :: "nat \<Rightarrow> 'm mbuf_event list \<Rightarrow> 'm nettlp \<Rightarrow> 'm nettlp" where
  "later k es s = s\<lparr>allocs := allocs s + k, events := events s @ es\<rparr>"

lemma later_simps [simp]:
  "later 0 [] s = s" "later k es (later j ds s) = later (j + k) (ds @ es) s" "reply_ok a (later k es s) = reply_ok a s"
  "psmem_addr (later k es s) = psmem_addr s" "psmem_memory (later k es s) = psmem_memory s"
  "psmem_size (later k es s) = psmem_size s" "requester (later k es s) = requester s" "events (later k es s) = events s @ es"
  by (simp_all add: later_def reply_ok_def addrs_ok_def)

lemma psmem_load_later: "psmem_load (later k es s) addr n = psmem_load s addr n"
  by (simp add: psmem_load_def split: option.split)

definition carries :: "'m mbuf_api \<Rightarrow> bytes \<Rightarrow> bytes \<Rightarrow> 'm \<Rightarrow> bool" where
  "carries a hdr chunk m \<longleftrightarrow> mb_len a m = 60 + length chunk \<and> load 48 12 (mb_data a m) = hdr \<and>
     load 60 (length chunk) (mb_data a m) = chunk"

lemma udp_send_ok:
  assumes a: "mbuf_laws a" and ok: "reply_ok a s" and m: "buffer a d l r m" and room: "42 \<le> r"
  obtains m' h es where "nettlp_udp_send a m s = Inr (later 0 es s)" "sent_packets es = [m']"
    "buffer a (h @ d) (42 + l) (r - 42) m'" "length h = 42"
proof -
  obtain m' h where f: "frame a None s m = Inr m'" "buffer a (h @ d) (42 + l) (r - 42) m'" "framed s l h"
    by (rule frame_ok [OF a m room, of s None]) (use ok in \<open>simp_all add: reply_ok_def\<close>)
  have p: "unat (of_int (rx_portid s) :: u16) = nat (rx_portid s)"
    using ok by (simp add: reply_ok_def unsigned_of_int take_bit_int_eq_self)
  define t where "t = (if (nat (rx_portid s), nat (rx_queueid s)) \<in> nt_ring_up s
      then if enqueue_ok a (length (events s)) then Tap_up (rx_portid s) (rx_queueid s) (mb_copy a m') else Tap_dropped (mb_copy a m')
      else Tap_lost (mb_copy a m'))"
  have "tap_if_bound a m' s = Inr (event t s)"
    using ok by (simp add: reply_ok_def tap_if_bound_def nettlp_send_packet_tap_up_def Let_def t_def RTE_MAX_ETHPORTS_def MAX_RX_QUEUES_def)
  moreover have "rx_portid (event t s) = rx_portid s" "nt_lcore (event t s) = nt_lcore s"
    by (simp_all add: event_def)
  ultimately have "nettlp_udp_send a m s = Inr (later 0 [t, Sent (nat (rx_portid s)) (nt_lcore s) m'] s)"
    using ok by (simp add: nettlp_udp_send_def f p transmit_def reply_ok_def RTE_MAX_ETHPORTS_def RTE_MAX_LCORE_def)
      (simp add: event_def later_def nat_less_iff)
  moreover have "sent_packets [t, Sent (nat (rx_portid s)) (nt_lcore s) m'] = [m']"
    by (simp add: t_def)
  ultimately show ?thesis using f(2,3) that by (simp add: framed_def)
qed

lemma length_completion_header [simp]:
  "12 \<le> length src \<Longrightarrow> length (completion_header s src sl dl addr) = 12"
  by (simp add: completion_header_def)

lemma send_completion_ok:
  assumes a: "mbuf_laws a" and ok: "reply_ok a s" and src: "12 \<le> length src" and sl: "unat send_len \<le> 256"
    and chunk: "psmem_load s addr (unat send_len) = Inr chunk" "length chunk = unat send_len"
  obtains m es where "send_completion a src send_len data_len addr s = Inr (later 1 es s)" "sent_packets es = [m]"
    "carries a (completion_header s src send_len data_len addr) chunk m"
proof -
  let ?hdr = "completion_header s src send_len data_len addr" and ?n = "unat send_len" and ?s = "later 1 [] s"
  from ok obtain m0 where m0: "mb_alloc a (allocs s) = Some m0" "42 \<le> mb_room a m0" "274 \<le> length (mb_data a m0)"
    unfolding reply_ok_def by blast
  define d where "d = mb_data a m0"
  define r where "r = mb_room a m0"
  have al: "alloc_mbuf a s = Inr (m0, ?s)" by (simp add: alloc_mbuf_def m0 later_def)
  have b0: "buffer a d 0 r m0" using a m0(1) by (auto simp: buffer_def mbuf_laws_def d_def r_def)
  have len: "274 \<le> length d" using m0(3) by (simp add: d_def)
  have b1: "buffer a d 18 r (mb_append a 12 (mb_append a 6 m0))"
    using append_buffer [OF a append_buffer [OF a b0, of 6], of 12] len by simp
  define d1 where "d1 = store 0 (replicate 6 0) d"
  define d2 where "d2 = store 6 ?hdr d1"
  define d3 where "d3 = store 18 chunk d2"
  have lens: "length d1 = length d" "length d2 = length d" using len src by (simp_all add: d1_def d2_def)
  obtain m1 where m1: "poke a 0 (replicate 6 0) (mb_append a 12 (mb_append a 6 m0)) = Inr m1" "buffer a d1 18 r m1"
    by (rule poke_buffer [OF a b1, of 0 "replicate 6 0"]) (use len in \<open>simp_all add: d1_def\<close>)
  obtain m2 where m2: "poke a 6 ?hdr m1 = Inr m2" "buffer a d2 18 r m2"
    by (rule poke_buffer [OF a m1(2), of 6 ?hdr]) (use len lens src in \<open>simp_all add: d2_def\<close>)
  have sl16: "unat (ucast send_len :: u16) = ?n"
    using sl by (simp add: unsigned_ucast_eq take_bit_nat_eq_self_iff)
  have b3: "buffer a d2 (18 + ?n) r (mb_append a ?n m2)"
    using append_buffer [OF a m2(2), of ?n] len lens sl by simp
  obtain m3 where m3: "poke a 18 chunk (mb_append a ?n m2) = Inr m3" "buffer a d3 (18 + ?n) r m3"
    by (rule poke_buffer [OF a b3, of 18 chunk]) (use len lens sl chunk(2) in \<open>simp_all add: d3_def\<close>)
  obtain m' h es where u: "nettlp_udp_send a m3 ?s = Inr (later 0 es ?s)" "sent_packets es = [m']"
    "buffer a (h @ d3) (42 + (18 + ?n)) (r - 42) m'" "length h = 42"
    by (rule udp_send_ok [OF a _ m3(2), of ?s]) (use ok m0(2) in \<open>simp_all add: r_def\<close>)
  have hdr: "completion_header ?s src send_len data_len addr = ?hdr" by (simp add: completion_header_def)
  have pl: "psmem_load ?s addr ?n = Inr chunk" using chunk(1) by (simp add: psmem_load_later)
  have "send_completion a src send_len data_len addr s = Inr (later 1 es s)"
    unfolding send_completion_def al bindr_simps prod.case Let_def m1(1) hdr m2(1) sl16 pl m3(1) u(1) by simp
  moreover have "load 6 12 d3 = ?hdr" "load 18 ?n d3 = chunk"
    using len lens sl chunk(2) src by (simp_all add: d3_def d2_def store_simps)
  then have "carries a ?hdr chunk m'"
    using u(3,4) chunk(2) by (simp add: carries_def buffer_def load_append_right)
  ultimately show ?thesis using u(2) that by blast
qed


text \<open>The bytes a completion carries, and its header: a completion with data for the request.\<close>

definition payload :: "'m mbuf_api \<Rightarrow> 'm \<Rightarrow> bytes" where
  "payload a m = load 60 (mb_len a m - 60) (mb_data a m)"

definition answers :: "'m mbuf_api \<Rightarrow> 'm nettlp \<Rightarrow> bytes \<Rightarrow> 'm \<Rightarrow> bool" where
  "answers a s src m \<longleftrightarrow> (let h = load 48 12 (mb_data a m)
     in tlp_is_cpl (h ! 0) \<and> tlp_is_w_data (h ! 0) \<and> tlp_is_3dw (h ! 0) \<and> load 4 2 h = be16 (requester s) \<and>
        load 8 2 h = load 4 2 src \<and> h ! 10 = src ! 6)"

lemma carries_answers:
  assumes "carries a (completion_header s src sl dl addr) chunk m" "12 \<le> length src"
  shows "answers a s src m" "payload a m = chunk"
proof -
  show "payload a m = chunk" using assms(1) by (simp add: payload_def carries_def)
  have h: "load 48 12 (mb_data a m) = completion_header s src sl dl addr" using assms(1) by (simp add: carries_def)
  have l: "length (load 4 2 src) = 2" using assms(2) by simp
  show "answers a s src m"
    unfolding answers_def h Let_def using l
    by (simp add: completion_header_def be16_def load_def nth_append tlp_is_cpl_def tlp_is_w_data_def tlp_is_3dw_def field_defs)
qed

lemma unat_align4: "unat (align4 w) = unat w - unat w mod 4"
  unfolding align4_def by (rule unat_align)

lemma align4_next:
  assumes "unat len mod 4 = 0" "unat (align4 addr) + unat len < 2 ^ 64" "unat len < 2 ^ 63"
  shows "unat (align4 (next_addr len addr)) = unat (align4 addr) + min (unat len) 256"
    "unat (next_addr len addr) mod 4 = 0"
proof -
  show m: "unat (next_addr len addr) mod 4 = 0" by (rule next_addr_aligned [OF assms(3,1)])
  have "unat (next_addr len addr) = unat (align4 addr) + min (unat len) 256"
    unfolding next_addr_def using assms(2)
    by (subst unat_add_no_wrap) (simp_all add: send_length_nat [OF assms(3)] min_def)
  with m show "unat (align4 (next_addr len addr)) = unat (align4 addr) + min (unat len) 256"
    by (simp add: unat_align4)
qed

lemma psmem_load_window:
  assumes "psmem_memory s = Some mem" "unat (psmem_addr s) \<le> unat (align4 addr)"
    "unat (align4 addr) + n \<le> unat (psmem_addr s) + length mem"
  shows "psmem_load s addr n = Inr (load (unat (align4 addr) - unat (psmem_addr s)) n mem)"
    "length (load (unat (align4 addr) - unat (psmem_addr s)) n mem) = n"
proof -
  have "unat (align4 addr - psmem_addr s) = unat (align4 addr) - unat (psmem_addr s)"
    by (rule unat_diff_window) (rule assms(2))
  with assms show "psmem_load s addr n = Inr (load (unat (align4 addr) - unat (psmem_addr s)) n mem)"
    by (auto simp: psmem_load_def load_def guardr_def)
  from assms(2,3) show "length (load (unat (align4 addr) - unat (psmem_addr s)) n mem) = n" by simp
qed

lemma load_split: "k \<le> n \<Longrightarrow> load off k m @ load (off + k) (n - k) m = load off n m"
  by (metis add.commute drop_drop le_add_diff_inverse load_def take_add)

text \<open>
  The loop in a window that holds the remaining range: \<open>x\<close> is the data left; when more than one
  completion is left to send, at most three bytes of the last DW are disabled.
\<close>

lemma completions_answer:
  assumes a: "mbuf_laws a" and src: "12 \<le> length src"
    and "reply_ok a s" "psmem_memory s = Some mem" "unat len mod 4 = 0" "unat len \<le> 4092" "- 4096 \<le> x"
    and "x + int (unat addr mod 4) \<le> int (unat len)" "256 < unat len \<Longrightarrow> int (unat len) - 3 \<le> x + int (unat addr mod 4)"
    and "unat (psmem_addr s) \<le> unat (align4 addr)" "unat (align4 addr) + unat len \<le> unat (psmem_addr s) + length mem"
    and "unat (psmem_addr s) + length mem < 2 ^ 64"
  shows "\<exists>k es. completions a src len (of_int x) addr s = Some (Inr (later k es s)) \<and>
    concat (map (payload a) (sent_packets es)) = load (unat (align4 addr) - unat (psmem_addr s)) (unat len) mem \<and>
    (\<forall>m\<in>set (sent_packets es). answers a s src m)"
  using assms(3-)
proof (induction "unat len" arbitrary: len x addr s rule: less_induct)
  case less
  let ?n = "min (unat len) 256" and ?low = "unat addr mod 4" and ?A = "unat (align4 addr)" and ?P = "unat (psmem_addr s)"
  let ?x = "x - (int ?n - int ?low)"
  have l: "unat len < 2 ^ 63" using less.prems(4) by simp
  have am: "?low < 4" by simp
  have "- (2 ^ 63) \<le> y" "y < 2 ^ 63" if "- 5000 \<le> y" "y \<le> 5000" for y :: int using that by simp_all
  moreover have "- 5000 \<le> ?x" "?x \<le> 5000" using less.prems(4-6) am by linarith+
  ultimately have xr: "- (2 ^ 63) \<le> ?x" "?x < 2 ^ 63" by blast+
  have cond: "0 < sint (next_data_len len (of_int x) addr) \<longleftrightarrow> 0 < ?x"
    unfolding next_data_len_int [OF l] using sint_of_int64 [OF xr] by simp
  have sl: "unat (send_length len) = ?n" by (rule send_length_nat(1) [OF l])
  define chunk where "chunk = load (?A - ?P) ?n mem"
  have ch: "psmem_load s addr (unat (send_length len)) = Inr chunk" "length chunk = unat (send_length len)"
    unfolding sl chunk_def using less.prems(2,8,9) by (intro psmem_load_window; simp)+
  obtain m es where m: "send_completion a src (send_length len) (of_int x) addr s = Inr (later 1 es s)"
    "sent_packets es = [m]" "carries a (completion_header s src (send_length len) (of_int x) addr) chunk m"
    by (rule send_completion_ok [OF a less.prems(1) src _ ch, of "of_int x"]) (simp_all add: sl)
  note ans = carries_answers [OF m(3) src]
  show ?case
  proof (cases "256 < unat len")
    case False
    then have n: "?n = unat len" by simp
    then have "\<not> 0 < ?x" using less.prems(6) by linarith
    with cond m(1) have "completions a src len (of_int x) addr s = Some (Inr (later 1 es s))"
      by (subst completions.simps) simp
    then show ?thesis using m(2) ans n by (intro exI [of _ 1] exI [of _ es]) (simp add: chunk_def)
  next
    case True
    let ?l = "len - send_length len" and ?t = "later 1 es s"
    have n: "?n = 256" using True by simp
    have nl: "unat ?l = unat len - 256" using send_length_nat(2) [OF l] n by simp
    have lm: "unat ?l mod 4 = 0" using less.prems(3) True unfolding nl by (simp add: mod_eq_0_iff_dvd)
    then have l4: "4 \<le> unat ?l" using True nl by (metis One_nat_def Suc_leI dvd_imp_le mod_eq_0_iff_dvd zero_less_diff)
    have nx: "unat (align4 (next_addr len addr)) = ?A + 256" "unat (next_addr len addr) mod 4 = 0"
      using align4_next [OF less.prems(3) _ l, of addr] less.prems(9,10) n by simp_all
    have xge: "int (unat ?l) - 3 \<le> ?x" "?x \<le> int (unat ?l)"
      using less.prems(6) less.prems(7) [OF True] True by (simp_all add: nl n of_nat_diff)
    then have pos: "0 < ?x" using l4 by linarith
    have "\<exists>k ds. completions a src ?l (of_int ?x) (next_addr len addr) ?t = Some (Inr (later k ds ?t)) \<and>
        concat (map (payload a) (sent_packets ds)) =
          load (unat (align4 (next_addr len addr)) - unat (psmem_addr ?t)) (unat ?l) mem \<and>
        (\<forall>m\<in>set (sent_packets ds). answers a ?t src m)"
    proof (rule less.hyps)
      show "unat ?l < unat len" using True by (simp add: nl)
      show "reply_ok a ?t" "psmem_memory ?t = Some mem" "unat (psmem_addr ?t) + length mem < 2 ^ 64"
        using less.prems(1,2,10) by simp_all
      show "unat ?l \<le> 4092" using less.prems(4) by (simp add: nl)
      show "- 4096 \<le> ?x" using pos by linarith
      show "?x + int (unat (next_addr len addr) mod 4) \<le> int (unat ?l)" using xge(2) nx(2) by simp
      show "int (unat ?l) - 3 \<le> ?x + int (unat (next_addr len addr) mod 4)" using xge(1) nx(2) by simp
      show "unat (psmem_addr ?t) \<le> unat (align4 (next_addr len addr))" using less.prems(8) nx(1) by simp
      show "unat (align4 (next_addr len addr)) + unat ?l \<le> unat (psmem_addr ?t) + length mem"
        using less.prems(9) nx(1) nl True by simp
    qed (rule lm)
    then obtain k ds where ds: "completions a src ?l (of_int ?x) (next_addr len addr) ?t = Some (Inr (later k ds ?t))"
      "concat (map (payload a) (sent_packets ds)) =
          load (unat (align4 (next_addr len addr)) - unat (psmem_addr ?t)) (unat ?l) mem"
      "\<forall>m\<in>set (sent_packets ds). answers a ?t src m" by blast
    have step: "completions a src len (of_int x) addr s = completions a src ?l (of_int ?x) (next_addr len addr) ?t"
      using m(1) cond pos by (subst completions.simps) (simp add: next_data_len_int [OF l])
    have tail: "load (unat (align4 (next_addr len addr)) - unat (psmem_addr ?t)) (unat ?l) mem =
        load (?A - ?P + 256) (unat len - 256) mem"
      using less.prems(8) by (simp add: nx(1) nl)
    have "concat (map (payload a) (sent_packets (es @ ds))) = load (?A - ?P) (unat len) mem"
      using load_split [of 256 "unat len" "?A - ?P" mem] True ans(2) m(2) ds(2) unfolding tail chunk_def n by simp
    moreover have "answers a ?t src = answers a s src" by (simp add: answers_def fun_eq_iff)
    ultimately show ?thesis
      using step ds(1,3) m(2) ans(1) by (intro exI [of _ "1 + k"] exI [of _ "es @ ds"]) simp
  qed
qed


lemma nibble_bits:
  assumes "be AND 0xF = (be :: u8)" "be AND push_bit 0 1 = 0" "be AND push_bit 1 1 = 0" "be AND push_bit 2 1 = 0"
    "be AND push_bit 3 1 = 0"
  shows "be = 0"
proof -
  have f: "(0xF :: u8) = push_bit 0 1 OR push_bit 1 1 OR push_bit 2 1 OR push_bit 3 1" by simp
  have "be AND (push_bit 0 1 OR push_bit 1 1 OR push_bit 2 1 OR push_bit 3 1) = 0"
    by (simp only: bit.conj_disj_distrib assms(2-) or.right_neutral)
  then show ?thesis using assms(1) unfolding f by simp
qed

lemma nibble_pads:
  assumes "be AND 0xF = (be :: u8)"
  shows "front_skip be \<le> 3" "back_pad be \<le> 3"
proof -
  have "leading_disabled [0, 1, 2, 3] be \<le> 3" if "be \<noteq> 0"
    using nibble_bits [OF assms] that by auto
  then show "front_skip be \<le> 3" by (simp add: front_skip_def del: leading_disabled.simps)
  have e: "drop_bit 0 (0x8 :: u8) = push_bit 3 1" "drop_bit 1 (0x8 :: u8) = push_bit 2 1"
    "drop_bit 2 (0x8 :: u8) = push_bit 1 1" "drop_bit 3 (0x8 :: u8) = push_bit 0 1" by simp_all
  have "trailing_disabled [0, 1, 2, 3] be \<le> 3" if "be \<noteq> 0"
    using nibble_bits [OF assms] that unfolding trailing_disabled.simps e by auto
  then show "back_pad be \<le> 3" by (simp add: back_pad_def del: trailing_disabled.simps)
qed

lemma mr_nibbles: "mr_fstdw (mr_hdr_of pkt) AND 0xF = mr_fstdw (mr_hdr_of pkt)" "mr_lstdw (mr_hdr_of pkt) AND 0xF = mr_lstdw (mr_hdr_of pkt)"
proof -
  have m: "(0xF :: u8) = mask 4" by (simp add: mask_eq_exp_minus_1)
  show "mr_fstdw (mr_hdr_of pkt) AND 0xF = mr_fstdw (mr_hdr_of pkt)"
    by (simp add: mr_hdr_of_def)
  show "mr_lstdw (mr_hdr_of pkt) AND 0xF = mr_lstdw (mr_hdr_of pkt)"
    unfolding m by (rule bit_word_eqI) (auto simp: mr_hdr_of_def bit_simps dest: bit_imp_le_length)
qed

lemma mr_addr_aligned_field:
  assumes "unat (mr_field (mr_hdr_of pkt)) mod 4 = 0"
  shows "unat (tlp_mr_addr (mr_hdr_of pkt)) = unat (mr_field (mr_hdr_of pkt)) + front_skip (mr_fstdw (mr_hdr_of pkt))"
    "unat (align4 (tlp_mr_addr (mr_hdr_of pkt))) = unat (mr_field (mr_hdr_of pkt))"
    "unat (tlp_mr_addr (mr_hdr_of pkt)) mod 4 = front_skip (mr_fstdw (mr_hdr_of pkt))"
proof -
  let ?f = "mr_field (mr_hdr_of pkt)" and ?k = "front_skip (mr_fstdw (mr_hdr_of pkt))"
  have k: "?k \<le> 3" by (rule nibble_pads(1) [OF mr_nibbles(1)])
  then have uk: "unat (of_nat ?k :: u64) = ?k" by (simp add: unat_of_nat)
  obtain q where q: "unat ?f = 4 * q" using assms by (auto simp: mod_eq_0_iff_dvd)
  have "unat ?f < 2 ^ 64" using unsigned_less [of ?f] by simp
  then have "unat ?f + 4 \<le> 2 ^ 64" unfolding q by simp
  then have nw: "unat ?f + unat (of_nat ?k :: u64) < 2 ^ 64" using k by (simp add: uk)
  show a: "unat (tlp_mr_addr (mr_hdr_of pkt)) = unat ?f + ?k"
    unfolding mr_addr_field using unat_add_no_wrap [OF nw] by (simp add: uk)
  show b: "unat (tlp_mr_addr (mr_hdr_of pkt)) mod 4 = ?k"
    unfolding a q using k by simp
  show "unat (align4 (tlp_mr_addr (mr_hdr_of pkt))) = unat ?f"
    using b unfolding unat_align4 a by simp
qed

text \<open>
  C13: A read request for aligned DWs in an aligned window is answered in full: the payloads of the
  completions that go out, put together, are the requested DWs of the window in order, and
  every completion is a completion with data that names the responder and repeats the requester and the
  tag. For more than one completion the first byte enables have to be contiguous, as PCIe demands.
\<close>

theorem mrd_answers:
  assumes a: "mbuf_laws a" and ok: "reply_ok a s" and len: "12 \<le> length pkt"
    and field: "unat (mr_field (mr_hdr_of pkt)) mod 4 = 0" and base: "unat (psmem_addr s) mod 4 = 0"
    and win: "in_window (tlp_mr_addr (mr_hdr_of pkt)) (dw_bytes (mr_hdr_of pkt)) s mem"
    and contiguous: "dw_bytes (mr_hdr_of pkt) \<le> 256 \<or> front_pad (mr_fstdw (mr_hdr_of pkt)) = front_skip (mr_fstdw (mr_hdr_of pkt))"
  shows "\<exists>s' ms. nettlp_psmem_mrd a pkt s = Some (Inr s') \<and> sent_packets (events s') = sent_packets (events s) @ ms \<and>
    concat (map (payload a) ms) = load (unat (mr_field (mr_hdr_of pkt)) - unat (psmem_addr s)) (dw_bytes (mr_hdr_of pkt)) mem \<and>
    (\<forall>m\<in>set ms. answers a s pkt m) \<and> psmem_memory s' = psmem_memory s"
proof -
  let ?mh = "mr_hdr_of pkt"
  note mra = mr_addr_aligned_field [OF field] and dw = dw_bytes_word(2,3) [of ?mh]
  note pads = pads_le [of "mr_fstdw ?mh"] nibble_pads(2) [OF mr_nibbles(2), of pkt] nibble_pads(1) [OF mr_nibbles(1), of pkt]
  have w: "psmem_memory s = Some mem" "length mem = unat (psmem_size s)" "unat (psmem_addr s) \<le> unat (mr_field ?mh) + front_skip (mr_fstdw ?mh)"
    "unat (mr_field ?mh) + front_skip (mr_fstdw ?mh) + dw_bytes ?mh \<le> unat (psmem_addr s) + unat (psmem_size s)"
    "unat (psmem_addr s) + unat (psmem_size s) < 2 ^ 64"
    using win by (simp_all add: in_window_def mra(1))
  have low: "unat (psmem_addr s) \<le> unat (mr_field ?mh)"
    using w(3) base field pads(5) by presburger
  have "\<not> outside_window (tlp_mr_addr ?mh) (of_nat (dw_bytes ?mh)) s"
    by (rule window_inside(1) [where mem = mem]) (simp add: dw_bytes_unat win)
  then have m: "nettlp_psmem_mrd a pkt s =
      completions a (take 12 pkt) (of_nat (dw_bytes ?mh)) (of_int (data_bytes ?mh)) (tlp_mr_addr ?mh) s"
    by (simp add: mrd_unfold)
  have "\<exists>k es. completions a (take 12 pkt) (of_nat (dw_bytes ?mh)) (of_int (data_bytes ?mh)) (tlp_mr_addr ?mh) s =
      Some (Inr (later k es s)) \<and>
    concat (map (payload a) (sent_packets es)) =
      load (unat (align4 (tlp_mr_addr ?mh)) - unat (psmem_addr s)) (unat (of_nat (dw_bytes ?mh) :: u64)) mem \<and>
    (\<forall>m\<in>set (sent_packets es). answers a s (take 12 pkt) m)"
  proof (rule completions_answer [OF a _ ok w(1)], unfold dw_bytes_unat mra(2,3) data_bytes_def w(2))
    show "12 \<le> length (take 12 pkt)" using len by simp
    show "int (dw_bytes ?mh) - 3 \<le> int (dw_bytes ?mh) - int (front_pad (mr_fstdw ?mh)) - int (back_pad (mr_lstdw ?mh)) +
        int (front_skip (mr_fstdw ?mh))" if "256 < dw_bytes ?mh"
      using contiguous that pads(4) by linarith
    show "unat (mr_field ?mh) + dw_bytes ?mh \<le> unat (psmem_addr s) + unat (psmem_size s)" using w(4) by linarith
  qed (use dw low w(5) pads in linarith)+
  then obtain k es where es: "nettlp_psmem_mrd a pkt s = Some (Inr (later k es s))"
    "concat (map (payload a) (sent_packets es)) = load (unat (mr_field ?mh) - unat (psmem_addr s)) (dw_bytes ?mh) mem"
    "\<forall>m\<in>set (sent_packets es). answers a s (take 12 pkt) m"
    by (auto simp: m dw_bytes_unat mra(2))
  moreover have "answers a s (take 12 pkt) = answers a s pkt"
    using load_load [of 4 2 12 pkt] by (simp add: answers_def fun_eq_iff load_def)
  ultimately show ?thesis
    by (intro exI [of _ "later k es s"] exI [of _ "sent_packets es"]) simp
qed

text \<open>
  More data left than the remaining DWs hold, in surroundings where every completion can be sent.
\<close>

definition stuck :: "'m mbuf_api \<Rightarrow> bytes \<Rightarrow> u64 \<Rightarrow> u64 \<Rightarrow> u64 \<Rightarrow> 'm nettlp \<Rightarrow> bool" where
  "stuck a src len dl addr s \<longleftrightarrow> mbuf_laws a \<and> 12 \<le> length src \<and> reply_ok a s \<and> unat len mod 4 = 0 \<and> unat len \<le> 4092 \<and>
     (\<exists>x. dl = of_int x \<and> x + int (unat addr mod 4) \<le> 4100 \<and> int (unat len) < x + int (unat addr mod 4)) \<and>
     (unat len = 0 \<or> (\<exists>mem. psmem_memory s = Some mem \<and> unat (psmem_addr s) \<le> unat (align4 addr) \<and>
       unat (align4 addr) + unat len \<le> unat (psmem_addr s) + length mem \<and> unat (psmem_addr s) + length mem < 2 ^ 64))"

lemma sint_mid: "0 < z \<Longrightarrow> z \<le> 4100 \<Longrightarrow> sint (of_int z :: u64) = z"
  by (rule sint_of_int64) simp_all

lemma align_below: "p mod 4 = 0 \<Longrightarrow> p \<le> q \<Longrightarrow> p \<le> q - q mod 4" for p q :: nat
  by presburger

lemma stuck_step:
  assumes st: "stuck a src len dl addr s"
  obtains es where "send_completion a src (send_length len) dl addr s = Inr (later 1 es s)"
    "0 < sint (next_data_len len dl addr)"
    "stuck a src (len - send_length len) (next_data_len len dl addr) (next_addr len addr) (later 1 es s)"
proof -
  let ?n = "min (unat len) 256" and ?l = "len - send_length len"
  from st obtain x where x: "dl = of_int x" "x + int (unat addr mod 4) \<le> 4100" "int (unat len) < x + int (unat addr mod 4)"
    by (auto simp: stuck_def)
  let ?x = "x - (int ?n - int (unat addr mod 4))"
  have b: "mbuf_laws a" "12 \<le> length src" "reply_ok a s" "unat len mod 4 = 0" "unat len \<le> 4092"
    using st by (simp_all add: stuck_def)
  have l: "unat len < 2 ^ 63" using b(5) by simp
  have am: "unat addr mod 4 < 4" by simp
  note sl = send_length_nat [OF l]
  have "\<exists>chunk. psmem_load s addr (unat (send_length len)) = Inr chunk \<and> length chunk = unat (send_length len)"
  proof (cases "unat len = 0")
    case True
    then show ?thesis by (simp add: psmem_load_def sl)
  next
    case False
    then obtain mem where m: "psmem_memory s = Some mem" "unat (psmem_addr s) \<le> unat (align4 addr)"
      "unat (align4 addr) + unat len \<le> unat (psmem_addr s) + length mem"
      using st by (auto simp: stuck_def)
    then show ?thesis using psmem_load_window [OF m(1,2), of ?n] by (auto simp: sl)
  qed
  then obtain chunk where ch: "psmem_load s addr (unat (send_length len)) = Inr chunk" "length chunk = unat (send_length len)"
    by blast
  obtain m es where snd: "send_completion a src (send_length len) dl addr s = Inr (later 1 es s)"
    by (rule send_completion_ok [OF b(1,3,2) _ ch, of dl]) (simp_all add: sl)
  have nx: "next_data_len len dl addr = of_int ?x" unfolding x(1) by (rule next_data_len_int [OF l])
  have lt: "int (unat ?l) < ?x" using x(3) by (simp add: sl of_nat_diff)
  have le: "?x \<le> 4100" using x(2) by linarith
  have pos: "0 < ?x" using lt by linarith
  have "sint (of_int ?x :: u64) = ?x" using pos le by (intro sint_mid) simp_all
  then have more: "0 < sint (next_data_len len dl addr)" unfolding nx using pos by simp
  have na: "unat (next_addr len addr) mod 4 = 0" by (rule next_addr_aligned [OF l b(4)])
  have ex: "\<exists>z. next_data_len len dl addr = of_int z \<and> z + int (unat (next_addr len addr) mod 4) \<le> 4100 \<and>
      int (unat ?l) < z + int (unat (next_addr len addr) mod 4)"
    unfolding na using nx le lt by (intro exI [of _ ?x]) simp
  have lm: "unat ?l mod 4 = 0" "unat ?l \<le> 4092" using b(4,5) by (simp_all add: sl min_def mod_eq_0_iff_dvd)
  have win: "unat ?l = 0 \<or> (\<exists>mem. psmem_memory s = Some mem \<and> unat (psmem_addr s) \<le> unat (align4 (next_addr len addr)) \<and>
       unat (align4 (next_addr len addr)) + unat ?l \<le> unat (psmem_addr s) + length mem \<and> unat (psmem_addr s) + length mem < 2 ^ 64)"
  proof (cases "unat ?l = 0")
    case False
    then have big: "256 < unat len" by (simp add: sl)
    then obtain mem where m: "psmem_memory s = Some mem" "unat (psmem_addr s) \<le> unat (align4 addr)"
      "unat (align4 addr) + unat len \<le> unat (psmem_addr s) + length mem" "unat (psmem_addr s) + length mem < 2 ^ 64"
      using st by (auto simp: stuck_def)
    then have "unat (align4 (next_addr len addr)) = unat (align4 addr) + 256"
      using align4_next(1) [OF b(4) _ l, of addr] big by simp
    with m big show ?thesis by (intro disjI2 exI [of _ mem]) (simp add: sl)
  qed simp
  show ?thesis
    by (rule that [OF snd more]) (use b ex lm win in \<open>simp add: stuck_def\<close>)
qed

lemma completions_endless:
  assumes "completions a src len dl addr s = Some y"
  shows "\<not> stuck a src len dl addr s"
proof (rule completions.raw_induct [where P = "\<lambda>a src len dl addr s y. \<not> stuck a src len dl addr s", OF _ assms])
  fix rec and a :: "'a mbuf_api" and src len dl addr s and y :: "'a nettlp res"
  assume IH: "\<And>a src len dl addr s y. rec a src len dl addr s = Some y \<Longrightarrow> \<not> stuck a src len dl addr s"
    and body: "(case send_completion a src (send_length len) dl addr s of
       Inl e \<Rightarrow> Some (Inl e)
     | Inr s \<Rightarrow>
         if 0 < sint (next_data_len len dl addr)
         then rec a src (len - send_length len) (next_data_len len dl addr) (next_addr len addr) s
         else Some (Inr s)) = Some y"
  show "\<not> stuck a src len dl addr s"
  proof
    assume "stuck a src len dl addr s"
    then obtain es where "send_completion a src (send_length len) dl addr s = Inr (later 1 es s)"
      "0 < sint (next_data_len len dl addr)"
      "stuck a src (len - send_length len) (next_data_len len dl addr) (next_addr len addr) (later 1 es s)"
      by (rule stuck_step)
    with body IH show False by auto
  qed
qed


text \<open>
  C24: A read request whose address field has one of its two reserved low bits set, with all bytes
  enabled, is answered without end: the offset those bits make is added to the data left after the first
  completion and never taken off, so after the requested DWs the thread goes on
  sending empty completions and does not serve anything else any more.
\<close>

theorem mrd_endless:
  assumes a: "mbuf_laws a" and ok: "reply_ok a s" and len: "12 \<le> length pkt"
    and field: "unat (mr_field (mr_hdr_of pkt)) mod 4 \<noteq> 0" and base: "unat (psmem_addr s) mod 4 = 0"
    and enables: "mr_fstdw (mr_hdr_of pkt) \<in> {0, 0xF}" "mr_lstdw (mr_hdr_of pkt) \<in> {0, 0xF}"
    and win: "in_window (tlp_mr_addr (mr_hdr_of pkt)) (dw_bytes (mr_hdr_of pkt)) s mem"
  shows "nettlp_psmem_mrd a pkt s = None"
proof -
  let ?mh = "mr_hdr_of pkt" and ?A = "unat (tlp_mr_addr (mr_hdr_of pkt))"
  have pads: "front_skip (mr_fstdw ?mh) = 0" "front_pad (mr_fstdw ?mh) = 0" "back_pad (mr_lstdw ?mh) = 0"
    using enables by (auto simp: be_defs)
  then have low: "?A mod 4 \<noteq> 0" "data_bytes ?mh = int (dw_bytes ?mh)" "?A mod 4 < 4"
    using field by (simp_all add: mr_addr_low data_bytes_def)
  note w = win [unfolded in_window_def]
  have al: "unat (align4 (tlp_mr_addr ?mh)) \<le> ?A" "unat (psmem_addr s) \<le> unat (align4 (tlp_mr_addr ?mh))"
    using w base unfolding unat_align4 by (simp, intro align_below) auto
  have "stuck a (take 12 pkt) (of_nat (dw_bytes ?mh)) (of_int (data_bytes ?mh)) (tlp_mr_addr ?mh) s"
    unfolding stuck_def dw_bytes_unat using a ok len dw_bytes_word(2,3) [of ?mh] low w al
    by (intro conjI exI [of _ "data_bytes ?mh"] disjI2 exI [of _ mem]) simp_all
  with completions_endless
  have "completions a (take 12 pkt) (of_nat (dw_bytes ?mh)) (of_int (data_bytes ?mh)) (tlp_mr_addr ?mh) s = None"
    by (metis option.exhaust)
  moreover have "\<not> outside_window (tlp_mr_addr ?mh) (of_nat (dw_bytes ?mh)) s"
    by (rule window_inside(1) [where mem = mem]) (simp add: dw_bytes_unat win)
  ultimately show ?thesis by (simp add: mrd_unfold)
qed

definition sample_server :: "buf nettlp" where
  "sample_server = sample_receiver\<lparr>psmem_memory := Some (map of_nat [0..<16]), rx_portid := 0, rx_queueid := 0, nt_tx_buffers := {(0, 0)}\<rparr>"

lemma sample_server_ok: "reply_ok sample_mbufs sample_server"
  by (simp add: reply_ok_def sample_mbufs_def sample_server_def sample_receiver_def sample_node_def nettlp_init_def addrs_ok_def)

lemma sample_field:
  "mr_field (mr_hdr_of (sample_request dws enables addr bs)) = addr"
  "dw_bytes (mr_hdr_of (sample_request dws enables addr bs)) = 4 * unat (tlp_length dws)"
  "mr_fstdw (mr_hdr_of (sample_request dws enables addr bs)) = enables AND 0xF"
  "mr_lstdw (mr_hdr_of (sample_request dws enables addr bs)) = drop_bit 4 enables"
  using load_all [of "be64 addr"]
  by (simp_all add: sample_hdr mr_field_def tlp_is_3dw_def tlp_fmt_dw_def load_append_left dw_bytes_def)

lemma sample_server_window:
  "unat addr \<ge> 0x1000 \<Longrightarrow> unat addr + n \<le> 0x1010 \<Longrightarrow> in_window addr n sample_server (map of_nat [0..<16])"
  by (simp add: in_window_def sample_server_def sample_receiver_def)

lemma sample_server_base: "psmem_addr sample_server = 0x1000"
  by (simp add: sample_server_def sample_receiver_def)

theorem mrd_answers_witness:
  "\<exists>s' ms. nettlp_psmem_mrd sample_mbufs (sample_request 2 0xFC 0x1004 []) sample_server = Some (Inr s') \<and>
    sent_packets (events s') = sent_packets (events sample_server) @ ms \<and>
    concat (map (payload sample_mbufs) ms) = [4, 5, 6, 7, 8, 9, 10, 11]"
proof -
  let ?p = "sample_request 2 0xFC 0x1004 []"
  have f: "front_skip 0xC = 2" "front_pad 0xC = 2" by (simp_all add: be_defs)
  have u: "unat (0x1004 :: u64) = 0x1004" "unat (0x1006 :: u64) = 0x1006" "unat (0x1000 :: u64) = 0x1000" by simp_all
  have a: "tlp_mr_addr (mr_hdr_of ?p) = 0x1006" by (simp add: sample_addr f)
  have dw: "dw_bytes (mr_hdr_of ?p) = 8" by (simp add: sample_field tlp_length_def)
  have w: "in_window (tlp_mr_addr (mr_hdr_of ?p)) (dw_bytes (mr_hdr_of ?p)) sample_server (map of_nat [0..<16])"
    unfolding a dw by (rule sample_server_window) simp_all
  have "[4..<12] = [4, 5, 6, 7, 8, 9, 10, 11 :: nat]" by (simp add: upt_rec)
  then have l: "load 4 8 (map of_nat [0..<16]) = ([4, 5, 6, 7, 8, 9, 10, 11] :: bytes)"
    by (simp add: load_def take_map drop_map take_upt del: upt_rec_numeral)
  from mrd_answers [OF sample_mbufs_laws sample_server_ok _ _ _ w] show ?thesis
    unfolding dw sample_server_base sample_field u by (auto simp: sample_data(1) f l tlp_length_def)
qed

theorem mrd_endless_witness:
  "nettlp_psmem_mrd sample_mbufs (sample_request 1 0x0F 0x1005 []) sample_server = None"
proof -
  let ?p = "sample_request 1 0x0F 0x1005 []"
  have f: "front_skip 0xF = 0" by (simp add: be_defs)
  have u: "unat (0x1005 :: u64) = 0x1005" "unat (0x1000 :: u64) = 0x1000" by simp_all
  have a: "tlp_mr_addr (mr_hdr_of ?p) = 0x1005" by (simp add: sample_addr f)
  have dw: "dw_bytes (mr_hdr_of ?p) = 4" by (simp add: sample_field tlp_length_def)
  have w: "in_window (tlp_mr_addr (mr_hdr_of ?p)) (dw_bytes (mr_hdr_of ?p)) sample_server (map of_nat [0..<16])"
    unfolding a dw by (rule sample_server_window) simp_all
  show ?thesis
    by (rule mrd_endless [OF sample_mbufs_laws sample_server_ok _ _ _ _ _ w])
      (simp_all only: sample_field sample_data(1) sample_server_base u, simp_all)
qed

end
