(* ===== verification/Switching.thy ===== *)
theory Switching
  imports Nettlp
begin

text \<open>
  The packet path between the DPDK ports and the host: the virtual switch and the forwarding
  database of \<open>sdplane/tap_handler.c\<close>, and the repeater of \<open>sdplane/l2_repeater.c\<close>.

  Buffers are those of \<open>mbuf_api\<close>; a ring is named by its port and queue. What rings and sockets
  deliver is an argument, and what the code sends is recorded in order.
\<close>

section \<open>The virtual switch\<close>

definition VSWITCH_PORT_TYPE_DPDK_LCORE :: u8 where "VSWITCH_PORT_TYPE_DPDK_LCORE = 1"
definition VSWITCH_PORT_TYPE_LINUX_TAP :: u8 where "VSWITCH_PORT_TYPE_LINUX_TAP = 2"
definition VSWITCH_PORT_SIZE :: nat where "VSWITCH_PORT_SIZE = 16"

record vswitch_port =
  vp_id :: u8
  vp_type :: u8
  vp_name :: string
  sockfd :: int
  vp_lcore :: int
  dpdk_port_id :: int
  dpdk_queue_id :: int
  vp_rings :: "(nat \<times> nat) option"

record vswitch =
  vs_limit :: nat
  vs_size :: nat
  vs_ports :: "vswitch_port list"

definition zero_vport :: vswitch_port where
  "zero_vport = \<lparr>vp_id = 0, vp_type = 0, vp_name = [], sockfd = 0, vp_lcore = 0, dpdk_port_id = 0, dpdk_queue_id = 0,
     vp_rings = None\<rparr>"

text \<open>Taking out entry \<open>i\<close>: the entries after it are moved down by one.\<close>

definition remove_vport :: "nat \<Rightarrow> vswitch \<Rightarrow> vswitch" where
  "remove_vport i vs =
    vs\<lparr>vs_ports := (if i + 1 < vs_size vs
         then store i (load (i + 1) (vs_size vs - (i + 1)) (vs_ports vs)) (vs_ports vs)
         else (vs_ports vs)[i := zero_vport]),
       vs_size := vs_size vs - 1\<rparr>"

fun remove_dpdk_ports :: "nat \<Rightarrow> vswitch \<Rightarrow> vswitch" where
  "remove_dpdk_ports 0 vs = vs"
| "remove_dpdk_ports (Suc i) vs =
    remove_dpdk_ports i (if vp_type (vs_ports vs ! i) = VSWITCH_PORT_TYPE_DPDK_LCORE then remove_vport i vs else vs)"

text \<open>The entry of a polled queue, at position \<open>n\<close>. The socket of the entry it overwrites stays.\<close>

definition dpdk_vport :: "nat \<Rightarrow> nat \<Rightarrow> port_queue_conf \<Rightarrow> vswitch_port \<Rightarrow> vswitch_port" where
  "dpdk_vport n lcore pq old =
    old\<lparr>vp_id := of_nat n, vp_type := VSWITCH_PORT_TYPE_DPDK_LCORE,
      dpdk_port_id := int (unat (port_id pq)), dpdk_queue_id := int (unat (queue_id pq)),
      vp_name := ''ring_up[port-'' @ dec_word (port_id pq) @ ''][queue-'' @ dec_word (queue_id pq) @ '']'',
      vp_lcore := int lcore, vp_rings := Some (unat (port_id pq), unat (queue_id pq))\<rparr>"

definition add_dpdk_port :: "(nat \<times> nat) set \<Rightarrow> nat \<times> port_queue_conf \<Rightarrow> vswitch \<Rightarrow> vswitch res" where
  "add_dpdk_port rings = (\<lambda>(lcore, pq) vs.
    guardr (unat (port_id pq) < RTE_MAX_ETHPORTS \<and> unat (queue_id pq) < MAX_RX_QUEUE_PER_LCORE) OutOfBounds
      (Inr (if (unat (port_id pq), unat (queue_id pq)) \<in> rings \<and> vs_size vs < vs_limit vs
         then vs\<lparr>vs_ports := (vs_ports vs)[vs_size vs := dpdk_vport (vs_size vs) lcore pq (vs_ports vs ! vs_size vs)],
                 vs_size := vs_size vs + 1\<rparr>
         else vs)))"

text \<open>The queues of every lcore, in order.\<close>

definition polled :: "rib_info \<Rightarrow> (nat \<times> port_queue_conf) list" where
  "polled info = concat (map (\<lambda>l. map (Pair l) (queues (rib_qconf info ! l))) [0..<RTE_MAX_LCORE])"

definition vswitch_port_update :: "(nat \<times> nat) set \<Rightarrow> rib option \<Rightarrow> vswitch \<Rightarrow> vswitch res" where
  "vswitch_port_update rings r vs = (case r of
      None \<Rightarrow> Inr vs
    | Some None \<Rightarrow> Inl NullDeref
    | Some (Some info) \<Rightarrow> runr (add_dpdk_port rings) (polled info) (remove_dpdk_ports (vs_size vs) vs))"

text \<open>The start of the thread: a tap interface for every port, while there is room.\<close>

definition tap_vport :: "nat \<Rightarrow> int \<Rightarrow> nat \<Rightarrow> vswitch_port \<Rightarrow> vswitch_port" where
  "tap_vport n fd p old =
    old\<lparr>vp_id := of_nat n, vp_type := VSWITCH_PORT_TYPE_LINUX_TAP, vp_name := ''port-dpdk'' @ dec p,
      sockfd := fd, dpdk_port_id := -1, dpdk_queue_id := -1\<rparr>"

fun create_taps :: "(nat \<Rightarrow> int) \<Rightarrow> nat list \<Rightarrow> vswitch \<times> int list \<Rightarrow> vswitch \<times> int list" where
  "create_taps tap_open [] s = s"
| "create_taps tap_open (p # ps) (vs, port_fd) =
    create_taps tap_open ps
      (if vs_size vs < vs_limit vs
       then vs\<lparr>vs_ports := (vs_ports vs)[vs_size vs := tap_vport (vs_size vs) (tap_open p) p (vs_ports vs ! vs_size vs)],
               vs_size := vs_size vs + 1\<rparr>
       else vs, port_fd[p := tap_open p])"

definition tap_start :: "(nat \<Rightarrow> int) \<Rightarrow> nat \<Rightarrow> vswitch_port list \<Rightarrow> (vswitch \<times> int list) res" where
  "tap_start tap_open nb_ports old =
    guardr (nb_ports \<le> RTE_MAX_ETHPORTS) OutOfBounds
      (Inr (create_taps tap_open [0..<nb_ports]
        (\<lparr>vs_limit = VSWITCH_PORT_SIZE, vs_size = 0, vs_ports = old\<rparr>, replicate RTE_MAX_ETHPORTS (- 1))))"

section \<open>The forwarding database\<close>

record fdb_entry =
  l2addr :: bytes
  fdb_port :: int

definition zero_addr :: bytes where
  "zero_addr = replicate 6 0"

text \<open>The first free entry or the first with the address; a full table learns nothing new.\<close>

fun register_fdb :: "bytes \<Rightarrow> int \<Rightarrow> fdb_entry list \<Rightarrow> fdb_entry list" where
  "register_fdb src port [] = []"
| "register_fdb src port (e # es) =
    (if l2addr e = zero_addr then \<lparr>l2addr = src, fdb_port = port\<rparr> # es
     else if l2addr e = src then e\<lparr>fdb_port := port\<rparr> # es
     else e # register_fdb src port es)"

section \<open>Packets up and down\<close>

text \<open>What is known of a buffer: the port it came in on, its bytes, and its source address.\<close>

record 'm packet_api =
  pk_port :: "'m \<Rightarrow> nat"
  pk_bytes :: "'m \<Rightarrow> bytes"
  pk_src :: "'m \<Rightarrow> bytes"

datatype 'm tap_event = Wrote int bytes | Tap_freed 'm | Enqueued nat nat 'm | Enqueue_failed 'm

record 'm tap =
  tap_vswitch :: vswitch
  fdb :: "fdb_entry list"
  capture_fd :: int
  port_fd :: "int list"
  tap_allocs :: nat
  tap_events :: "'m tap_event list"

definition tap_log :: "'m tap_event list \<Rightarrow> 'm tap \<Rightarrow> 'm tap" where
  "tap_log es s = s\<lparr>tap_events := tap_events s @ es\<rparr>"

definition tap_handler_register_fdb :: "'m packet_api \<Rightarrow> 'm \<Rightarrow> 'm tap \<Rightarrow> 'm tap" where
  "tap_handler_register_fdb a m s = s\<lparr>fdb := register_fdb (pk_src a m) (int (pk_port a m)) (fdb s)\<rparr>"

definition tap_handler_write_peek :: "'m packet_api \<Rightarrow> 'm \<Rightarrow> 'm tap \<Rightarrow> 'm tap" where
  "tap_handler_write_peek a m s = (if capture_fd s \<ge> 0 then tap_log [Wrote (capture_fd s) (pk_bytes a m)] s else s)"

definition tap_handler_write_port :: "'m packet_api \<Rightarrow> 'm \<Rightarrow> 'm tap \<Rightarrow> 'm tap res" where
  "tap_handler_write_port a m s =
    guardr (pk_port a m < length (port_fd s)) OutOfBounds
      (Inr (if port_fd s ! pk_port a m \<ge> 0 then tap_log [Wrote (port_fd s ! pk_port a m) (pk_bytes a m)] s else s))"

definition tap_handler_write_port_all :: "'m packet_api \<Rightarrow> nat \<Rightarrow> 'm \<Rightarrow> 'm tap \<Rightarrow> 'm tap res" where
  "tap_handler_write_port_all a nb_ports m s =
    guardr (nb_ports \<le> length (port_fd s)) OutOfBounds
      (Inr (tap_log (map (\<lambda>p. Wrote (port_fd s ! p) (pk_bytes a m)) (filter (\<lambda>p. port_fd s ! p \<ge> 0) [0..<nb_ports])) s))"

definition handle_up :: "'m packet_api \<Rightarrow> nat \<Rightarrow> 'm option \<Rightarrow> 'm tap \<Rightarrow> 'm tap res" where
  "handle_up a nb_ports mp s = (case mp of
      None \<Rightarrow> Inr s
    | Some m \<Rightarrow>
        bindr (tap_handler_write_port_all a nb_ports m (tap_handler_write_peek a m (tap_handler_register_fdb a m s)))
          (\<lambda>s. Inr (tap_log [Tap_freed m] s)))"

text \<open>\<open>dequeue\<close> is what the ring of a port delivers in this burst; a missing ring is a null pointer.\<close>

definition handle_port_up :: "'m packet_api \<Rightarrow> nat \<Rightarrow> (nat \<times> nat \<Rightarrow> 'm option list) \<Rightarrow> vswitch_port \<Rightarrow> 'm tap \<Rightarrow> 'm tap res" where
  "handle_port_up a nb_ports dequeue vport s =
    (if vp_type vport \<noteq> VSWITCH_PORT_TYPE_DPDK_LCORE then Inr s
     else case vp_rings vport of None \<Rightarrow> Inl NullDeref
       | Some r \<Rightarrow> runr (handle_up a nb_ports) (take 32 (dequeue r)) s)"

definition switch_ports :: "vswitch \<Rightarrow> vswitch_port list" where
  "switch_ports vs = take (vs_size vs) (vs_ports vs)"

definition tap_handler_handle_packet_up :: "'m packet_api \<Rightarrow> nat \<Rightarrow> (nat \<times> nat \<Rightarrow> 'm option list) \<Rightarrow> 'm tap \<Rightarrow> 'm tap res" where
  "tap_handler_handle_packet_up a nb_ports dequeue s =
    runr (handle_port_up a nb_ports dequeue) (switch_ports (tap_vswitch s)) s"

text \<open>A frame read from a tap goes to every DPDK entry of the switch, in a buffer of its own.\<close>

definition send_down :: "'m mbuf_api \<Rightarrow> bytes \<Rightarrow> vswitch_port \<Rightarrow> 'm tap \<Rightarrow> 'm tap res" where
  "send_down b data vport s =
    (if vp_type vport \<noteq> VSWITCH_PORT_TYPE_DPDK_LCORE then Inr s
     else case mb_alloc b (tap_allocs s) of None \<Rightarrow> Inl NullDeref
       | Some m \<Rightarrow> bindr (poke b 0 data (mb_append b (length data) m)) (\<lambda>m.
           let p = nat (dpdk_port_id vport); q = nat (dpdk_queue_id vport)
           in Inr (tap_log [if enqueue_ok b (length (tap_events s)) then Enqueued p q m else Enqueue_failed m]
                (s\<lparr>tap_allocs := tap_allocs s + 1\<rparr>))))"

text \<open>At most sixteen sockets are polled; \<open>ready\<close> and \<open>read\<close> are what the host answers.\<close>

definition handle_socket :: "'m mbuf_api \<Rightarrow> (int \<Rightarrow> bool) \<Rightarrow> (int \<Rightarrow> bytes option) \<Rightarrow> int \<Rightarrow> 'm tap \<Rightarrow> 'm tap res" where
  "handle_socket b ready read fd s =
    (if \<not> ready fd then Inr s
     else case read fd of None \<Rightarrow> Inr s
       | Some data \<Rightarrow> if data = [] then Inr s else runr (send_down b (take 9000 data)) (switch_ports (tap_vswitch s)) s)"

definition tap_handler_handle_packet_down ::
  "'m mbuf_api \<Rightarrow> (int \<Rightarrow> bool) \<Rightarrow> (int \<Rightarrow> bytes option) \<Rightarrow> 'm tap \<Rightarrow> 'm tap res" where
  "tap_handler_handle_packet_down b ready read s =
    runr (handle_socket b ready read)
      (take 16 (map sockfd (filter (\<lambda>p. vp_type p = VSWITCH_PORT_TYPE_LINUX_TAP) (switch_ports (tap_vswitch s))))) s"

text \<open>One turn of the thread: \<open>seen\<close> is the version of the rib the switch was last built from.\<close>

definition tap_turn ::
  "'m packet_api \<Rightarrow> 'm mbuf_api \<Rightarrow> nat \<Rightarrow> (nat \<times> nat) set \<Rightarrow> rib option \<Rightarrow> (nat \<times> nat \<Rightarrow> 'm option list) \<Rightarrow>
   (int \<Rightarrow> bool) \<Rightarrow> (int \<Rightarrow> bytes option) \<Rightarrow> u64 \<times> 'm tap \<Rightarrow> (u64 \<times> 'm tap) res" where
  "tap_turn a b nb_ports rings r dequeue ready read = (\<lambda>(seen, s).
    bindr (case r of
        Some (Some info) \<Rightarrow>
          if seen < ucast (ver info)
          then bindr (vswitch_port_update rings r (tap_vswitch s)) (\<lambda>vs. Inr (ucast (ver info), s\<lparr>tap_vswitch := vs\<rparr>))
          else Inr (seen, s)
      | _ \<Rightarrow> Inr (seen, s)) (\<lambda>(seen, s).
    bindr (tap_handler_handle_packet_up a nb_ports dequeue s) (\<lambda>s.
    bindr (tap_handler_handle_packet_down b ready read s) (\<lambda>s. Inr (seen, s)))))"

section \<open>The repeater\<close>

datatype 'm rep_event = Rep_sent nat 'm | Rep_flush nat | Rep_tap nat nat "'m option" | Rep_tap_full "'m option"
  | Rep_burst nat "'m list" | Rep_freed 'm

record 'm repeater =
  rp_lcore :: nat
  rp_rib :: "rib option"
  rp_tx_buffers :: "(nat \<times> nat) set"
  rp_rings :: "(nat \<times> nat) set"
  l2_repeat_pkt_copy_failure :: u64
  rp_events :: "'m rep_event list"

definition rp_log :: "'m rep_event list \<Rightarrow> 'm repeater \<Rightarrow> 'm repeater" where
  "rp_log es s = s\<lparr>rp_events := rp_events s @ es\<rparr>"

definition l2_repeater_tap_up :: "'m mbuf_api \<Rightarrow> 'm \<Rightarrow> nat \<Rightarrow> nat \<Rightarrow> 'm repeater \<Rightarrow> 'm repeater res" where
  "l2_repeater_tap_up b m portid queueid s =
    guardr (portid < RTE_MAX_ETHPORTS \<and> queueid < MAX_RX_QUEUE_PER_LCORE) OutOfBounds
      (guardr ((portid, queueid) \<in> rp_rings s) NullDeref
        (Inr (rp_log [if enqueue_ok b (length (rp_events s)) then Rep_tap portid queueid (mb_copy b m)
                      else Rep_tap_full (mb_copy b m)] s)))"

text \<open>One port: skipped when it is the port of arrival, down, or without a transmit buffer.\<close>

definition repeat_to :: "'m mbuf_api \<Rightarrow> rib_info \<Rightarrow> 'm \<Rightarrow> nat \<Rightarrow> nat \<Rightarrow> 'm repeater \<Rightarrow> 'm repeater res" where
  "repeat_to b info m rxp txp s =
    (if txp = rxp then Inr s
     else guardr (txp < length (rib_port info) \<and> txp < RTE_MAX_ETHPORTS \<and> rp_lcore s < RTE_MAX_LCORE) OutOfBounds
       (Inr (if \<not> link_status (port_link (rib_port info ! txp)) then s
             else if (txp, rp_lcore s) \<notin> rp_tx_buffers s then s
             else case mb_copy b m of
                 Some c \<Rightarrow> rp_log [Rep_sent txp c] s
               | None \<Rightarrow> s\<lparr>l2_repeat_pkt_copy_failure := l2_repeat_pkt_copy_failure s + 1\<rparr>)))"

definition l2_repeat :: "'m mbuf_api \<Rightarrow> nat \<Rightarrow> rib_info \<Rightarrow> 'm \<Rightarrow> nat \<Rightarrow> 'm repeater \<Rightarrow> 'm repeater res" where
  "l2_repeat b nb_ports info m rxp s =
    bindr (runr (repeat_to b info m rxp) [0..<nb_ports] s) (\<lambda>s. Inr (rp_log [Rep_freed m] s))"

definition l2_repeater_tx_flush :: "nat \<Rightarrow> 'm repeater \<Rightarrow> 'm repeater res" where
  "l2_repeater_tx_flush nb_ports s =
    guardr (nb_ports \<le> RTE_MAX_ETHPORTS \<and> rp_lcore s < RTE_MAX_LCORE) OutOfBounds
      (Inr (rp_log (map Rep_flush (filter (\<lambda>p. (p, rp_lcore s) \<in> rp_tx_buffers s) [0..<nb_ports])) s))"

definition repeat_queue :: "'m mbuf_api \<Rightarrow> nat \<Rightarrow> rib_info \<Rightarrow> (nat \<Rightarrow> nat \<Rightarrow> 'm list) \<Rightarrow> port_queue_conf \<Rightarrow> 'm repeater \<Rightarrow> 'm repeater res" where
  "repeat_queue b nb_ports info rx pq s =
    (let p = unat (port_id pq); q = unat (queue_id pq)
     in guardr (p < length (rib_port info)) OutOfBounds
       (if q < nb_rx_queues (dev_info (rib_port info ! p))
        then runr (\<lambda>m s. bindr (l2_repeater_tap_up b m p q s) (l2_repeat b nb_ports info m p)) (take 32 (rx p q)) s
        else Inr s))"

text \<open>The queues of this lcore; without a rib there is nothing to poll.\<close>

definition for_queues :: "(rib_info \<Rightarrow> port_queue_conf \<Rightarrow> 'm repeater \<Rightarrow> 'm repeater res) \<Rightarrow> 'm repeater \<Rightarrow> 'm repeater res" where
  "for_queues f s = (case rp_rib s of
      Some (Some info) \<Rightarrow> guardr (rp_lcore s < length (rib_qconf info)) OutOfBounds
        (runr (f info) (queues (rib_qconf info ! rp_lcore s)) s)
    | _ \<Rightarrow> Inr s)"

definition l2_repeater_rx_burst :: "'m mbuf_api \<Rightarrow> nat \<Rightarrow> (nat \<Rightarrow> nat \<Rightarrow> 'm list) \<Rightarrow> 'm repeater \<Rightarrow> 'm repeater res" where
  "l2_repeater_rx_burst b nb_ports rx = for_queues (\<lambda>info. repeat_queue b nb_ports info rx)"

definition burst_queue :: "(nat \<Rightarrow> nat \<Rightarrow> 'm list) \<Rightarrow> port_queue_conf \<Rightarrow> 'm repeater \<Rightarrow> 'm repeater res" where
  "burst_queue dn pq s =
    (let p = unat (port_id pq); q = unat (queue_id pq)
     in guardr (p < RTE_MAX_ETHPORTS \<and> q < MAX_RX_QUEUE_PER_LCORE) OutOfBounds
       (guardr ((p, q) \<in> rp_rings s) NullDeref
         (Inr (if dn p q = [] then s else rp_log [Rep_burst p (take 32 (dn p q))] s))))"

definition l2_repeater_tx_burst :: "(nat \<Rightarrow> nat \<Rightarrow> 'm list) \<Rightarrow> 'm repeater \<Rightarrow> 'm repeater res" where
  "l2_repeater_tx_burst dn = for_queues (\<lambda>info. burst_queue dn)"

text \<open>One turn of the thread's loop; the transmit buffers are flushed when the drain time has passed.\<close>

definition l2_repeater_turn ::
  "'m mbuf_api \<Rightarrow> nat \<Rightarrow> u64 \<Rightarrow> rib option \<Rightarrow> u64 \<Rightarrow> (nat \<Rightarrow> nat \<Rightarrow> 'm list) \<Rightarrow> (nat \<Rightarrow> nat \<Rightarrow> 'm list) \<Rightarrow>
   u64 \<times> 'm repeater \<Rightarrow> (u64 \<times> 'm repeater) res" where
  "l2_repeater_turn b nb_ports drain_tsc r cur_tsc rx dn = (\<lambda>(prev_tsc, s).
    let s = s\<lparr>rp_rib := r\<rparr>; drain = cur_tsc - prev_tsc > drain_tsc
    in bindr (if drain then l2_repeater_tx_flush nb_ports s else Inr s) (\<lambda>s.
       bindr (l2_repeater_rx_burst b nb_ports rx s) (\<lambda>s.
       bindr (l2_repeater_tx_burst dn s) (\<lambda>s. Inr (if drain then cur_tsc else prev_tsc, s)))))"

section \<open>Rebuilding the switch\<close>

definition vswitch_ok :: "vswitch \<Rightarrow> bool" where
  "vswitch_ok vs \<longleftrightarrow> vs_limit vs = VSWITCH_PORT_SIZE \<and> vs_size vs \<le> VSWITCH_PORT_SIZE \<and> length (vs_ports vs) = VSWITCH_PORT_SIZE"

definition is_dpdk :: "vswitch_port \<Rightarrow> bool" where
  "is_dpdk p \<longleftrightarrow> vp_type p = VSWITCH_PORT_TYPE_DPDK_LCORE"

lemma remove_vport_ports:
  assumes ok: "vswitch_ok vs" and i: "i < vs_size vs"
  shows "switch_ports (remove_vport i vs) = take i (switch_ports vs) @ drop (Suc i) (switch_ports vs)"
    "vswitch_ok (remove_vport i vs)" "vs_size (remove_vport i vs) = vs_size vs - 1"
    "take i (vs_ports (remove_vport i vs)) = take i (vs_ports vs)"
proof -
  let ?P = "vs_ports vs" and ?n = "vs_size vs"
  have len: "?n \<le> length ?P" using ok by (simp add: vswitch_ok_def)
  show "vswitch_ok (remove_vport i vs)"
  proof -
    have "length (store i (load (Suc i) (?n - Suc i) ?P) ?P) = length ?P" if "Suc i < ?n"
      using len that by (intro length_store) simp
    then show ?thesis using ok by (auto simp: vswitch_ok_def remove_vport_def)
  qed
  show "vs_size (remove_vport i vs) = ?n - 1" by (simp add: remove_vport_def)
  show "take i (vs_ports (remove_vport i vs)) = take i ?P"
    using len i by (simp add: remove_vport_def store_def)
  show "switch_ports (remove_vport i vs) = take i (switch_ports vs) @ drop (Suc i) (switch_ports vs)"
  proof (cases "i + 1 < ?n")
    case True
    then have "switch_ports (remove_vport i vs) = take i ?P @ load (i + 1) (?n - (i + 1)) ?P"
      using len by (simp add: switch_ports_def remove_vport_def store_def)
    then show ?thesis using i by (simp add: switch_ports_def load_def drop_take min_def)
  next
    case False
    with i have "?n = Suc i" by simp
    then show ?thesis by (simp add: switch_ports_def remove_vport_def)
  qed
qed

lemma remove_dpdk_ports_filter:
  assumes "vswitch_ok vs" "n \<le> vs_size vs"
  shows "switch_ports (remove_dpdk_ports n vs) = filter (\<lambda>p. \<not> is_dpdk p) (take n (switch_ports vs)) @ drop n (switch_ports vs)"
    and "vswitch_ok (remove_dpdk_ports n vs)"
proof -
  have "switch_ports (remove_dpdk_ports n vs) = filter (\<lambda>p. \<not> is_dpdk p) (take n (switch_ports vs)) @ drop n (switch_ports vs) \<and>
      vswitch_ok (remove_dpdk_ports n vs)"
    using assms
  proof (induction n arbitrary: vs)
    case (Suc n)
    then have n: "n < vs_size vs" by simp
    have len: "vs_size vs \<le> length (vs_ports vs)" using Suc.prems(1) by (simp add: vswitch_ok_def)
    have nth: "vs_ports vs ! n = switch_ports vs ! n" "n < length (switch_ports vs)"
      using n len by (simp_all add: switch_ports_def)
    have tk: "take (Suc n) (switch_ports vs) = take n (switch_ports vs) @ [switch_ports vs ! n]"
      by (rule take_Suc_conv_app_nth) (rule nth(2))
    show ?case
    proof (cases "is_dpdk (vs_ports vs ! n)")
      case True
      note r = remove_vport_ports [OF Suc.prems(1) n]
      have "n \<le> vs_size (remove_vport n vs)" using n r(3) by simp
      note IH = Suc.IH [OF r(2) this]
      have "take n (switch_ports (remove_vport n vs)) = take n (switch_ports vs)"
        "drop n (switch_ports (remove_vport n vs)) = drop (Suc n) (switch_ports vs)"
        using nth(2) unfolding r(1) by simp_all
      with IH True show ?thesis by (simp add: is_dpdk_def tk nth(1) [symmetric])
    next
      case False
      have "drop n (switch_ports vs) = switch_ports vs ! n # drop (Suc n) (switch_ports vs)"
        using nth(2) by (simp add: Cons_nth_drop_Suc)
      with False Suc.IH [OF Suc.prems(1), of] n show ?thesis by (simp add: is_dpdk_def tk nth(1) [symmetric])
    qed
  qed simp
  then show "switch_ports (remove_dpdk_ports n vs) = filter (\<lambda>p. \<not> is_dpdk p) (take n (switch_ports vs)) @ drop n (switch_ports vs)"
    "vswitch_ok (remove_dpdk_ports n vs)" by simp_all
qed

text \<open>The lcore, port and queue of an entry.\<close>

definition polls :: "vswitch_port \<Rightarrow> int \<times> int \<times> int" where
  "polls p = (vp_lcore p, dpdk_port_id p, dpdk_queue_id p)"

definition queue_key :: "nat \<times> port_queue_conf \<Rightarrow> int \<times> int \<times> int" where
  "queue_key = (\<lambda>(l, pq). (int l, int (unat (port_id pq)), int (unat (queue_id pq))))"

definition has_ring :: "(nat \<times> nat) set \<Rightarrow> nat \<times> port_queue_conf \<Rightarrow> bool" where
  "has_ring rings = (\<lambda>(l, pq). (unat (port_id pq), unat (queue_id pq)) \<in> rings)"

definition in_range :: "nat \<times> port_queue_conf \<Rightarrow> bool" where
  "in_range = (\<lambda>(l, pq). unat (port_id pq) < RTE_MAX_ETHPORTS \<and> unat (queue_id pq) < MAX_RX_QUEUE_PER_LCORE)"

lemma add_dpdk_ports_append:
  assumes "vswitch_ok vs" "\<forall>x\<in>set xs. in_range x"
  shows "\<exists>vs' new. runr (add_dpdk_port rings) xs vs = Inr vs' \<and> vswitch_ok vs' \<and> switch_ports vs' = switch_ports vs @ new \<and>
    (\<forall>p\<in>set new. is_dpdk p) \<and>
    map polls new = map queue_key (take (VSWITCH_PORT_SIZE - vs_size vs) (filter (has_ring rings) xs))"
  using assms
proof (induction xs arbitrary: vs)
  case (Cons x xs)
  obtain l pq where x: "x = (l, pq)" by (cases x)
  show ?case
  proof (cases "has_ring rings x \<and> vs_size vs < VSWITCH_PORT_SIZE")
    case True
    let ?e = "dpdk_vport (vs_size vs) l pq (vs_ports vs ! vs_size vs)"
    let ?u = "vs\<lparr>vs_ports := (vs_ports vs)[vs_size vs := ?e], vs_size := vs_size vs + 1\<rparr>"
    have step: "add_dpdk_port rings x vs = Inr ?u"
      using True Cons.prems by (simp add: x add_dpdk_port_def has_ring_def in_range_def vswitch_ok_def)
    have ok: "vswitch_ok ?u" using True Cons.prems(1) by (simp add: vswitch_ok_def)
    have sp: "switch_ports ?u = switch_ports vs @ [?e]"
      using True Cons.prems(1) by (simp add: switch_ports_def vswitch_ok_def take_Suc_conv_app_nth)
    from Cons.IH [OF ok] Cons.prems(2) obtain vs' new where IH: "runr (add_dpdk_port rings) xs ?u = Inr vs'" "vswitch_ok vs'"
      "switch_ports vs' = switch_ports ?u @ new" "\<forall>p\<in>set new. is_dpdk p"
      "map polls new = map queue_key (take (VSWITCH_PORT_SIZE - vs_size ?u) (filter (has_ring rings) xs))" by auto
    have "VSWITCH_PORT_SIZE - vs_size vs = Suc (VSWITCH_PORT_SIZE - vs_size ?u)"
      using True by (simp add: Suc_diff_Suc)
    then have "map polls (?e # new) = map queue_key (take (VSWITCH_PORT_SIZE - vs_size vs) (filter (has_ring rings) (x # xs)))"
      using True IH(5) by (simp add: x polls_def queue_key_def dpdk_vport_def)
    moreover have "is_dpdk ?e" by (simp add: is_dpdk_def dpdk_vport_def)
    ultimately show ?thesis
      using step IH(1-4) sp by (intro exI [of _ vs'] exI [of _ "?e # new"]) simp
  next
    case False
    have step: "add_dpdk_port rings x vs = Inr vs"
      using False Cons.prems by (auto simp: x add_dpdk_port_def has_ring_def in_range_def vswitch_ok_def)
    have "take (VSWITCH_PORT_SIZE - vs_size vs) (filter (has_ring rings) (x # xs)) =
        take (VSWITCH_PORT_SIZE - vs_size vs) (filter (has_ring rings) xs)"
      using False by auto
    with step Cons.IH [OF Cons.prems(1)] Cons.prems(2) show ?thesis by simp
  qed
qed simp

text \<open>
  C15: Rebuilding the virtual switch from a new rib keeps its tap ports, in order, drops every queue it
  polled before, and appends the queues of the rib that have a ring, lcore by lcore, as
  far as the sixteen entries reach: the in-place removal from the end with its moves is a
  filter. What does not fit is left out without notice.
\<close>

theorem vswitch_rebuilt:
  assumes ok: "vswitch_ok vs" and range: "\<forall>x\<in>set (polled info). in_range x"
  shows "\<exists>vs' new. vswitch_port_update rings (Some (Some info)) vs = Inr vs' \<and> vswitch_ok vs' \<and>
    switch_ports vs' = filter (\<lambda>p. \<not> is_dpdk p) (switch_ports vs) @ new \<and> (\<forall>p\<in>set new. is_dpdk p) \<and>
    map polls new = map queue_key (take (VSWITCH_PORT_SIZE - length (filter (\<lambda>p. \<not> is_dpdk p) (switch_ports vs)))
      (filter (has_ring rings) (polled info)))"
proof -
  let ?v = "remove_dpdk_ports (vs_size vs) vs"
  note rm = remove_dpdk_ports_filter [OF ok order_refl]
  have sp: "switch_ports ?v = filter (\<lambda>p. \<not> is_dpdk p) (switch_ports vs)"
    unfolding rm(1) by (simp add: switch_ports_def)
  moreover have "vs_size ?v = length (switch_ports ?v)" using rm(2) by (simp add: switch_ports_def vswitch_ok_def)
  ultimately show ?thesis
    using add_dpdk_ports_append [OF rm(2) range, of rings] by (simp add: vswitch_port_update_def)
qed


definition sample_vport :: "u8 \<Rightarrow> int \<Rightarrow> vswitch_port" where
  "sample_vport ty fd = zero_vport\<lparr>vp_type := ty, sockfd := fd\<rparr>"

definition sample_switch :: vswitch where
  "sample_switch = \<lparr>vs_limit = 16, vs_size = 3,
     vs_ports = [sample_vport 1 0, sample_vport 2 7, sample_vport 1 0] @ replicate 13 zero_vport\<rparr>"

lemma queues_sample_info: "length pss < 128 \<Longrightarrow> l < 128 \<Longrightarrow> queues (rib_qconf (sample_info pss) ! l) =
    (if l < length pss then map (\<lambda>(p, q). \<lparr>port_id = p, queue_id = q\<rparr>) (pss ! l) else [])"
  by (simp add: sample_info_def nth_append)

lemma polled_sample: "polled (sample_info [[(0, 0)], [(1, 0)]]) =
    [(0, \<lparr>port_id = 0, queue_id = 0\<rparr>), (1, \<lparr>port_id = 1, queue_id = 0\<rparr>)]"
proof -
  have "[0..<RTE_MAX_LCORE] = [0, 1] @ [2..<128]" by (simp add: RTE_MAX_LCORE_def upt_conv_Cons)
  moreover have "concat (map (\<lambda>l. map (Pair l) (queues (rib_qconf (sample_info [[(0, 0)], [(1, 0)]]) ! l))) [2..<128]) = []"
    by (auto simp: queues_sample_info)
  ultimately show ?thesis by (simp add: polled_def queues_sample_info)
qed

theorem vswitch_rebuilt_witness:
  "\<exists>vs' new. vswitch_port_update {(0, 0), (1, 0)} (Some (Some (sample_info [[(0, 0)], [(1, 0)]]))) sample_switch = Inr vs' \<and>
    switch_ports vs' = [sample_vport 2 7] @ new \<and> map polls new = [(0, 0, 0), (1, 1, 0)]"
proof -
  let ?i = "sample_info [[(0, 0)], [(1, 0)]]"
  have ok: "vswitch_ok sample_switch" by (simp add: vswitch_ok_def sample_switch_def VSWITCH_PORT_SIZE_def)
  have r: "\<forall>x\<in>set (polled ?i). in_range x"
    by (simp add: polled_sample in_range_def RTE_MAX_ETHPORTS_def MAX_RX_QUEUE_PER_LCORE_def)
  have f: "filter (\<lambda>p. \<not> is_dpdk p) (switch_ports sample_switch) = [sample_vport 2 7]"
    by (simp add: switch_ports_def sample_switch_def is_dpdk_def sample_vport_def VSWITCH_PORT_TYPE_DPDK_LCORE_def numeral_3_eq_3)
  from vswitch_rebuilt [OF ok r, of "{(0, 0), (1, 0)}"] show ?thesis
    unfolding f polled_sample by (auto simp: has_ring_def queue_key_def VSWITCH_PORT_SIZE_def)
qed

section \<open>Learning\<close>

text \<open>The port an address is known at; free entries are at the end, and no address is there twice.\<close>

definition fdb_lookup :: "bytes \<Rightarrow> fdb_entry list \<Rightarrow> int option" where
  "fdb_lookup a es = map_option fdb_port (find (\<lambda>e. l2addr e = a) es)"

fun fdb_ok :: "fdb_entry list \<Rightarrow> bool" where
  "fdb_ok [] \<longleftrightarrow> True"
| "fdb_ok (e # es) \<longleftrightarrow> (if l2addr e = zero_addr then \<forall>f\<in>set es. l2addr f = zero_addr
     else l2addr e \<notin> l2addr ` set es) \<and> fdb_ok es"

lemma register_addrs: "l2addr ` set (register_fdb src port es) \<subseteq> insert src (l2addr ` set es)"
  by (induction es) auto

lemma fdb_ok_zero: "\<forall>f\<in>set es. l2addr f = zero_addr \<Longrightarrow> fdb_ok es"
  by (induction es) auto

lemma register_fdb_ok: "fdb_ok es \<Longrightarrow> fdb_ok (register_fdb src port es)"
proof (induction es)
  case (Cons e es)
  then show ?case using register_addrs [of src port es] fdb_ok_zero [of es] by (auto split: if_splits)
qed simp

interpretation learning: preserving "\<lambda>(src, port). register_fdb src port" fdb_ok
  by unfold_locales (auto intro: register_fdb_ok)

lemma register_learns:
  assumes "fdb_ok es" "src \<noteq> zero_addr"
  shows "fdb_ok (register_fdb src port es) \<and> length (register_fdb src port es) = length es \<and>
    (\<forall>a. a \<noteq> zero_addr \<and> a \<noteq> src \<longrightarrow> fdb_lookup a (register_fdb src port es) = fdb_lookup a es) \<and>
    (if src \<in> l2addr ` set es \<or> zero_addr \<in> l2addr ` set es
     then fdb_lookup src (register_fdb src port es) = Some port else register_fdb src port es = es)"
  using assms
proof (induction es)
  case (Cons e es)
  show ?case
  proof (cases "l2addr e = zero_addr \<or> l2addr e = src")
    case True
    then show ?thesis using Cons.prems fdb_ok_zero [of es] by (auto simp: fdb_lookup_def)
  next
    case False
    with Cons register_addrs [of src port es] show ?thesis by (auto simp: fdb_lookup_def split: if_splits)
  qed
qed (simp add: fdb_lookup_def)

text \<open>
  C21: Learning keeps the forwarding database well formed: free entries stay behind the used ones
  and no address is entered twice, after one packet and after any sequence of them. The source address of a packet is afterwards known at the port
  it came in on, and every other address is known where it was, unless the table is full and
  the address is new; then nothing changes, since no entry is ever given up.
\<close>

theorem fdb_learns:
  assumes "fdb_ok es" "src \<noteq> zero_addr"
  shows "fdb_ok (register_fdb src port es) \<and> length (register_fdb src port es) = length es \<and>
    (\<forall>a. a \<noteq> zero_addr \<and> a \<noteq> src \<longrightarrow> fdb_lookup a (register_fdb src port es) = fdb_lookup a es) \<and>
    (if src \<in> l2addr ` set es \<or> zero_addr \<in> l2addr ` set es
     then fdb_lookup src (register_fdb src port es) = Some port else register_fdb src port es = es) \<and>
    fdb_ok (fold (\<lambda>(src, port). register_fdb src port) packets es)"
  using register_learns [OF assms, of port] learning.run_inv [OF assms(1)] by simp

theorem fdb_learns_witness:
  "fdb_lookup [2, 0, 0, 0, 0, 1] (register_fdb [2, 0, 0, 0, 0, 1] 3 (replicate 16 \<lparr>l2addr = zero_addr, fdb_port = 0\<rparr>)) = Some 3"
proof -
  have ok: "fdb_ok (replicate 16 \<lparr>l2addr = zero_addr, fdb_port = 0\<rparr>)" by (rule fdb_ok_zero) simp
  have nz: "[2, 0, 0, 0, 0, 1] \<noteq> zero_addr" by (simp add: zero_addr_def eval_nat_numeral)
  from fdb_learns [OF ok nz, of 3] show ?thesis by simp
qed

section \<open>Repeating\<close>

text \<open>The ports a packet is repeated to.\<close>

definition targets :: "nat \<Rightarrow> rib_info \<Rightarrow> nat \<Rightarrow> 'm repeater \<Rightarrow> nat list" where
  "targets nb_ports info rxp s = filter (\<lambda>p. p \<noteq> rxp \<and> link_status (port_link (rib_port info ! p)) \<and>
     (p, rp_lcore s) \<in> rp_tx_buffers s) [0..<nb_ports]"

lemma repeat_run:
  assumes "\<forall>p\<in>set ps. p < length (rib_port info) \<and> p < RTE_MAX_ETHPORTS" "rp_lcore s < RTE_MAX_LCORE"
  shows "runr (repeat_to b info m rxp) ps s =
    (let ts = filter (\<lambda>p. p \<noteq> rxp \<and> link_status (port_link (rib_port info ! p)) \<and> (p, rp_lcore s) \<in> rp_tx_buffers s) ps
     in Inr (case mb_copy b m of
         Some c \<Rightarrow> rp_log (map (\<lambda>p. Rep_sent p c) ts) s
       | None \<Rightarrow> s\<lparr>l2_repeat_pkt_copy_failure := l2_repeat_pkt_copy_failure s + of_nat (length ts)\<rparr>))"
  using assms
proof (induction ps arbitrary: s)
  case (Cons p ps)
  then show ?case
    by (auto simp: repeat_to_def Let_def rp_log_def split: option.split)
qed (simp add: rp_log_def Let_def split: option.split)

text \<open>
  C20: A packet is repeated to exactly the other ports whose link is up and that have a transmit
  buffer for this lcore, one copy each, in port order, and the received buffer is freed once after
  that. When copies fail nothing is sent and the failure counter counts every missed port.
\<close>

theorem l2_repeat_floods:
  assumes "nb_ports \<le> length (rib_port info)" "nb_ports \<le> 32" "rp_lcore s < 128"
  shows "\<exists>s'. l2_repeat b nb_ports info m rxp s = Inr s' \<and>
    (case mb_copy b m of
       Some c \<Rightarrow> rp_events s' = rp_events s @ map (\<lambda>p. Rep_sent p c) (targets nb_ports info rxp s) @ [Rep_freed m] \<and>
         l2_repeat_pkt_copy_failure s' = l2_repeat_pkt_copy_failure s
     | None \<Rightarrow> rp_events s' = rp_events s @ [Rep_freed m] \<and>
         l2_repeat_pkt_copy_failure s' = l2_repeat_pkt_copy_failure s + of_nat (length (targets nb_ports info rxp s)))"
proof -
  have "\<forall>p\<in>set [0..<nb_ports]. p < length (rib_port info) \<and> p < RTE_MAX_ETHPORTS" "rp_lcore s < RTE_MAX_LCORE"
    using assms by (auto simp: RTE_MAX_ETHPORTS_def RTE_MAX_LCORE_def)
  from repeat_run [OF this, of b m rxp] show ?thesis
    by (cases "mb_copy b m") (simp_all add: l2_repeat_def targets_def Let_def rp_log_def)
qed

theorem l2_repeat_floods_witness:
  "\<exists>s'. l2_repeat sample_mbufs 2 (zero_rib_info\<lparr>rib_port := [zero_port,
      zero_port\<lparr>port_link := \<lparr>link_speed = 0, link_duplex = True, link_autoneg = True, link_status = True\<rparr>\<rparr>]\<rparr>)
      \<lparr>head = [], used = 1, body = [9]\<rparr> 0
      \<lparr>rp_lcore = 0, rp_rib = None, rp_tx_buffers = {(0, 0), (1, 0)}, rp_rings = {}, l2_repeat_pkt_copy_failure = 0,
       rp_events = []\<rparr> = Inr s' \<and>
    rp_events s' = [Rep_sent 1 \<lparr>head = [], used = 1, body = [9]\<rparr>, Rep_freed \<lparr>head = [], used = 1, body = [9]\<rparr>]"
  (is "\<exists>s'. l2_repeat _ _ ?i ?m _ ?s = _ \<and> _")
proof -
  have "targets 2 ?i 0 ?s = [1]"
    by (simp add: targets_def zero_port_def numeral_2_eq_2)
  moreover have "mb_copy sample_mbufs ?m = Some ?m" by (simp add: sample_mbufs_def)
  ultimately show ?thesis using l2_repeat_floods [of 2 ?i ?s sample_mbufs ?m 0] by auto
qed

end
