(* ===== verification/Thread_Info.thy ===== *)
theory Thread_Info
  imports Libc
begin

text \<open>
  The registry of threads, \<open>sdplane/thread_info.c\<close>, and the sampling of their loop counters by
  \<open>sdplane/stat_collector.c\<close>. A thread's function, handle and argument are pointers, values of
  the types \<open>'f\<close>, \<open>'l\<close> and \<open>'a\<close>; a loop counter is a pointer of type \<open>'p\<close>. The lock makes each
  operation one step.
\<close>

definition THREAD_INFO_LIMIT :: nat where "THREAD_INFO_LIMIT = 16"

record ('f, 'l, 'a) thread_info =
  ti_lcore_id :: int
  ti_lthread :: "'l option"
  ti_func :: "'f option"
  ti_name :: "string option"
  ti_arg :: "'a option"

record 'p thread_counter =
  loop_counter_ptr :: "'p option"
  current :: u64
  prev :: u64
  persec :: u64

record ('f, 'l, 'a, 'p) registry =
  thread_info_size :: nat
  threads :: "('f, 'l, 'a) thread_info list"
  thread_counters :: "'p thread_counter list"

definition no_thread :: "('f, 'l, 'a) thread_info" where
  "no_thread = \<lparr>ti_lcore_id = 0, ti_lthread = None, ti_func = None, ti_name = None, ti_arg = None\<rparr>"

definition thread_info_init :: "('f, 'l, 'a, 'p) registry \<Rightarrow> ('f, 'l, 'a, 'p) registry" where
  "thread_info_init s = s\<lparr>threads := replicate THREAD_INFO_LIMIT no_thread\<rparr>"

text \<open>The first entry below \<open>thread_info_size\<close> without a function, or else one more, while there is room.\<close>

fun first_free :: "nat \<Rightarrow> ('f, 'l, 'a) thread_info list \<Rightarrow> nat" where
  "first_free i [] = i"
| "first_free i (t # ts) = (if ti_func t = None then i else first_free (Suc i) ts)"

definition thread_register ::
  "int \<Rightarrow> 'l option \<Rightarrow> 'f option \<Rightarrow> string option \<Rightarrow> 'a option \<Rightarrow> ('f, 'l, 'a, 'p) registry \<Rightarrow> int \<times> ('f, 'l, 'a, 'p) registry" where
  "thread_register lcore lthread func name arg s =
    (let i = first_free 0 (take (thread_info_size s) (threads s));
         new = \<lparr>ti_lcore_id = lcore, ti_lthread = lthread, ti_func = func, ti_name = name, ti_arg = arg\<rparr>
     in if i < thread_info_size s then (int i, s\<lparr>threads := (threads s)[i := new]\<rparr>)
        else if thread_info_size s < THREAD_INFO_LIMIT
        then (int (thread_info_size s),
              s\<lparr>threads := (threads s)[thread_info_size s := new], thread_info_size := thread_info_size s + 1\<rparr>)
        else (-1, s))"

definition thread_unregister :: "int \<Rightarrow> ('f, 'l, 'a, 'p) registry \<Rightarrow> ('f, 'l, 'a, 'p) registry res" where
  "thread_unregister i s =
    guardr (0 \<le> i \<and> i < int THREAD_INFO_LIMIT) OutOfBounds
      (Inr (s\<lparr>threads := (threads s)[nat i :=
         \<lparr>ti_lcore_id = -1, ti_lthread = None, ti_func = None, ti_name = None, ti_arg = None\<rparr>]\<rparr>))"

definition thread_register_loop_counter :: "int \<Rightarrow> 'p \<Rightarrow> ('f, 'l, 'a, 'p) registry \<Rightarrow> ('f, 'l, 'a, 'p) registry" where
  "thread_register_loop_counter i p s =
    (if i < 0 \<or> int THREAD_INFO_LIMIT \<le> i then s
     else s\<lparr>thread_counters := (thread_counters s)[nat i := (thread_counters s ! nat i)\<lparr>loop_counter_ptr := Some p\<rparr>]\<rparr>)"

definition thread_unregister_loop_counter :: "int \<Rightarrow> ('f, 'l, 'a, 'p) registry \<Rightarrow> ('f, 'l, 'a, 'p) registry" where
  "thread_unregister_loop_counter i s =
    (if i < 0 \<or> int THREAD_INFO_LIMIT \<le> i then s
     else s\<lparr>thread_counters := (thread_counters s)[nat i := (thread_counters s ! nat i)\<lparr>loop_counter_ptr := None\<rparr>]\<rparr>)"

text \<open>Both lookups run over the whole table and keep the last match.\<close>

definition last_index :: "(('f, 'l, 'a) thread_info \<Rightarrow> bool) \<Rightarrow> ('f, 'l, 'a, 'p) registry \<Rightarrow> int" where
  "last_index P s = fold (\<lambda>i ret. if P (threads s ! i) then int i else ret) [0..<thread_info_size s] (-1)"

definition thread_lookup :: "'f \<Rightarrow> ('f, 'l, 'a, 'p) registry \<Rightarrow> int" where
  "thread_lookup func s = last_index (\<lambda>t. ti_func t = Some func) s"

definition thread_lookup_by_lcore :: "'f \<Rightarrow> int \<Rightarrow> ('f, 'l, 'a, 'p) registry \<Rightarrow> int" where
  "thread_lookup_by_lcore func lcore s = last_index (\<lambda>t. ti_func t = Some func \<and> ti_lcore_id t = lcore) s"

definition lthread_cancel_all :: "('f, 'l, 'a, 'p) registry \<Rightarrow> 'l list" where
  "lthread_cancel_all s = concat (map (\<lambda>t. case ti_lthread t of None \<Rightarrow> [] | Some l \<Rightarrow> [l])
     (take (thread_info_size s) (threads s)))"

section \<open>Display\<close>

definition pad_left :: "nat \<Rightarrow> string \<Rightarrow> string" where
  "pad_left n s = s @ replicate (n - length s) (CHR '' '')"

definition pad_right :: "nat \<Rightarrow> string \<Rightarrow> string" where
  "pad_right n s = replicate (n - length s) (CHR '' '') @ s"

text \<open>
  \<open>grouped\<close> prints a number with the separators of the locale; a missing name is printed as \<open>(null)\<close>.
  A line is cut to the 255 characters of its buffer.
\<close>

definition show_thread_line :: "(nat \<Rightarrow> string) \<Rightarrow> nat \<Rightarrow> ('f, 'l, 'a) thread_info \<Rightarrow> 'p thread_counter \<Rightarrow> string" where
  "show_thread_line grouped i t c =
    take 255 (pad_left 4 (dec i) @ '' '' @ pad_left 4 (dec_int (ti_lcore_id t)) @ '' '' @
      pad_left 7 (if ti_lthread t \<noteq> None then ''lthread'' else ''dpdk'') @ '' '' @
      pad_left 16 (case ti_name t of None \<Rightarrow> ''(null)'' | Some n \<Rightarrow> n) @ '' '' @
      pad_right 10 (grouped (unat (persec c))) @ '' '' @ pad_right 18 (grouped (unat (current c))))"

definition show_thread :: "(nat \<Rightarrow> string) \<Rightarrow> ('f, 'l, 'a, 'p) registry \<Rightarrow> string list" where
  "show_thread grouped s =
    [''thread size: '' @ dec (thread_info_size s),
     pad_left 4 ''id'' @ '' '' @ pad_left 4 ''core'' @ '' '' @ pad_left 7 ''type'' @ '' '' @ pad_left 16 ''func'' @ '' '' @
       pad_left 10 ''loop/sec'' @ '' '' @ pad_left 18 ''#loops''] @
    map (\<lambda>i. show_thread_line grouped i (threads s ! i) (thread_counters s ! i)) [0..<thread_info_size s]"

section \<open>Sampling\<close>

record eth_stats =
  ipackets :: u64
  opackets :: u64
  ibytes :: u64
  obytes :: u64
  ierrors :: u64
  oerrors :: u64

text \<open>The other fields of the DPDK structure stay zero in the per-second copy.\<close>

definition rte_eth_stats_per_sec :: "eth_stats \<Rightarrow> eth_stats \<Rightarrow> eth_stats" where
  "rte_eth_stats_per_sec cur prv = \<lparr>ipackets = ipackets cur - ipackets prv, opackets = opackets cur - opackets prv,
     ibytes = ibytes cur - ibytes prv, obytes = obytes cur - obytes prv,
     ierrors = ierrors cur - ierrors prv, oerrors = oerrors cur - oerrors prv\<rparr>"

record port_stats =
  stats_prev :: "eth_stats list"
  stats_current :: "eth_stats list"
  stats_per_sec :: "eth_stats list"

definition collect_ports :: "(nat \<Rightarrow> eth_stats) \<Rightarrow> nat \<Rightarrow> port_stats \<Rightarrow> port_stats res" where
  "collect_ports stats_get nb_ports s =
    guardr (nb_ports \<le> length (stats_current s)) OutOfBounds
      (let s = s\<lparr>stats_prev := take nb_ports (stats_current s) @ drop nb_ports (stats_prev s)\<rparr>;
           s = s\<lparr>stats_current := map stats_get [0..<nb_ports] @ drop nb_ports (stats_current s)\<rparr>
       in Inr (s\<lparr>stats_per_sec := map (\<lambda>i. rte_eth_stats_per_sec (stats_current s ! i) (stats_prev s ! i)) [0..<nb_ports] @
            drop nb_ports (stats_per_sec s)\<rparr>))"

text \<open>\<open>read\<close> is what the counter's memory holds at the time of the sample.\<close>

definition sample_counter :: "('p \<Rightarrow> u64) \<Rightarrow> 'p thread_counter \<Rightarrow> 'p thread_counter" where
  "sample_counter read tc = (case loop_counter_ptr tc of None \<Rightarrow> tc
     | Some p \<Rightarrow> tc\<lparr>prev := current tc, current := read p, persec := read p - current tc\<rparr>)"

definition collect_counters :: "('p \<Rightarrow> u64) \<Rightarrow> ('f, 'l, 'a, 'p) registry \<Rightarrow> ('f, 'l, 'a, 'p) registry" where
  "collect_counters read s = s\<lparr>thread_counters := map (sample_counter read) (thread_counters s)\<rparr>"

definition stat_collector_turn ::
  "(nat \<Rightarrow> eth_stats) \<Rightarrow> nat \<Rightarrow> ('p \<Rightarrow> u64) \<Rightarrow> port_stats \<times> ('f, 'l, 'a, 'p) registry \<Rightarrow>
   (port_stats \<times> ('f, 'l, 'a, 'p) registry) res" where
  "stat_collector_turn stats_get nb_ports read = (\<lambda>(ps, s).
    bindr (collect_ports stats_get nb_ports ps) (\<lambda>ps. Inr (ps, collect_counters read s)))"

section \<open>A terminal session\<close>

text \<open>
  What a session of \<open>vty_shell\<close> does with the registry: it registers itself and its counter when it
  starts and takes both back when it ends, with the id it was given.
\<close>

definition session_start ::
  "int \<Rightarrow> 'l \<Rightarrow> 'f \<Rightarrow> string \<Rightarrow> 'p \<Rightarrow> ('f, 'l, 'a, 'p) registry \<Rightarrow> int \<times> ('f, 'l, 'a, 'p) registry" where
  "session_start lcore lt func name counter s =
    (let (i, s) = thread_register lcore (Some lt) (Some func) (Some name) None s in (i, thread_register_loop_counter i counter s))"

definition session_end :: "int \<Rightarrow> ('f, 'l, 'a, 'p) registry \<Rightarrow> ('f, 'l, 'a, 'p) registry res" where
  "session_end i s = thread_unregister i (thread_unregister_loop_counter i s)"

section \<open>The registry across a session\<close>

definition registry_ok :: "('f, 'l, 'a, 'p) registry \<Rightarrow> bool" where
  "registry_ok s \<longleftrightarrow> thread_info_size s \<le> THREAD_INFO_LIMIT \<and> length (threads s) = THREAD_INFO_LIMIT \<and>
     length (thread_counters s) = THREAD_INFO_LIMIT"

text \<open>The threads that are registered, with their ids.\<close>

definition live :: "('f, 'l, 'a, 'p) registry \<Rightarrow> (nat \<times> ('f, 'l, 'a) thread_info) set" where
  "live s = {(i, t). i < thread_info_size s \<and> threads s ! i = t \<and> ti_func t \<noteq> None}"

lemma first_free_spec:
  "k \<le> first_free k ts \<and> first_free k ts \<le> k + length ts \<and>
   (\<forall>j. k \<le> j \<and> j < first_free k ts \<longrightarrow> ti_func (ts ! (j - k)) \<noteq> None) \<and>
   (first_free k ts < k + length ts \<longrightarrow> ti_func (ts ! (first_free k ts - k)) = None)"
proof (induction ts arbitrary: k)
  case (Cons t ts)
  show ?case
  proof (cases "ti_func t = None")
    case False
    note IH = Cons.IH [of "Suc k"]
    have used: "ti_func ((t # ts) ! (j - k)) \<noteq> None" if "k \<le> j" "j < first_free (Suc k) ts" for j
    proof (cases "j = k")
      case True
      with False show ?thesis by simp
    next
      case j: False
      with that(1) have "j - k = Suc (j - Suc k)" "Suc k \<le> j" by simp_all
      with IH that(2) show ?thesis by simp
    qed
    have "Suc k \<le> first_free (Suc k) ts" using IH by simp
    then have eq: "first_free (Suc k) ts - k = Suc (first_free (Suc k) ts - Suc k)" by simp
    have "ti_func ((t # ts) ! (first_free (Suc k) ts - k)) = None" if "first_free (Suc k) ts < k + length (t # ts)"
      using IH that unfolding eq nth_Cons_Suc by simp
    moreover have "first_free k (t # ts) = first_free (Suc k) ts" using False by (cases "ti_func t") simp_all
    ultimately show ?thesis using IH used by simp
  qed simp
qed auto

lemma last_index_ge:
  assumes "i < thread_info_size s" "P (threads s ! i)"
  shows "int i \<le> last_index P s" "last_index P s < int (thread_info_size s)" "P (threads s ! nat (last_index P s))"
proof -
  have "i < n \<Longrightarrow> let r = fold (\<lambda>i ret. if P (threads s ! i) then int i else ret) [0..<n] (-1)
      in int i \<le> r \<and> r < int n \<and> P (threads s ! nat r)" for n
  proof (induction n)
    case (Suc n)
    then show ?case using assms(2) by (cases "i = n") (auto simp: Let_def less_Suc_eq)
  qed simp
  from this [OF assms(1)] show "int i \<le> last_index P s" "last_index P s < int (thread_info_size s)"
    "P (threads s ! nat (last_index P s))"
    by (simp_all add: last_index_def Let_def)
qed

lemma register_spec:
  assumes ok: "registry_ok s"
  obtains (full) "thread_info_size s = THREAD_INFO_LIMIT" "\<forall>t\<in>set (threads s). ti_func t \<noteq> None"
      "thread_register lcore lt func name arg s = (-1, s)"
  | (slot) i s' where "thread_register lcore lt func name arg s = (int i, s')" "i < THREAD_INFO_LIMIT"
      "i < thread_info_size s \<longrightarrow> ti_func (threads s ! i) = None" "i < thread_info_size s'"
      "\<not> (thread_info_size s = THREAD_INFO_LIMIT \<and> (\<forall>t\<in>set (threads s). ti_func t \<noteq> None))"
      "s' = s\<lparr>threads := (threads s)[i := \<lparr>ti_lcore_id = lcore, ti_lthread = lt, ti_func = func, ti_name = name,
         ti_arg = arg\<rparr>], thread_info_size := (if i < thread_info_size s then thread_info_size s else i + 1)\<rparr>"
      "i \<le> thread_info_size s"
proof -
  let ?n = "thread_info_size s"
  define i where "i = first_free 0 (take ?n (threads s))"
  have len: "length (take ?n (threads s)) = ?n" using ok by (simp add: registry_ok_def)
  note ff = first_free_spec [of 0 "take ?n (threads s)", folded i_def, unfolded len]
  have i: "i \<le> ?n" "i < ?n \<Longrightarrow> ti_func (threads s ! i) = None" using ff by simp_all
  have used: "ti_func (threads s ! j) \<noteq> None" if "j < i" for j
    using ff that i(1) by (metis add_0 diff_zero le0 nth_take order_less_le_trans)
  consider "i < ?n" | "i = ?n" "?n < THREAD_INFO_LIMIT" | "i = ?n" "?n = THREAD_INFO_LIMIT"
    using i(1) ok by (auto simp: registry_ok_def le_less)
  then show ?thesis
  proof cases
    case 1
    then have "threads s ! i \<in> set (threads s)" using ok by (simp add: registry_ok_def)
    with 1 i(2) ok show ?thesis
      by (intro slot [of i]) (auto simp: thread_register_def Let_def i_def [symmetric] registry_ok_def)
  next
    case 2
    then show ?thesis
      by (intro slot [of i]) (auto simp: thread_register_def Let_def i_def [symmetric])
  next
    case 3
    have "\<forall>t\<in>set (threads s). ti_func t \<noteq> None"
      using used 3 ok by (auto simp: registry_ok_def in_set_conv_nth)
    moreover have "thread_register lcore lt func name arg s = (-1, s)"
      unfolding thread_register_def Let_def i_def [symmetric] using 3 by simp
    ultimately show ?thesis using 3 by (intro full) simp_all
  qed
qed

text \<open>
  C17: A terminal session leaves the registry as it found it. Unless the table is full, the session
  gets a free id, its function can be looked up afterwards, no other entry changes, and when it ends the
  registered threads are again those from before. When all sixteen entries are
  in use the session runs unregistered, and its end writes in front of the table.
\<close>

theorem session_registry:
  assumes ok: "registry_ok s"
  shows "if thread_info_size s = 16 \<and> (\<forall>t\<in>set (threads s). ti_func t \<noteq> None)
    then session_start lcore lt func name counter s = (-1, s) \<and> session_end (-1) s = Inl OutOfBounds
    else \<exists>i s' s''. session_start lcore lt func name counter s = (int i, s') \<and> registry_ok s' \<and>
      (\<forall>j t. (j, t) \<in> live s \<longrightarrow> (j, t) \<in> live s' \<and> j \<noteq> i) \<and>
      int i \<le> thread_lookup func s' \<and> ti_func (threads s' ! nat (thread_lookup func s')) = Some func \<and>
      session_end (int i) s' = Inr s'' \<and> registry_ok s'' \<and> live s'' = live s"
proof -
  have L: "THREAD_INFO_LIMIT = 16" by (simp add: THREAD_INFO_LIMIT_def)
  show ?thesis
  proof (cases rule: register_spec [OF ok, of lcore "Some lt" "Some func" "Some name" None, case_names full slot])
    case full
    then show ?thesis
      by (simp add: session_start_def session_end_def thread_register_loop_counter_def
          thread_unregister_def L)
  next
    case (slot i s1)
    define s' where "s' = thread_register_loop_counter (int i) counter s1"
    have st: "session_start lcore lt func name counter s = (int i, s')"
      by (simp add: session_start_def slot(1) s'_def)
    have same: "threads s' = threads s1" "thread_info_size s' = thread_info_size s1"
      by (simp_all add: s'_def thread_register_loop_counter_def)
    have ok': "registry_ok s'"
      using ok slot(2,7) by (auto simp: registry_ok_def s'_def thread_register_loop_counter_def slot(6) L)
    have nth: "threads s1 ! j = (if j = i then \<lparr>ti_lcore_id = lcore, ti_lthread = Some lt, ti_func = Some func,
        ti_name = Some name, ti_arg = None\<rparr> else threads s ! j)" for j
      using ok slot(2) by (simp add: slot(6) registry_ok_def nth_list_update)
    have live': "(j, t) \<in> live s' \<and> j \<noteq> i" if "(j, t) \<in> live s" for j t
      using that slot(3,7) by (auto simp: live_def same nth) (simp_all add: slot(6))
    have P: "i < thread_info_size s'" "ti_func (threads s' ! i) = Some func"
      using slot(4) by (simp_all add: same nth)
    note lk = last_index_ge [where P = "\<lambda>t. ti_func t = Some func", OF P]
    define s'' where "s'' = (thread_unregister_loop_counter (int i) s')\<lparr>threads := (threads s')[i :=
         \<lparr>ti_lcore_id = -1, ti_lthread = None, ti_func = None, ti_name = None, ti_arg = None\<rparr>]\<rparr>"
    have "threads (thread_unregister_loop_counter (int i) s') = threads s'"
      by (simp add: thread_unregister_loop_counter_def)
    then have en: "session_end (int i) s' = Inr s''"
      using slot(2) by (simp add: session_end_def thread_unregister_def s''_def)
    have ok'': "registry_ok s''"
      using ok' by (simp add: s''_def registry_ok_def thread_unregister_loop_counter_def)
    have sz: "thread_info_size s'' = thread_info_size s1"
      by (simp add: s''_def thread_unregister_loop_counter_def same)
    have nth'': "threads s'' ! j = (if j = i then \<lparr>ti_lcore_id = -1, ti_lthread = None, ti_func = None, ti_name = None,
        ti_arg = None\<rparr> else threads s ! j)" for j
      using ok' slot(2) nth by (simp add: s''_def registry_ok_def nth_list_update same L)
    have "live s'' = live s"
      using slot(3,7) by (auto simp: live_def sz nth'') (auto simp: slot(6) split: if_splits)
    with st ok' live' lk(1,3) en ok'' slot(5) show ?thesis
      by (simp only: L if_False) (intro exI [of _ i] exI [of _ s'] exI [of _ s''], simp add: thread_lookup_def)
  qed
qed


definition sample_registry :: "nat \<Rightarrow> nat option \<Rightarrow> (nat, nat, nat, nat) registry" where
  "sample_registry n f = \<lparr>thread_info_size = n,
     threads = replicate 16 \<lparr>ti_lcore_id = 1, ti_lthread = Some 5, ti_func = f, ti_name = Some ''vty'', ti_arg = None\<rparr>,
     thread_counters = replicate 16 \<lparr>loop_counter_ptr = None, current = 0, prev = 0, persec = 0\<rparr>\<rparr>"

theorem session_registry_witness:
  "(\<exists>i s' s''. session_start 3 7 8 ''vty_shell'' 9 (sample_registry 0 None) = (int i, s') \<and> registry_ok s' \<and>
      int i \<le> thread_lookup 8 s' \<and> session_end (int i) s' = Inr s'' \<and> live s'' = {}) \<and>
   session_start 3 7 8 ''vty_shell'' 9 (sample_registry 16 (Some 4)) = (-1, sample_registry 16 (Some 4)) \<and>
   session_end (-1) (sample_registry 16 (Some 4)) = Inl OutOfBounds"
proof -
  have ok: "registry_ok (sample_registry 0 None)" "registry_ok (sample_registry 16 (Some 4))"
    by (simp_all add: registry_ok_def sample_registry_def THREAD_INFO_LIMIT_def)
  have e: "\<not> (thread_info_size (sample_registry 0 None) = 16 \<and> (\<forall>t\<in>set (threads (sample_registry 0 None)). ti_func t \<noteq> None))"
    "live (sample_registry 0 None) = {}"
    "thread_info_size (sample_registry 16 (Some 4)) = 16 \<and> (\<forall>t\<in>set (threads (sample_registry 16 (Some 4))). ti_func t \<noteq> None)"
    by (simp_all add: sample_registry_def live_def)
  note a = session_registry [OF ok(1), of 3 7 8 "''vty_shell''" 9, unfolded if_not_P [OF e(1)] e(2)]
  note b = session_registry [OF ok(2), of 3 7 8 "''vty_shell''" 9, unfolded if_P [OF e(3)]]
  from a have "\<exists>i s' s''. session_start 3 7 8 ''vty_shell'' 9 (sample_registry 0 None) = (int i, s') \<and> registry_ok s' \<and>
      int i \<le> thread_lookup 8 s' \<and> session_end (int i) s' = Inr s'' \<and> live s'' = {}" by blast
  with b show ?thesis by simp
qed

end
