(* ===== verification/Command.thy ===== *)
theory Command
  imports Libc
begin

text \<open>
  The command tree of \<open>lib/zcmdsh/command.c\<close>: installing commands, resolving the words of a
  line, running the function found, and completing a word; and \<open>path_disassemble\<close> of
  \<open>lib/zcmdsh/file.c\<close>.

  A node is an entry of a list of nodes and its address an index; node 0 is the root, whose
  \<open>cmdstr\<close> (\<open>NULL\<close> in the code) is not read. Strings are values, so \<open>cmdmem\<close> and \<open>helpmem\<close>, which
  keep them alive, have no counterpart. Memory is available: then filling, sorting and walking a
  vector are the list operations written here (see the theory Vector). A function is a value of type
  \<open>'f\<close>.
\<close>

section \<open>The tree\<close>

record 'f command_node =
  cmdstr :: string
  helpstr :: "string option"
  cmd_func :: "'f option"
  cmdvec :: "nat list"

type_synonym 'f command_set = "'f command_node list"

definition command_node_create :: "string \<Rightarrow> string option \<Rightarrow> 'f command_node" where
  "command_node_create s help = \<lparr>cmdstr = s, helpstr = help, cmd_func = None, cmdvec = []\<rparr>"

definition command_set_create :: "'f command_set" where
  "command_set_create = [command_node_create [] None]"

definition command_match_exact :: "'f command_set \<Rightarrow> nat \<Rightarrow> string \<Rightarrow> nat option" where
  "command_match_exact cs parent word =
    fold (\<lambda>n match. if cmdstr (cs ! n) = word then Some n else match) (cmdvec (cs ! parent)) None"

section \<open>Installing\<close>

text \<open>
  \<open>strsep\<close> yields the pieces of \<open>split_on\<close>, one per call. The comparison function given to \<open>qsort\<close>
  takes the pointers to the array's cells for nodes: it compares the addresses of the nodes byte by
  byte. The order it makes is therefore an argument, \<open>qsort\<close> on addresses.
\<close>

definition add_child ::
  "(nat list \<Rightarrow> nat list) \<Rightarrow> nat \<Rightarrow> string \<Rightarrow> string option \<Rightarrow> 'f command_set \<Rightarrow> 'f command_set" where
  "add_child qsort parent word help cs =
    cs[parent := (cs ! parent)\<lparr>cmdvec := qsort (cmdvec (cs ! parent) @ [length cs])\<rparr>] @ [command_node_create word help]"

definition find_or_add ::
  "(nat list \<Rightarrow> nat list) \<Rightarrow> nat \<Rightarrow> string \<Rightarrow> string option \<Rightarrow> 'f command_set \<Rightarrow> nat \<times> 'f command_set" where
  "find_or_add qsort parent word help cs =
    (case command_match_exact cs parent word of Some node \<Rightarrow> (node, cs)
     | None \<Rightarrow> (length cs, add_child qsort parent word help cs))"

definition pop :: "string list \<Rightarrow> string option \<times> string list" where
  "pop hs = (case hs of [] \<Rightarrow> (None, []) | h # hs \<Rightarrow> (Some h, hs))"

fun install_words ::
  "(nat list \<Rightarrow> nat list) \<Rightarrow> string list \<Rightarrow> nat \<Rightarrow> string list \<Rightarrow> 'f command_set \<Rightarrow> nat \<times> 'f command_set" where
  "install_words qsort [] parent hs cs = (parent, cs)"
| "install_words qsort (w # ws) parent hs cs =
    (let (help, hs) = pop hs; (node, cs) = find_or_add qsort parent w help cs
     in install_words qsort ws node hs cs)"

definition set_func :: "'f \<Rightarrow> nat \<Rightarrow> 'f command_set \<Rightarrow> 'f command_set" where
  "set_func f node cs = cs[node := (cs ! node)\<lparr>cmd_func := Some f\<rparr>]"

definition command_install ::
  "(nat list \<Rightarrow> nat list) \<Rightarrow> string \<Rightarrow> string \<Rightarrow> 'f \<Rightarrow> 'f command_set \<Rightarrow> 'f command_set" where
  "command_install qsort line help func cs =
    (let (node, cs) = install_words qsort (split_on (CHR '' '') line) 0 (split_on (CHR ''\<newline>'') help) cs
     in set_func func node cs)"

text \<open>The words between parentheses, separated by bars.\<close>

definition after_char :: "char \<Rightarrow> string \<Rightarrow> string" where
  "after_char c s = (if c \<in> set s then tl (dropWhile (\<lambda>x. x \<noteq> c) s) else s)"

definition alternatives :: "string \<Rightarrow> string list" where
  "alternatives word = split_on (CHR ''|'') (takeWhile (\<lambda>x. x \<noteq> CHR '')'') (after_char (CHR ''('') word))"

text \<open>\<open>vector_add\<close> asserts that the element is not in the vector yet.\<close>

definition push :: "nat \<Rightarrow> nat list \<Rightarrow> nat list res" where
  "push x xs = guardr (x \<notin> set xs) AssertFailed (Inr (xs @ [x]))"

fun install_below ::
  "(nat list \<Rightarrow> nat list) \<Rightarrow> string \<Rightarrow> string option \<Rightarrow> nat list \<Rightarrow> 'f command_set \<times> nat list \<Rightarrow>
   ('f command_set \<times> nat list) res" where
  "install_below qsort subword help [] (cs, next) = Inr (cs, next)"
| "install_below qsort subword help (parent # parents) (cs, next) =
    (if subword = []
     then bindr (push parent next) (\<lambda>next. install_below qsort subword help parents (cs, next))
     else let (node, cs) = find_or_add qsort parent subword help cs
          in bindr (push node next) (\<lambda>next. install_below qsort subword help parents (cs, next)))"

fun install_alternatives ::
  "(nat list \<Rightarrow> nat list) \<Rightarrow> nat list \<Rightarrow> string list \<Rightarrow> 'f command_set \<times> string list \<times> nat list \<Rightarrow>
   ('f command_set \<times> string list \<times> nat list) res" where
  "install_alternatives qsort parents [] (cs, hs, next) = Inr (cs, hs, next)"
| "install_alternatives qsort parents (subword # subwords) (cs, hs, next) =
    (let (help, hs) = (if subword = [] then (None, hs) else pop hs)
     in bindr (install_below qsort subword help parents (cs, next)) (\<lambda>(cs, next).
          install_alternatives qsort parents subwords (cs, hs, next)))"

fun install2_words ::
  "(nat list \<Rightarrow> nat list) \<Rightarrow> string list \<Rightarrow> nat list \<Rightarrow> 'f command_set \<times> string list \<Rightarrow>
   ('f command_set \<times> nat list) res" where
  "install2_words qsort [] parents (cs, hs) = Inr (cs, parents)"
| "install2_words qsort (w # ws) parents (cs, hs) =
    bindr (install_alternatives qsort parents (alternatives w) (cs, hs, [])) (\<lambda>(cs, hs, next).
      install2_words qsort ws next (cs, hs))"

definition command_install2 ::
  "(nat list \<Rightarrow> nat list) \<Rightarrow> string \<Rightarrow> string \<Rightarrow> 'f \<Rightarrow> 'f command_set \<Rightarrow> 'f command_set res" where
  "command_install2 qsort line help func cs =
    bindr (install2_words qsort (split_on (CHR '' '') line) [0] (cs, split_on (CHR ''\<newline>'') help)) (\<lambda>(cs, parents).
      Inr (fold (set_func func) parents cs))"

section \<open>Words that stand for values\<close>

text \<open>
  What the resolution asks of the system: reading a floating-point number (its value and what is
  left) and the order on them, what \<open>stat\<close> finds, the entries of a directory, and \<open>strftime\<close>
  (\<open>None\<close> for the result 0). Words are shorter than \<open>FILENAME_MAX\<close>.
\<close>

datatype file_kind = Missing | Unreadable | Directory | Regular | Special

record 'd system =
  strtod :: "string \<Rightarrow> 'd \<times> string"
  d_less :: "'d \<Rightarrow> 'd \<Rightarrow> bool"
  stat_of :: "string \<Rightarrow> file_kind"
  strftime :: "string \<Rightarrow> string option"
  readdir :: "string \<Rightarrow> string list option"

definition path_disassemble :: "string \<Rightarrow> string \<times> string" where
  "path_disassemble pathname =
    (let rest = dropWhile (\<lambda>x. x \<noteq> CHR ''/'') (rev pathname);
         filename = rev (takeWhile (\<lambda>x. x \<noteq> CHR ''/'') (rev pathname))
     in case rest of [] \<Rightarrow> (''.'', filename)
        | _ # dirname \<Rightarrow> (if dirname = [] then ''/'' else rev dirname, filename))"

definition strtol10 :: "string \<Rightarrow> u64 \<times> string" where
  "strtol10 s = (let (neg, s1) = sign (dropWhile c_isspace s); (n, rest) = digits 10 0 s1
     in if rest = s1 then (0, s)
        else (if neg then (if 2 ^ 63 < n then 2 ^ 63 else - of_nat n)
              else if 2 ^ 63 \<le> n then 2 ^ 63 - 1 else of_nat n, rest))"

definition ipv4_spec :: "string \<Rightarrow> bool" where "ipv4_spec spec \<longleftrightarrow> spec = ''A.B.C.D''"

definition ipv4_match :: "string \<Rightarrow> bool" where "ipv4_match word \<longleftrightarrow> inet_pton word \<noteq> None"

definition ipv4_prefix_spec :: "string \<Rightarrow> bool" where "ipv4_prefix_spec spec \<longleftrightarrow> spec = ''A.B.C.D/M''"

text \<open>The length is a \<open>long\<close> cut to an \<open>int\<close>.\<close>

definition ipv4_prefix_match :: "string \<Rightarrow> bool" where
  "ipv4_prefix_match word =
    (case dropWhile (\<lambda>x. x \<noteq> CHR ''/'') word of [] \<Rightarrow> False
     | _ # p \<Rightarrow>
       let (l, rest) = strtol10 p; len = sint (ucast l :: u32)
       in if rest \<noteq> [] then False
          else if len < 0 \<or> 32 < len then False
          else inet_pton (takeWhile (\<lambda>x. x \<noteq> CHR ''/'') word) \<noteq> None)"

definition MAX_RANGE_SPEC_STR :: nat where "MAX_RANGE_SPEC_STR = 10"

text \<open>The texts before and after the first hyphen; the last character of the specification is left out.\<close>

definition range_min :: "string \<Rightarrow> string" where
  "range_min spec = takeWhile (\<lambda>x. x \<noteq> CHR ''-'') (tl spec)"

definition range_max :: "string \<Rightarrow> string" where
  "range_max spec = butlast (tl (dropWhile (\<lambda>x. x \<noteq> CHR ''-'') spec))"

definition range_spec :: "'d system \<Rightarrow> string \<Rightarrow> bool" where
  "range_spec y spec =
    (if spec = [] \<or> hd spec \<noteq> CHR ''<'' then False
     else if CHR ''-'' \<notin> set spec then False
     else if MAX_RANGE_SPEC_STR < length (range_min spec) then False
     else if last spec \<noteq> CHR ''>'' then False
     else if MAX_RANGE_SPEC_STR < length (range_max spec) then False
     else if CHR ''.'' \<in> set (range_min spec) \<or> CHR ''.'' \<in> set (range_max spec)
     then (if snd (strtod y (range_min spec)) \<noteq> [] then False
           else if snd (strtod y (range_max spec)) \<noteq> [] then False
           else \<not> d_less y (fst (strtod y (range_max spec))) (fst (strtod y (range_min spec))))
     else (if snd (strtoul (range_min spec)) \<noteq> [] then False
           else if snd (strtoul (range_max spec)) \<noteq> [] then False
           else \<not> fst (strtoul (range_max spec)) < fst (strtoul (range_min spec))))"

definition range_match :: "'d system \<Rightarrow> string \<Rightarrow> string \<Rightarrow> bool" where
  "range_match y spec word =
    (if CHR ''.'' \<in> set (range_min spec) \<or> CHR ''.'' \<in> set (range_max spec)
     then (let (dval, rest) = strtod y word
           in if rest \<noteq> [] then False
              else \<not> (d_less y dval (fst (strtod y (range_min spec))) \<or> d_less y (fst (strtod y (range_max spec))) dval))
     else (let (val, rest) = strtoul word
           in if rest \<noteq> [] then False
              else \<not> (val < fst (strtoul (range_min spec)) \<or> fst (strtoul (range_max spec)) < val)))"

definition double_spec :: "string \<Rightarrow> bool" where
  "double_spec spec \<longleftrightarrow> spec = ''<[-]ddd.ddd>'' \<or> spec = ''<[-]d.ddde[+-]dd>''"

definition double_match :: "'d system \<Rightarrow> string \<Rightarrow> bool" where
  "double_match y word \<longleftrightarrow> snd (strtod y word) = []"

definition file_spec :: "string \<Rightarrow> bool" where
  "file_spec spec \<longleftrightarrow> spec = ''<FILENAME>'' \<or> spec = ''<FILE>''"

text \<open>The second \<open>stat\<close> is given the name without its directory.\<close>

definition file_match :: "'d system \<Rightarrow> string \<Rightarrow> bool" where
  "file_match y word =
    (let (dirname, filename) = path_disassemble word
     in if stat_of y dirname \<noteq> Missing \<and> stat_of y dirname \<noteq> Directory then False
        else case stat_of y filename of Regular \<Rightarrow> True | Directory \<Rightarrow> True | Special \<Rightarrow> False | _ \<Rightarrow> True)"

definition line_spec :: "string \<Rightarrow> bool" where "line_spec spec \<longleftrightarrow> spec = ''<LINE>''"

definition word_spec :: "string \<Rightarrow> bool" where "word_spec spec \<longleftrightarrow> spec = ''<WORD>''"

definition var_spec :: "string \<Rightarrow> bool" where "var_spec spec \<longleftrightarrow> spec = ''<VAR>''"

definition is_command_match_variable :: "'d system \<Rightarrow> string \<Rightarrow> string \<Rightarrow> bool" where
  "is_command_match_variable y spec word =
    (if ipv4_spec spec \<and> ipv4_match word then True
     else if ipv4_prefix_spec spec \<and> ipv4_prefix_match word then True
     else if range_spec y spec \<and> range_match y spec word then True
     else if double_spec spec \<and> double_match y word then True
     else if file_spec spec \<and> file_match y word then True
     else line_spec spec \<or> word_spec spec \<or> var_spec spec)"

definition is_command_match_regular :: "string \<Rightarrow> string \<Rightarrow> bool" where
  "is_command_match_regular spec word \<longleftrightarrow> take (length word) spec = word"

definition is_command_match :: "'d system \<Rightarrow> string \<Rightarrow> string \<Rightarrow> bool" where
  "is_command_match y spec word =
    (if is_command_match_variable y spec word then True else is_command_match_regular spec word)"

definition varmatch_pri :: "'d system \<Rightarrow> string \<Rightarrow> int" where
  "varmatch_pri y spec =
    (if ipv4_prefix_spec spec then 6 else if ipv4_spec spec then 5 else if range_spec y spec then 4
     else if double_spec spec then 3 else if file_spec spec then 2 else if var_spec spec then 1
     else if line_spec spec then 0 else -1)"

definition is_command_node_variable :: "'d system \<Rightarrow> 'f command_node \<Rightarrow> bool" where
  "is_command_node_variable y node \<longleftrightarrow> ipv4_spec (cmdstr node) \<or> range_spec y (cmdstr node) \<or>
     double_spec (cmdstr node) \<or> file_spec (cmdstr node) \<or> line_spec (cmdstr node) \<or> var_spec (cmdstr node)"

section \<open>Resolving a word\<close>

record matches =
  mt_match :: "nat option"
  mt_varmatch :: "nat option"
  mt_count :: nat
  mt_varcount :: nat

definition match_var :: "'d system \<Rightarrow> 'f command_set \<Rightarrow> string \<Rightarrow> nat \<Rightarrow> matches \<Rightarrow> matches" where
  "match_var y cs word node m =
    (if is_command_match_variable y (cmdstr (cs ! node)) word
     then m\<lparr>mt_match := Some node,
            mt_varmatch := (case mt_varmatch m of None \<Rightarrow> Some node
              | Some v \<Rightarrow> if varmatch_pri y (cmdstr (cs ! v)) < varmatch_pri y (cmdstr (cs ! node)) then Some node else Some v),
            mt_varcount := mt_varcount m + 1, mt_count := mt_count m + 1\<rparr>
     else m)"

definition match_reg :: "'f command_set \<Rightarrow> string \<Rightarrow> nat \<Rightarrow> matches \<Rightarrow> matches" where
  "match_reg cs word node m =
    (if is_command_match_regular (cmdstr (cs ! node)) word
     then m\<lparr>mt_match := Some node, mt_count := mt_count m + 1\<rparr> else m)"

definition command_match_unique :: "'d system \<Rightarrow> 'f command_set \<Rightarrow> nat \<Rightarrow> string \<Rightarrow> nat option" where
  "command_match_unique y cs parent word =
    (let m = fold (\<lambda>node m. match_reg cs word node (match_var y cs word node m)) (cmdvec (cs ! parent))
           \<lparr>mt_match = None, mt_varmatch = None, mt_count = 0, mt_varcount = 0\<rparr>
     in if mt_match m = None then None
        else if mt_varcount m = mt_count m then mt_varmatch m
        else if mt_count m = 1 then mt_match m
        else None)"

definition command_match_unique_exact :: "'d system \<Rightarrow> 'f command_set \<Rightarrow> nat \<Rightarrow> string \<Rightarrow> nat option" where
  "command_match_unique_exact y cs parent word =
    (case command_match_unique y cs parent word of Some m \<Rightarrow> Some m | None \<Rightarrow> command_match_exact cs parent word)"

section \<open>Running a line\<close>

fun starts_with :: "string \<Rightarrow> string \<Rightarrow> bool" where
  "starts_with s w \<longleftrightarrow> take (length w) s = w"

text \<open>The string from the first occurrence of the word on.\<close>

fun strstr :: "string \<Rightarrow> string \<Rightarrow> string option" where
  "strstr [] w = (if w = [] then Some [] else None)"
| "strstr (c # s) w = (if starts_with (c # s) w then Some (c # s) else strstr s w)"

definition file_replace :: "'d system \<Rightarrow> string \<Rightarrow> string" where
  "file_replace y word =
    (if CHR ''%'' \<notin> set word then word else case strftime y word of None \<Rightarrow> word | Some s \<Rightarrow> s)"

definition command_replace :: "'d system \<Rightarrow> string \<Rightarrow> string \<Rightarrow> string" where
  "command_replace y spec word = (if file_spec spec then file_replace y word else word)"

definition takes_rest :: "string \<Rightarrow> bool" where
  "takes_rest spec \<longleftrightarrow> line_spec spec \<or> file_spec spec"

text \<open>
  The loop of \<open>command_execute\<close>: the last node matched and the arguments. The first argument
  of \<open>execute_words\<close> is the whole line.
\<close>

fun execute_words ::
  "'d system \<Rightarrow> 'f command_set \<Rightarrow> string \<Rightarrow> string list \<Rightarrow> nat \<Rightarrow> nat option \<Rightarrow> string option list \<Rightarrow>
   nat option \<times> string option list" where
  "execute_words y cs line [] parent match argv = (match, argv)"
| "execute_words y cs line (word # words) parent match argv =
    (if word = [] then (match, argv)
     else case command_match_unique_exact y cs parent word of
         None \<Rightarrow> (None, argv)
       | Some m \<Rightarrow>
           if takes_rest (cmdstr (cs ! m)) then (Some m, argv @ [strstr line word])
           else execute_words y cs line words m (Some m) (argv @ [Some (command_replace y (cmdstr (cs ! m)) word)]))"

text \<open>The function that is called and its arguments; \<open>None\<close> is the result -1.\<close>

definition command_execute :: "'d system \<Rightarrow> string \<Rightarrow> 'f command_set \<Rightarrow> ('f \<times> string option list) option" where
  "command_execute y line cs =
    (case execute_words y cs line (split_on (CHR '' '') line) 0 None [] of
       (None, argv) \<Rightarrow> None
     | (Some m, argv) \<Rightarrow> map_option (\<lambda>f. (f, argv)) (cmd_func (cs ! m)))"

fun match_words :: "'d system \<Rightarrow> 'f command_set \<Rightarrow> string list \<Rightarrow> nat \<Rightarrow> nat option \<Rightarrow> nat option" where
  "match_words y cs [] parent match = match"
| "match_words y cs (word # words) parent match =
    (if word = [] then match
     else case command_match_unique_exact y cs parent word of
         None \<Rightarrow> None
       | Some m \<Rightarrow> if takes_rest (cmdstr (cs ! m)) then Some m else match_words y cs words m (Some m))"

definition command_match_node :: "'d system \<Rightarrow> string \<Rightarrow> 'f command_set \<Rightarrow> nat option" where
  "command_match_node y line cs = match_words y cs (split_on (CHR '' '') line) 0 (Some 0)"

section \<open>Completing a word\<close>

text \<open>
  \<open>strcommon\<close> ends the destination at the first difference, which ends the loop; a source that is
  shorter differs at its terminating zero.
\<close>

fun strcommon :: "string \<Rightarrow> string \<Rightarrow> string" where
  "strcommon (d # dest) (s # src) = (if d \<noteq> s then [] else d # strcommon dest src)"
| "strcommon [] src = []"
| "strcommon (d # dest) [] = []"

text \<open>
  The buffers have 64 bytes, and \<open>strncpy\<close> leaves a name of 64 characters or more without its end,
  which is a fault when it is read. So is the position of the word's end outside the buffer.
\<close>

definition complete_common :: "string list \<Rightarrow> string \<Rightarrow> string res" where
  "complete_common names word =
    guardr (length word < 64) OutOfBounds
      (case filter (\<lambda>n. starts_with n word) names of
         [] \<Rightarrow> Inr []
       | n # ns \<Rightarrow> guardr (length n < 64) OutOfBounds (Inr (drop (length word) (fold (\<lambda>s d. strcommon d s) ns n))))"

definition command_complete_common :: "'d system \<Rightarrow> 'f command_set \<Rightarrow> string \<Rightarrow> nat \<Rightarrow> string res" where
  "command_complete_common y cs word parent =
    complete_common (map (\<lambda>n. cmdstr (cs ! n))
      (filter (\<lambda>n. \<not> is_command_node_variable y (cs ! n)) (cmdvec (cs ! parent)))) word"

definition file_complete :: "'d system \<Rightarrow> string \<Rightarrow> string option" where
  "file_complete y word =
    (let (dirname, filename) = path_disassemble word
     in case readdir y dirname of None \<Rightarrow> None
        | Some entries \<Rightarrow>
          (case filter (\<lambda>e. starts_with e filename) entries of
             [] \<Rightarrow> Some []
           | [e] \<Rightarrow>
             let path = (if dirname = ''/'' then ''/'' @ e else dirname @ ''/'' @ e)
             in Some (drop (length filename) e @ (if stat_of y path = Directory then ''/'' else []))
           | e # es \<Rightarrow> Some (drop (length filename) (fold (\<lambda>s d. strcommon d s) es e))))"

text \<open>The node, the word it matched, the word that did not match, and the node it was looked up under.\<close>

fun complete_words ::
  "'d system \<Rightarrow> 'f command_set \<Rightarrow> string list \<Rightarrow> nat \<Rightarrow> nat option \<Rightarrow> string \<Rightarrow> nat option \<times> string \<times> string \<times> nat" where
  "complete_words y cs [] parent match matched = (match, matched, [], parent)"
| "complete_words y cs (word # words) parent match matched =
    (case command_match_unique_exact y cs parent word of
       None \<Rightarrow> (None, matched, word, parent)
     | Some m \<Rightarrow> complete_words y cs words m (Some m) word)"

text \<open>
  \<open>snprintf\<close> keeps 63 characters. The text of the node after the length of the word is outside the
  string when the word is longer, which can be the case for a word that matched as a value.
\<close>

definition command_complete :: "'d system \<Rightarrow> string \<Rightarrow> nat \<Rightarrow> 'f command_set \<Rightarrow> string res" where
  "command_complete y line point cs =
    (let (match, matched, word, parent) = complete_words y cs (split_on (CHR '' '') (take point line)) 0 None []
     in case match of
          None \<Rightarrow> bindr (command_complete_common y cs word parent) (\<lambda>s. Inr (take 63 s))
        | Some m \<Rightarrow>
          let spec = cmdstr (cs ! m);
              buf = (if file_spec spec then (case file_complete y matched of None \<Rightarrow> [] | Some s \<Rightarrow> take 63 s) else [])
          in if is_command_node_variable y (cs ! m) then Inr buf
             else guardr (length matched \<le> length spec) OutOfBounds (Inr (take 63 (drop (length matched) spec @ '' ''))))"

section \<open>Lines of a configuration\<close>

text \<open>
  \<open>command_config_add\<close>: each \<open>snprintf\<close> returns the length it would have written; once that passes
  the buffer, the size left is negative and the next one may write anywhere behind it.
\<close>

fun config_args :: "string list \<Rightarrow> string \<Rightarrow> nat \<Rightarrow> string res" where
  "config_args [] buf len = Inr buf"
| "config_args (a # argv) buf len =
    guardr (len \<le> 128) BufferOverflow (config_args argv (take 127 (buf @ '' '' @ a)) (len + 1 + length a))"

definition command_config_add :: "string list \<Rightarrow> string list \<Rightarrow> string list res" where
  "command_config_add config argv =
    bindr (case argv of [] \<Rightarrow> Inl NullDeref
           | a # argv \<Rightarrow> config_args argv (take 127 (''  '' @ a)) (2 + length a)) (\<lambda>line. Inr (config @ [line]))"

definition command_config_write :: "string list \<Rightarrow> string" where
  "command_config_write config = concat (map (\<lambda>l. l @ [CHR ''\<newline>'']) config)"

end
