(* ===== verification/Cli_Args.thy ===== *)
theory Cli_Args
  imports Command
begin

text \<open>
  The numbers that the commands of the program take from their words. The command line accepts a
  word for \<open><0-16>\<close> that \<open>strtoul\<close> reads as a number in the range, and also any beginning of the
  text \<open><0-16>\<close> itself; the handlers then read the word again, with \<open>strtol\<close>. Here is what they get.
\<close>

text \<open>\<open>strtol (word, NULL, 0)\<close>, a \<open>long\<close>, stored in an \<open>int\<close>.\<close>

definition int_arg :: "string \<Rightarrow> int" where
  "int_arg word = sint (ucast (fst (strtol word)) :: u32)"

lemma int_arg_range:
  assumes "fst (strtoul w) \<le> of_nat k" "k < 2 ^ 31"
  shows "0 \<le> int_arg w \<and> int_arg w \<le> int k"
proof -
  obtain neg n rest where s: "scan w = (neg, n, rest)" by (cases "scan w") auto
  have u: "fst (strtoul w) = (if 2 ^ 64 \<le> n then - 1 else if neg then - of_nat n else of_nat n)"
    and l: "fst (strtol w) = (if neg then (if 2 ^ 63 < n then 2 ^ 63 else - of_nat n)
      else if 2 ^ 63 \<le> n then 2 ^ 63 - 1 else of_nat n)"
    by (simp_all add: strtoul_def strtol_def s)
  have k: "unat (of_nat k :: u64) = k" using assms(2) by (simp add: unat_of_nat)
  have le: "unat (fst (strtoul w)) \<le> k" using assms(1) unfolding word_le_nat_alt k .
  have "unat (- 1 :: u64) = 2 ^ 64 - 1" by (simp add: unsigned_minus_1_eq_mask mask_eq_exp_minus_1)
  then have n: "n < 2 ^ 64" using le assms(2) by (simp add: u split: if_splits)
  then have un: "unat (of_nat n :: u64) = n" by (simp add: unat_of_nat)
  show ?thesis
  proof (cases neg)
    case False
    then have nk: "n \<le> k" using le n by (simp add: u un)
    have "uint (of_nat n :: u32) = int n" using nk assms(2) by (simp add: uint_nat unat_of_nat)
    moreover have "sint (of_nat n :: u32) = int n"
      using nk assms(2) calculation by (simp add: sint_uint signed_take_bit_int_eq_self)
    moreover have "(ucast (of_nat n :: u64) :: u32) = of_nat n"
      using n by (simp add: unsigned_of_nat take_bit_nat_eq_self)
    ultimately have "int_arg w = int n" using False nk assms(2) by (simp add: int_arg_def l)
    then show ?thesis using nk by simp
  next
    case True
    have "n = 0 \<or> 2 ^ 63 < n"
    proof -
      let ?m = "unat (- of_nat n :: u64)"
      have "?m \<le> k" using le True n by (simp add: u)
      moreover have "of_nat (n + ?m) = (0 :: u64)" by simp
      then have "2 ^ 64 dvd n + ?m" unfolding word_of_nat_eq_0_iff by simp
      then have "n + ?m = 0 \<or> 2 ^ 64 \<le> n + ?m" by (auto dest: dvd_imp_le)
      ultimately show ?thesis using assms(2) by auto
    qed
    then show ?thesis using True by (auto simp: int_arg_def l)
  qed
qed

lemma prefix_cases: "take (length w) s = w \<Longrightarrow> w \<in> set (map (\<lambda>n. take n s) [0..<Suc (length s)])"
proof (cases "length w < length s")
  case True
  assume "take (length w) s = w"
  with True show ?thesis by (auto intro!: rev_image_eqI [of "length w"])
qed auto

lemma accepted_range:
  assumes "is_command_match y ''<0-16>'' w"
  shows "0 \<le> int_arg w \<and> int_arg w \<le> 16"
proof -
  have "range_match y ''<0-16>'' w" if "is_command_match_variable y ''<0-16>'' w"
    using that by (simp add: is_command_match_variable_def ipv4_spec_def ipv4_prefix_spec_def double_spec_def file_spec_def
        line_spec_def word_spec_def var_spec_def split: if_splits)
  moreover have "fst (strtoul w) \<le> 16" if "range_match y ''<0-16>'' w"
  proof -
    have "strtoul ''16'' = (16, [])" "strtoul ''0'' = (0, [])"
      by (simp_all add: strtoul_def scan_def sign_def base_of_def digit_val_def code_def c_isspace_def)
    moreover have "range_min ''<0-16>'' = ''0''" "range_max ''<0-16>'' = ''16''"
      by (simp_all add: range_min_def range_max_def)
    ultimately have "\<not> 16 < fst (strtoul w)"
      using that by (simp add: range_match_def case_prod_beta Let_def split: if_splits)
    then show ?thesis by simp
  qed
  moreover have "0 \<le> int_arg w \<and> int_arg w \<le> 16" if "fst (strtoul w) \<le> 16"
    using int_arg_range [of w 16] that by simp
  moreover have "int_arg w = 0" if "is_command_match_regular ''<0-16>'' w"
    using prefix_cases [OF that [unfolded is_command_match_regular_def]]
    by (auto simp: int_arg_def strtol_def scan_def sign_def base_of_def digit_val_def code_def c_isspace_def upt_rec)
  ultimately show ?thesis using assms by (auto simp: is_command_match_def split: if_splits)
qed

lemma accepted_all:
  assumes "is_command_match y ''all'' w" "w \<noteq> ''all''"
  shows "int_arg w = 0"
proof -
  have "\<not> is_command_match_variable y ''all'' w"
    by (simp add: is_command_match_variable_def ipv4_spec_def ipv4_prefix_spec_def double_spec_def file_spec_def
        line_spec_def word_spec_def var_spec_def range_spec_def)
  with assms have "take (length w) ''all'' = w" by (simp add: is_command_match_def is_command_match_regular_def)
  from prefix_cases [OF this] assms(2) show ?thesis
    by (auto simp: int_arg_def strtol_def scan_def sign_def base_of_def digit_val_def code_def c_isspace_def upt_rec)
qed

end
