(* ===== verification/Workers.thy ===== *)
theory Workers
  imports Thread_Info Queue_Config Cli_Args
begin

text \<open>
  The worker of each lcore: \<open>sdplane/dpdk_lcore_cmd.c\<close>, the start of the program in
  \<open>sdplane/main.c\<close>, \<open>sdplane/lthread_main.c\<close> and \<open>sdplane_init\<close> of \<open>sdplane/sdplane.c\<close>.
  The calls to DPDK's EAL are recorded in order; what it answers (the number of lcores, the id of
  the lcore that runs the shell, the state of an lcore) is an argument. \<open>terminal_out\<close> holds the lines
  written, without their ends. A command gets the words it was called by.
\<close>

section \<open>State\<close>

text \<open>The functions a thread of the program may run.\<close>

datatype routine = Lthread_main | Tap_handler | L2_repeater | Nettlp_thread | Vty_server | Startup_config
  | Console_shell | Stat_collector | Rib_manager | Vty_shell

record 'a lcore_worker =
  lw_func :: "routine option"
  lw_arg :: "'a option"
  lw_name :: "string option"

datatype eal_call = Eal_init | Pool_create u32 | Remote_launch int routine | Wait_lcore int

record ('l, 'a, 'p) workplace =
  lcore_workers :: "'a lcore_worker list"
  force_stop :: "bool list"
  force_quit :: bool
  lthread_core :: int
  thread_reg :: "(routine, 'l, 'a, 'p) registry"
  eal_calls :: "eal_call list"
  terminal_out :: "string list"

definition say :: "string \<Rightarrow> ('l, 'a, 'p) workplace \<Rightarrow> ('l, 'a, 'p) workplace" where
  "say line s = s\<lparr>terminal_out := terminal_out s @ [line]\<rparr>"

definition eal :: "eal_call \<Rightarrow> ('l, 'a, 'p) workplace \<Rightarrow> ('l, 'a, 'p) workplace" where
  "eal c s = s\<lparr>eal_calls := eal_calls s @ [c]\<rparr>"

section \<open>Starting and stopping\<close>

definition start_lcore :: "int \<Rightarrow> ('l, 'a, 'p) workplace \<Rightarrow> ('l, 'a, 'p) workplace res" where
  "start_lcore l s =
    (let s = say (''starting worker on lcore: '' @ dec_int l) s
     in guardr (0 \<le> l \<and> nat l < length (lcore_workers s)) OutOfBounds
        (case lw_func (lcore_workers s ! nat l) of
           None \<Rightarrow> Inr (say (''can't start a null worker on lcore: '' @ dec_int l) s)
         | Some func \<Rightarrow>
             let s = s\<lparr>force_stop := (force_stop s)[nat l := False]\<rparr>
             in if l = lthread_core s then Inr (say (''skip for lthread lcore: '' @ dec_int l) s)
                else let r = snd (thread_register l None (Some func) (lw_name (lcore_workers s ! nat l)) None (thread_reg s));
                         s = eal (Remote_launch l func) (s\<lparr>thread_reg := r\<rparr>)
                     in Inr (say (''started worker on lcore: '' @ dec_int l) s)))"

definition stop_lcore :: "int \<Rightarrow> int \<Rightarrow> ('l, 'a, 'p) workplace \<Rightarrow> ('l, 'a, 'p) workplace res" where
  "stop_lcore self l s =
    (let s = say (''stopping worker on lcore: '' @ dec_int l) s
     in guardr (0 \<le> l \<and> nat l < length (force_stop s)) OutOfBounds
        (let s = s\<lparr>force_stop := (force_stop s)[nat l := True]\<rparr>
         in Inr (if l = self then say (''can't stop lthread lcore: '' @ dec_int l) s
                 else say (''stopped worker on lcore: '' @ dec_int l) (eal (Wait_lcore l) s))))"

section \<open>Commands\<close>

definition worker_of :: "string list \<Rightarrow> routine option \<Rightarrow> routine option" where
  "worker_of argv old =
    (if length argv = 4 then old
     else if argv ! 4 = ''none'' then None
     else if argv ! 4 = ''tap-handler'' then Some Tap_handler
     else if argv ! 4 = ''l2-repeater'' then Some L2_repeater
     else if argv ! 4 = ''nettlp-thread'' then Some Nettlp_thread
     else None)"

definition worker_name :: "routine option \<Rightarrow> string" where
  "worker_name func =
    (if func = Some Lthread_main then ''lthread_main''
     else if func = Some Tap_handler then ''tap-handler''
     else if func = Some L2_repeater then ''l2-repeater''
     else if func = Some Nettlp_thread then ''nettlp-thread''
     else ''none'')"

definition set_worker :: "int \<Rightarrow> string list \<Rightarrow> ('l, 'a, 'p) workplace \<Rightarrow> ('l, 'a, 'p) workplace res" where
  "set_worker self argv s =
    (let l = int_arg (argv ! 3)
     in guardr (0 \<le> l \<and> nat l < length (lcore_workers s)) OutOfBounds
        (let old = lw_func (lcore_workers s ! nat l); func = worker_of argv old
         in if old = Some Lthread_main then Inr (say (''cannot override lthread: lcore['' @ dec_int l @ ''].'') s)
            else
              let s = s\<lparr>lcore_workers := (lcore_workers s)[nat l :=
                        \<lparr>lw_func = func, lw_arg = None, lw_name = Some (worker_name func)\<rparr>]\<rparr>;
                  s = say (''worker set to lcore['' @ dec_int l @ '']: func: '' @ worker_name func) s
              in if argv ! 0 = ''reset'' \<or> argv ! 0 = ''start'' \<or> argv ! 0 = ''restart''
                 then bindr (stop_lcore self l s) (\<lambda>s. bindr (start_lcore l s) (\<lambda>s.
                        Inr (say (''worker['' @ dec_int l @ '']: restarted.'') s)))
                 else if argv ! 0 = ''set'' \<and> length argv = 4 then Inr (say ''nothing changed.'' s)
                 else Inr (say ''workers need to be restarted for changes to take effect.'' s)))"

definition start_stop_one :: "int \<Rightarrow> string \<Rightarrow> int \<Rightarrow> ('l, 'a, 'p) workplace \<Rightarrow> ('l, 'a, 'p) workplace res" where
  "start_stop_one self verb l s =
    (if verb = ''start'' then start_lcore l s
     else if verb = ''stop'' then stop_lcore self l s
     else if verb = ''reset'' \<or> verb = ''restart'' then bindr (stop_lcore self l s) (start_lcore l)
     else Inr s)"

text \<open>The specification is an \<open>unsigned int\<close>; its initial value \<open>-1\<close> selects every lcore.\<close>

definition start_stop_worker ::
  "int \<Rightarrow> nat \<Rightarrow> string list \<Rightarrow> ('l, 'a, 'p) workplace \<Rightarrow> ('l, 'a, 'p) workplace res" where
  "start_stop_worker self nb_lcores argv s =
    (let s = (if argv ! 3 = ''all'' then s\<lparr>force_quit := (argv ! 0 = ''stop'')\<rparr> else s);
         spec = (if argv ! 3 = ''all'' then -1 else ucast (fst (strtol (argv ! 3))) :: u32)
     in runr (\<lambda>i s. if spec \<noteq> -1 \<and> unat spec \<noteq> i then Inr s else start_stop_one self (argv ! 0) (int i) s)
          [0..<nb_lcores] s)"

text \<open>A missing name is printed as \<open>(null)\<close>; the buffer of the flags holds 15 characters.\<close>

definition show_worker_line ::
  "(nat \<Rightarrow> bool) \<Rightarrow> nat \<Rightarrow> (nat \<Rightarrow> bool) \<Rightarrow> nat \<Rightarrow> string option \<Rightarrow> string" where
  "show_worker_line enabled main_lcore running i name =
    pad_left 9 (take 15 (''lcore['' @ dec i @ '']'')) @ '': '' @
    pad_left 12 (take 15 ((if enabled i then ''enabled'' else ''disabled'') @ (if i = main_lcore then '',main'' else ''''))) @ '' '' @
    pad_left 8 (if running i then ''running'' else ''wait'') @ '' '' @
    (case name of None \<Rightarrow> ''(null)'' | Some n \<Rightarrow> n)"

definition show_worker ::
  "(nat \<Rightarrow> bool) \<Rightarrow> nat \<Rightarrow> (nat \<Rightarrow> bool) \<Rightarrow> nat \<Rightarrow> ('l, 'a, 'p) workplace \<Rightarrow> ('l, 'a, 'p) workplace res" where
  "show_worker enabled main_lcore running nb_lcores s =
    (let s = say (pad_left 9 ''lcore'' @ '': '' @ pad_left 12 ''flags'' @ '' '' @ pad_left 8 ''state'' @ '' '' @ ''func_name'') s
     in runr (\<lambda>i s. guardr (i < length (lcore_workers s)) OutOfBounds
            (Inr (say (show_worker_line enabled main_lcore running i (lw_name (lcore_workers s ! i))) s))) [0..<nb_lcores] s)"

text \<open>\<open>lt\<close> is the lightweight thread that \<open>lthread_create\<close> made.\<close>

definition set_worker_lthread :: "routine \<Rightarrow> string \<Rightarrow> 'l \<Rightarrow> ('l, 'a, 'p) workplace \<Rightarrow> ('l, 'a, 'p) workplace" where
  "set_worker_lthread func name lt s =
    s\<lparr>thread_reg := snd (thread_register (lthread_core s) (Some lt) (Some func) (Some name) None (thread_reg s))\<rparr>"

definition set_worker_lthread_stat_collector :: "'l \<Rightarrow> ('l, 'a, 'p) workplace \<Rightarrow> ('l, 'a, 'p) workplace" where
  "set_worker_lthread_stat_collector = set_worker_lthread Stat_collector ''stat_collector''"

definition set_worker_lthread_rib_manager :: "'l \<Rightarrow> ('l, 'a, 'p) workplace \<Rightarrow> ('l, 'a, 'p) workplace" where
  "set_worker_lthread_rib_manager = set_worker_lthread Rib_manager ''rib_manager''"

section \<open>The start of the program\<close>

definition SIGINT :: int where "SIGINT = 2"
definition SIGTERM :: int where "SIGTERM = 15"

definition signal_handler :: "int \<Rightarrow> ('l, 'a, 'p) workplace \<Rightarrow> ('l, 'a, 'p) workplace" where
  "signal_handler signum s =
    (if signum = SIGINT then s else if signum = SIGTERM then s\<lparr>force_quit := True\<rparr> else s)"

text \<open>
  The pool is sized from the counts of lcores and ports before the EAL is initialised;
  \<open>lcore_count\<close> and \<open>dev_count\<close> give what the EAL answers after the calls made so far. The counts
  are 16-bit numbers.
\<close>

definition nb_mbufs :: "u16 \<Rightarrow> u16 \<Rightarrow> u32" where
  "nb_mbufs nb_ports nb_lcores =
    (let n = ucast nb_ports * (1024 + 1024 + 32 + ucast nb_lcores * 256) :: u32 in if 8192 < n then n else 8192)"

definition sdplane_init ::
  "(eal_call list \<Rightarrow> nat) \<Rightarrow> (eal_call list \<Rightarrow> nat) \<Rightarrow> ('l, 'a, 'p) workplace \<Rightarrow> ('l, 'a, 'p) workplace" where
  "sdplane_init lcore_count dev_count s =
    (let s = s\<lparr>thread_reg := thread_info_init (thread_reg s)\<rparr>;
         n = nb_mbufs (of_nat (dev_count (eal_calls s))) (of_nat (lcore_count (eal_calls s)))
     in eal (Pool_create n) (eal Eal_init s))"

definition main_start ::
  "(eal_call list \<Rightarrow> nat) \<Rightarrow> (eal_call list \<Rightarrow> nat) \<Rightarrow> 'l \<Rightarrow> ('l, 'a, 'p) workplace \<Rightarrow> ('l, 'a, 'p) workplace" where
  "main_start lcore_count dev_count lt s =
    (let s = sdplane_init lcore_count dev_count s
     in s\<lparr>thread_reg := snd (thread_register (-1) (Some lt) (Some Lthread_main) (Some ''lthread_main'') None (thread_reg s))\<rparr>)"

definition no_worker :: "'a lcore_worker" where
  "no_worker = \<lparr>lw_func = None, lw_arg = None, lw_name = None\<rparr>"



section \<open>Any sequence of commands\<close>

text \<open>The commands of a session on the workers, and a signal; the calls are those of lcore \<open>self\<close>.\<close>

datatype 'l worker_command = Set_worker "string list" | Start_stop_worker "string list" | Show_worker
  | New_stat_collector 'l | New_rib_manager 'l | Signal int

definition worker_step ::
  "int \<Rightarrow> nat \<Rightarrow> (nat \<Rightarrow> bool) \<Rightarrow> nat \<Rightarrow> (nat \<Rightarrow> bool) \<Rightarrow> 'l worker_command \<Rightarrow> ('l, 'a, 'p) workplace \<Rightarrow> ('l, 'a, 'p) workplace res" where
  "worker_step self nb_lcores enabled main_lcore running c s =
    (case c of Set_worker argv \<Rightarrow> set_worker self argv s
     | Start_stop_worker argv \<Rightarrow> start_stop_worker self nb_lcores argv s
     | Show_worker \<Rightarrow> show_worker enabled main_lcore running nb_lcores s
     | New_stat_collector lt \<Rightarrow> Inr (set_worker_lthread_stat_collector lt s)
     | New_rib_manager lt \<Rightarrow> Inr (set_worker_lthread_rib_manager lt s)
     | Signal signum \<Rightarrow> Inr (signal_handler signum s))"

text \<open>
  The functions that may run on an lcore of their own. In a good state the entry of the lcore of the
  lightweight threads is theirs, every entry has a name, and nothing but these functions was launched,
  never on that lcore.
\<close>

definition lcore_routines :: "routine set" where
  "lcore_routines = {Tap_handler, L2_repeater, Nettlp_thread}"

definition entry_ok :: "'a lcore_worker \<Rightarrow> bool" where
  "entry_ok w \<longleftrightarrow> (case lw_func w of None \<Rightarrow> True | Some f \<Rightarrow> f \<in> lcore_routines \<and> lw_name w = Some (worker_name (Some f)))"

definition call_ok :: "int \<Rightarrow> eal_call \<Rightarrow> bool" where
  "call_ok self c = (case c of Remote_launch l f \<Rightarrow> l \<noteq> self \<and> f \<in> lcore_routines | Wait_lcore l \<Rightarrow> l \<noteq> self | _ \<Rightarrow> True)"

definition place_ok :: "int \<Rightarrow> ('l, 'a, 'p) workplace \<Rightarrow> bool" where
  "place_ok self s \<longleftrightarrow> 0 \<le> self \<and> self < int RTE_MAX_LCORE \<and> lthread_core s = self \<and>
     length (lcore_workers s) = RTE_MAX_LCORE \<and> length (force_stop s) = RTE_MAX_LCORE \<and>
     lw_func (lcore_workers s ! nat self) = Some Lthread_main \<and>
     (\<forall>i<RTE_MAX_LCORE. int i \<noteq> self \<longrightarrow> entry_ok (lcore_workers s ! i)) \<and>
     registry_ok (thread_reg s) \<and> list_all (call_ok self) (eal_calls s)"

lemma say_simps [simp]:
  "lcore_workers (say m s) = lcore_workers s" "force_stop (say m s) = force_stop s"
  "force_quit (say m s) = force_quit s" "lthread_core (say m s) = lthread_core s"
  "thread_reg (say m s) = thread_reg s" "eal_calls (say m s) = eal_calls s"
  "lcore_workers (eal c s) = lcore_workers s" "force_stop (eal c s) = force_stop s"
  "force_quit (eal c s) = force_quit s" "lthread_core (eal c s) = lthread_core s"
  "thread_reg (eal c s) = thread_reg s" "eal_calls (eal c s) = eal_calls s @ [c]"
  "(say m s)\<lparr>force_stop := fs\<rparr> = say m (s\<lparr>force_stop := fs\<rparr>)"
  "(say m s)\<lparr>thread_reg := r\<rparr> = say m (s\<lparr>thread_reg := r\<rparr>)"
  by (simp_all add: say_def eal_def)

lemma place_ok_simps [simp]:
  "place_ok self (say m s) = place_ok self s" "place_ok self (s\<lparr>force_quit := b\<rparr>) = place_ok self s"
  "place_ok self (s\<lparr>force_stop := (force_stop s)[i := b]\<rparr>) = place_ok self s"
  "place_ok self (eal c s) = (place_ok self s \<and> call_ok self c)"
  by (auto simp: place_ok_def)

lemma register_ok [simp]: "registry_ok s \<Longrightarrow> registry_ok (snd (thread_register lcore lt func name arg s))"
  by (rule register_spec [of s lcore lt func name arg], assumption) (auto simp: registry_ok_def)

lemma place_ok_registry [simp]: "place_ok self s \<Longrightarrow> registry_ok (thread_reg s)"
  by (simp add: place_ok_def)

lemma place_ok_register [simp]: "place_ok self s \<Longrightarrow> registry_ok r \<Longrightarrow> place_ok self (s\<lparr>thread_reg := r\<rparr>)"
  by (simp add: place_ok_def)

lemma stop_lcore_ok:
  assumes "place_ok self s" "0 \<le> l" "l < int RTE_MAX_LCORE"
  shows "\<exists>s'. stop_lcore self l s = Inr s' \<and> place_ok self s' \<and> lcore_workers s' = lcore_workers s \<and>
    force_stop s' = (force_stop s)[nat l := True] \<and> thread_reg s' = thread_reg s \<and>
    force_quit s' = force_quit s \<and> eal_calls s' = eal_calls s @ (if l = self then [] else [Wait_lcore l])"
proof -
  have "nat l < length (force_stop s)" using assms by (auto simp: place_ok_def)
  then show ?thesis
    using assms by (simp add: stop_lcore_def Let_def call_ok_def)
qed

definition start_effect ::
  "int \<Rightarrow> int \<Rightarrow> ('l, 'a, 'p) workplace \<Rightarrow> bool list \<times> (routine, 'l, 'a, 'p) registry \<times> eal_call list" where
  "start_effect self l s =
    (case lw_func (lcore_workers s ! nat l) of None \<Rightarrow> (force_stop s, thread_reg s, [])
     | Some f \<Rightarrow> ((force_stop s)[nat l := False],
        if l = self then thread_reg s else snd (thread_register l None (Some f) (Some (worker_name (Some f))) None (thread_reg s)),
        if l = self then [] else [Remote_launch l f]))"

lemma start_lcore_ok:
  assumes ok: "place_ok self s" and l: "0 \<le> l" "l < int RTE_MAX_LCORE"
  shows "\<exists>s'. start_lcore l s = Inr s' \<and> place_ok self s' \<and> lcore_workers s' = lcore_workers s \<and>
    force_quit s' = force_quit s \<and>
    (\<exists>cs. start_effect self l s = (force_stop s', thread_reg s', cs) \<and> eal_calls s' = eal_calls s @ cs)"
proof -
  have len: "nat l < length (lcore_workers s)" and core: "lthread_core s = self" using ok l by (auto simp: place_ok_def)
  show ?thesis
  proof (cases "lw_func (lcore_workers s ! nat l)")
    case None
    then show ?thesis using ok l len by (simp add: start_lcore_def start_effect_def Let_def)
  next
    case (Some f)
    show ?thesis
    proof (cases "l = self")
      case True
      then show ?thesis using ok l len core Some by (simp add: start_lcore_def start_effect_def Let_def)
    next
      case False
      have "entry_ok (lcore_workers s ! nat l)" using ok l False by (auto simp: place_ok_def)
      then have "f \<in> lcore_routines" "lw_name (lcore_workers s ! nat l) = Some (worker_name (Some f))"
        by (simp_all add: entry_ok_def Some)
      then show ?thesis
        using ok l len core Some False by (simp add: start_lcore_def start_effect_def Let_def call_ok_def)
    qed
  qed
qed

text \<open>A loop whose body keeps an invariant or ends with a given fault.\<close>

lemma runr_keeps:
  "P s \<Longrightarrow> (\<And>e s. e \<in> set es \<Longrightarrow> P s \<Longrightarrow> (\<exists>s'. f e s = Inr s' \<and> P s') \<or> (\<exists>x\<in>X. f e s = Inl x)) \<Longrightarrow>
   (\<exists>s'. runr f es s = Inr s' \<and> P s') \<or> (\<exists>x\<in>X. runr f es s = Inl x)"
proof (induction es arbitrary: s)
  case (Cons e es)
  from Cons.prems(2) [of e s] Cons.prems(1) consider t where "f e s = Inr t" "P t" | x where "x \<in> X" "f e s = Inl x" by auto
  then show ?case
  proof cases
    case t: 1
    from Cons.IH [OF t(2)] Cons.prems(2) show ?thesis by (simp add: t(1))
  qed simp
qed simp

text \<open>What loops over the lcores may end with: more lcores than the tables have entries.\<close>

definition too_many :: "nat \<Rightarrow> fault set" where
  "too_many nb_lcores = (if nb_lcores \<le> RTE_MAX_LCORE then {} else {OutOfBounds})"

lemma start_stop_one_ok:
  assumes ok: "place_ok self s" and i: "i < nb_lcores"
  shows "(\<exists>s'. start_stop_one self verb (int i) s = Inr s' \<and> place_ok self s') \<or>
    (\<exists>x\<in>too_many nb_lcores. start_stop_one self verb (int i) s = Inl x)"
proof (cases "i < RTE_MAX_LCORE")
  case True
  then have l: "0 \<le> int i" "int i < int RTE_MAX_LCORE" by simp_all
  from stop_lcore_ok [OF ok l] obtain t where t: "stop_lcore self (int i) s = Inr t" "place_ok self t" by blast
  from start_lcore_ok [OF ok l] obtain u where u: "start_lcore (int i) s = Inr u" "place_ok self u" by blast
  from start_lcore_ok [OF t(2) l] obtain v where v: "start_lcore (int i) t = Inr v" "place_ok self v" by blast
  show ?thesis using t u v ok by (simp add: start_stop_one_def)
next
  case False
  then have "length (lcore_workers s) \<le> i" "length (force_stop s) \<le> i" "OutOfBounds \<in> too_many nb_lcores"
    using ok i by (auto simp: place_ok_def too_many_def)
  then show ?thesis using ok by (simp add: start_stop_one_def start_lcore_def stop_lcore_def Let_def)
qed

lemma start_stop_worker_ok:
  assumes "place_ok self s"
  shows "(\<exists>s'. start_stop_worker self nb_lcores argv s = Inr s' \<and> place_ok self s') \<or>
    (\<exists>x\<in>too_many nb_lcores. start_stop_worker self nb_lcores argv s = Inl x)"
  unfolding start_stop_worker_def Let_def
proof (rule runr_keeps)
  fix i and s :: "('a, 'b, 'c) workplace"
  assume "i \<in> set [0..<nb_lcores]" "place_ok self s"
  then have "(\<exists>s'. start_stop_one self (argv ! 0) (int i) s = Inr s' \<and> place_ok self s') \<or>
      (\<exists>x\<in>too_many nb_lcores. start_stop_one self (argv ! 0) (int i) s = Inl x)"
    by (intro start_stop_one_ok) simp_all
  with \<open>place_ok self s\<close> show "(\<exists>s'. (if c then Inr s else start_stop_one self (argv ! 0) (int i) s) = Inr s' \<and> place_ok self s') \<or>
      (\<exists>x\<in>too_many nb_lcores. (if c then Inr s else start_stop_one self (argv ! 0) (int i) s) = Inl x)" for c
    by (cases c) simp_all
qed (use assms in simp)

lemma show_worker_ok:
  assumes "place_ok self s"
  shows "(\<exists>s'. show_worker enabled main_lcore running nb_lcores s = Inr s' \<and> place_ok self s') \<or>
    (\<exists>x\<in>too_many nb_lcores. show_worker enabled main_lcore running nb_lcores s = Inl x)"
  unfolding show_worker_def Let_def
proof (rule runr_keeps)
  fix i and s :: "('a, 'b, 'c) workplace"
  assume "i \<in> set [0..<nb_lcores]" "place_ok self s"
  then have "(i < length (lcore_workers s)) = (i < RTE_MAX_LCORE)" "i < nb_lcores" by (auto simp: place_ok_def)
  with \<open>place_ok self s\<close> show "(\<exists>s'. guardr (i < length (lcore_workers s)) OutOfBounds
      (Inr (say (show_worker_line enabled main_lcore running i (lw_name (lcore_workers s ! i))) s)) = Inr s' \<and> place_ok self s') \<or>
    (\<exists>x\<in>too_many nb_lcores. guardr (i < length (lcore_workers s)) OutOfBounds
      (Inr (say (show_worker_line enabled main_lcore running i (lw_name (lcore_workers s ! i))) s)) = Inl x)"
    by (cases "i < RTE_MAX_LCORE") (auto simp: too_many_def)
qed (use assms in simp)

lemma worker_of_ok:
  "entry_ok w \<Longrightarrow> entry_ok \<lparr>lw_func = worker_of argv (lw_func w), lw_arg = None, lw_name = Some (worker_name (worker_of argv (lw_func w)))\<rparr>"
  by (auto simp: entry_ok_def worker_of_def lcore_routines_def split: option.splits)

lemma place_ok_entry:
  assumes "place_ok self s" "l \<noteq> self" "0 \<le> l" "l < int RTE_MAX_LCORE" "entry_ok e"
  shows "place_ok self (s\<lparr>lcore_workers := (lcore_workers s)[nat l := e]\<rparr>)"
  using assms by (auto simp: place_ok_def nth_list_update)

lemma set_worker_ok:
  assumes ok: "place_ok self s" and l: "0 \<le> int_arg (argv ! 3)" "int_arg (argv ! 3) < int RTE_MAX_LCORE"
  shows "\<exists>s'. set_worker self argv s = Inr s' \<and> place_ok self s'"
proof -
  let ?l = "int_arg (argv ! 3)" and ?w = "lcore_workers s ! nat (int_arg (argv ! 3))"
  have len: "nat ?l < length (lcore_workers s)" using ok l by (auto simp: place_ok_def)
  show ?thesis
  proof (cases "lw_func ?w = Some Lthread_main")
    case True
    then show ?thesis using ok l len by (simp add: set_worker_def Let_def)
  next
    case False
    then have self: "?l \<noteq> self" using ok by (auto simp: place_ok_def)
    define t where "t = say (''worker set to lcore['' @ dec_int ?l @ '']: func: '' @ worker_name (worker_of argv (lw_func ?w)))
      (s\<lparr>lcore_workers := (lcore_workers s)[nat ?l := \<lparr>lw_func = worker_of argv (lw_func ?w), lw_arg = None,
         lw_name = Some (worker_name (worker_of argv (lw_func ?w)))\<rparr>]\<rparr>)"
    have "entry_ok ?w" using ok l self by (auto simp: place_ok_def)
    from place_ok_entry [OF ok self l worker_of_ok [OF this, of argv]] have t: "place_ok self t"
      unfolding t_def place_ok_simps .
    from stop_lcore_ok [OF t l] obtain u where u: "stop_lcore self ?l t = Inr u" "place_ok self u" by blast
    from start_lcore_ok [OF u(2) l] obtain v where v: "start_lcore ?l u = Inr v" "place_ok self v" by blast
    have "set_worker self argv s =
      (if argv ! 0 = ''reset'' \<or> argv ! 0 = ''start'' \<or> argv ! 0 = ''restart''
       then Inr (say (''worker['' @ dec_int ?l @ '']: restarted.'') v)
       else if argv ! 0 = ''set'' \<and> length argv = 4 then Inr (say ''nothing changed.'' t)
       else Inr (say ''workers need to be restarted for changes to take effect.'' t))"
      using False l len u(1) v(1) by (simp add: set_worker_def Let_def t_def)
    then show ?thesis using t v(2) by simp
  qed
qed

text \<open>What a command may end with: a number of an lcore outside the table, or more lcores than it has entries.\<close>

definition worker_faults :: "nat \<Rightarrow> 'l worker_command \<Rightarrow> fault set" where
  "worker_faults nb_lcores c =
    (case c of Set_worker argv \<Rightarrow> if 0 \<le> int_arg (argv ! 3) \<and> int_arg (argv ! 3) < int RTE_MAX_LCORE then {} else {OutOfBounds}
     | Start_stop_worker argv \<Rightarrow> too_many nb_lcores
     | Show_worker \<Rightarrow> too_many nb_lcores
     | _ \<Rightarrow> {})"

interpretation workers: safe_machine "worker_step self nb_lcores enabled main_lcore running" "place_ok self"
    "worker_faults nb_lcores" for self nb_lcores enabled main_lcore running
proof
  fix s :: "('a, 'b, 'c) workplace" and c :: "'a worker_command"
  assume ok: "place_ok self s"
  show "(\<exists>s'. worker_step self nb_lcores enabled main_lcore running c s = Inr s' \<and> place_ok self s') \<or>
    (\<exists>x\<in>worker_faults nb_lcores c. worker_step self nb_lcores enabled main_lcore running c s = Inl x)"
  proof (cases c)
    case (Set_worker argv)
    show ?thesis
    proof (cases "0 \<le> int_arg (argv ! 3) \<and> int_arg (argv ! 3) < int RTE_MAX_LCORE")
      case True
      then show ?thesis using set_worker_ok [OF ok] by (simp add: worker_step_def Set_worker)
    next
      case False
      then have "\<not> (0 \<le> int_arg (argv ! 3) \<and> nat (int_arg (argv ! 3)) < length (lcore_workers s))"
        using ok by (simp add: place_ok_def) linarith
      then have "set_worker self argv s = Inl OutOfBounds"
        unfolding set_worker_def Let_def guardr_def by (rule if_not_P)
      then show ?thesis using False by (auto simp: worker_step_def worker_faults_def Set_worker)
    qed
  next
    case (Start_stop_worker argv)
    then show ?thesis using start_stop_worker_ok [OF ok] by (simp add: worker_step_def worker_faults_def)
  next
    case Show_worker
    then show ?thesis using show_worker_ok [OF ok] by (simp add: worker_step_def worker_faults_def)
  qed (use ok in \<open>simp_all add: worker_step_def set_worker_lthread_stat_collector_def set_worker_lthread_rib_manager_def
      set_worker_lthread_def signal_handler_def\<close>)
qed


section \<open>Restarting one worker\<close>

text \<open>Every entry of the registry below its size is in use.\<close>

definition packed :: "('f, 'l, 'a, 'p) registry \<Rightarrow> bool" where
  "packed r \<longleftrightarrow> registry_ok r \<and> (\<forall>i<thread_info_size r. ti_func (threads r ! i) \<noteq> None)"

lemma register_packed:
  assumes "packed r"
  shows "packed (snd (thread_register lcore lt (Some f) name arg r)) \<and>
    thread_info_size (snd (thread_register lcore lt (Some f) name arg r)) = min 16 (thread_info_size r + 1)"
proof (cases rule: register_spec [of r lcore lt "Some f" name arg, case_names ok full slot])
  case ok
  then show ?case using assms by (simp add: packed_def)
next
  case full
  then show ?thesis using assms by (simp add: THREAD_INFO_LIMIT_def)
next
  case (slot i r')
  have "i = thread_info_size r"
    using slot(3,7) assms by (metis le_neq_implies_less packed_def)
  then show ?thesis
    using slot(1,2,6) assms by (auto simp: packed_def registry_ok_def THREAD_INFO_LIMIT_def nth_list_update)
qed

lemma packed_full:
  assumes "packed r" "thread_info_size r = 16"
  shows "session_start lcore lt func name counter r = (-1, r) \<and> session_end (-1) r = Inl OutOfBounds"
proof -
  have full: "\<forall>t\<in>set (threads r). ti_func t \<noteq> None"
    using assms by (auto simp: packed_def registry_ok_def THREAD_INFO_LIMIT_def in_set_conv_nth)
  show ?thesis
  proof (cases rule: register_spec [of r lcore "Some lt" "Some func" "Some name" None, case_names ok full slot])
    case ok
    then show ?case using assms by (simp add: packed_def)
  next
    case full
    then show ?thesis
      by (simp add: session_start_def session_end_def thread_register_loop_counter_def thread_unregister_def)
  next
    case (slot i s')
    then show ?thesis using full assms by (simp add: THREAD_INFO_LIMIT_def)
  qed
qed

lemma runr_one:
  "l < n \<Longrightarrow> (\<And>i s. i \<noteq> l \<Longrightarrow> f i s = Inr s) \<Longrightarrow> runr f [0..<n] s = f l s"
proof (induction n)
  case (Suc n)
  have idle: "l \<notin> set xs \<Longrightarrow> runr f xs s = Inr s" for xs s
    using Suc.prems(2) by (induction xs) auto
  show ?case
  proof (cases "l = n")
    case True
    then show ?thesis using idle [of "[0..<n]"] by (cases "f n s") simp_all
  next
    case False
    then show ?thesis using Suc by (cases "f l s") simp_all
  qed
qed simp

lemma spec_of_int_arg:
  assumes "0 \<le> int_arg w"
  shows "unat (ucast (fst (strtol w)) :: u32) = nat (int_arg w) \<and> (ucast (fst (strtol w)) :: u32) \<noteq> -1"
proof -
  let ?v = "ucast (fst (strtol w)) :: u32"
  have nb: "\<not> bit (uint ?v) 31" using assms(1) by (simp add: int_arg_def sint_uint)
  have "sint ?v = take_bit 31 (uint ?v)" using nb by (simp add: sint_uint signed_take_bit_eq_if_positive)
  also have "\<dots> = take_bit (Suc 31) (uint ?v)" using nb by (simp only: take_bit_Suc_from_most) simp
  also have "\<dots> = uint ?v" using bintr_uint [of 32 ?v] by simp
  finally have s: "sint ?v = uint ?v" .
  moreover have "?v \<noteq> -1" using assms(1) by (auto simp: int_arg_def)
  ultimately show ?thesis by (simp add: int_arg_def nat_uint_eq)
qed

lemma start_stop_one_lcore:
  assumes "0 \<le> int_arg w" "nat (int_arg w) < nb_lcores" "w \<noteq> ''all''"
  shows "start_stop_worker self nb_lcores [verb, ''worker'', ''lcore'', w] s = start_stop_one self verb (int_arg w) s"
proof -
  note spec = spec_of_int_arg [OF assms(1)]
  have "runr (\<lambda>i s. if (ucast (fst (strtol w)) :: u32) \<noteq> -1 \<and> unat (ucast (fst (strtol w)) :: u32) \<noteq> i then Inr s
      else start_stop_one self verb (int i) s) [0..<nb_lcores] s = start_stop_one self verb (int_arg w) s"
    using spec assms by (subst runr_one [OF assms(2)]) simp_all
  then show ?thesis using assms(3) by (simp add: start_stop_worker_def Let_def cong: if_cong)
qed

lemma restart_lcore:
  assumes ok: "place_ok self s" and l: "0 \<le> l" "l < int RTE_MAX_LCORE" "l \<noteq> self"
    and f: "lw_func (lcore_workers s ! nat l) = Some f"
  shows "\<exists>s'. bindr (stop_lcore self l s) (start_lcore l) = Inr s' \<and> place_ok self s' \<and>
    lcore_workers s' = lcore_workers s \<and> force_quit s' = force_quit s \<and> force_stop s' = (force_stop s)[nat l := False] \<and>
    thread_reg s' = snd (thread_register l None (Some f) (Some (worker_name (Some f))) None (thread_reg s)) \<and>
    eal_calls s' = eal_calls s @ [Wait_lcore l, Remote_launch l f]"
proof -
  from stop_lcore_ok [OF ok l(1,2)] obtain t where t: "stop_lcore self l s = Inr t" "place_ok self t"
    "lcore_workers t = lcore_workers s" "force_stop t = (force_stop s)[nat l := True]" "thread_reg t = thread_reg s"
    "force_quit t = force_quit s" "eal_calls t = eal_calls s @ [Wait_lcore l]" using l(3) by auto
  from start_lcore_ok [OF t(2) l(1,2)] show ?thesis
    using t l(3) f by (auto simp: start_effect_def)
qed

section \<open>Properties\<close>


text \<open>The globals of the program when it is loaded.\<close>

definition loaded :: "('l, 'a, 'p) workplace" where
  "loaded = \<lparr>lcore_workers = replicate RTE_MAX_LCORE no_worker, force_stop = replicate RTE_MAX_LCORE False,
     force_quit = False, lthread_core = 0,
     thread_reg = \<lparr>thread_info_size = 0, threads = replicate THREAD_INFO_LIMIT no_thread,
        thread_counters = replicate THREAD_INFO_LIMIT \<lparr>loop_counter_ptr = None, current = 0, prev = 0, persec = 0\<rparr>\<rparr>,
     eal_calls = [], terminal_out = []\<rparr>"

lemma main_start_ok:
  "registry_ok (thread_reg (main_start lcore_count dev_count lt loaded)) \<and>
   length (force_stop (main_start lcore_count dev_count lt loaded)) = RTE_MAX_LCORE \<and>
   eal_calls (main_start lcore_count dev_count lt loaded) =
     [Eal_init, Pool_create (nb_mbufs (of_nat (dev_count [])) (of_nat (lcore_count [])))]"
proof -
  let ?r = "\<lparr>thread_info_size = 0, threads = replicate THREAD_INFO_LIMIT no_thread,
        thread_counters = replicate THREAD_INFO_LIMIT \<lparr>loop_counter_ptr = None, current = 0, prev = 0, persec = 0\<rparr>\<rparr>"
  have "registry_ok ?r" by (simp add: registry_ok_def)
  then have "registry_ok (snd (thread_register (-1) (Some lt) (Some Lthread_main) (Some ''lthread_main'') None ?r))"
    by (rule register_ok)
  then show ?thesis
    by (simp add: main_start_def sdplane_init_def loaded_def eal_def Let_def thread_info_init_def)
qed

text \<open>Before the EAL is up it knows no port, so the pool has its least size whatever the ports are.\<close>

lemma pool_size:
  "dev_count [] = 0 \<Longrightarrow> Pool_create 8192 \<in> set (eal_calls (main_start lcore_count dev_count lt loaded))"
  by (simp add: main_start_ok nb_mbufs_def)

lemma accepted_samples: "is_command_match y ''<0-16>'' ''1''" "is_command_match y ''<0-16>'' ''0x2''" "int_arg ''1'' = 1" "int_arg ''0x2'' = 2"
proof -
  have s: "strtoul ''16'' = (16, [])" "strtoul ''0'' = (0, [])" "strtoul ''1'' = (1, [])" "strtoul ''0x2'' = (2, [])"
    by (simp_all add: strtoul_def scan_def sign_def base_of_def digit_val_def code_def c_isspace_def)
  have r: "range_min ''<0-16>'' = ''0''" "range_max ''<0-16>'' = ''16''" by (simp_all add: range_min_def range_max_def)
  have "range_spec y ''<0-16>''" by (simp add: range_spec_def r s MAX_RANGE_SPEC_STR_def)
  moreover have "range_match y ''<0-16>'' ''1''" "range_match y ''<0-16>'' ''0x2''"
    by (simp_all add: range_match_def r s)
  ultimately show "is_command_match y ''<0-16>'' ''1''" "is_command_match y ''<0-16>'' ''0x2''"
    by (simp_all add: is_command_match_def is_command_match_variable_def)
  show "int_arg ''1'' = 1" "int_arg ''0x2'' = 2"
    by (simp_all add: int_arg_def strtol_def scan_def sign_def base_of_def digit_val_def code_def c_isspace_def)
qed

definition sample_place :: "(nat, nat, nat) workplace" where
  "sample_place = loaded\<lparr>lcore_workers := (replicate RTE_MAX_LCORE no_worker)
     [0 := no_worker\<lparr>lw_func := Some Lthread_main\<rparr>,
      1 := \<lparr>lw_func = Some Tap_handler, lw_arg = None, lw_name = Some ''tap-handler''\<rparr>]\<rparr>"

lemma sample_place_ok: "place_ok 0 sample_place"
  by (auto simp: place_ok_def sample_place_def loaded_def RTE_MAX_LCORE_def registry_ok_def nth_list_update entry_ok_def
      no_worker_def lcore_routines_def worker_name_def)







text \<open>
  C35: Restarting one worker over and over fills the registry of threads, because nothing takes the
  entry of the stopped worker out. After as many restarts as the table has entries left, every new terminal session
  runs unregistered, and its end writes in front of the table.
\<close>

theorem restarts_fill_registry:
  assumes ok: "place_ok self s" and used: "\<forall>i<thread_info_size (thread_reg s). ti_func (threads (thread_reg s) ! i) \<noteq> None"
    and w: "is_command_match y ''<0-16>'' w" "int_arg w \<noteq> self" "nat (int_arg w) < nb_lcores"
    and f: "lw_func (lcore_workers s ! nat (int_arg w)) = Some f"
  shows "\<exists>s'. runr (\<lambda>_. start_stop_worker self nb_lcores [''restart'', ''worker'', ''lcore'', w])
      [0..<16 - thread_info_size (thread_reg s)] s = Inr s' \<and>
    session_start lcore lt func name counter (thread_reg s') = (-1, thread_reg s') \<and>
    session_end (-1) (thread_reg s') = Inl OutOfBounds"
proof -
  let ?step = "\<lambda>_ :: nat. start_stop_worker self nb_lcores [''restart'', ''worker'', ''lcore'', w]"
  let ?good = "\<lambda>s. place_ok self s \<and> packed (thread_reg s) \<and> lw_func (lcore_workers s ! nat (int_arg w)) = Some f"
  have l: "0 \<le> int_arg w" "int_arg w < int RTE_MAX_LCORE" using accepted_range [OF w(1)] by (simp_all add: RTE_MAX_LCORE_def)
  have notall: "w \<noteq> ''all''"
    using w(1) by (auto simp: is_command_match_def is_command_match_regular_def is_command_match_variable_def
        ipv4_spec_def ipv4_prefix_spec_def double_spec_def file_spec_def line_spec_def word_spec_def var_spec_def
        range_match_def strtoul_def scan_def sign_def base_of_def digit_val_def code_def c_isspace_def range_min_def range_max_def split: if_splits)
  have step: "\<exists>t. ?step i s = Inr t \<and> ?good t \<and> thread_info_size (thread_reg t) = min 16 (thread_info_size (thread_reg s) + 1)"
    if "?good s" for i s
    using restart_lcore [OF _ l w(2), of s f] that register_packed [where r = "thread_reg s"]
    by (auto simp: start_stop_one_lcore [OF l(1) w(3) notall] start_stop_one_def)
  have "?good s \<Longrightarrow> \<exists>t. runr ?step ns s = Inr t \<and> ?good t \<and> thread_info_size (thread_reg t) = min 16 (thread_info_size (thread_reg s) + length ns)" for ns s
  proof (induction ns arbitrary: s)
    case Nil
    then show ?case by (auto simp: packed_def registry_ok_def THREAD_INFO_LIMIT_def)
  next
    case (Cons n ns)
    from step [OF Cons.prems] obtain t where t: "?step n s = Inr t" "?good t"
      "thread_info_size (thread_reg t) = min 16 (thread_info_size (thread_reg s) + 1)" by blast
    from Cons.IH [OF t(2)] t(1,3) show ?case by (auto simp: min_def)
  qed
  moreover have "?good s" using ok used f by (simp add: packed_def)
  moreover have "thread_info_size (thread_reg s) \<le> 16"
    using place_ok_registry [OF ok] by (simp add: registry_ok_def THREAD_INFO_LIMIT_def)
  ultimately obtain t where "runr ?step [0..<16 - thread_info_size (thread_reg s)] s = Inr t" "packed (thread_reg t)"
    "thread_info_size (thread_reg t) = 16" by (metis diff_zero le_add_diff_inverse length_upt min.idem)
  then show ?thesis by (intro exI [of _ t] conjI) (simp_all add: packed_full)
qed

theorem restarts_fill_registry_witness:
  "\<exists>s'. runr (\<lambda>_. start_stop_worker 0 4 [''restart'', ''worker'', ''lcore'', ''1'']) [0..<16] sample_place = Inr s' \<and>
    session_start 0 7 Vty_shell ''vty_shell'' 9 (thread_reg s') = (-1, thread_reg s') \<and>
    session_end (-1) (thread_reg s') = Inl OutOfBounds"
  using restarts_fill_registry [OF sample_place_ok _ accepted_samples(1), of 4 Tap_handler 0 7 Vty_shell "''vty_shell''" 9]
  by (auto simp: accepted_samples sample_place_def loaded_def RTE_MAX_LCORE_def)



lemma digit_0: "digit 0 = CHR ''0''"
  by code_simp

text \<open>
  A shortened \<open>all\<close> is not \<open>all\<close>. The command line accepts any beginning of the word, but
  the handler compares it with the whole word and then reads it as a number: \<open>stop worker lcore al\<close> acts on lcore 0
  alone. When the lightweight threads run there, as they do by default, it stops them and so every session, though it reports
  that it cannot.
\<close>

theorem abbreviated_all:
  assumes ok: "place_ok 0 s" and w: "is_command_match y ''all'' w" "w \<noteq> ''all''" and nb: "0 < nb_lcores"
  shows "\<exists>s'. start_stop_worker 0 nb_lcores [''stop'', ''worker'', ''lcore'', w] s = Inr s' \<and>
    force_stop s' = (force_stop s)[nat (lthread_core s') := True] \<and> force_quit s' = force_quit s \<and> eal_calls s' = eal_calls s \<and>
    last (terminal_out s') = ''can't stop lthread lcore: 0''"
proof -
  have l: "int_arg w = 0" using accepted_all [OF w] .
  have "start_stop_worker 0 nb_lcores [''stop'', ''worker'', ''lcore'', w] s = stop_lcore 0 0 s"
    using start_stop_one_lcore [of w nb_lcores 0 "''stop''" s] nb w(2) by (simp add: l start_stop_one_def)
  moreover have "0 < length (force_stop s)" "lthread_core s = 0" using ok by (simp_all add: place_ok_def RTE_MAX_LCORE_def)
  ultimately show ?thesis by (simp add: stop_lcore_def Let_def) (simp add: say_def dec_int_def dec.simps digit_0)
qed

theorem abbreviated_all_witness:
  "\<exists>s'. start_stop_worker 0 4 [''stop'', ''worker'', ''lcore'', ''al''] sample_place = Inr s' \<and>
    force_stop s' = (force_stop sample_place)[nat (lthread_core s') := True]"
proof -
  have "is_command_match y ''all'' ''al''" for y :: "nat system"
    by (simp add: is_command_match_def is_command_match_regular_def)
  from abbreviated_all [OF sample_place_ok this, of 4] show ?thesis by auto
qed

end
