(* ===== verification/Port_Flags.thy ===== *)
theory Port_Flags
  imports Libc
begin

text \<open>
  The names of flag bits: \<open>sdplane/snprintf_flags.c\<close> and the tables of \<open>sdplane/dpdk_port_cmd.c\<close>.
  A buffer is the list of its characters; what it held before is kept where nothing is written. The values of the
  flags are macros of DPDK: the tables take them from the argument \<open>value\<close>, by name.
\<close>

section \<open>Printing into a part of a buffer\<close>

text \<open>\<open>snprintf (buf + off, room, "%s", text)\<close> with positive room: it writes what fits and the terminating zero.\<close>

definition snprintf_at :: "nat \<Rightarrow> int \<Rightarrow> string \<Rightarrow> string \<Rightarrow> string" where
  "snprintf_at off room text buf = store off (take (nat room - 1) text @ [CHR 0x00]) buf"

fun flags_loop :: "u64 \<Rightarrow> string \<Rightarrow> (string \<times> u64) list \<Rightarrow> string \<Rightarrow> nat \<Rightarrow> int \<Rightarrow> nat \<Rightarrow> string \<times> nat" where
  "flags_loop flags delim [] buf p room num = (buf, num)"
| "flags_loop flags delim ((name, val) # es) buf p room num =
    (if flags AND val = 0 then flags_loop flags delim es buf p room num
     else if room \<le> 0 then flags_loop flags delim es buf p room num
     else let text = (if num = 0 then name else delim @ name)
          in flags_loop flags delim es (snprintf_at p room text buf) (p + length text) (room - int (length text)) (num + 1))"

text \<open>The table is walked from its end; the result is the buffer and the number of names printed.\<close>

definition snprintf_flags :: "string \<Rightarrow> int \<Rightarrow> u64 \<Rightarrow> (string \<times> u64) list \<Rightarrow> string option \<Rightarrow> string \<times> nat" where
  "snprintf_flags buf room flags flag_names delim =
    flags_loop flags (case delim of None \<Rightarrow> ''|'' | Some d \<Rightarrow> d) (rev flag_names) buf 0 room 0"

section \<open>Tables\<close>

definition link_speeds :: "(string \<Rightarrow> u64) \<Rightarrow> (string \<times> u64) list" where
  "link_speeds value =
    [(''Fix'', value ''RTE_ETH_LINK_SPEED_FIXED''),
     (''10M-hd'', value ''RTE_ETH_LINK_SPEED_10M_HD''),
     (''10M'', value ''RTE_ETH_LINK_SPEED_10M''),
     (''100M-hd'', value ''RTE_ETH_LINK_SPEED_10M_HD''),
     (''100M'', value ''RTE_ETH_LINK_SPEED_10M''),
     (''1G'', value ''RTE_ETH_LINK_SPEED_1G''),
     (''2.5G'', value ''RTE_ETH_LINK_SPEED_2_5G''),
     (''5G'', value ''RTE_ETH_LINK_SPEED_5G''),
     (''10G'', value ''RTE_ETH_LINK_SPEED_10G''),
     (''20G'', value ''RTE_ETH_LINK_SPEED_20G''),
     (''25G'', value ''RTE_ETH_LINK_SPEED_25G''),
     (''40G'', value ''RTE_ETH_LINK_SPEED_40G''),
     (''50G'', value ''RTE_ETH_LINK_SPEED_50G''),
     (''56G'', value ''RTE_ETH_LINK_SPEED_56G''),
     (''100G'', value ''RTE_ETH_LINK_SPEED_100G''),
     (''200G'', value ''RTE_ETH_LINK_SPEED_200G''),
     (''400G'', value ''RTE_ETH_LINK_SPEED_400G'')]"

definition rx_offload_names :: "(string \<Rightarrow> u64) \<Rightarrow> (string \<times> u64) list" where
  "rx_offload_names value =
    [(''VLAN_STRIP'', value ''RTE_ETH_RX_OFFLOAD_VLAN_STRIP''),
     (''IPV4_CKSUM'', value ''RTE_ETH_RX_OFFLOAD_IPV4_CKSUM''),
     (''UDP_CKSUM'', value ''RTE_ETH_RX_OFFLOAD_UDP_CKSUM''),
     (''TCP_CKSUM'', value ''RTE_ETH_RX_OFFLOAD_TCP_CKSUM''),
     (''TCP_LRO'', value ''RTE_ETH_RX_OFFLOAD_TCP_LRO''),
     (''QINQ_STRIP'', value ''RTE_ETH_RX_OFFLOAD_QINQ_STRIP''),
     (''OUTER_IPV4_CKSUM'', value ''RTE_ETH_RX_OFFLOAD_OUTER_IPV4_CKSUM''),
     (''MACSEC_STRIP'', value ''RTE_ETH_RX_OFFLOAD_MACSEC_STRIP''),
     (''VLAN_FILTER'', value ''RTE_ETH_RX_OFFLOAD_VLAN_FILTER''),
     (''VLAN_EXTEND'', value ''RTE_ETH_RX_OFFLOAD_VLAN_EXTEND''),
     (''SCATTER'', value ''RTE_ETH_RX_OFFLOAD_SCATTER''),
     (''TIMESTAMP'', value ''RTE_ETH_RX_OFFLOAD_TIMESTAMP''),
     (''SECURITY'', value ''RTE_ETH_RX_OFFLOAD_SECURITY''),
     (''KEEP_CRC'', value ''RTE_ETH_RX_OFFLOAD_KEEP_CRC''),
     (''SCTP_CKSUM'', value ''RTE_ETH_RX_OFFLOAD_SCTP_CKSUM''),
     (''OUTER_UDP_CKSUM'', value ''RTE_ETH_RX_OFFLOAD_OUTER_UDP_CKSUM''),
     (''RSS_HASH'', value ''RTE_ETH_RX_OFFLOAD_RSS_HASH''),
     (''BUFFER_SPLIT'', value ''RTE_ETH_RX_OFFLOAD_BUFFER_SPLIT'')]"

definition tx_offload_names :: "(string \<Rightarrow> u64) \<Rightarrow> (string \<times> u64) list" where
  "tx_offload_names value =
    [(''VLAN_INSERT'', value ''RTE_ETH_TX_OFFLOAD_VLAN_INSERT''),
     (''IPV4_CKSUM'', value ''RTE_ETH_TX_OFFLOAD_IPV4_CKSUM''),
     (''UDP_CKSUM'', value ''RTE_ETH_TX_OFFLOAD_UDP_CKSUM''),
     (''TCP_CKSUM'', value ''RTE_ETH_TX_OFFLOAD_TCP_CKSUM''),
     (''SCTP_CKSUM'', value ''RTE_ETH_TX_OFFLOAD_SCTP_CKSUM''),
     (''TCP_TSO'', value ''RTE_ETH_TX_OFFLOAD_TCP_TSO''),
     (''UDP_TSO'', value ''RTE_ETH_TX_OFFLOAD_UDP_TSO''),
     (''OUTER_IPV4_CKSUM'', value ''RTE_ETH_TX_OFFLOAD_OUTER_IPV4_CKSUM''),
     (''QINQ_INSERT'', value ''RTE_ETH_TX_OFFLOAD_QINQ_INSERT''),
     (''VXLAN_TNL_TSO'', value ''RTE_ETH_TX_OFFLOAD_VXLAN_TNL_TSO''),
     (''GRE_TNL_TSO'', value ''RTE_ETH_TX_OFFLOAD_GRE_TNL_TSO''),
     (''IPIP_TNL_TSO'', value ''RTE_ETH_TX_OFFLOAD_IPIP_TNL_TSO''),
     (''GENEVE_TNL_TSO'', value ''RTE_ETH_TX_OFFLOAD_GENEVE_TNL_TSO''),
     (''MACSEC_INSERT'', value ''RTE_ETH_TX_OFFLOAD_MACSEC_INSERT''),
     (''MT_LOCKFREE'', value ''RTE_ETH_TX_OFFLOAD_MT_LOCKFREE''),
     (''MULTI_SEGS'', value ''RTE_ETH_TX_OFFLOAD_MULTI_SEGS''),
     (''MBUF_FAST_FREE'', value ''RTE_ETH_TX_OFFLOAD_MBUF_FAST_FREE''),
     (''SECURITY'', value ''RTE_ETH_TX_OFFLOAD_SECURITY''),
     (''UDP_TNL_TSO'', value ''RTE_ETH_TX_OFFLOAD_UDP_TNL_TSO''),
     (''IP_TNL_TSO'', value ''RTE_ETH_TX_OFFLOAD_IP_TNL_TSO''),
     (''OUTER_UDP_CKSUM'', value ''RTE_ETH_TX_OFFLOAD_OUTER_UDP_CKSUM''),
     (''SEND_ON_TIMESTAMP'', value ''RTE_ETH_TX_OFFLOAD_SEND_ON_TIMESTAMP'')]"

section \<open>What the buffer holds\<close>

text \<open>The names of the flags that are set, the last of the table first, joined by the delimiter.\<close>

definition set_names :: "u64 \<Rightarrow> (string \<times> u64) list \<Rightarrow> string list" where
  "set_names flags names = map fst (filter (\<lambda>(n, v). flags AND v \<noteq> 0) names)"

fun joined :: "string \<Rightarrow> string list \<Rightarrow> string" where
  "joined delim [] = []"
| "joined delim [n] = n"
| "joined delim (n # ns) = n @ delim @ joined delim ns"

lemma joined_Cons: "joined delim (n # ns) = n @ (if ns = [] then [] else delim @ joined delim ns)"
  by (cases ns) simp_all

lemma joined_concat: "joined delim (n # ns) = n @ concat (map (\<lambda>m. delim @ m) ns)"
  by (induction ns arbitrary: n) (simp_all add: joined_Cons)

text \<open>
  Printing texts one after the other with what is left of the room leaves the same characters as
  printing them at once. \<open>printed\<close>: the buffer of \<open>n\<close> characters starts with the part of the text that fits, and a zero.
\<close>

definition printed :: "string \<Rightarrow> nat \<Rightarrow> string \<Rightarrow> bool" where
  "printed t n buf \<longleftrightarrow> length buf = n \<and> take (min (length t) (n - 1) + 1) buf = take (n - 1) t @ [CHR 0x00]"

lemma snprintf_at_printed:
  assumes len: "length buf = n" and head: "take (length t) buf = t" and room: "length t < n"
  shows "printed (t @ new) n (snprintf_at (length t) (int n - int (length t)) new buf)"
proof -
  let ?w = "take (n - length t - 1) new @ [CHR 0x00]"
  have nr: "nat (int n - int (length t)) = n - length t" by simp
  have w: "length t + length ?w \<le> n" using room by auto
  have s: "snprintf_at (length t) (int n - int (length t)) new buf = t @ ?w @ drop (length t + length ?w) buf"
    using room by (simp add: snprintf_at_def store_def head nr)
  have cut: "take (n - 1) (t @ new) = t @ take (n - length t - 1) new"
    using room by simp
  have k: "min (length (t @ new)) (n - 1) + 1 = length (t @ ?w)"
    using room by auto
  have "take (length (t @ ?w)) (t @ ?w @ rest) = t @ ?w" for rest
    using take_length_append [of "t @ ?w" rest] by simp
  then show ?thesis
    unfolding printed_def k cut s using w len by simp
qed

lemma printed_head: "printed t n buf \<Longrightarrow> length t < n \<Longrightarrow> take (length t) buf = t"
proof -
  assume "printed t n buf" "length t < n"
  then have "take (length t + 1) buf = t @ [CHR 0x00]" by (simp add: printed_def)
  from arg_cong [OF this, of "take (length t)"] show ?thesis by (simp add: min_def)
qed

lemma printed_full: "n \<le> length t \<Longrightarrow> printed (t @ new) n buf = printed t n buf"
  by (cases n; cases buf) (simp_all add: printed_def min_def)

lemma flags_loop_printed:
  "printed t n buf \<Longrightarrow> flags_loop flags delim es buf (length t) (int n - int (length t)) (Suc k) = (buf', num) \<Longrightarrow>
   printed (t @ concat (map (\<lambda>m. delim @ m) (set_names flags es))) n buf' \<and> Suc k \<le> num \<and>
   num \<le> Suc k + length (set_names flags es) \<and>
   (length (t @ concat (map (\<lambda>m. delim @ m) (set_names flags es))) < n \<longrightarrow> num = Suc k + length (set_names flags es))"
proof (induction es arbitrary: t buf k)
  case Nil
  then show ?case by (simp add: set_names_def)
next
  case (Cons e es)
  obtain name val where e: "e = (name, val)" by (cases e)
  show ?case
  proof (cases "flags AND val = 0")
    case True
    then show ?thesis using Cons.IH [OF Cons.prems(1)] Cons.prems(2) by (simp add: e set_names_def)
  next
    case False
    then have names: "set_names flags (e # es) = name # set_names flags es" by (simp add: e set_names_def)
    show ?thesis
    proof (cases "length t < n")
      case False
      with \<open>flags AND val \<noteq> 0\<close> have "flags_loop flags delim es buf (length t) (int n - int (length t)) (Suc k) = (buf', num)"
        using Cons.prems(2) by (simp add: e)
      from Cons.IH [OF Cons.prems(1) this] False show ?thesis
        by (simp add: names printed_full)
    next
      case True
      let ?u = "t @ delim @ name" and ?b = "snprintf_at (length t) (int n - int (length t)) (delim @ name) buf"
      have b: "printed ?u n ?b"
      proof -
        have "length buf = n" using Cons.prems(1) by (simp add: printed_def)
        from snprintf_at_printed [OF this printed_head [OF Cons.prems(1) True] True, of "delim @ name"] show ?thesis .
      qed
      have "flags_loop flags delim es ?b (length ?u) (int n - int (length ?u)) (Suc (Suc k)) = (buf', num)"
        using Cons.prems(2) True False by (simp add: e algebra_simps)
      from Cons.IH [OF b this] show ?thesis by (simp add: names)
    qed
  qed
qed

text \<open>
  C36: The names of the flags that are set are printed from the last of the table to the first, as one
  text that is cut to the room there is and ends with a zero, and nothing outside the buffer is written. When no
  flag is set the buffer is not written at all: it keeps what it held, without a zero if it had none.
\<close>

theorem flags_text:
  assumes "length buf = n" "0 < n" "snprintf_flags buf (int n) flags table (Some delim) = (buf', num)"
  shows "if set_names flags (rev table) = [] then buf' = buf \<and> num = 0
    else printed (joined delim (set_names flags (rev table))) n buf' \<and> 0 < num \<and> num \<le> length (set_names flags (rev table)) \<and>
      (length (joined delim (set_names flags (rev table))) < n \<longrightarrow> num = length (set_names flags (rev table)))"
proof -
  have "if set_names flags es = [] then buf' = buf \<and> num = 0
    else printed (joined delim (set_names flags es)) n buf' \<and> 0 < num \<and> num \<le> length (set_names flags es) \<and>
      (length (joined delim (set_names flags es)) < n \<longrightarrow> num = length (set_names flags es))"
    if "flags_loop flags delim es buf 0 (int n) 0 = (buf', num)" for es
    using that
  proof (induction es)
    case Nil
    then show ?case by (simp add: set_names_def)
  next
    case (Cons e es)
    obtain name val where e: "e = (name, val)" by (cases e)
    show ?case
    proof (cases "flags AND val = 0")
      case True
      then have "set_names flags (e # es) = set_names flags es" by (simp add: e set_names_def)
      then show ?thesis using Cons True by (simp add: e)
    next
      case False
      then have names: "set_names flags (e # es) = name # set_names flags es" by (simp add: e set_names_def)
      have b: "printed name n (snprintf_at 0 (int n) name buf)"
        using snprintf_at_printed [of buf n "[]" name] assms(1,2) by simp
      have "flags_loop flags delim es (snprintf_at 0 (int n) name buf) (length name) (int n - int (length name)) (Suc 0) = (buf', num)"
        using Cons.prems False assms(2) by (simp add: e)
      from flags_loop_printed [OF b this] show ?thesis
        by (auto simp: names joined_concat)
    qed
  qed
  from this [of "rev table"] assms(3) show ?thesis by (simp add: snprintf_flags_def)
qed

theorem flags_text_witness:
  "snprintf_flags (replicate 8 (CHR ''x'')) 8 5 [(''A'', 1), (''B'', 2), (''long name'', 4)] (Some ''|'') = (''long na'' @ [CHR 0x00], 1) \<and>
   printed (joined ''|'' (set_names 5 (rev [(''A'', 1), (''B'', 2), (''long name'', 4)]))) 8 (''long na'' @ [CHR 0x00]) \<and>
   snprintf_flags (replicate 8 (CHR ''x'')) 8 8 [(''A'', 1)] (Some ''|'') = (replicate 8 (CHR ''x''), 0)"
proof -
  have r: "snprintf_flags (replicate 8 (CHR ''x'')) 8 5 [(''A'', 1), (''B'', 2), (''long name'', 4)] (Some ''|'') = (''long na'' @ [CHR 0x00], 1)"
    "snprintf_flags (replicate 8 (CHR ''x'')) 8 8 [(''A'', 1)] (Some ''|'') = (replicate 8 (CHR ''x''), 0)"
    by (simp_all add: snprintf_flags_def snprintf_at_def store_def)
  have "set_names 5 (rev [(''A'', 1), (''B'', 2), (''long name'', 4)]) \<noteq> []" by (simp add: set_names_def)
  moreover have "snprintf_flags (replicate 8 (CHR ''x'')) (int 8) 5 [(''A'', 1), (''B'', 2), (''long name'', 4)] (Some ''|'') = (''long na'' @ [CHR 0x00], 1)"
    using r(1) by simp
  from flags_text [OF _ _ this] have "if set_names 5 (rev [(''A'', 1), (''B'', 2), (''long name'', 4)]) = [] then
        ''long na'' @ [CHR 0x00] = replicate 8 (CHR ''x'') \<and> 1 = (0 :: nat)
      else printed (joined ''|'' (set_names 5 (rev [(''A'', 1), (''B'', 2), (''long name'', 4)]))) 8 (''long na'' @ [CHR 0x00])"
    by (simp split: if_splits)
  ultimately show ?thesis using r by simp
qed

text \<open>
  The table of the speeds gives the bit of 10 Mbit/s two names: a link that can do nothing else is shown
  with 100 Mbit/s too, and one that can do 100 Mbit/s alone is shown with nothing.
\<close>

lemma speed_names:
  assumes "v ''RTE_ETH_LINK_SPEED_10M'' = 4" "v ''RTE_ETH_LINK_SPEED_100M'' = 16"
    "\<And>s. s \<in> set (map snd (link_speeds v)) \<Longrightarrow> s \<noteq> 4 \<Longrightarrow> s AND 20 = 0"
  shows "set (set_names 4 (link_speeds v)) \<supseteq> {''10M'', ''100M''} \<and> set_names 16 (link_speeds v) = []"
proof -
  have z: "4 AND x = 0" "16 AND x = 0" if "x AND 20 = 0" for x :: u64
  proof -
    have "4 AND (x AND 20) = (4 AND 20) AND x" "16 AND (x AND 20) = (16 AND 20) AND x"
      by (simp_all only: ac_simps)
    moreover have "(4 :: u64) AND 20 = 4" "(16 :: u64) AND 20 = 16" by simp_all
    ultimately show "4 AND x = 0" "16 AND x = 0" using that by simp_all
  qed
  have "16 AND snd p = 0" if "p \<in> set (link_speeds v)" for p
    using z(2) assms(3) [of "snd p"] that by (cases "snd p = 4") auto
  then have "set_names 16 (link_speeds v) = []" by (auto simp: set_names_def filter_empty_conv)
  moreover have "{''10M'', ''100M''} \<subseteq> set (set_names 4 (link_speeds v))"
    by (simp add: set_names_def link_speeds_def assms(1))
  ultimately show ?thesis by blast
qed

end
