(* ===== verification/Ports.thy ===== *)
theory Ports
  imports Port_Flags Cli_Args Thread_Info Rib_Manager
begin

text \<open>
  The commands on the ports: \<open>sdplane/dpdk_port_cmd.c\<close>. The devices belong to DPDK: what they
  answer and how they change is given by the functions of a record, or, where the code only reads, by what
  the device shows. A command gets the words it was called by; what it prints is a list of
  lines without their ends. \<open>grouped\<close> prints a number with the separators of the locale.
\<close>

section \<open>Choosing the ports\<close>

text \<open>The third word: \<open>-1\<close> stands for every port.\<close>

definition port_spec :: "string list \<Rightarrow> int" where
  "port_spec argv = (if argv ! 2 = ''all'' then -1 else int_arg (argv ! 2))"

definition selected :: "int \<Rightarrow> nat \<Rightarrow> bool" where
  "selected spec p \<longleftrightarrow> spec = -1 \<or> spec = int p"

definition on_ports :: "nat \<Rightarrow> (nat \<Rightarrow> bool) \<Rightarrow> (nat \<Rightarrow> 's \<Rightarrow> 's) \<Rightarrow> 's \<Rightarrow> 's" where
  "on_ports nb_ports sel body s = fold (\<lambda>p s. if sel p then body p s else s) [0..<nb_ports] s"

section \<open>Starting, stopping, promiscuous mode\<close>

datatype fc_mode = FC_NONE | FC_RX_PAUSE | FC_TX_PAUSE | FC_FULL

record fc_conf =
  fc_high_water :: u32
  fc_low_water :: u32
  fc_pause_time :: u16
  fc_send_xon :: u16
  fc_mode_of :: fc_mode
  mac_ctrl_frame_fwd :: u8
  fc_autoneg :: u8

record 'e eth_dev =
  dev_start_call :: "nat \<Rightarrow> 'e \<Rightarrow> int \<times> 'e"
  dev_stop_call :: "nat \<Rightarrow> 'e \<Rightarrow> int \<times> 'e"
  dev_reset_call :: "nat \<Rightarrow> 'e \<Rightarrow> int \<times> 'e"
  promiscuous_enable :: "nat \<Rightarrow> 'e \<Rightarrow> int \<times> 'e"
  promiscuous_disable :: "nat \<Rightarrow> 'e \<Rightarrow> int \<times> 'e"
  promiscuous_get :: "nat \<Rightarrow> 'e \<Rightarrow> int"
  flow_ctrl_get :: "nat \<Rightarrow> 'e \<Rightarrow> int \<times> fc_conf"
  flow_ctrl_set :: "nat \<Rightarrow> fc_conf \<Rightarrow> 'e \<Rightarrow> int \<times> 'e"

text \<open>
  The result that is printed is not initialised: it starts as \<open>junk\<close> and keeps its value when the first
  word is none of the three. Without a third word every port is meant.
\<close>

definition start_stop_port ::
  "'e eth_dev \<Rightarrow> nat \<Rightarrow> int \<Rightarrow> string list \<Rightarrow> 'e \<Rightarrow> int \<times> 'e \<times> string list" where
  "start_stop_port d nb_ports junk argv e =
    (let spec = (if length argv = 2 then -1 else port_spec argv)
     in on_ports nb_ports (selected spec) (\<lambda>p (ret, e, out).
          let (ret, e) = (if argv ! 0 = ''start'' then dev_start_call d p e
                else if argv ! 0 = ''stop'' then dev_stop_call d p e
                else if argv ! 0 = ''reset'' then dev_reset_call d p e
                else (ret, e))
          in (ret, e, out @ [''rte_eth_dev_'' @ argv ! 0 @ '' (): ret: '' @ dec_int ret @ '' port: '' @ dec p]))
        (junk, e, []))"

definition set_port_promiscuous ::
  "'e eth_dev \<Rightarrow> nat \<Rightarrow> string list \<Rightarrow> 'e \<Rightarrow> 'e \<times> string list" where
  "set_port_promiscuous d nb_ports argv e =
    on_ports nb_ports (selected (port_spec argv)) (\<lambda>p (e, out).
      let (ret, e) = (if argv ! 4 = ''enable'' then promiscuous_enable d p e else promiscuous_disable d p e)
      in (e, if ret < 0 then out @ [''set promiscuous error: ret: '' @ dec_int ret] else out)) (e, [])"

definition show_port_promiscuous :: "'e eth_dev \<Rightarrow> nat \<Rightarrow> string list \<Rightarrow> 'e \<Rightarrow> string list" where
  "show_port_promiscuous d nb_ports argv e =
    on_ports nb_ports (selected (port_spec argv)) (\<lambda>p out.
      let ret = promiscuous_get d p e
      in out @ [if ret < 0 then ''get promiscuous error: ret: '' @ dec_int ret
                else if ret = 1 then ''port['' @ dec p @ '']: promiscuous: enabled.''
                else ''port['' @ dec p @ '']: promiscuous: disabled.'']) []"

section \<open>Flow control\<close>

text \<open>The two switches of a mode. They are variables of the whole loop: a mode only ever turns them on.\<close>

definition read_mode :: "fc_mode \<Rightarrow> bool \<times> bool \<Rightarrow> bool \<times> bool" where
  "read_mode m = (\<lambda>(rx, tx).
    if m = FC_FULL then (True, True)
    else (if m = FC_RX_PAUSE then True else rx, if m = FC_TX_PAUSE then True else tx))"


definition on_off :: "bool \<Rightarrow> string" where
  "on_off b = (if b then ''on'' else ''off'')"




definition show_port_flowcontrol :: "(nat \<Rightarrow> string) \<Rightarrow> 'e eth_dev \<Rightarrow> nat \<Rightarrow> string list \<Rightarrow> 'e \<Rightarrow> string list" where
  "show_port_flowcontrol grouped d nb_ports argv e =
    snd (on_ports nb_ports (selected (port_spec argv)) (\<lambda>p ((rx, tx), out).
      let (ret, fc) = flow_ctrl_get d p e
      in if ret < 0 then ((rx, tx), out @ [''get flow_ctrl error: ret: '' @ dec_int ret])
         else let (rx, tx) = read_mode (fc_mode_of fc) (rx, tx)
              in ((rx, tx), out @
                 [''port['' @ dec p @ '']: flow control:'', ''rx pause: '' @ on_off rx, ''tx pause: '' @ on_off tx,
                  ''autoneg: '' @ on_off (fc_autoneg fc \<noteq> 0), ''pause time: '' @ grouped (unat (fc_pause_time fc)),
                  ''high waterline: '' @ grouped (unat (fc_high_water fc)), ''low waterline: '' @ grouped (unat (fc_low_water fc)),
                  ''send xon: '' @ on_off (fc_send_xon fc \<noteq> 0),
                  ''forward mac control frames: '' @ on_off (mac_ctrl_frame_fwd fc \<noteq> 0)])) ((False, False), []))"

section \<open>Configuring a port\<close>

text \<open>
  The calls are recorded; \<open>result\<close> is what DPDK answers to a call. \<open>info_get\<close> gives the result of asking for a
  port's capabilities and whether it can free transmit buffers fast. The offloads asked for are a variable of the
  whole loop. A transmit buffer is allocated once per port and queue.
\<close>

datatype port_call = Configure nat u16 u16 bool | Setup_rx nat nat u16 | Setup_tx nat nat u16 bool | Tx_buffer_init nat nat bool

record port_setup =
  ps_fast_free :: bool
  ps_tx_buffers :: "(nat \<times> nat) set"
  ps_calls :: "port_call list"
  ps_out :: "string list"

definition port_call :: "(port_call \<Rightarrow> int) \<Rightarrow> port_call \<Rightarrow> string \<Rightarrow> port_setup \<Rightarrow> port_setup" where
  "port_call result c what s =
    (let s = s\<lparr>ps_calls := ps_calls s @ [c]\<rparr>
     in if result c < 0 then s\<lparr>ps_out := ps_out s @ [what @ '' failed: '' @ dec_int (result c)]\<rparr> else s)"

definition setup_tx_queue ::
  "(port_call \<Rightarrow> int) \<Rightarrow> (nat \<Rightarrow> nat \<Rightarrow> bool) \<Rightarrow> nat \<Rightarrow> nat \<Rightarrow> port_setup \<Rightarrow> port_setup res" where
  "setup_tx_queue result zmalloc p i s =
    (let s = port_call result (Setup_tx p i 1024 (ps_fast_free s))
               (''rte_eth_tx_queue_setup(): port: '' @ dec p @ '' queue: '' @ dec i) s
     in guardr (p < RTE_MAX_ETHPORTS \<and> i < RTE_MAX_LCORE) OutOfBounds
        (if (p, i) \<in> ps_tx_buffers s then Inr s
         else Inr (s\<lparr>ps_tx_buffers := (if zmalloc p i then insert (p, i) (ps_tx_buffers s) else ps_tx_buffers s),
                     ps_calls := ps_calls s @ [Tx_buffer_init p i (zmalloc p i)]\<rparr>)))"

definition configure_dev ::
  "(nat \<Rightarrow> int \<times> bool) \<Rightarrow> (int \<Rightarrow> string) \<Rightarrow> (port_call \<Rightarrow> int) \<Rightarrow> (nat \<Rightarrow> nat \<Rightarrow> bool) \<Rightarrow> u16 \<Rightarrow> u16 \<Rightarrow> nat \<Rightarrow> port_setup \<Rightarrow>
   port_setup res" where
  "configure_dev info_get strerror result zmalloc nrx ntx p s =
    (let (ret, capable) = info_get p
     in if ret \<noteq> 0 then Inr (s\<lparr>ps_out := ps_out s @ [''rte_eth_dev_info_get(): port: '' @ dec p @ '' failed: '' @ strerror (- ret)]\<rparr>)
        else let s = (if capable then s\<lparr>ps_fast_free := True\<rparr> else s);
                 s = port_call result (Configure p nrx ntx (ps_fast_free s)) (''rte_eth_dev_info_get(): port: '' @ dec p) s;
                 s = fold (\<lambda>i. port_call result (Setup_rx p i 1024)
                            (''rte_eth_rx_queue_setup(): port: '' @ dec p @ '' queue: '' @ dec i)) [0..<unat nrx] s
             in runr (setup_tx_queue result zmalloc p) [0..<unat ntx] s)"

definition set_port_dev_configure ::
  "(nat \<Rightarrow> int \<times> bool) \<Rightarrow> (int \<Rightarrow> string) \<Rightarrow> (port_call \<Rightarrow> int) \<Rightarrow> (nat \<Rightarrow> nat \<Rightarrow> bool) \<Rightarrow> nat \<Rightarrow> string list \<Rightarrow> (nat \<times> nat) set \<Rightarrow>
   port_setup res" where
  "set_port_dev_configure info_get strerror result zmalloc nb_ports argv bufs =
    (let nrx = ucast (fst (strtol (argv ! 4))); ntx = ucast (fst (strtol (argv ! 5)))
     in runr (configure_dev info_get strerror result zmalloc nrx ntx) (filter (selected (port_spec argv)) [0..<nb_ports])
          \<lparr>ps_fast_free = False, ps_tx_buffers = bufs, ps_calls = [], ps_out = []\<rparr>)"

section \<open>Descriptors\<close>




section \<open>Display\<close>

text \<open>The array to show is chosen by whole words; for any other word its pointer is not initialised.\<close>

definition show_port_statistics :: "(nat \<Rightarrow> string) \<Rightarrow> nat \<Rightarrow> string list \<Rightarrow> port_stats \<Rightarrow> string list res" where
  "show_port_statistics grouped nb_ports argv ps =
    (let what = argv ! 3; packets = (what = ''pps'' \<or> what = ''total'');
         stats = (if what = ''pps'' \<or> what = ''bps'' then Some (stats_per_sec ps)
                  else if what = ''total'' \<or> what = ''total-bytes'' then Some (stats_current ps) else None);
         f = (\<lambda>w :: u64. pad_right 8 (grouped (unat w)));
         head = (if packets then pad_right 16 ''port name:'' @ '' '' @ pad_right 8 ''rx'' @ '' '' @ pad_right 8 ''tx'' @ '' '' @
                    pad_right 8 ''ierrors'' @ '' '' @ pad_right 8 ''oerrors''
                 else pad_right 16 ''port name:'' @ '' '' @ pad_right 8 ''bytes-in'' @ '' '' @ pad_right 8 ''bytes-out'')
     in runr (\<lambda>p out. case stats of None \<Rightarrow> Inl OutOfBounds
          | Some a \<Rightarrow> guardr (p < length a) OutOfBounds
             (let s = a ! p; name = pad_right 16 (take 15 (''port['' @ dec p @ '']:''))
              in Inr (out @ [name @ '' '' @ (if packets
                    then f (ipackets s) @ '' '' @ f (opackets s) @ '' '' @ f (ierrors s) @ '' '' @ f (oerrors s)
                    else f (ibytes s) @ '' '' @ f (obytes s))])))
          [0..<nb_ports] [head])"

text \<open>
  What a device shows: the fields of DPDK's information and link structures that are printed, the result of asking
  for each (\<open>dv_link\<close> stays zero when that fails), and the names of its first 32 packet types.
\<close>

record dev_view =
  dv_info_ret :: int
  dv_link_ret :: int
  dv_link :: eth_link
  dv_name :: string
  dv_businfo :: string
  dv_driver :: string
  dv_if_index :: nat
  dv_min_mtu :: nat
  dv_max_mtu :: nat
  dv_min_rx_bufsize :: nat
  dv_max_rx_bufsize :: nat
  dv_max_rx_pktlen :: nat
  dv_max_lro_pkt_size :: nat
  dv_max_rx_queues :: nat
  dv_max_tx_queues :: nat
  dv_nb_rx_queues :: nat
  dv_nb_tx_queues :: nat
  dv_speed_capa :: u64
  dv_rx_offload_capa :: u64
  dv_tx_offload_capa :: u64
  dv_default_rx_offloads :: u64
  dv_default_tx_offloads :: u64
  dv_ptypes :: "string list"

definition strip_prefix :: "string \<Rightarrow> string \<Rightarrow> string" where
  "strip_prefix pre s = (if take (length pre) s = pre then drop (length pre) s else s)"

text \<open>
  A buffer is read up to its first zero; one without a zero is read past its end. The buffers of the
  offloads are local to the body of the loop and hold \<open>junk\<close>, those of the defaults are cleared first.
\<close>

definition flag_text :: "(string \<Rightarrow> u64) \<Rightarrow> ((string \<Rightarrow> u64) \<Rightarrow> (string \<times> u64) list) \<Rightarrow> u64 \<Rightarrow> string \<Rightarrow> string res" where
  "flag_text value table flags buf =
    (let b = fst (snprintf_flags buf (int (length buf)) flags (table value) (Some ''|''))
     in guardr (CHR 0x00 \<in> set b) OutOfBounds (Inr (takeWhile (\<lambda>c. c \<noteq> CHR 0x00) b)))"

definition show_port_full ::
  "(int \<Rightarrow> string) \<Rightarrow> (string \<Rightarrow> u64) \<Rightarrow> string \<Rightarrow> nat \<Rightarrow> dev_view \<Rightarrow> string \<Rightarrow> string list res" where
  "show_port_full grouped value junk p v capa =
    (let n = (\<lambda>x :: nat. grouped (int x)); l = dv_link v; zeros = replicate 128 (CHR 0x00)
     in bindr (flag_text value rx_offload_names (dv_rx_offload_capa v) junk) (\<lambda>rx.
        bindr (flag_text value tx_offload_names (dv_tx_offload_capa v) junk) (\<lambda>tx.
        bindr (flag_text value rx_offload_names (dv_default_rx_offloads v) zeros) (\<lambda>rxc.
        bindr (flag_text value tx_offload_names (dv_default_tx_offloads v) zeros) (\<lambda>txc.
        Inr ([''port['' @ dec p @ '']:'',
          ''  link speed: '' @ grouped (sint (link_speed l)),
          ''  link duplex: '' @ dec_bool (link_duplex l),
          ''  link autoneg: '' @ dec_bool (link_autoneg l),
          ''  link status: '' @ dec_bool (link_status l),
          ''  device name: '' @ take 31 (dv_name v),
          ''  bus info: '' @ dv_businfo v,
          ''  driver_name: '' @ dv_driver v,
          ''  if_index: '' @ n (dv_if_index v),
          ''  min_mtu: '' @ n (dv_min_mtu v) @ '' max_mtu: '' @ n (dv_max_mtu v),
          ''  min_rx_bufsize: '' @ n (dv_min_rx_bufsize v) @ '' max_rx_bufsize: '' @ n (dv_max_rx_bufsize v),
          ''  max_rx_pktlen: '' @ n (dv_max_rx_pktlen v) @ '' max_lro_pkt_size: '' @ n (dv_max_lro_pkt_size v),
          ''  max_rx_queues: '' @ n (dv_max_rx_queues v) @ '' max_tx_queues: '' @ n (dv_max_tx_queues v),
          ''  speed_capa: '' @ capa,
          ''  nb_rx_queues: '' @ n (dv_nb_rx_queues v) @ '' nb_tx_queues: '' @ n (dv_nb_tx_queues v),
          ''  rx_offload_capa: <'' @ rx @ ''>'',
          ''  tx_offload_capa: <'' @ tx @ ''>'',
          ''  default_rxconf.offloads: <'' @ rxc @ ''>'',
          ''  default_txconf.offloads: <'' @ txc @ ''>''] @
          map (\<lambda>i. ''  ptypes['' @ dec i @ '']: '' @ take 31 (dv_ptypes v ! i)) [0..<min 32 (length (dv_ptypes v))]))))))"

definition show_port_brief :: "(int \<Rightarrow> string) \<Rightarrow> nat \<Rightarrow> dev_view \<Rightarrow> string \<Rightarrow> string" where
  "show_port_brief grouped p v capa =
    pad_left 8 (take 15 (''port['' @ dec p @ '']:'')) @ '' '' @
    pad_left 7 (strip_prefix ''0000:'' (take 31 (dv_name v))) @ '' '' @
    pad_right 6 (if link_status (dv_link v) then ''up'' else ''down'') @ '' '' @
    pad_right 7 (grouped (sint (link_speed (dv_link v)))) @ '' '' @
    pad_left 9 (strip_prefix ''net_'' (take 31 (dv_driver v))) @ '' '' @
    pad_left 24 capa"

text \<open>
  The buffer of the speeds is one for the whole command: it starts as \<open>junk\<close>, and a port without a speed shows
  what it holds from the port before.
\<close>

definition show_port_one ::
  "(int \<Rightarrow> string) \<Rightarrow> (string \<Rightarrow> u64) \<Rightarrow> string \<Rightarrow> bool \<Rightarrow> (nat \<Rightarrow> dev_view) \<Rightarrow> nat \<Rightarrow> string \<times> string list \<Rightarrow>
   (string \<times> string list) res" where
  "show_port_one grouped value junk brief dev p = (\<lambda>(buf, out).
    let v = dev p
    in if dv_info_ret v \<noteq> 0 then Inr (buf, out @ [''rte_eth_dev_info_get() returned '' @ dec_int (dv_info_ret v) @ ''.''])
       else let out = (if dv_link_ret v < 0
                  then out @ [''port['' @ dec p @ '']: rte_eth_link_get_nowait() failed: '' @ dec_int (dv_link_ret v) @ ''.''] else out)
            in bindr (flag_text value link_speeds (dv_speed_capa v) buf) (\<lambda>s.
               let buf = fst (snprintf_flags buf (int (length buf)) (dv_speed_capa v) (link_speeds value) (Some ''|''));
                   capa = take 47 (''<'' @ s @ ''>'')
               in if brief then Inr (buf, out @ [show_port_brief grouped p v capa])
                  else bindr (show_port_full grouped value junk p v capa) (\<lambda>ls. Inr (buf, out @ ls))))"

definition show_port_cmd ::
  "(int \<Rightarrow> string) \<Rightarrow> (string \<Rightarrow> u64) \<Rightarrow> string \<Rightarrow> string \<Rightarrow> (nat \<Rightarrow> dev_view) \<Rightarrow> nat \<Rightarrow> string list \<Rightarrow> string list res" where
  "show_port_cmd grouped value junk32 junk dev nb_ports argv =
    (let brief = (length argv = 2); spec = (if brief then -1 else port_spec argv);
         head = (if brief then [pad_left 8 ''port:'' @ '' '' @ pad_left 7 ''device'' @ '' '' @ pad_right 6 ''status'' @ '' '' @
             pad_right 7 ''speed'' @ '' '' @ pad_left 9 ''driver'' @ '' '' @ pad_left 24 ''<capability>''] else [])
     in bindr (runr (show_port_one grouped value junk brief dev) (filter (selected spec) [0..<nb_ports]) (junk32, head))
          (\<lambda>(buf, out). Inr out))"

section \<open>Flow control over several ports\<close>













section \<open>Words cut short\<close>

text \<open>A shortened \<open>enable\<close> is accepted by the command line, and turns the mode off.\<close>

lemma abbreviated_enable:
  assumes "is_command_match y ''enable'' w" "w \<noteq> ''enable''"
  shows "set_port_promiscuous d nb_ports [''set'', ''port'', p, ''promiscuous'', w] e =
    set_port_promiscuous d nb_ports [''set'', ''port'', p, ''promiscuous'', ''disable''] e"
  using assms(2) by (simp add: set_port_promiscuous_def port_spec_def)

text \<open>A shortened \<open>pps\<close> is accepted, and leaves the pointer to the array uninitialised.\<close>

lemma abbreviated_pps:
  "is_command_match y ''pps'' ''pp'' \<and>
   (0 < nb_ports \<longrightarrow> show_port_statistics grouped nb_ports [''show'', ''port'', ''statistics'', ''pp''] ps = Inl OutOfBounds)"
proof
  show "is_command_match y ''pps'' ''pp''" by (simp add: is_command_match_def is_command_match_regular_def)
  show "0 < nb_ports \<longrightarrow> show_port_statistics grouped nb_ports [''show'', ''port'', ''statistics'', ''pp''] ps = Inl OutOfBounds"
    by (cases nb_ports) (simp_all add: show_port_statistics_def Let_def upt_conv_Cons del: upt_Suc)
qed

section \<open>From the descriptor command to the rib\<close>













end
