(* ===== verification/Command_Tree.thy ===== *)
theory Command_Tree
  imports Command "HOL-Library.Multiset"
begin

text \<open>
  What installing does to the command tree: seen from outside, the tree is a partial map from
  the spelled-out commands to their functions, and \<open>command_install2\<close> adds all spellings of a
  specification to it. A line that spells a command out runs its function, whatever else is installed.
\<close>

section \<open>The tree as a map\<close>

primrec resolve :: "'f command_set \<Rightarrow> nat \<Rightarrow> string list \<Rightarrow> nat option" where
  "resolve cs a [] = Some a"
| "resolve cs a (w # ws) = (case command_match_exact cs a w of None \<Rightarrow> None | Some n \<Rightarrow> resolve cs n ws)"

definition func_at :: "'f command_set \<Rightarrow> string list \<Rightarrow> 'f option" where
  "func_at cs q = (case resolve cs 0 q of None \<Rightarrow> None | Some n \<Rightarrow> cmd_func (cs ! n))"

definition tree_ok :: "'f command_set \<Rightarrow> bool" where
  "tree_ok cs \<longleftrightarrow> cs \<noteq> [] \<and>
    (\<forall>a<length cs. \<forall>n\<in>set (cmdvec (cs ! a)). a < n \<and> n < length cs) \<and>
    (\<forall>a<length cs. inj_on (\<lambda>n. cmdstr (cs ! n)) (set (cmdvec (cs ! a)))) \<and>
    (\<forall>a<length cs. \<forall>b<length cs. \<forall>n. n \<in> set (cmdvec (cs ! a)) \<and> n \<in> set (cmdvec (cs ! b)) \<longrightarrow> a = b)"

text \<open>The sort is a permutation.\<close>

definition permutes_list :: "('a list \<Rightarrow> 'a list) \<Rightarrow> bool" where
  "permutes_list qs \<longleftrightarrow> (\<forall>xs. mset (qs xs) = mset xs)"

lemma set_permuted [simp]: "permutes_list qs \<Longrightarrow> set (qs xs) = set xs"
  unfolding permutes_list_def by (metis set_mset_mset)

lemma tree_child:
  "tree_ok cs \<Longrightarrow> a < length cs \<Longrightarrow> n \<in> set (cmdvec (cs ! a)) \<Longrightarrow> a < n \<and> n < length cs"
  unfolding tree_ok_def by blast

lemma tree_name:
  "tree_ok cs \<Longrightarrow> a < length cs \<Longrightarrow> n \<in> set (cmdvec (cs ! a)) \<Longrightarrow> m \<in> set (cmdvec (cs ! a)) \<Longrightarrow>
   cmdstr (cs ! n) = cmdstr (cs ! m) \<Longrightarrow> n = m"
  unfolding tree_ok_def inj_on_def by blast

lemma tree_parent:
  "tree_ok cs \<Longrightarrow> a < length cs \<Longrightarrow> b < length cs \<Longrightarrow> n \<in> set (cmdvec (cs ! a)) \<Longrightarrow> n \<in> set (cmdvec (cs ! b)) \<Longrightarrow> a = b"
  unfolding tree_ok_def by blast

lemma tree_create: "tree_ok command_set_create" "func_at command_set_create q = None"
  by (simp_all add: tree_ok_def command_set_create_def command_node_create_def)
    (cases q; simp add: func_at_def command_match_exact_def)+

lemma fold_last:
  "fold (\<lambda>n m. if P n then Some n else m) xs r = Some n \<Longrightarrow> r = Some n \<or> n \<in> set xs \<and> P n"
  "fold (\<lambda>n m. if P n then Some n else m) xs r = None \<longleftrightarrow> r = None \<and> (\<forall>n\<in>set xs. \<not> P n)"
  by (induction xs arbitrary: r) (auto split: if_splits)

lemma exact_SomeD:
  "command_match_exact cs a w = Some n \<Longrightarrow> n \<in> set (cmdvec (cs ! a)) \<and> cmdstr (cs ! n) = w"
  unfolding command_match_exact_def by (drule fold_last(1)) simp

lemma exact_None:
  "command_match_exact cs a w = None \<longleftrightarrow> (\<forall>n\<in>set (cmdvec (cs ! a)). cmdstr (cs ! n) \<noteq> w)"
  unfolding command_match_exact_def by (simp add: fold_last(2))

lemma exact_iff:
  assumes "tree_ok cs" "a < length cs"
  shows "command_match_exact cs a w = Some n \<longleftrightarrow> n \<in> set (cmdvec (cs ! a)) \<and> cmdstr (cs ! n) = w"
proof
  assume n: "n \<in> set (cmdvec (cs ! a)) \<and> cmdstr (cs ! n) = w"
  then obtain m where m: "command_match_exact cs a w = Some m"
    by (cases "command_match_exact cs a w") (auto simp: exact_None)
  with exact_SomeD [OF m] n assms show "command_match_exact cs a w = Some n"
    using tree_name by fastforce
qed (rule exact_SomeD)

lemma resolve_append:
  "resolve cs a (p @ q) = (case resolve cs a p of None \<Rightarrow> None | Some n \<Rightarrow> resolve cs n q)"
  by (induction p arbitrary: a) (auto split: option.splits)

lemma resolve_snoc:
  "resolve cs a (p @ [w]) = (case resolve cs a p of None \<Rightarrow> None | Some n \<Rightarrow> command_match_exact cs n w)"
  by (auto simp: resolve_append split: option.splits)

lemma resolve_range: "tree_ok cs \<Longrightarrow> a < length cs \<Longrightarrow> resolve cs a p = Some n \<Longrightarrow> n < length cs \<and> a \<le> n"
proof (induction p arbitrary: a)
  case (Cons w p)
  then obtain m where m: "command_match_exact cs a w = Some m" "resolve cs m p = Some n"
    by (auto split: option.splits)
  with exact_SomeD [OF m(1)] tree_child [OF Cons.prems(1,2)] Cons.IH [OF Cons.prems(1) _ m(2)]
  show ?case by force
qed simp

lemma resolve_root: "tree_ok cs \<Longrightarrow> resolve cs 0 p = Some n \<Longrightarrow> n < length cs"
  using resolve_range [of cs 0] unfolding tree_ok_def by blast

lemma resolve_inj: "tree_ok cs \<Longrightarrow> resolve cs 0 p = Some n \<Longrightarrow> resolve cs 0 q = Some n \<Longrightarrow> p = q"
proof (induction p arbitrary: n q rule: rev_induct)
  case Nil
  show ?case
  proof (cases q rule: rev_cases)
    case (snoc q' v)
    with Nil obtain m where m: "resolve cs 0 q' = Some m" "command_match_exact cs m v = Some 0"
      by (auto simp: resolve_snoc split: option.splits)
    with tree_child [OF Nil.prems(1) resolve_root [OF Nil.prems(1) m(1)]] exact_SomeD [OF m(2)]
    show ?thesis by auto
  qed simp
next
  case (snoc w p)
  then obtain m where m: "resolve cs 0 p = Some m" "command_match_exact cs m w = Some n"
    by (auto simp: resolve_snoc split: option.splits)
  note mr = resolve_root [OF snoc.prems(1) m(1)]
  have n: "n \<in> set (cmdvec (cs ! m))" "cmdstr (cs ! n) = w" using exact_SomeD [OF m(2)] by auto
  show ?case
  proof (cases q rule: rev_cases)
    case Nil
    with snoc.prems tree_child [OF snoc.prems(1) mr n(1)] show ?thesis by simp
  next
    case (snoc q' v)
    with snoc.prems(3) obtain m' where m': "resolve cs 0 q' = Some m'" "command_match_exact cs m' v = Some n"
      by (auto simp: resolve_snoc split: option.splits)
    have n': "n \<in> set (cmdvec (cs ! m'))" "cmdstr (cs ! n) = v" using exact_SomeD [OF m'(2)] by auto
    from tree_parent [OF snoc.prems(1) mr resolve_root [OF snoc.prems(1) m'(1)] n(1) n'(1)] m'(1)
    have "resolve cs 0 q' = Some m" by simp
    from snoc.IH [OF snoc.prems(1) m(1) this] n(2) n'(2) snoc show ?thesis by simp
  qed
qed

section \<open>Adding a node\<close>

lemma add_child_nodes:
  assumes "a < length cs"
  shows "length (add_child qsort a w h cs) = Suc (length cs)"
    "n < length cs \<Longrightarrow> cmdstr (add_child qsort a w h cs ! n) = cmdstr (cs ! n)"
    "n < length cs \<Longrightarrow> cmd_func (add_child qsort a w h cs ! n) = cmd_func (cs ! n)"
    "n < length cs \<Longrightarrow> n \<noteq> a \<Longrightarrow> cmdvec (add_child qsort a w h cs ! n) = cmdvec (cs ! n)"
    "cmdvec (add_child qsort a w h cs ! a) = qsort (cmdvec (cs ! a) @ [length cs])"
    "add_child qsort a w h cs ! length cs = command_node_create w h"
  using assms by (simp_all add: add_child_def nth_append nth_list_update)

lemma add_child_ok:
  assumes t: "tree_ok cs" and a: "a < length cs" and p: "permutes_list qsort"
    and new: "command_match_exact cs a w = None"
  shows "tree_ok (add_child qsort a w h cs)"
proof -
  let ?c = "add_child qsort a w h cs"
  note [simp] = add_child_nodes [OF a]
  have vec: "set (cmdvec (?c ! b)) = (if b = a then insert (length cs) (set (cmdvec (cs ! a)))
      else if b < length cs then set (cmdvec (cs ! b)) else {})" if "b < Suc (length cs)" for b
    using that p a by (cases "b = length cs") (auto simp: command_node_create_def)
  have str: "cmdstr (?c ! b) = (if b = length cs then w else cmdstr (cs ! b))" if "b < Suc (length cs)" for b
    using that by (auto simp: command_node_create_def less_Suc_eq)
  note ch = tree_child [OF t]
  show ?thesis
    unfolding tree_ok_def
  proof (intro conjI allI impI ballI)
    show "?c \<noteq> []" by (simp add: add_child_def)
  next
    fix b n assume "b < length ?c" "n \<in> set (cmdvec (?c ! b))"
    then show "b < n" "n < length ?c"
      using ch [of b n] a vec [of b] by (auto split: if_splits)
  next
    fix b assume b: "b < length ?c"
    show "inj_on (\<lambda>n. cmdstr (?c ! n)) (set (cmdvec (?c ! b)))"
    proof (rule inj_onI)
      fix n m assume nm: "n \<in> set (cmdvec (?c ! b))" "m \<in> set (cmdvec (?c ! b))" "cmdstr (?c ! n) = cmdstr (?c ! m)"
      have lt: "k < length cs" if "k \<in> set (cmdvec (cs ! b))" "b < length cs" for k using ch that by blast
      from new have neq: "cmdstr (cs ! k) \<noteq> w" if "k \<in> set (cmdvec (cs ! a))" for k
        using that by (auto simp: exact_None)
      show "n = m"
      proof (cases "b = a")
        case True
        then have "n = length cs \<or> n \<in> set (cmdvec (cs ! a))" "m = length cs \<or> m \<in> set (cmdvec (cs ! a))"
          using nm vec [of a] a by auto
        with nm(3) neq lt a True show ?thesis
          using str [of n] str [of m] tree_name [OF t a, of n m] by (auto split: if_splits)
      next
        case False
        then have "b < length cs" "n \<in> set (cmdvec (cs ! b))" "m \<in> set (cmdvec (cs ! b))"
          using nm vec [of b] b by (auto split: if_splits)
        with nm(3) lt [of n] lt [of m] show ?thesis
          using tree_name [OF t, of b n m] str [of n] str [of m] by simp
      qed
    qed
  next
    fix b b' n assume "b < length ?c" "b' < length ?c" "n \<in> set (cmdvec (?c ! b)) \<and> n \<in> set (cmdvec (?c ! b'))"
    then show "b = b'"
      using vec [of b] vec [of b'] tree_parent [OF t, of b b' n] ch [of b n] ch [of b' n] a
      by (auto split: if_splits)
  qed
qed

lemma add_child_exact:
  assumes t: "tree_ok cs" and a: "a < length cs" and p: "permutes_list qsort"
    and new: "command_match_exact cs a w = None" and n: "n \<le> length cs"
  shows "command_match_exact (add_child qsort a w h cs) n v =
    (if n = length cs then None else if n = a \<and> v = w then Some (length cs) else command_match_exact cs n v)"
proof -
  let ?c = "add_child qsort a w h cs"
  note [simp] = add_child_nodes [OF a]
  have t': "tree_ok ?c" by (rule add_child_ok [OF t a p new])
  have lt: "k < length cs" if "k \<in> set (cmdvec (cs ! n))" "n < length cs" for k using tree_child [OF t] that by blast
  show ?thesis
  proof (cases "n = length cs")
    case True
    then show ?thesis by (simp add: command_match_exact_def command_node_create_def)
  next
    case False
    with n have n': "n < length cs" by simp
    have "command_match_exact ?c n v = Some k \<longleftrightarrow>
        (if n = a \<and> v = w then Some (length cs) else command_match_exact cs n v) = Some k" for k
    proof -
      have "n < length ?c" using n' by simp
      note e = exact_iff [OF t' this] exact_iff [OF t n']
      have new': "cmdstr (cs ! m) \<noteq> w" if "m \<in> set (cmdvec (cs ! a))" for m
        using new that by (simp add: exact_None)
      have lt': "m < length cs" if "m \<in> set (cmdvec (cs ! n))" for m using lt that n' by blast
      show ?thesis
      proof (cases "n = a")
        case True
        with e new' lt' p show ?thesis by (auto simp: command_node_create_def)
      next
        case False
        with e lt' n' show ?thesis by auto
      qed
    qed
    then show ?thesis using False by (metis option.exhaust)
  qed
qed

lemma add_child_resolve:
  assumes t: "tree_ok cs" and r: "resolve cs 0 p = Some a" and perm: "permutes_list qsort"
    and new: "command_match_exact cs a w = None"
  shows "resolve (add_child qsort a w h cs) 0 q = (if q = p @ [w] then Some (length cs) else resolve cs 0 q)"
proof -
  have a: "a < length cs" by (rule resolve_root [OF t r])
  note ex = add_child_exact [OF t a perm new]
  show ?thesis
  proof (induction q rule: rev_induct)
    case (snoc v q)
    show ?case
    proof (cases "q = p @ [w]")
      case True
      with snoc have "resolve (add_child qsort a w h cs) 0 q = Some (length cs)" by simp
      moreover have "resolve cs 0 q = None" using True r new by (simp add: resolve_snoc)
      ultimately show ?thesis
        using ex [where n = "length cs" and v = v] by (simp only: resolve_snoc option.case) (simp add: True)
    next
      case False
      with snoc have IH: "resolve (add_child qsort a w h cs) 0 q = resolve cs 0 q" by simp
      show ?thesis
      proof (cases "resolve cs 0 q")
        case None
        with r have "q \<noteq> p" by auto
        with None show ?thesis by (simp add: resolve_snoc IH)
      next
        case (Some n)
        have "n = a \<longleftrightarrow> q = p" using resolve_inj [OF t] r Some by (metis option.inject)
        moreover have "command_match_exact (add_child qsort a w h cs) n v =
            (if n = a \<and> v = w then Some (length cs) else command_match_exact cs n v)"
          using ex [where n = n and v = v and h = h] resolve_root [OF t Some] by simp
        ultimately show ?thesis by (simp add: resolve_snoc IH Some)
      qed
    qed
  qed simp
qed

text \<open>What a step of the installation keeps: the paths and functions there are.\<close>

definition extends_tree :: "'f command_set \<Rightarrow> 'f command_set \<Rightarrow> bool" where
  "extends_tree cs cs' \<longleftrightarrow> tree_ok cs' \<and> func_at cs' = func_at cs \<and>
     (\<forall>q n. resolve cs 0 q = Some n \<longrightarrow> resolve cs' 0 q = Some n)"

lemma extends_refl: "tree_ok cs \<Longrightarrow> extends_tree cs cs"
  by (simp add: extends_tree_def)

lemma extends_trans: "extends_tree a b \<Longrightarrow> extends_tree b c \<Longrightarrow> extends_tree a c"
  by (simp add: extends_tree_def)

lemma find_or_add_spec:
  assumes t: "tree_ok cs" and r: "resolve cs 0 p = Some a" and perm: "permutes_list qsort"
    and f: "find_or_add qsort a w h cs = (n, cs')"
  shows "extends_tree cs cs'" "resolve cs' 0 (p @ [w]) = Some n"
proof -
  have a: "a < length cs" by (rule resolve_root [OF t r])
  have "extends_tree cs cs' \<and> resolve cs' 0 (p @ [w]) = Some n"
  proof (cases "command_match_exact cs a w")
    case (Some m)
    with f r t show ?thesis by (auto simp: find_or_add_def resolve_snoc extends_refl)
  next
    case None
    with f have c: "cs' = add_child qsort a w h cs" "n = length cs" by (simp_all add: find_or_add_def)
    note res = add_child_resolve [OF t r perm None]
    have no: "resolve cs 0 (p @ [w]) = None" using r None by (simp add: resolve_snoc)
    have "func_at cs' q = func_at cs q" for q
    proof (cases "q = p @ [w]")
      case True
      then show ?thesis
        using no by (simp add: func_at_def c res add_child_nodes [OF a] command_node_create_def)
    next
      case False
      then show ?thesis
        using resolve_root [OF t, of q] by (auto simp: func_at_def c res add_child_nodes [OF a] split: option.splits)
    qed
    then show ?thesis
      using add_child_ok [OF t a perm None] no by (auto simp: extends_tree_def c res)
  qed
  then show "extends_tree cs cs'" "resolve cs' 0 (p @ [w]) = Some n" by simp_all
qed

section \<open>Installing a specification\<close>

text \<open>
  The commands a specification spells: each word extends every path so far by each of its
  alternatives, an empty one leaving the path as it is. At no word may two of the paths coincide.
\<close>

definition extend_paths :: "string list \<Rightarrow> string list list \<Rightarrow> string list list" where
  "extend_paths alts ps = concat (map (\<lambda>s. map (\<lambda>p. if s = [] then p else p @ [s]) ps) alts)"

fun spellings :: "string list \<Rightarrow> string list list \<Rightarrow> string list list" where
  "spellings [] ps = ps"
| "spellings (w # ws) ps = spellings ws (extend_paths (alternatives w) ps)"

fun unambiguous :: "string list \<Rightarrow> string list list \<Rightarrow> bool" where
  "unambiguous [] ps \<longleftrightarrow> True"
| "unambiguous (w # ws) ps \<longleftrightarrow> distinct (extend_paths (alternatives w) ps) \<and> unambiguous ws (extend_paths (alternatives w) ps)"

definition placed :: "'f command_set \<Rightarrow> nat list \<Rightarrow> string list list \<Rightarrow> bool" where
  "placed cs ns ps \<longleftrightarrow> list_all2 (\<lambda>n p. resolve cs 0 p = Some n) ns ps"

lemma placed_simps [simp]:
  "placed cs [] []"
  "placed cs (n # ns) (p # ps) \<longleftrightarrow> resolve cs 0 p = Some n \<and> placed cs ns ps"
  "length ns = length ps \<Longrightarrow> placed cs (ns @ [n]) (ps @ [p]) \<longleftrightarrow> placed cs ns ps \<and> resolve cs 0 p = Some n"
  by (simp_all add: placed_def list_all2_append)

lemma placed_length: "placed cs ns ps \<Longrightarrow> length ns = length ps"
  by (simp add: placed_def list_all2_lengthD)

lemma placed_extends: "extends_tree cs cs' \<Longrightarrow> placed cs ns ps \<Longrightarrow> placed cs' ns ps"
  unfolding placed_def by (erule list_all2_mono) (simp add: extends_tree_def)

lemma placed_member:
  "tree_ok cs \<Longrightarrow> placed cs ns ps \<Longrightarrow> resolve cs 0 p = Some n \<Longrightarrow> n \<in> set ns \<longleftrightarrow> p \<in> set ps"
proof (induction ns arbitrary: ps)
  case (Cons m ns)
  then obtain p' ps' where ps: "ps = p' # ps'" "resolve cs 0 p' = Some m" "placed cs ns ps'"
    by (cases ps) (auto simp: placed_def)
  have "n = m \<longleftrightarrow> p = p'" using resolve_inj [OF Cons.prems(1,3)] ps(2) Cons.prems(3) by (metis option.inject)
  with Cons ps show ?case by simp
qed (simp add: placed_def)

lemma extends_ok: "extends_tree cs cs' \<Longrightarrow> tree_ok cs'"
  by (simp add: extends_tree_def)

lemma install_below_step:
  assumes "tree_ok cs" "resolve cs 0 p = Some a" "permutes_list qsort"
  obtains n cs' where "install_below qsort s h (a # as) (cs, ns) =
      bindr (push n ns) (\<lambda>ns. install_below qsort s h as (cs', ns))"
    "extends_tree cs cs'" "resolve cs' 0 (if s = [] then p else p @ [s]) = Some n"
proof (cases "s = []")
  case True
  with assms that [of a cs] show ?thesis by (simp add: extends_refl)
next
  case False
  obtain n cs' where f: "find_or_add qsort a s h cs = (n, cs')" by (cases "find_or_add qsort a s h cs")
  from find_or_add_spec [OF assms f] False that [of n cs'] f show ?thesis by simp
qed

text \<open>The outcome of a step of the installation that adds the paths \<open>new\<close> to the paths \<open>qs\<close>.\<close>

definition step_outcome ::
  "'f command_set \<Rightarrow> string list list \<Rightarrow> string list list \<Rightarrow> ('f command_set \<times> nat list) res \<Rightarrow> bool" where
  "step_outcome cs qs new r \<longleftrightarrow>
    (if distinct (qs @ new)
     then \<exists>cs' ns'. r = Inr (cs', ns') \<and> extends_tree cs cs' \<and> placed cs' ns' (qs @ new)
     else r = Inl AssertFailed)"

lemma step_outcome_trans:
  "extends_tree cs cs1 \<Longrightarrow> step_outcome cs1 (qs @ new1) new2 r \<Longrightarrow> step_outcome cs qs (new1 @ new2) r"
  unfolding step_outcome_def append_assoc by (auto dest: extends_trans split: if_splits)

lemma step_outcome_fail:
  "\<not> distinct (qs @ new1) \<Longrightarrow> r = Inl AssertFailed \<Longrightarrow> step_outcome cs qs (new1 @ new2) r"
  unfolding step_outcome_def by (simp only: distinct_append) auto

lemma install_below_outcome:
  "tree_ok cs \<Longrightarrow> permutes_list qsort \<Longrightarrow> placed cs as ps \<Longrightarrow> placed cs ns qs \<Longrightarrow> distinct qs \<Longrightarrow>
   step_outcome cs qs (map (\<lambda>p. if s = [] then p else p @ [s]) ps) (install_below qsort s h as (cs, ns))"
proof (induction as arbitrary: ps cs ns qs)
  case Nil
  then show ?case by (auto simp: step_outcome_def placed_def extends_refl)
next
  case (Cons a as)
  from Cons.prems(3) obtain p ps' where ps: "ps = p # ps'" "resolve cs 0 p = Some a" "placed cs as ps'"
    by (cases ps) (auto simp: placed_def)
  obtain n cs1 where st: "install_below qsort s h (a # as) (cs, ns) =
      bindr (push n ns) (\<lambda>ns. install_below qsort s h as (cs1, ns))"
    and e: "extends_tree cs cs1" and n: "resolve cs1 0 (if s = [] then p else p @ [s]) = Some n"
    by (rule install_below_step [OF Cons.prems(1) ps(2) Cons.prems(2)])
  let ?p = "if s = [] then p else p @ [s]"
  note t1 = extends_ok [OF e]
  note ns1 = placed_extends [OF e Cons.prems(4)]
  show ?case
  proof (cases "?p \<in> set qs")
    case True
    with placed_member [OF t1 ns1 n] show ?thesis
      unfolding st ps(1) by (simp add: push_def step_outcome_def)
  next
    case False
    with placed_member [OF t1 ns1 n] have "push n ns = Inr (ns @ [n])" by (simp add: push_def)
    moreover have "placed cs1 (ns @ [n]) (qs @ [?p])" using ns1 n placed_length [OF ns1] by simp
    moreover have "distinct (qs @ [?p])" using False Cons.prems(5) by simp
    ultimately have "step_outcome cs1 (qs @ [?p]) (map (\<lambda>p. if s = [] then p else p @ [s]) ps')
        (install_below qsort s h (a # as) (cs, ns))"
      using Cons.IH [OF t1 Cons.prems(2) placed_extends [OF e ps(3)]] st by simp
    from step_outcome_trans [OF e this] show ?thesis by (simp add: ps(1))
  qed
qed

lemma install_alternatives_outcome:
  "tree_ok cs \<Longrightarrow> permutes_list qsort \<Longrightarrow> placed cs as ps \<Longrightarrow> placed cs ns qs \<Longrightarrow> distinct qs \<Longrightarrow>
   step_outcome cs qs (extend_paths alts ps)
     (map_sum id (\<lambda>(cs, hs, ns). (cs, ns)) (install_alternatives qsort as alts (cs, hs, ns)))"
proof (induction alts arbitrary: cs hs ns qs)
  case Nil
  then show ?case by (auto simp: step_outcome_def extend_paths_def extends_refl)
next
  case (Cons s alts)
  obtain hl hs' where pop: "(if s = [] then (None, hs) else pop hs) = (hl, hs')"
    by (cases "if s = [] then (None, hs) else pop hs")
  let ?new = "map (\<lambda>p. if s = [] then p else p @ [s]) ps"
  have ex: "extend_paths (s # alts) ps = ?new @ extend_paths alts ps" by (simp add: extend_paths_def)
  have st: "install_alternatives qsort as (s # alts) (cs, hs, ns) =
      bindr (install_below qsort s hl as (cs, ns)) (\<lambda>(cs, ns). install_alternatives qsort as alts (cs, hs', ns))"
    by (simp add: pop)
  note b = install_below_outcome [OF Cons.prems, of s hl, unfolded step_outcome_def]
  show ?case
  proof (cases "distinct (qs @ ?new)")
    case False
    with b have "install_below qsort s hl as (cs, ns) = Inl AssertFailed" by (simp only: if_False)
    then show ?thesis unfolding ex by (intro step_outcome_fail [OF False]) (simp only: st bindr_simps map_sum.simps id_apply)
  next
    case True
    with b obtain cs1 ns1 where r: "install_below qsort s hl as (cs, ns) = Inr (cs1, ns1)"
      and e: "extends_tree cs cs1" and pl: "placed cs1 ns1 (qs @ ?new)" by auto
    from Cons.IH [OF extends_ok [OF e] Cons.prems(2) placed_extends [OF e Cons.prems(3)] pl True, of hs']
    have "step_outcome cs1 (qs @ ?new) (extend_paths alts ps)
        (map_sum id (\<lambda>(cs, hs, ns). (cs, ns)) (install_alternatives qsort as (s # alts) (cs, hs, ns)))"
      unfolding st r bindr_simps prod.case .
    from step_outcome_trans [OF e this] show ?thesis unfolding ex .
  qed
qed

lemma install2_words_outcome:
  "tree_ok cs \<Longrightarrow> permutes_list qsort \<Longrightarrow> placed cs as ps \<Longrightarrow>
   (if unambiguous ws ps
    then \<exists>cs' ns. install2_words qsort ws as (cs, hs) = Inr (cs', ns) \<and> extends_tree cs cs' \<and> placed cs' ns (spellings ws ps)
    else install2_words qsort ws as (cs, hs) = Inl AssertFailed)"
proof (induction ws arbitrary: cs hs as ps)
  case Nil
  then show ?case by (simp add: extends_refl)
next
  case (Cons w ws)
  let ?r = "install_alternatives qsort as (alternatives w) (cs, hs, [])"
  have o: "step_outcome cs [] (extend_paths (alternatives w) ps) (map_sum id (\<lambda>(cs, hs, ns). (cs, ns)) ?r)"
    by (rule install_alternatives_outcome) (use Cons.prems in simp_all)
  show ?case
  proof (cases "distinct (extend_paths (alternatives w) ps)")
    case False
    with o have "?r = Inl AssertFailed" by (cases ?r) (auto simp: step_outcome_def)
    with False show ?thesis by simp
  next
    case True
    with o obtain cs1 hs1 ns1 where r: "?r = Inr (cs1, hs1, ns1)" and e: "extends_tree cs cs1"
      and pl: "placed cs1 ns1 (extend_paths (alternatives w) ps)"
      by (cases ?r) (auto simp: step_outcome_def)
    from Cons.IH [OF extends_ok [OF e] Cons.prems(2) pl, of hs1] True extends_trans [OF e]
    show ?thesis by (auto simp: r split: if_splits)
  qed
qed

lemma set_func_tree:
  assumes "n < length cs"
  shows "resolve (set_func f n cs) a q = resolve cs a q" "tree_ok (set_func f n cs) \<longleftrightarrow> tree_ok cs"
    "length (set_func f n cs) = length cs"
    "m < length cs \<Longrightarrow> cmd_func (set_func f n cs ! m) = (if m = n then Some f else cmd_func (cs ! m))"
proof -
  have same: "cmdvec (set_func f n cs ! k) = cmdvec (cs ! k)" "cmdstr (set_func f n cs ! k) = cmdstr (cs ! k)" for k
    using assms by (auto simp: set_func_def nth_list_update)
  have ex: "command_match_exact (set_func f n cs) k w = command_match_exact cs k w" for k w
    by (simp add: command_match_exact_def same)
  show "resolve (set_func f n cs) a q = resolve cs a q"
    by (induction q arbitrary: a) (simp_all add: ex cong: option.case_cong)
  show len: "length (set_func f n cs) = length cs" by (simp add: set_func_def)
  have "set_func f n cs \<noteq> [] \<longleftrightarrow> cs \<noteq> []" by (simp add: set_func_def)
  then show "tree_ok (set_func f n cs) \<longleftrightarrow> tree_ok cs"
    by (simp only: tree_ok_def same len)
  show "m < length cs \<Longrightarrow> cmd_func (set_func f n cs ! m) = (if m = n then Some f else cmd_func (cs ! m))"
    using assms by (simp add: set_func_def nth_list_update)
qed

lemma set_func_at:
  assumes "tree_ok cs" "resolve cs 0 p = Some n"
  shows "func_at (set_func f n cs) = (func_at cs)(p \<mapsto> f)"
proof
  fix q
  have n: "n < length cs" by (rule resolve_root [OF assms])
  note sf = set_func_tree [OF n]
  show "func_at (set_func f n cs) q = ((func_at cs)(p \<mapsto> f)) q"
  proof (cases "resolve cs 0 q")
    case None
    with assms(2) have "q \<noteq> p" by auto
    with None show ?thesis by (simp add: func_at_def sf)
  next
    case (Some m)
    have "m = n \<longleftrightarrow> q = p" using resolve_inj [OF assms(1)] assms(2) Some by (metis option.inject)
    with Some resolve_root [OF assms(1) Some] show ?thesis by (simp add: func_at_def sf)
  qed
qed

lemma set_funcs_at:
  "tree_ok cs \<Longrightarrow> placed cs ns ps \<Longrightarrow>
   tree_ok (fold (set_func f) ns cs) \<and>
   func_at (fold (set_func f) ns cs) = (\<lambda>q. if q \<in> set ps then Some f else func_at cs q)"
proof (induction ns arbitrary: cs ps)
  case Nil
  then show ?case by (simp add: placed_def)
next
  case (Cons n ns)
  then obtain p ps' where ps: "ps = p # ps'" "resolve cs 0 p = Some n" "placed cs ns ps'"
    by (cases ps) (auto simp: placed_def)
  note n = resolve_root [OF Cons.prems(1) ps(2)]
  have pl: "placed (set_func f n cs) ns ps'" using ps(3) by (simp add: placed_def set_func_tree [OF n])
  have t: "tree_ok (set_func f n cs)" using Cons.prems(1) by (simp add: set_func_tree [OF n])
  from Cons.IH [OF t pl] show ?case
    by (auto simp: set_func_at [OF Cons.prems(1) ps(2)] ps(1) fun_eq_iff)
qed

definition spelled :: "string \<Rightarrow> string list list" where
  "spelled line = spellings (split_on (CHR '' '') line) [[]]"

lemma install2_outcome:
  assumes "tree_ok cs" "permutes_list qsort"
  shows "if unambiguous (split_on (CHR '' '') line) [[]]
    then \<exists>cs'. command_install2 qsort line helps f cs = Inr cs' \<and> tree_ok cs' \<and>
      func_at cs' = (\<lambda>q. if q \<in> set (spelled line) then Some f else func_at cs q)
    else command_install2 qsort line helps f cs = Inl AssertFailed"
proof -
  have "placed cs [0] [[]]" by simp
  note w = install2_words_outcome [OF assms this, of "split_on (CHR '' '') line" "split_on (CHR ''\<newline>'') helps"]
  show ?thesis
  proof (cases "unambiguous (split_on (CHR '' '') line) [[]]")
    case False
    with w show ?thesis by (simp add: command_install2_def)
  next
    case True
    with w obtain cs' ns where
      "install2_words qsort (split_on (CHR '' '') line) [0] (cs, split_on (CHR ''\<newline>'') helps) = Inr (cs', ns)"
      "extends_tree cs cs'" "placed cs' ns (spelled line)"
      by (auto simp: spelled_def)
    with set_funcs_at [of cs' ns "spelled line" f] True show ?thesis
      by (simp add: command_install2_def extends_tree_def fun_eq_iff)
  qed
qed

text \<open>
  C3: Installing a specification adds all the commands it spells to the map from commands to
  functions and changes no other, and keeps the tree well formed; it stops at
  an assertion exactly when two of its spellings coincide at some word.
\<close>

theorem install2_refines:
  assumes "tree_ok cs" "permutes_list qsort"
  shows "if unambiguous (split_on (CHR '' '') line) [[]]
    then \<exists>cs'. command_install2 qsort line helps f cs = Inr cs' \<and> tree_ok cs' \<and>
      func_at cs' = (\<lambda>q. if q \<in> set (spelled line) then Some f else func_at cs q)
    else command_install2 qsort line helps f cs = Inl AssertFailed"
  by (rule install2_outcome [OF assms])

theorem install2_refines_witness:
  "(\<exists>cs'. command_install2 id ''(set|no|) pager'' ''set'' (7 :: nat) command_set_create = Inr cs' \<and> tree_ok cs' \<and>
      func_at cs' = (\<lambda>q. if q \<in> {[''set'', ''pager''], [''no'', ''pager''], [''pager'']} then Some 7 else None)) \<and>
   command_install2 id ''(a|) (a|)'' ''a'' (7 :: nat) command_set_create = Inl AssertFailed"
proof -
  have p: "permutes_list id" by (simp add: permutes_list_def)
  have u: "unambiguous (split_on (CHR '' '') ''(set|no|) pager'') [[]]"
    "spelled ''(set|no|) pager'' = [[''set'', ''pager''], [''no'', ''pager''], [''pager'']]"
    "\<not> unambiguous (split_on (CHR '' '') ''(a|) (a|)'') [[]]"
    by (simp_all add: alternatives_def after_char_def extend_paths_def spelled_def)
  note a = install2_refines [OF tree_create(1) p, of "''(set|no|) pager''" "''set''" "7 :: nat", unfolded if_P [OF u(1)]]
  note b = install2_refines [OF tree_create(1) p, of "''(a|) (a|)''" "''a''" "7 :: nat", unfolded if_not_P [OF u(3)]]
  from a b show ?thesis by (simp add: u(2) tree_create(2) cong: if_cong)
qed

section \<open>Running a command\<close>

text \<open>A node spelled like the word is found whatever else the word matches.\<close>

lemma match_var_counts:
  "mt_varcount m \<le> mt_count m \<Longrightarrow>
   mt_varcount (match_var y cs w n m) \<le> mt_count (match_var y cs w n m) \<and> mt_count m \<le> mt_count (match_var y cs w n m) \<and>
   (mt_varcount m < mt_count m \<longrightarrow> mt_varcount (match_var y cs w n m) < mt_count (match_var y cs w n m)) \<and>
   (mt_count (match_var y cs w n m) = mt_count m \<longrightarrow> mt_match (match_var y cs w n m) = mt_match m)"
  "mt_varcount m \<le> mt_count m \<Longrightarrow>
   mt_varcount (match_reg cs w n m) \<le> mt_count (match_reg cs w n m) \<and> mt_count m \<le> mt_count (match_reg cs w n m) \<and>
   (mt_varcount m < mt_count m \<longrightarrow> mt_varcount (match_reg cs w n m) < mt_count (match_reg cs w n m)) \<and>
   (mt_count (match_reg cs w n m) = mt_count m \<longrightarrow> mt_match (match_reg cs w n m) = mt_match m)"
  by (simp_all add: match_var_def match_reg_def)

abbreviation run_matches :: "'d system \<Rightarrow> 'f command_set \<Rightarrow> string \<Rightarrow> nat list \<Rightarrow> matches \<Rightarrow> matches" where
  "run_matches y cs w \<equiv> fold (\<lambda>n m. match_reg cs w n (match_var y cs w n m))"

lemma matches_grow:
  "mt_varcount m \<le> mt_count m \<Longrightarrow> r = run_matches y cs w ns m \<Longrightarrow>
   mt_varcount r \<le> mt_count r \<and> mt_count m \<le> mt_count r \<and>
   (mt_varcount m < mt_count m \<longrightarrow> mt_varcount r < mt_count r) \<and>
   (mt_count r = mt_count m \<longrightarrow> mt_match r = mt_match m)"
proof (induction ns arbitrary: m)
  case (Cons n ns)
  define m1 where "m1 = match_var y cs w n m"
  define m2 where "m2 = match_reg cs w n m1"
  note a = match_var_counts(1) [OF Cons.prems(1), of y cs w n, folded m1_def]
  have "mt_varcount m1 \<le> mt_count m1" using a by simp
  note b = match_var_counts(2) [OF this, of cs w n, folded m2_def]
  have "mt_varcount m2 \<le> mt_count m2" using b by simp
  moreover have "r = run_matches y cs w ns m2" using Cons.prems(2) by (simp add: m1_def m2_def)
  ultimately have c: "mt_varcount r \<le> mt_count r" "mt_count m2 \<le> mt_count r"
    "mt_varcount m2 < mt_count m2 \<longrightarrow> mt_varcount r < mt_count r" "mt_count r = mt_count m2 \<longrightarrow> mt_match r = mt_match m2"
    using Cons.IH by blast+
  have "mt_count r = mt_count m \<longrightarrow> mt_match r = mt_match m"
    using a b c(2,4) by auto
  with a b c show ?case by simp
qed simp

lemma exact_wins:
  assumes "command_match_exact cs p w = Some n"
  shows "command_match_unique_exact y cs p w = Some n \<or>
    (\<exists>m. command_match_unique_exact y cs p w = Some m \<and> cmdstr (cs ! m) = w \<and> m \<in> set (cmdvec (cs ! p)))"
proof -
  from exact_SomeD [OF assms] have n: "n \<in> set (cmdvec (cs ! p))" "cmdstr (cs ! n) = w" by auto
  from n(1) obtain xs ys where xs: "cmdvec (cs ! p) = xs @ n # ys" by (auto dest: split_list)
  define z where "z = \<lparr>mt_match = None, mt_varmatch = None, mt_count = 0, mt_varcount = 0\<rparr>"
  define m1 where "m1 = run_matches y cs w xs z"
  define m2 where "m2 = match_var y cs w n m1"
  define m3 where "m3 = match_reg cs w n m2"
  define m4 where "m4 = run_matches y cs w ys m3"
  have m1: "mt_varcount m1 \<le> mt_count m1"
    using matches_grow [OF _ m1_def] by (simp add: z_def)
  note m2 = match_var_counts(1) [OF m1, of y cs w n, folded m2_def]
  have m3: "mt_varcount m3 < mt_count m3" "mt_match m3 = Some n" "mt_count m3 \<ge> 1"
    using m2 n(2) by (simp_all add: m3_def match_reg_def is_command_match_regular_def)
  have m4: "mt_varcount m4 < mt_count m4" "mt_count m3 \<le> mt_count m4"
    "mt_count m4 = mt_count m3 \<longrightarrow> mt_match m4 = mt_match m3"
    using matches_grow [OF _ m4_def] m3(1) by simp_all
  have "command_match_unique y cs p w = (if mt_match m4 = None then None
      else if mt_varcount m4 = mt_count m4 then mt_varmatch m4 else if mt_count m4 = 1 then mt_match m4 else None)"
    by (simp add: command_match_unique_def Let_def xs m4_def m3_def m2_def m1_def z_def)
  then have "command_match_unique y cs p w \<in> {None, Some n}"
    using m3 m4 by auto
  then show ?thesis
    using assms by (auto simp: command_match_unique_exact_def)
qed

lemma exact_found:
  assumes "tree_ok cs" "p < length cs" "command_match_exact cs p w = Some n"
  shows "command_match_unique_exact y cs p w = Some n"
  using exact_wins [OF assms(3), of y] exact_SomeD [OF assms(3)] tree_name [OF assms(1,2)] by metis

lemma execute_exact:
  assumes t: "tree_ok cs"
  shows "\<forall>w\<in>set q. w \<noteq> [] \<and> \<not> takes_rest w \<Longrightarrow> p < length cs \<Longrightarrow> resolve cs p q = Some n \<Longrightarrow>
    execute_words y cs line q p match argv = (if q = [] then match else Some n, argv @ map Some q)"
proof (induction q arbitrary: p match argv)
  case (Cons w q)
  then obtain m where m: "command_match_exact cs p w = Some m" "resolve cs m q = Some n"
    by (auto split: option.splits)
  note e = exact_found [OF t Cons.prems(2) m(1), of y]
  have mm: "m < length cs" "cmdstr (cs ! m) = w"
    using exact_SomeD [OF m(1)] tree_child [OF t Cons.prems(2)] by auto
  have "\<not> file_spec w" using Cons.prems(1) by (simp add: takes_rest_def)
  with Cons.IH [OF _ mm(1) m(2)] Cons.prems(1) m(2) e mm(2) show ?case
    by (cases q) (simp_all add: command_replace_def)
qed simp

fun unwords :: "string list \<Rightarrow> string" where
  "unwords [] = []"
| "unwords [w] = w"
| "unwords (w # ws) = w @ CHR '' '' # unwords ws"

lemma split_on_word: "c \<notin> set w \<Longrightarrow> split_on c w = [w]"
  by (induction w) auto

lemma split_on_append: "c \<notin> set w \<Longrightarrow> split_on c (w @ c # s) = w # split_on c s"
  by (induction w) auto

lemma split_unwords:
  "q \<noteq> [] \<Longrightarrow> \<forall>w\<in>set q. CHR '' '' \<notin> set w \<Longrightarrow> split_on (CHR '' '') (unwords q) = q"
  by (induction q rule: unwords.induct) (simp_all add: split_on_word split_on_append)

lemma execute_spelled:
  assumes "tree_ok cs" "func_at cs q = Some g" "q \<noteq> []" "\<forall>w\<in>set q. w \<noteq> [] \<and> CHR '' '' \<notin> set w \<and> \<not> takes_rest w"
  shows "command_execute y (unwords q) cs = Some (g, map Some q)"
proof -
  from assms(2) obtain n where n: "resolve cs 0 q = Some n" "cmd_func (cs ! n) = Some g"
    by (auto simp: func_at_def split: option.splits)
  have "0 < length cs" using assms(1) by (simp add: tree_ok_def)
  from execute_exact [OF assms(1) _ this n(1), of y "unwords q" None "[]"] assms(3,4) n(2)
  show ?thesis by (simp add: command_execute_def split_unwords)
qed

text \<open>
  C4: After a specification was installed, the line that spells out any of its commands runs its
  function with the words as arguments, and every other command still runs the
  function it had. The words must not be file names or the rest of a line; nothing is assumed of the values other commands
  match.
\<close>

theorem installed_commands_run:
  assumes "tree_ok cs" "permutes_list qsort" "command_install2 qsort line helps f cs = Inr cs'"
    and "q \<noteq> []" "\<forall>w\<in>set q. w \<noteq> [] \<and> CHR '' '' \<notin> set w \<and> \<not> takes_rest w"
    and "if q \<in> set (spelled line) then g = f else func_at cs q = Some g"
  shows "command_execute y (unwords q) cs' = Some (g, map Some q)"
proof -
  from install2_outcome [OF assms(1,2), of line helps f] assms(3)
  have t: "tree_ok cs'" and fa: "func_at cs' = (\<lambda>q. if q \<in> set (spelled line) then Some f else func_at cs q)"
    by (auto split: if_splits)
  then have "func_at cs' q = Some g" using assms(6) by simp
  then show ?thesis by (rule execute_spelled [OF t _ assms(4,5)])
qed

definition no_system :: "nat system" where
  "no_system = \<lparr>strtod = \<lambda>s. (0, s), d_less = (<), stat_of = \<lambda>s. Missing, strftime = \<lambda>s. None, readdir = \<lambda>s. None\<rparr>"

theorem installed_commands_run_witness:
  "\<exists>cs'. command_install2 id ''(set|no|) pager'' ''set'' (7 :: nat) command_set_create = Inr cs' \<and>
     command_execute no_system ''no pager'' cs' = Some (7, [Some ''no'', Some ''pager''])"
proof -
  have p: "permutes_list id" by (simp add: permutes_list_def)
  have u: "unambiguous (split_on (CHR '' '') ''(set|no|) pager'') [[]]"
    "spelled ''(set|no|) pager'' = [[''set'', ''pager''], [''no'', ''pager''], [''pager'']]"
    by (simp_all add: alternatives_def after_char_def extend_paths_def spelled_def)
  from install2_outcome [OF tree_create(1) p, of "''(set|no|) pager''" "''set''" "7 :: nat"] u(1)
  obtain cs' where cs: "command_install2 id ''(set|no|) pager'' ''set'' (7 :: nat) command_set_create = Inr cs'"
    by auto
  have "command_execute no_system (unwords [''no'', ''pager'']) cs' = Some (7, map Some [''no'', ''pager''])"
    by (rule installed_commands_run [OF tree_create(1) p cs])
      (simp_all add: u(2) takes_rest_def line_spec_def file_spec_def)
  with cs show ?thesis by simp
qed

section \<open>Completing after a value\<close>

text \<open>
  A word that stands for \<open><WORD>\<close> is completed by the rest of the name of the placeholder, or read
  past its end when the word is longer.
\<close>

definition echo_tree :: "nat command_set" where
  "echo_tree = [(command_node_create [] None)\<lparr>cmdvec := [1]\<rparr>, (command_node_create ''echo'' None)\<lparr>cmdvec := [2]\<rparr>,
     command_node_create ''<WORD>'' None]"

lemma complete_value:
  "command_complete no_system ''echo ab'' 7 echo_tree = Inr ''ORD> ''"
  "command_complete no_system ''echo abcdefg'' 12 echo_tree = Inl OutOfBounds"
  by (simp_all add: command_complete_def echo_tree_def command_match_unique_exact_def command_match_unique_def
      match_var_def match_reg_def is_command_match_variable_def is_command_match_regular_def command_node_create_def
      is_command_node_variable_def ipv4_spec_def ipv4_prefix_spec_def range_spec_def double_spec_def file_spec_def
      line_spec_def word_spec_def var_spec_def Let_def varmatch_pri_def)

section \<open>Sequences of installations\<close>

text \<open>The machine of installations keeps the tree well formed, or stops at the assertion.\<close>

lemma install_machine:
  assumes "permutes_list qsort"
  shows "safe_machine (\<lambda>(line, helps, f). command_install2 qsort line helps f) tree_ok (\<lambda>_. {AssertFailed})"
proof (unfold_locales, goal_cases)
  case (1 cs e)
  obtain line helps f where e: "e = (line, helps, f)" by (cases e)
  from install2_outcome [OF 1 assms, of line helps f] show ?case by (auto simp: e split: if_splits)
qed

lemmas installs_keep_tree = safe_machine.run_ok [OF install_machine]

lemma installs_unambiguous:
  assumes "permutes_list qsort"
  shows "tree_ok cs \<Longrightarrow> \<forall>(line, helps, f)\<in>set es. unambiguous (split_on (CHR '' '') line) [[]] \<Longrightarrow>
   \<exists>cs'. runr (\<lambda>(line, helps, f). command_install2 qsort line helps f) es cs = Inr cs' \<and> tree_ok cs' \<and>
     func_at cs' = fold (\<lambda>(line, helps, f) m q. if q \<in> set (spelled line) then Some f else m q) es (func_at cs)"
proof (induction es arbitrary: cs)
  case (Cons e es)
  obtain line helps f where e: "e = (line, helps, f)" by (cases e)
  from install2_outcome [OF Cons.prems(1) assms, of line helps f] Cons.prems(2) obtain cs1 where
    cs1: "command_install2 qsort line helps f cs = Inr cs1" "tree_ok cs1"
      "func_at cs1 = (\<lambda>q. if q \<in> set (spelled line) then Some f else func_at cs q)"
    by (auto simp: e)
  from Cons.IH [OF cs1(2)] Cons.prems(2) show ?case by (simp add: e cs1(1,3))
qed simp

end
