(* ===== verification/Command_Shell.thy ===== *)
theory Command_Shell
  imports Command Keyfunc "HOL-Library.List_Lexorder" "HOL-Library.Char_ord"
begin

text \<open>
  The shell on top of the command tree, \<open>lib/zcmdsh/command_shell.c\<close>: the history, running and
  completing the command line, the list of candidates, the pager settings, and the limit on
  the running time. The fields that file uses of \<open>struct shell\<close> besides the line editor's are
  arguments and results of the operations. The pager is off here; the theory Pager
  adds it, and the theory Keymap_List the listing of keys.
\<close>

section \<open>The history\<close>

definition HISTORY_SIZE :: nat where "HISTORY_SIZE = 128"

definition HISTORY_PREV :: "nat \<Rightarrow> nat" where
  "HISTORY_PREV x = (if x = 0 then HISTORY_SIZE - 1 else x - 1)"

definition HISTORY_NEXT :: "nat \<Rightarrow> nat" where
  "HISTORY_NEXT x = (if x + 1 = HISTORY_SIZE then 0 else x + 1)"

record command_history =
  hs_array :: "string option list"
  hs_last :: nat
  hs_current :: nat

definition new_history :: command_history where
  "new_history = \<lparr>hs_array = replicate HISTORY_SIZE None, hs_last = 0, hs_current = 0\<rparr>"

text \<open>The history is created by the first line.\<close>

definition command_history_add :: "string \<Rightarrow> command_history option \<Rightarrow> command_history res" where
  "command_history_add line history =
    (let h = (case history of None \<Rightarrow> new_history | Some h \<Rightarrow> h);
         h = (if hs_array h ! hs_last h \<noteq> None then h\<lparr>hs_current := HISTORY_NEXT (hs_last h)\<rparr> else h)
     in guardr (hs_array h ! hs_current h = None) AssertFailed
       (let h = h\<lparr>hs_array := (hs_array h)[hs_current h := Some line]\<rparr>;
            h = h\<lparr>hs_last := hs_current h\<rparr>;
            h = h\<lparr>hs_current := HISTORY_NEXT (hs_current h)\<rparr>
        in Inr (h\<lparr>hs_array := (hs_array h)[hs_current h := None]\<rparr>)))"

text \<open>Replacing the command line by an entry.\<close>

definition recall :: "bool \<Rightarrow> string \<Rightarrow> 'z shell_scheme \<Rightarrow> 'z shell_scheme res" where
  "recall mem line sh = bindr (shell_delete_string 0 (sh_end sh) sh) (shell_insert mem line)"

definition command_history_prev ::
  "bool \<Rightarrow> command_history option \<times> 'z shell_scheme \<Rightarrow> (command_history option \<times> 'z shell_scheme) res" where
  "command_history_prev mem = (\<lambda>(history, sh). case history of None \<Rightarrow> Inr (history, sh)
     | Some h \<Rightarrow>
       let start = HISTORY_NEXT (HISTORY_NEXT (hs_last h)); prv = HISTORY_PREV (hs_current h)
       in if hs_current h = start then Inr (history, sh)
          else case hs_array h ! prv of None \<Rightarrow> Inr (history, sh)
             | Some line \<Rightarrow> bindr (recall mem line sh) (\<lambda>sh. Inr (Some (h\<lparr>hs_current := prv\<rparr>), sh)))"

definition command_history_next ::
  "bool \<Rightarrow> command_history option \<times> 'z shell_scheme \<Rightarrow> (command_history option \<times> 'z shell_scheme) res" where
  "command_history_next mem = (\<lambda>(history, sh). case history of None \<Rightarrow> Inr (history, sh)
     | Some h \<Rightarrow>
       let floor = HISTORY_NEXT (hs_last h); nxt = HISTORY_NEXT (hs_current h)
       in if hs_current h = floor then Inr (history, sh)
          else case hs_array h ! nxt of None \<Rightarrow> Inr (history, sh)
             | Some line \<Rightarrow> bindr (recall mem line sh) (\<lambda>sh. Inr (Some (h\<lparr>hs_current := nxt\<rparr>), sh)))"

text \<open>The indices \<open>show_history\<close> runs over, from \<open>start\<close> up to \<open>floor\<close> around the ring.\<close>

fun ring_walk :: "nat \<Rightarrow> nat \<Rightarrow> nat \<Rightarrow> nat list" where
  "ring_walk 0 i stop = []"
| "ring_walk (Suc fuel) i stop = (if i = stop then [] else i # ring_walk fuel (HISTORY_NEXT i) stop)"

definition show_history :: "command_history option \<Rightarrow> string" where
  "show_history history = (case history of None \<Rightarrow> [] | Some h \<Rightarrow>
     let floor = HISTORY_NEXT (hs_last h); start = HISTORY_NEXT floor
     in concat (map (\<lambda>i. case hs_array h ! i of None \<Rightarrow> []
          | Some line \<Rightarrow> ''['' @ replicate (3 - length (dec i)) (CHR '' '') @ dec i @ ''] '' @ line @ [CHR ''\<newline>''])
        (ring_walk HISTORY_SIZE start floor)))"

section \<open>The time limit\<close>

record timer =
  tm_duration :: int
  tm_start :: int
  tm_end :: int
  tm_limit :: int

text \<open>
  The current time, \<open>mktime\<close> of the broken-down time and the numbers \<open>sscanf\<close> read from the date
  are given; \<open>time_t\<close> values are integers.
\<close>

definition timer_init :: "int \<Rightarrow> (int list \<Rightarrow> int) \<Rightarrow> int \<Rightarrow> int list option \<Rightarrow> timer res" where
  "timer_init now mktime dura_limit date_limit =
    (let t = \<lparr>tm_duration = 0, tm_start = now, tm_end = 0, tm_limit = 0\<rparr>;
         t = (if dura_limit \<noteq> 0 then t\<lparr>tm_duration := dura_limit, tm_end := now + dura_limit\<rparr> else t)
     in case date_limit of None \<Rightarrow> Inr t
        | Some ymd \<Rightarrow> guardr (length ymd = 6) AssertFailed
            (Inr (t\<lparr>tm_limit := mktime (ymd[0 := ymd ! 0 - 1900, 1 := ymd ! 1 - 1])\<rparr>)))"

definition timer_check :: "int \<Rightarrow> timer \<Rightarrow> unit res" where
  "timer_check now t =
    guardr (\<not> (tm_end t \<noteq> 0 \<and> tm_end t - now < 0)) Exited
      (guardr (\<not> (tm_limit t \<noteq> 0 \<and> tm_limit t - now < 0)) Exited (Inr ()))"

section \<open>Running the command line\<close>

definition strip_comment :: "'z shell_scheme \<Rightarrow> 'z shell_scheme" where
  "strip_comment sh =
    (let line = cstr (sh_line sh); before = takeWhile (\<lambda>c. c \<noteq> CHR ''#'' \<and> c \<noteq> CHR ''!'') line
     in if length before = length line then sh
        else let sh = sh\<lparr>sh_end := length before\<rparr>;
                 sh = sh\<lparr>sh_cursor := (if sh_end sh < sh_cursor sh then sh_end sh else sh_cursor sh)\<rparr>
             in shell_terminate sh)"

text \<open>\<open>call\<close> is what the functions of the commands do to the shell.\<close>

definition command_shell_execute ::
  "'d system \<Rightarrow> ('f \<Rightarrow> string option list \<Rightarrow> 'z shell_scheme \<Rightarrow> 'z shell_scheme res) \<Rightarrow> 'f command_set \<Rightarrow> bool \<Rightarrow>
   int \<Rightarrow> timer \<Rightarrow> command_history option \<times> 'z shell_scheme \<Rightarrow> (command_history option \<times> 'z shell_scheme) res" where
  "command_shell_execute y call cs mem now timer = (\<lambda>(history, sh).
    bindr (shell_linefeed (shell_format mem (strip_comment sh))) (\<lambda>sh.
    bindr (timer_check now timer) (\<lambda>_.
      if cstr (sh_line sh) = [] then Inr (history, shell_refresh (shell_prompt (shell_clear sh)))
      else bindr (case command_execute y (cstr (sh_line sh)) cs of
                    None \<Rightarrow> print_term (''no such command: '' @ cstr (sh_line sh) @ sh_nl sh) sh
                  | Some (f, argv) \<Rightarrow> call f argv sh) (\<lambda>sh.
           bindr (command_history_add (cstr (sh_line sh)) history) (\<lambda>h.
             if \<not> shell_running sh then Inr (Some h, sh)
             else Inr (Some h, shell_refresh (shell_prompt (shell_clear sh))))))))"

definition command_shell_completion ::
  "'d system \<Rightarrow> 'f command_set \<Rightarrow> bool \<Rightarrow> 'z shell_scheme \<Rightarrow> 'z shell_scheme res" where
  "command_shell_completion y cs mem sh =
    bindr (shell_word_end (sh_cursor sh) sh) (\<lambda>(stop, sh).
    bindr (shell_moveto stop sh) (\<lambda>sh.
    bindr (command_complete y (cstr (sh_line sh)) (sh_cursor sh) cs) (\<lambda>s. shell_insert mem s sh)))"

section \<open>Candidates\<close>

definition pad_to :: "nat \<Rightarrow> string \<Rightarrow> string" where
  "pad_to n s = s @ replicate (n - length s) (CHR '' '')"

definition print_dirent :: "string \<Rightarrow> (string \<Rightarrow> bool) \<Rightarrow> int \<Rightarrow> nat \<Rightarrow> nat \<Rightarrow> string \<Rightarrow> string" where
  "print_dirent nl is_dir ncolumn width num name =
    (let printname = take 1023 (name @ (if is_dir name then ''/'' else []))
     in (if int num mod ncolumn = 0 then ''  '' else []) @
        (if ncolumn \<noteq> 1 then pad_to width printname else printname) @
        (if int num mod ncolumn = ncolumn - 1 then nl else []))"

text \<open>\<open>ws_col\<close> is the width of the window; the quotient is not negative when there is an entry.\<close>

definition file_ls_candidate ::
  "'d system \<Rightarrow> (string \<Rightarrow> bool) \<Rightarrow> nat \<Rightarrow> string \<Rightarrow> 'z shell_scheme \<Rightarrow> 'z shell_scheme res" where
  "file_ls_candidate y is_dir ws_col path sh =
    (let (dirname, filename) = path_disassemble path
     in case readdir y dirname of
          None \<Rightarrow> print_term (''opendir() failed: '' @ path @ '' dir: '' @ dirname @ sh_nl sh) sh
        | Some entries \<Rightarrow>
          let names = filter (\<lambda>e. take 1 e \<noteq> ''.'' \<and> starts_with e filename) entries;
              maxlen = fold (\<lambda>e m. if m < length e then length e else m) names 0;
              ncolumn = (if ws_col < 2 then 0 else int ((ws_col - 2) div (maxlen + 2)));
              ncolumn = (if ncolumn = 0 then 1 else ncolumn);
              sorted = sort names
          in print_term (sh_nl sh @ concat (map (\<lambda>i. print_dirent (sh_nl sh) is_dir ncolumn (maxlen + 2) i (sorted ! i))
               [0..<length sorted]) @ sh_nl sh) sh)"

definition candidate_line :: "string \<Rightarrow> string option \<Rightarrow> string \<Rightarrow> string" where
  "candidate_line name helps nl = ''  '' @ pad_to 16 name @ '' '' @ (case helps of None \<Rightarrow> ''(null)'' | Some h \<Rightarrow> h) @ nl"

fun ls_nodes ::
  "'d system \<Rightarrow> (string \<Rightarrow> bool) \<Rightarrow> nat \<Rightarrow> 'f command_set \<Rightarrow> string \<Rightarrow> nat list \<Rightarrow> 'z shell_scheme \<Rightarrow> 'z shell_scheme res" where
  "ls_nodes y is_dir ws_col cs word [] sh = Inr sh"
| "ls_nodes y is_dir ws_col cs word (n # ns) sh =
    bindr (if is_command_match y (cmdstr (cs ! n)) word
           then print_term (candidate_line (cmdstr (cs ! n)) (helpstr (cs ! n)) (sh_nl sh)) sh else Inr sh) (\<lambda>sh.
    bindr (if file_spec (cmdstr (cs ! n)) then file_ls_candidate y is_dir ws_col word sh else Inr sh) (\<lambda>sh.
      ls_nodes y is_dir ws_col cs word ns sh))"

definition command_shell_ls_candidate ::
  "'d system \<Rightarrow> (string \<Rightarrow> bool) \<Rightarrow> nat \<Rightarrow> 'f command_set \<Rightarrow> bool \<Rightarrow> 'z shell_scheme \<Rightarrow> 'z shell_scheme res" where
  "command_shell_ls_candidate y is_dir ws_col cs mem sh =
    bindr (if sh_cursor sh \<noteq> sh_end sh
           then bindr (shell_linefeed (shell_format mem (shell_refresh (sh\<lparr>sh_cursor := sh_end sh\<rparr>))))
                  (\<lambda>sh. Inr (shell_refresh sh))
           else Inr sh) (\<lambda>sh.
    bindr (shell_word_head (sh_cursor sh) sh) (\<lambda>(last_head, sh).
    let line = cstr (sh_line sh); word = drop last_head line
    in bindr (shell_linefeed sh) (\<lambda>sh.
       bindr (case command_match_node y (take last_head line) cs of None \<Rightarrow> Inr sh
              | Some m \<Rightarrow>
                bindr (if last_head = sh_cursor sh \<and> cmd_func (cs ! m) \<noteq> None
                       then print_term (candidate_line ''<cr>'' (helpstr (cs ! m)) (sh_nl sh)) sh else Inr sh)
                  (ls_nodes y is_dir ws_col cs word (cmdvec (cs ! m)))) (\<lambda>sh.
       bindr (shell_linefeed sh) (\<lambda>sh. Inr (shell_refresh sh))))))"

section \<open>The functions a keymap may name\<close>

definition func_table_lookup :: "('k option \<times> string) list \<Rightarrow> 'k option \<Rightarrow> nat option" where
  "func_table_lookup table p = find (\<lambda>i. fst (table ! i) = p) [0..<length table]"

text \<open>A registration takes the first free entry, if there is one.\<close>

fun FUNC_STR_REGISTER :: "'k \<Rightarrow> string \<Rightarrow> ('k option \<times> string) list \<Rightarrow> ('k option \<times> string) list" where
  "FUNC_STR_REGISTER p s [] = []"
| "FUNC_STR_REGISTER p s (e # es) = (if fst e = None then (Some p, s) # es else e # FUNC_STR_REGISTER p s es)"

section \<open>Commands\<close>

definition exit_cmd :: "'z shell_scheme \<Rightarrow> 'z shell_scheme res" where
  "exit_cmd sh = bindr (print_term (''exit !'' @ [CHR ''\<newline>'']) sh) (\<lambda>sh.
     Inr (sh\<lparr>sh_flag := flag_set (sh_flag sh) SHELL_FLAG_EXIT\<rparr>))"

definition enable_shell_debugging :: "'z shell_scheme \<Rightarrow> 'z shell_scheme res" where
  "enable_shell_debugging sh = bindr (print_term (''enable shell debugging.'' @ [CHR ''\<newline>'']) sh) (\<lambda>sh.
     Inr (sh\<lparr>sh_flag := flag_set (sh_flag sh) SHELL_FLAG_DEBUG\<rparr>))"

definition disable_shell_debugging :: "'z shell_scheme \<Rightarrow> 'z shell_scheme res" where
  "disable_shell_debugging sh = bindr (print_term (''disable shell debugging.'' @ [CHR ''\<newline>'']) sh) (\<lambda>sh.
     Inr (sh\<lparr>sh_flag := flag_clear (sh_flag sh) SHELL_FLAG_DEBUG\<rparr>))"

definition set_pager :: "string list \<Rightarrow> 'z shell_scheme \<Rightarrow> (bool \<times> 'z shell_scheme) res" where
  "set_pager argv sh =
    (let value = (if argv ! 0 = ''set'' then True else if argv ! 0 = ''no'' then False else length argv = 1)
     in bindr (print_term ((if value then ''pager enabled.'' else ''pager disabled.'') @ sh_nl sh) sh)
          (\<lambda>sh. Inr (value, sh)))"

text \<open>Each \<open>snprintf\<close> returns the length of its whole text; the size that is left wraps around once the buffer is passed.\<close>

fun pager_line :: "string list \<Rightarrow> string \<Rightarrow> nat \<Rightarrow> string res" where
  "pager_line [] buf len = Inr buf"
| "pager_line (a # argv) buf len =
    guardr (len \<le> 64) BufferOverflow
      (let s = (if buf = [] \<and> len = 0 then a else '' '' @ a)
       in pager_line argv (take 63 (buf @ s)) (len + length s))"

definition set_pager_command :: "string list \<Rightarrow> (string \<times> bool) res" where
  "set_pager_command argv = guardr (2 < length argv) OutOfBounds
     (bindr (pager_line (drop 2 argv) [] 0) (\<lambda>line. Inr (line, True)))"

definition set_pager_default :: "string option \<Rightarrow> string option" where
  "set_pager_default pager_command = None"

datatype default_command = Exit | Quit | Logout | List_func_table | List_keymaps | Show_history |
  Set_pager | Set_pager_command | Set_pager_default

definition default_commands :: "(string \<times> string \<times> default_command) list" where
  "default_commands =
    [(''exit'', ''exit'' @ [CHR ''\<newline>''], Exit), (''quit'', ''quit'' @ [CHR ''\<newline>''], Quit), (''logout'', ''logout'' @ [CHR ''\<newline>''], Logout),
     (''list func-table'', ''list.'' @ [CHR ''\<newline>''] @ ''list func-table.'' @ [CHR ''\<newline>''], List_func_table),
     (''list keymaps'', ''list.'' @ [CHR ''\<newline>''] @ ''list keymaps.'' @ [CHR ''\<newline>''], List_keymaps),
     (''show history'', ''display information'' @ [CHR ''\<newline>''] @ ''command history'' @ [CHR ''\<newline>''], Show_history),
     (''(set|no|) pager'', ''set command.'' @ [CHR ''\<newline>''] @ ''no command.'' @ [CHR ''\<newline>''] @ ''pager command.'' @ [CHR ''\<newline>''], Set_pager),
     (''set pager <FILE> (|<LINE>)'', ''set.'' @ [CHR ''\<newline>''] @ ''pager.'' @ [CHR ''\<newline>''] @ ''pager command.'' @ [CHR ''\<newline>''] @
        ''pager command option.'' @ [CHR ''\<newline>''], Set_pager_command),
     (''set pager default'', ''set.'' @ [CHR ''\<newline>''] @ ''pager.'' @ [CHR ''\<newline>''] @ ''pager default.'' @ [CHR ''\<newline>''], Set_pager_default)]"

definition default_install_command ::
  "(nat list \<Rightarrow> nat list) \<Rightarrow> default_command command_set \<Rightarrow> default_command command_set res" where
  "default_install_command qsort cs =
    runr (\<lambda>(line, helps, f). command_install2 qsort line helps f) default_commands cs"

definition command_shell_keys :: "'z shell_scheme \<Rightarrow> 'z shell_scheme" where
  "command_shell_keys = shell_install 14 K_history_next \<circ> shell_install 16 K_history_prev \<circ>
     shell_install 63 K_ls_candidate \<circ> shell_install 9 K_completion \<circ>
     shell_install 13 K_execute \<circ> shell_install 10 K_execute"

definition command_shell_create ::
  "(nat list \<Rightarrow> nat list) \<Rightarrow> bool \<Rightarrow> 'z \<Rightarrow> (default_command command_set \<times> bool \<times> 'z shell_scheme) res" where
  "command_shell_create qsort mem others =
    bindr (default_install_command qsort command_set_create) (\<lambda>cs.
      Inr (cs, True, command_shell_keys (shell_create mem others)))"

section \<open>The history as a list\<close>

text \<open>How many lines ago the slot \<open>j\<close> was written when \<open>l\<close> was the last.\<close>

definition age :: "nat \<Rightarrow> nat \<Rightarrow> nat" where
  "age l j = (if j \<le> l then l - j else l + 128 - j)"

text \<open>
  The ring holds the lines \<open>ls\<close>, the newest last, and the user went \<open>k\<close> lines back. At least
  one slot is empty.
\<close>

definition hist_rel :: "command_history option \<Rightarrow> string list \<Rightarrow> nat \<Rightarrow> bool" where
  "hist_rel H ls k \<longleftrightarrow> (case H of None \<Rightarrow> ls = [] \<and> k = 0
     | Some h \<Rightarrow> ls \<noteq> [] \<and> length ls \<le> 127 \<and> k \<le> length ls \<and> length (hs_array h) = 128 \<and>
         hs_last h < 128 \<and> hs_current h < 128 \<and> age (hs_last h) (hs_current h) = (if k = 0 then 127 else k - 1) \<and>
         (\<forall>j<128. hs_array h ! j = (let i = age (hs_last h) j
            in if i < length ls then Some (ls ! (length ls - 1 - i)) else None)))"

definition last_lines :: "nat \<Rightarrow> string list \<Rightarrow> string list" where
  "last_lines n ls = drop (length ls - n) ls"

lemmas ring_simps = age_def HISTORY_NEXT_def HISTORY_PREV_def HISTORY_SIZE_def

lemma age_next: "l < 128 \<Longrightarrow> j < 128 \<Longrightarrow> age (HISTORY_NEXT l) j = (if age l j = 127 then 0 else age l j + 1)"
  by (auto simp: ring_simps)

lemma age_last: "l < 128 \<Longrightarrow> age l l = 0" "l < 128 \<Longrightarrow> age l (HISTORY_NEXT l) = 127"
  by (auto simp: ring_simps)

lemma age_inj: "l < 128 \<Longrightarrow> i < 128 \<Longrightarrow> j < 128 \<Longrightarrow> age l i = age l j \<longleftrightarrow> i = j"
  by (auto simp: age_def)

lemma age_lt: "l < 128 \<Longrightarrow> j < 128 \<Longrightarrow> age l j < 128"
  by (auto simp: age_def)

lemma next_lt: "l < 128 \<Longrightarrow> HISTORY_NEXT l < 128" "l < 128 \<Longrightarrow> HISTORY_PREV l < 128"
  by (auto simp: ring_simps)

lemma age_moves:
  "l < 128 \<Longrightarrow> j < 128 \<Longrightarrow> age l (HISTORY_PREV j) = (if age l j = 127 then 0 else age l j + 1)"
  "l < 128 \<Longrightarrow> j < 128 \<Longrightarrow> age l (HISTORY_NEXT j) = (if age l j = 0 then 127 else age l j - 1)"
  by (auto simp: ring_simps)

lemma history_add_refines:
  assumes rel: "hist_rel H ls k"
  shows "\<exists>h. command_history_add line H = Inr h \<and> hist_rel (Some h) (last_lines 127 (ls @ [line])) 0"
proof (cases H)
  case None
  with rel show ?thesis
    by (auto simp: command_history_add_def new_history_def hist_rel_def last_lines_def Let_def ring_simps nth_list_update)
next
  case (Some h)
  let ?n = "length ls" and ?l = "hs_last h"
  define l' where "l' = HISTORY_NEXT ?l"
  from rel Some have r: "ls \<noteq> []" "?n \<le> 127" "length (hs_array h) = 128" "?l < 128"
    and arr: "\<And>j. j < 128 \<Longrightarrow> hs_array h ! j = (if age ?l j < ?n then Some (ls ! (?n - 1 - age ?l j)) else None)"
    by (auto simp: hist_rel_def Let_def)
  have l': "l' < 128" "age ?l l' = 127" using r(4) by (simp_all add: l'_def next_lt age_last)
  have "hs_array h ! ?l \<noteq> None" using arr [OF r(4)] r(1,4) by (simp add: age_last)
  moreover have "hs_array h ! l' = None" using arr [OF l'(1)] l'(2) r(2) by simp
  ultimately have res: "command_history_add line H = Inr \<lparr>hs_array = (hs_array h)[l' := Some line, HISTORY_NEXT l' := None],
      hs_last = l', hs_current = HISTORY_NEXT l', \<dots> = command_history.more h\<rparr>"
    using Some by (simp add: command_history_add_def l'_def [symmetric] Let_def)
  let ?ls = "last_lines 127 (ls @ [line])"
  have len: "length ?ls = min 127 (?n + 1)" by (simp add: last_lines_def)
  have nth: "?ls ! (length ?ls - 1 - Suc i) = ls ! (?n - 1 - i)" if "i < ?n" "i < 126" for i
    using that r(2) by (auto simp: last_lines_def nth_append min_def)
  have ne: "?ls \<noteq> []" using len by (auto simp: last_lines_def)
  have newest: "?ls ! (length ?ls - 1) = line"
    using r(2) by (simp add: last_lines_def nth_append)
  have "((hs_array h)[l' := Some line, HISTORY_NEXT l' := None]) ! j =
      (if age l' j < length ?ls then Some (?ls ! (length ?ls - 1 - age l' j)) else None)" if j: "j < 128" for j
  proof -
    have a: "age l' j = (if age ?l j = 127 then 0 else age ?l j + 1)"
      using age_next [OF r(4) j] by (simp add: l'_def)
    consider "j = l'" | "j = HISTORY_NEXT l'" "j \<noteq> l'" | "j \<noteq> l'" "j \<noteq> HISTORY_NEXT l'" by blast
    then show ?thesis
    proof cases
      case 1
      with l' r(3) len newest a show ?thesis by (auto simp: ring_simps)
    next
      case 2
      then have "age l' j = 127" using l'(1) by (simp add: age_last)
      with 2 r(3) j len show ?thesis by simp
    next
      case 3
      have "age ?l j \<noteq> 127" using age_inj [OF r(4) j l'(1)] l'(2) 3(1) by simp
      moreover have "age l' j \<noteq> 127"
        using age_inj [OF l'(1) j next_lt(1) [OF l'(1)]] age_last(2) [OF l'(1)] 3(2) by simp
      ultimately have lt: "age ?l j < 126" using age_lt [OF r(4) j] a by auto
      then have "age l' j < length ?ls \<longleftrightarrow> age ?l j < ?n" using a len r(2) by auto
      with 3 a lt arr [OF j] nth [of "age ?l j"] show ?thesis by simp
    qed
  qed
  then show ?thesis
    unfolding res
    using ne by (simp add: hist_rel_def len r(3) l' next_lt age_last Let_def)
qed

lemma recall_does:
  assumes ok: "line_ok sh" "0 \<le> sh_writefd sh" and line: "list_all clean line"
  shows "(\<exists>sh'. recall mem line sh = Inr sh' \<and> does sh line (length line) sh') \<or> recall mem line sh = Inl NoMemory"
proof -
  obtain s1 where s1: "shell_delete_string 0 (sh_end sh) sh = Inr s1" "does sh [] 0 s1"
    using delete_does [OF ok(1), of 0 "sh_end sh"] line_split(2) [OF ok(1)] by auto
  then have s1': "line_ok s1" "0 \<le> sh_writefd s1" "shell_text s1 = []" "sh_cursor s1 = 0"
    using ok(2) by (auto simp: does_def edited_keeps)
  from insert_does [OF s1'(1) line s1'(2), of mem] show ?thesis
    using does_trans [OF s1(2)] by (auto simp: recall_def s1(1) s1'(3,4))
qed

text \<open>What a browsing key does: nothing, or it shows the line \<open>k\<close> entries back.\<close>

definition browses ::
  "command_history option \<times> 'z shell_scheme \<Rightarrow> string list \<Rightarrow> nat option \<Rightarrow>
   (command_history option \<times> 'z shell_scheme) res \<Rightarrow> bool" where
  "browses s ls k r \<longleftrightarrow> (case k of None \<Rightarrow> r = Inr s
     | Some k \<Rightarrow> r = Inl NoMemory \<or> (\<exists>h sh'. r = Inr (Some h, sh') \<and> hist_rel (Some h) ls k \<and>
         does (snd s) (ls ! (length ls - k)) (length (ls ! (length ls - k))) sh'))"

lemma rel_current:
  assumes "hist_rel (Some h) ls k" "j < 128" "age (hs_last h) j < length ls"
  shows "hist_rel (Some (h\<lparr>hs_current := j\<rparr>)) ls (Suc (age (hs_last h) j))"
    "hs_array h ! j = Some (ls ! (length ls - Suc (age (hs_last h) j)))"
  using assms by (auto simp: hist_rel_def Let_def)

lemma browse_slot:
  assumes rel: "hist_rel (Some h) ls k" and sh: "line_ok sh" "0 \<le> sh_writefd sh" "\<forall>l\<in>set ls. list_all clean l"
    and j: "j < 128"
  shows "browses (Some h, sh) ls (if age (hs_last h) j < length ls then Some (Suc (age (hs_last h) j)) else None)
    (case hs_array h ! j of None \<Rightarrow> Inr (Some h, sh)
     | Some line \<Rightarrow> bindr (recall mem line sh) (\<lambda>sh. Inr (Some (h\<lparr>hs_current := j\<rparr>), sh)))"
proof (cases "age (hs_last h) j < length ls")
  case True
  note c = rel_current [OF rel j True]
  have "list_all clean (ls ! (length ls - Suc (age (hs_last h) j)))" using sh(3) True by simp
  from recall_does [OF sh(1,2) this, of mem] c True show ?thesis
    by (auto simp: browses_def)
next
  case False
  then have "hs_array h ! j = None" using rel j by (simp add: hist_rel_def Let_def)
  with False show ?thesis by (simp add: browses_def)
qed

lemma history_prev_refines:
  assumes "hist_rel H ls k" "line_ok sh" "0 \<le> sh_writefd sh" "\<forall>l\<in>set ls. list_all clean l"
  shows "browses (H, sh) ls (if k < length ls then Some (k + 1) else None) (command_history_prev mem (H, sh))"
proof (cases H)
  case None
  with assms(1) show ?thesis by (simp add: hist_rel_def browses_def command_history_prev_def)
next
  case (Some h)
  note rel = assms(1) [unfolded Some]
  have r: "hs_last h < 128" "hs_current h < 128" "age (hs_last h) (hs_current h) = (if k = 0 then 127 else k - 1)"
    "length ls \<le> 127" "k \<le> length ls" using rel by (auto simp: hist_rel_def)
  let ?s = "HISTORY_NEXT (HISTORY_NEXT (hs_last h))"
  have "age (hs_last h) ?s = 126" "?s < 128" using r(1) by (simp_all add: age_moves age_last next_lt)
  then have st: "hs_current h = ?s \<longleftrightarrow> k = 127"
    using age_inj [OF r(1,2), of ?s] r(3,4,5) by (auto split: if_splits)
  have a: "age (hs_last h) (HISTORY_PREV (hs_current h)) = (if k = 0 then 0 else k)" if "k \<noteq> 127"
    using age_moves(1) [OF r(1,2)] r(3,4,5) that by (auto split: if_splits)
  show ?thesis
  proof (cases "k = 127")
    case True
    then show ?thesis using st r(4) by (simp add: command_history_prev_def Some Let_def browses_def)
  next
    case False
    then have "age (hs_last h) (HISTORY_PREV (hs_current h)) = k" using a by simp
    note ag = this
    from browse_slot [OF rel assms(2-4) next_lt(2) [OF r(2)], of mem, unfolded ag] False st show ?thesis
      by (cases "k < length ls") (simp_all add: command_history_prev_def Some Let_def)
  qed
qed

lemma history_next_refines:
  assumes "hist_rel H ls k" "line_ok sh" "0 \<le> sh_writefd sh" "\<forall>l\<in>set ls. list_all clean l"
  shows "browses (H, sh) ls (if 1 < k then Some (k - 1) else None) (command_history_next mem (H, sh))"
proof (cases H)
  case None
  with assms(1) show ?thesis by (simp add: hist_rel_def browses_def command_history_next_def)
next
  case (Some h)
  note rel = assms(1) [unfolded Some]
  have r: "hs_last h < 128" "hs_current h < 128" "age (hs_last h) (hs_current h) = (if k = 0 then 127 else k - 1)"
    "length ls \<le> 127" "k \<le> length ls" using rel by (auto simp: hist_rel_def)
  have fl: "hs_current h = HISTORY_NEXT (hs_last h) \<longleftrightarrow> k = 0"
    using age_inj [OF r(1,2) next_lt(1) [OF r(1)]] age_last(2) [OF r(1)] r(3,4,5) by (auto split: if_splits)
  show ?thesis
  proof (cases "k = 0")
    case True
    then show ?thesis using fl by (simp add: command_history_next_def Some Let_def browses_def)
  next
    case False
    then have "age (hs_last h) (HISTORY_NEXT (hs_current h)) = (if k = 1 then 127 else k - 2)"
      using age_moves(2) [OF r(1,2)] r(3) by auto
    with browse_slot [OF rel assms(2-4) next_lt(1) [OF r(2)], of mem] False fl r(4,5) show ?thesis
      by (auto simp: command_history_next_def Some Let_def Suc_diff_Suc numeral_2_eq_2 split: if_splits)
  qed
qed

text \<open>
  C16: The ring of 128 slots is the list of the last 127 lines. Adding a line appends it and ends the
  browsing; the previous and the next key show the line before and after the one shown and stop at
  both ends of the list, without going past the ring or back to an empty line. The
  assertion in the code never fails.
\<close>

theorem history_refines:
  assumes "hist_rel H ls k" "line_ok sh" "0 \<le> sh_writefd sh" "\<forall>l\<in>set ls. list_all clean l"
  shows "(\<exists>h. command_history_add line H = Inr h \<and> hist_rel (Some h) (last_lines 127 (ls @ [line])) 0) \<and>
    browses (H, sh) ls (if k < length ls then Some (k + 1) else None) (command_history_prev mem (H, sh)) \<and>
    browses (H, sh) ls (if 1 < k then Some (k - 1) else None) (command_history_next mem (H, sh))"
  using history_add_refines [OF assms(1)] history_prev_refines [OF assms] history_next_refines [OF assms] by blast

theorem history_refines_witness:
  "\<exists>h. command_history_add ''show thread'' None = Inr h \<and> hist_rel (Some h) [''show thread''] 0"
proof -
  let ?sh = "shell_set_terminal True 3 3 (shell_create True ())"
  have "line_ok ?sh" "0 \<le> sh_writefd ?sh"
    by (simp_all add: line_ok_def shell_set_terminal_def shell_create_def shell_set_prompt_def Let_def
        INITIAL_COMMAND_LINE_SIZE_def shell_text_def)
  moreover have "hist_rel None [] 0" by (simp add: hist_rel_def)
  ultimately show ?thesis
    using history_refines [of None "[]" 0 ?sh "''show thread''" True] by (simp add: last_lines_def)
qed

end
