(* ===== verification/Session.thy ===== *)
theory Session
  imports Vty_Keys Command_Tree Command_Shell Libc
begin

text \<open>
  A terminal session, \<open>sdplane/vty_shell.c\<close>: the shell with its history and its commands, the keys the
  session installs, and the loop that reads them. The pager is off here; the theory Pager adds it.
\<close>

section \<open>The shell of a session\<close>

record 'f vshell = tshell +
  vs_history :: "command_history option"
  vs_cmdset :: "'f command_set"

definition shell_keyfunc_clear_terminal :: "'z shell_scheme \<Rightarrow> 'z shell_scheme res" where
  "shell_keyfunc_clear_terminal sh = bindr (print_term clear_sequence sh) (\<lambda>sh. Inr (shell_refresh sh))"

text \<open>
  The functions of the command shell behind the keys. \<open>call\<close> is what a command does; \<open>y\<close> and \<open>is_dir\<close>
  answer for the system, \<open>now\<close> is the time.
\<close>

definition with_history ::
  "(command_history option \<times> ('f, 'z) vshell_scheme) res \<Rightarrow> ('f, 'z) vshell_scheme res" where
  "with_history r = bindr r (\<lambda>(h, sh). Inr (sh\<lparr>vs_history := h\<rparr>))"

fun vty_command ::
  "'d system \<Rightarrow> ('f \<Rightarrow> string option list \<Rightarrow> ('f, 'z) vshell_scheme \<Rightarrow> ('f, 'z) vshell_scheme res) \<Rightarrow>
   (string \<Rightarrow> bool) \<Rightarrow> timer \<Rightarrow> int \<Rightarrow> bool \<Rightarrow> keyfunc \<Rightarrow> ('f, 'z) vshell_scheme \<Rightarrow> ('f, 'z) vshell_scheme res" where
  "vty_command y call is_dir timer now mem K_execute sh =
    with_history (command_shell_execute y call (vs_cmdset sh) mem now timer (vs_history sh, sh))"
| "vty_command y call is_dir timer now mem K_history_prev sh = with_history (command_history_prev mem (vs_history sh, sh))"
| "vty_command y call is_dir timer now mem K_history_next sh = with_history (command_history_next mem (vs_history sh, sh))"
| "vty_command y call is_dir timer now mem K_completion sh = command_shell_completion y (vs_cmdset sh) mem sh"
| "vty_command y call is_dir timer now mem K_ls_candidate sh =
    command_shell_ls_candidate y is_dir (unat (ws_col sh)) (vs_cmdset sh) mem sh"
| "vty_command y call is_dir timer now mem K_clear_terminal sh = shell_keyfunc_clear_terminal sh"
| "vty_command y call is_dir timer now mem k sh = Inr sh"

text \<open>The keys of a session, and the shell it starts with.\<close>

definition session_shell ::
  "'f command_set \<Rightarrow> bool \<Rightarrow> int \<Rightarrow> nat \<Rightarrow> 'f vshell" where
  "session_shell cs mem fd cid =
    (let sh = command_shell_keys (shell_create mem
           \<lparr>tn_cmd = 0, tn_opt = 0, tn_size = 0, tn_buf = replicate 256 0, ws_row = 0, ws_col = 0,
            vs_history = None, vs_cmdset = cs\<rparr>);
         sh = shell_set_prompt mem (take 63 (''vty['' @ dec cid @ '']> '')) (shell_set_terminal True fd fd sh);
         sh = sh\<lparr>sh_nl := [CHR 0x0D, CHR 0x0A]\<rparr>;
         sh = shell_telnet_keyfunc_init (shell_escape_keyfunc_init sh)
     in shell_install 0x7F K_delete_char_advanced (shell_install 12 K_clear_terminal sh))"

definition session_keys :: "keyfunc option list" where
  "session_keys = default_keymap[10 := Some K_execute, 13 := Some K_execute, 9 := Some K_completion,
     63 := Some K_ls_candidate, 16 := Some K_history_prev, 14 := Some K_history_next, 27 := Some K_escape_1,
     255 := Some K_iac_start, 12 := Some K_clear_terminal, 127 := Some K_delete_char_advanced]"

text \<open>The keymaps of the console and of the startup configuration, which have fewer keys.\<close>

definition console_keys :: "keyfunc option list" where
  "console_keys = default_keymap[10 := Some K_execute, 13 := Some K_execute, 9 := Some K_completion,
     63 := Some K_ls_candidate, 16 := Some K_history_prev, 14 := Some K_history_next, 27 := Some K_escape_1,
     12 := Some K_clear_terminal, 127 := Some K_delete_char_advanced]"

definition startup_keys :: "keyfunc option list" where
  "startup_keys = default_keymap[10 := Some K_execute, 13 := Some K_execute, 9 := Some K_completion,
     63 := Some K_ls_candidate, 16 := Some K_history_prev, 14 := Some K_history_next]"

definition shell_keymaps :: "keyfunc option list set" where
  "shell_keymaps = {session_keys, console_keys, startup_keys}"

text \<open>
  The signature: the name and the machine \<open>uname\<close> gave, and the hardware address of the interface, \<open>None\<close>
  when the socket or the request fails. Then the buffer keeps what it held, \<open>buf\<close> up to its first null.
\<close>

definition hex02 :: "u8 \<Rightarrow> string" where
  "hex02 b = replicate (2 - length (hex_word b)) (CHR ''0'') @ hex_word b"

definition snprintf_signature :: "string \<Rightarrow> string \<Rightarrow> bytes option \<Rightarrow> string \<Rightarrow> nat \<Rightarrow> string \<Rightarrow> string" where
  "snprintf_signature nodename machine hwaddr ifname bufsize buf =
    (case hwaddr of None \<Rightarrow> buf
     | Some a \<Rightarrow> take (bufsize - 1) (nodename @ '' '' @ machine @ '' '' @ ifname @ '': '' @
         hex02 (a ! 0) @ concat (map (\<lambda>i. '':'' @ hex02 (a ! i)) [1..<6])))"

definition vty_banner :: "string \<Rightarrow> string \<Rightarrow> string \<Rightarrow> bytes option \<Rightarrow> string \<Rightarrow> 'z shell_scheme \<Rightarrow> 'z shell_scheme res" where
  "vty_banner version nodename machine hwaddr buf sh =
    print_term (''welcome to sdplane vty_shell.'' @ sh_nl sh @ ''sdplane version: '' @ version @ sh_nl sh @
      ''signature: '' @ snprintf_signature nodename machine hwaddr ''enp1s0'' 1024 buf @ sh_nl sh) sh"

text \<open>The two commands that end a session; the second also the program.\<close>

definition vty_exit_cmd :: "'z shell_scheme \<Rightarrow> 'z shell_scheme res" where
  "vty_exit_cmd sh = bindr (print_term (''vty exit !'' @ sh_nl sh) sh) (\<lambda>sh.
     Inr (sh\<lparr>sh_flag := flag_set (sh_flag sh) SHELL_FLAG_EXIT\<rparr>))"

definition shutdown_cmd :: "bool \<Rightarrow> 'z shell_scheme \<Rightarrow> (bool \<times> 'z shell_scheme) res" where
  "shutdown_cmd force_quit sh = bindr (print_term (''shutdown !'' @ sh_nl sh) sh) (\<lambda>sh.
     Inr (True, sh\<lparr>sh_flag := flag_set (sh_flag sh) SHELL_FLAG_EXIT\<rparr>))"

text \<open>What the session sends before the first key.\<close>

definition session_greeting ::
  "('z shell_scheme \<Rightarrow> 'z shell_scheme res) \<Rightarrow> 'z shell_scheme \<Rightarrow> 'z shell_scheme res" where
  "session_greeting banner sh =
    bindr (vty_will_echo sh) (\<lambda>sh. bindr (vty_will_suppress_go_ahead sh) (\<lambda>sh.
    bindr (vty_dont_linemode sh) (\<lambda>sh. bindr (vty_do_window_size sh) (\<lambda>sh.
    bindr (banner (shell_clear sh)) (\<lambda>sh. Inr (shell_prompt sh))))))"

text \<open>
  One turn of the loop of \<open>vty_shell\<close>: nothing once the program, the lcore or the shell is to stop. A turn
  has the time, the outcome of allocations, what \<open>poll\<close> returned and what \<open>read\<close> read_bytes.
\<close>

record turn =
  tu_force_quit :: bool
  tu_force_stop :: bool
  tu_now :: int
  tu_mem :: bool
  tu_poll :: int
  tu_read :: read_result

definition vty_turn ::
  "'d system \<Rightarrow> ('f \<Rightarrow> string option list \<Rightarrow> ('f, 'z) vshell_scheme \<Rightarrow> ('f, 'z) vshell_scheme res) \<Rightarrow>
   (string \<Rightarrow> bool) \<Rightarrow> timer \<Rightarrow> turn \<Rightarrow> ('f, 'z) vshell_scheme \<times> nat \<Rightarrow> (('f, 'z) vshell_scheme \<times> nat) res" where
  "vty_turn y call is_dir timer t = (\<lambda>(sh, loops).
    if \<not> tu_force_quit t \<and> \<not> tu_force_stop t \<and> shell_running sh
    then bindr (shell_read_nowait (vty_command y call is_dir timer (tu_now t) (tu_mem t)) (tu_mem t) (tu_poll t) (tu_read t) sh)
           (\<lambda>(ret, sh). Inr (sh, loops + 1))
    else Inr (sh, loops))"


section \<open>The invariant of a session\<close>

definition hist_ok :: "command_history option \<Rightarrow> bool" where
  "hist_ok H \<longleftrightarrow> (\<exists>ls k. hist_rel H ls k \<and> (\<forall>l\<in>set ls. list_all clean l))"

text \<open>
  A shell may have further fields, which only the functions behind the command keys touch. \<open>R\<close> is what
  is known of them.
\<close>

definition session_inv :: "'f command_set \<Rightarrow> ('z \<Rightarrow> bool) \<Rightarrow> ('f, 'z) vshell_scheme \<Rightarrow> bool" where
  "session_inv cs R sh \<longleftrightarrow> vty_ok command_keys sh \<and> sh_keymap_normal sh \<in> shell_keymaps \<and>
     hist_ok (vs_history sh) \<and> vs_cmdset sh = cs \<and> R (vshell.more sh)"

abbreviation session_ok :: "'f command_set \<Rightarrow> ('f, 'z) vshell_scheme \<Rightarrow> bool" where
  "session_ok cs \<equiv> session_inv cs (\<lambda>_. True)"

text \<open>A result that is either a state with \<open>I\<close> or one of the faults \<open>F\<close>.\<close>

definition settles :: "('s \<Rightarrow> bool) \<Rightarrow> fault set \<Rightarrow> 's res \<Rightarrow> bool" where
  "settles I F r \<longleftrightarrow> (\<exists>s. r = Inr s \<and> I s) \<or> (\<exists>f\<in>F. r = Inl f)"

lemma settlesI [simp]: "settles I F (Inr s) = I s" "settles I F (Inl f) = (f \<in> F)"
  by (auto simp: settles_def)

lemma settles_mono: "settles I F r \<Longrightarrow> (\<And>s. I s \<Longrightarrow> J s) \<Longrightarrow> F \<subseteq> G \<Longrightarrow> settles J G r"
  by (auto simp: settles_def)

lemma settles_also: "settles I F r \<Longrightarrow> (\<And>s. r = Inr s \<Longrightarrow> J s) \<Longrightarrow> settles (\<lambda>s. I s \<and> J s) F r"
  by (auto simp: settles_def)

lemma settles_bind: "settles I F r \<Longrightarrow> (\<And>s. I s \<Longrightarrow> settles J F (k s)) \<Longrightarrow> settles J F (bindr r k)"
  by (cases r) (auto simp: settles_def)

lemma vshell_fields:
  fixes a b :: "('f, 'z) vshell_scheme"
  assumes "shell.more a = shell.more b"
  shows "vs_history a = vs_history b" "vs_cmdset a = vs_cmdset b" "vshell.more a = vshell.more b"
  using assms by (cases a; cases b; simp)+

lemma session_kept: "session_inv cs R sh \<Longrightarrow> kept sh sh' \<Longrightarrow> line_ok sh' \<Longrightarrow> session_inv cs R sh'"
  unfolding session_inv_def using vty_ok_kept [of command_keys sh sh'] vshell_fields [of sh' sh]
  by (simp add: kept_def)

lemma session_quiet: "session_inv cs R sh \<Longrightarrow> quiet sh sh' \<Longrightarrow> session_inv cs R sh'"
  using session_kept by (auto simp: quiet_def)

lemma session_outcome: "session_inv cs R sh \<Longrightarrow> outcome sh e sh' \<Longrightarrow> session_inv cs R sh'"
  using session_kept outcome_kept outcome_line_ok by blast

lemma session_does: "session_inv cs R sh \<Longrightarrow> does sh t c sh' \<Longrightarrow> session_inv cs R sh'"
  by (erule session_kept) (auto simp: does_def kept_def edited_keeps)

lemma session_parts:
  assumes "session_inv cs R sh"
  shows "line_ok sh" "0 \<le> sh_writefd sh" "sh_open sh" "vty_ok command_keys sh" "vs_cmdset sh = cs"
    "hist_ok (vs_history sh)" "sh_keymap_normal sh \<in> shell_keymaps" "sh_cursor sh \<le> sh_end sh"
    "list_all clean (shell_text sh)"
  using assms by (auto simp: session_inv_def vty_ok_def line_ok_def)

lemma session_updates [simp]:
  "session_inv cs R (sh\<lparr>sh_keymap := m\<rparr>) = session_inv cs R sh" "session_inv cs R (sh\<lparr>sh_flag := f\<rparr>) = session_inv cs R sh"
  "session_inv cs R (sh\<lparr>sh_inputch := c\<rparr>) = session_inv cs R sh" "session_inv cs R (sh\<lparr>tn_cmd := d\<rparr>) = session_inv cs R sh"
  "session_inv cs R (sh\<lparr>tn_opt := d\<rparr>) = session_inv cs R sh" "session_inv cs R (sh\<lparr>sh_readfd := fd\<rparr>) = session_inv cs R sh"
  by (simp_all add: session_inv_def) (simp add: vty_ok_def line_ok_def shell_text_def)

lemma session_history: "session_inv cs R sh \<Longrightarrow> hist_ok h \<Longrightarrow> session_inv cs R (sh\<lparr>vs_history := h\<rparr>)"
  by (auto simp: session_inv_def vty_ok_def line_ok_def shell_text_def)

lemma session_print: "session_inv cs R sh \<Longrightarrow> settles (\<lambda>s. session_inv cs R s \<and> quiet sh s) F (print_term w sh)"
  using quiet_print [OF session_parts(1,3)] session_quiet by (metis settlesI(1))

lemma session_prints: "session_inv cs R sh \<Longrightarrow> settles (session_inv cs R) F (print_term w sh)"
  by (rule settles_mono [OF session_print]) auto

lemma session_refresh: "session_inv cs R sh \<Longrightarrow> session_inv cs R (shell_refresh sh)"
  using quiet_refresh [OF session_parts(1)] session_quiet by blast

lemma session_print_refresh:
  "session_inv cs R sh \<Longrightarrow> settles (session_inv cs R) F (bindr (print_term w sh) (\<lambda>sh. Inr (shell_refresh sh)))"
  by (erule settles_bind [OF session_prints]) (simp add: session_refresh)

lemma session_prompt: "session_inv cs R sh \<Longrightarrow> session_inv cs R (shell_prompt sh)"
  using quiet_prompt [OF session_parts(1)] session_quiet by blast

lemma session_clear: "session_inv cs R sh \<Longrightarrow> session_inv cs R (shell_clear sh)"
proof -
  assume a: "session_inv cs R sh"
  have "line_ok (shell_clear sh)" "kept sh (shell_clear sh)"
    using session_parts(1) [OF a] by (auto simp: shell_clear_def shell_terminate_def line_ok_def shell_text_def kept_def)
  then show ?thesis using a session_kept by blast
qed

lemma session_fresh: "session_inv cs R sh \<Longrightarrow> session_inv cs R (shell_refresh (shell_prompt (shell_clear sh)))"
  by (intro session_refresh session_prompt session_clear)

lemma session_format: "session_inv cs R sh \<Longrightarrow> session_inv cs R (shell_format mem sh)"
  using format_outcome(1,2) [OF session_parts(1)] session_kept by blast

lemma session_insert:
  assumes "session_inv cs R sh" "list_all clean s"
  shows "settles (session_inv cs R) {NoMemory} (shell_insert mem s sh)"
  using insert_outcome [OF session_parts(1) [OF assms(1)] assms(2) session_parts(2) [OF assms(1)], of mem]
    session_outcome [OF assms(1)]
  unfolding settles_def by blast

section \<open>The functions behind the command keys\<close>

text \<open>
  What is asked of the surroundings: the names of the commands and of the files hold no backspace, and a
  command keeps the invariant of the shell or ends in one of the faults \<open>F\<close>.
\<close>

definition names_clean :: "'d system \<Rightarrow> 'f command_set \<Rightarrow> bool" where
  "names_clean y cs \<longleftrightarrow> (\<forall>n<length cs. list_all clean (cmdstr (cs ! n))) \<and>
     (\<forall>d es. readdir y d = Some es \<longrightarrow> (\<forall>e\<in>set es. list_all clean e))"

definition commands_ok ::
  "('f \<Rightarrow> string option list \<Rightarrow> ('f, 'z) vshell_scheme \<Rightarrow> ('f, 'z) vshell_scheme res) \<Rightarrow> 'f command_set \<Rightarrow> fault set \<Rightarrow> bool" where
  "commands_ok call cs F \<longleftrightarrow> (\<forall>f argv sh. session_ok cs sh \<longrightarrow> settles (session_ok cs) F (call f argv sh))"

lemma strip_comment_text:
  assumes "line_ok sh"
  shows "line_ok (strip_comment sh)" "kept sh (strip_comment sh)"
    "shell_text (strip_comment sh) = takeWhile (\<lambda>c. c \<noteq> CHR ''#'' \<and> c \<noteq> CHR ''!'') (shell_text sh)"
    "sh_cut_buffer (strip_comment sh) = sh_cut_buffer sh"
proof -
  let ?P = "\<lambda>c. c \<noteq> CHR ''#'' \<and> c \<noteq> CHR ''!''"
  let ?b = "takeWhile ?P (shell_text sh)"
  have le: "length ?b \<le> sh_end sh" using length_takeWhile_le line_split(2) [OF assms] by metis
  have b: "take (length ?b) (sh_line sh) = ?b"
    using line_split(1) [OF assms] takeWhile_eq_take [of ?P "shell_text sh"] le
    by (simp add: shell_text_def)
  have cl: "list_all clean ?b" using assms by (auto simp: line_ok_def list_all_iff dest: set_takeWhileD)
  show "line_ok (strip_comment sh)" "kept sh (strip_comment sh)" "shell_text (strip_comment sh) = ?b"
    "sh_cut_buffer (strip_comment sh) = sh_cut_buffer sh"
    using assms le b cl cstr_line [OF assms] line_split(2) [OF assms]
      takeWhile_eq_all_conv [of ?P "shell_text sh"]
    by (auto simp: strip_comment_def Let_def shell_terminate_def line_ok_def shell_text_def kept_def)
qed

lemma session_strip: "session_inv cs R sh \<Longrightarrow> session_inv cs R (strip_comment sh)"
  using strip_comment_text [OF session_parts(1)] session_kept by blast

lemma hist_ok_add:
  assumes "hist_ok H" "list_all clean line"
  shows "\<exists>h. command_history_add line H = Inr h \<and> hist_ok (Some h)"
proof -
  from assms(1) obtain ls k where r: "hist_rel H ls k" "\<forall>l\<in>set ls. list_all clean l" by (auto simp: hist_ok_def)
  from history_add_refines [OF r(1), of line] obtain h where
    "command_history_add line H = Inr h" "hist_rel (Some h) (last_lines 127 (ls @ [line])) 0" by blast
  moreover have "\<forall>l\<in>set (last_lines 127 (ls @ [line])). list_all clean l"
    using r(2) assms(2) by (auto simp: last_lines_def dest: in_set_dropD)
  ultimately show ?thesis by (auto simp: hist_ok_def)
qed

lemma execute_settles:
  assumes ok: "session_ok cs sh" and calls: "commands_ok call cs F"
  shows "settles (session_ok cs) (insert Exited F) (vty_command y call is_dir timer now mem K_execute sh)"
proof -
  let ?s = "shell_format mem (strip_comment sh)"
  have s: "session_ok cs ?s" by (intro session_format session_strip ok)
  have vs: "vs_cmdset sh = cs" "vs_history sh = vs_history ?s" "hist_ok (vs_history sh)"
    using session_parts [OF ok] strip_comment_text(2) [OF session_parts(1) [OF ok]]
      format_outcome(2) [OF strip_comment_text(1) [OF session_parts(1) [OF ok]], of mem]
      vshell_fields(1) [of ?s sh] by (auto simp: kept_def)
  from session_print [OF s] obtain b where b: "shell_linefeed ?s = Inr b" "session_ok cs b"
    unfolding shell_linefeed_def settles_def by blast
  define ran where "ran = (case command_execute y (cstr (sh_line b)) cs of
      None \<Rightarrow> print_term (''no such command: '' @ cstr (sh_line b) @ sh_nl b) b | Some (f, argv) \<Rightarrow> call f argv b)"
  have ran: "settles (session_ok cs) (insert Exited F) ran"
    unfolding ran_def
    by (split option.split)
      (use b(2) calls session_prints [OF b(2)] in \<open>auto simp: commands_ok_def simp del: append.simps intro: settles_mono\<close>)
  have rest: "settles (\<lambda>(h, s). session_ok cs s \<and> hist_ok h) (insert Exited F)
      (bindr (command_history_add (cstr (sh_line c)) (vs_history sh)) (\<lambda>h.
         if \<not> shell_running c then Inr (Some h, c) else Inr (Some h, shell_refresh (shell_prompt (shell_clear c)))))"
    if c: "session_ok cs c" for c
  proof -
    have "list_all clean (cstr (sh_line c))" using session_parts(1,9) [OF c] by (simp add: cstr_line)
    from hist_ok_add [OF vs(3) this] show ?thesis using c session_fresh [OF c] by (auto simp: settles_def)
  qed
  have "settles (\<lambda>(h, s). session_ok cs s \<and> hist_ok h) (insert Exited F)
      (command_shell_execute y call (vs_cmdset sh) mem now timer (vs_history sh, sh))"
    using session_fresh [OF b(2)] vs settles_bind [OF ran rest]
    by (auto simp: command_shell_execute_def b(1) ran_def [symmetric] timer_check_def guardr_def)
  then show ?thesis
    unfolding vty_command.simps with_history_def
    by (rule settles_bind) (auto intro: session_history)
qed

definition within :: "nat \<Rightarrow> matches \<Rightarrow> bool" where
  "within k m \<longleftrightarrow> (\<forall>v. mt_match m = Some v \<longrightarrow> v < k) \<and> (\<forall>v. mt_varmatch m = Some v \<longrightarrow> v < k)"

lemma within_step: "n < k \<Longrightarrow> within k m \<Longrightarrow> within k (match_var y cs w n m)"
  "n < k \<Longrightarrow> within k m \<Longrightarrow> within k (match_reg cs w n m)"
  by (simp_all add: within_def match_var_def match_reg_def split: option.split)

lemma within_run: "\<forall>n\<in>set ns. n < k \<Longrightarrow> within k m \<Longrightarrow> within k (run_matches y cs w ns m)"
  by (induction ns arbitrary: m) (simp_all add: within_step)

lemma unique_exact_range:
  assumes "tree_ok cs" "p < length cs" "command_match_unique_exact y cs p w = Some n"
  shows "n < length cs"
proof -
  have "\<forall>n\<in>set (cmdvec (cs ! p)). n < length cs" using tree_child [OF assms(1,2)] by blast
  from within_run [OF this, of "\<lparr>mt_match = None, mt_varmatch = None, mt_count = 0, mt_varcount = 0\<rparr>", where y = y and w = w and cs = cs]
  have "command_match_unique y cs p w = Some n \<Longrightarrow> n < length cs"
    by (auto simp: within_def command_match_unique_def Let_def split: if_splits)
  moreover have "command_match_exact cs p w = Some n \<Longrightarrow> n < length cs"
    using exact_SomeD tree_child [OF assms(1,2)] by blast
  ultimately show ?thesis using assms(3) by (auto simp: command_match_unique_exact_def split: option.splits)
qed

lemma complete_words_range:
  assumes t: "tree_ok cs" and r: "complete_words y cs words p match matched = (m, mw, w, q)"
    and p: "p < length cs" "\<forall>v. match = Some v \<longrightarrow> v < length cs"
  shows "q < length cs \<and> (\<forall>v. m = Some v \<longrightarrow> v < length cs)"
  using r p
proof (induction words arbitrary: p match matched)
  case (Cons x xs)
  show ?case
  proof (cases "command_match_unique_exact y cs p x")
    case None
    with Cons.prems show ?thesis by simp
  next
    case (Some n)
    with Cons.prems unique_exact_range [OF t Cons.prems(2) Some] show ?thesis
      by (intro Cons.IH [of n "Some n" x]) simp_all
  qed
qed simp

lemma strcommon_clean: "list_all clean d \<Longrightarrow> list_all clean (strcommon d s)"
  by (induction d s rule: strcommon.induct) auto

lemma fold_strcommon_clean: "list_all clean d \<Longrightarrow> list_all clean (fold (\<lambda>s d. strcommon d s) ss d)"
  by (induction ss arbitrary: d) (simp_all add: strcommon_clean)

lemma complete_common_clean:
  assumes "\<forall>n\<in>set names. list_all clean n"
  shows "settles (list_all clean) {OutOfBounds} (complete_common names word)"
proof (cases "filter (\<lambda>n. starts_with n word) names")
  case Nil
  then show ?thesis by (auto simp: complete_common_def guardr_def settles_def simp del: starts_with.simps)
next
  case (Cons n ns)
  then have "n \<in> set (filter (\<lambda>n. starts_with n word) names)" by (simp only: list.set_intros)
  then have "n \<in> set names" by (simp only: set_filter) blast
  with Cons assms show ?thesis
    by (auto simp: complete_common_def guardr_def settles_def clean_take_drop fold_strcommon_clean simp del: starts_with.simps)
qed

lemma file_complete_clean:
  assumes "names_clean y cs" "file_complete y word = Some s"
  shows "list_all clean s"
proof -
  obtain dirname filename where d: "path_disassemble word = (dirname, filename)" by fastforce
  with assms(2) obtain es where e: "readdir y dirname = Some es"
    by (auto simp: file_complete_def split: option.splits)
  define fs where "fs = filter (\<lambda>e. starts_with e filename) es"
  have cl: "\<forall>e\<in>set fs. list_all clean e"
    using assms(1) e by (auto simp: names_clean_def fs_def simp del: starts_with.simps)
  have slash: "list_all clean ''/''" by (simp add: clean_def NUL_def BS_def)
  note s = assms(2) [unfolded file_complete_def d e Let_def prod.case option.case, folded fs_def]
  consider "fs = []" | a where "fs = [a]" | a b rest where "fs = a # b # rest" by (metis list.exhaust)
  then show ?thesis
    by cases (use s cl slash in \<open>auto simp: clean_take_drop fold_strcommon_clean strcommon_clean split: if_splits\<close>)
qed

lemma command_complete_clean:
  assumes t: "tree_ok cs" and names: "names_clean y cs"
  shows "settles (list_all clean) {OutOfBounds} (command_complete y line point cs)"
proof -
  obtain m mw w q where c: "complete_words y cs (split_on (CHR '' '') (take point line)) 0 None [] = (m, mw, w, q)"
    by (cases "complete_words y cs (split_on (CHR '' '') (take point line)) 0 None []")
  have "0 < length cs" using t by (simp add: tree_ok_def)
  with complete_words_range [OF t c] have r: "q < length cs" "\<And>v. m = Some v \<Longrightarrow> v < length cs" by auto
  have cmd: "n < length cs \<Longrightarrow> list_all clean (cmdstr (cs ! n))" for n using names by (simp add: names_clean_def)
  show ?thesis
  proof (cases m)
    case None
    have "\<forall>s\<in>set (map (\<lambda>n. cmdstr (cs ! n)) (filter (\<lambda>n. \<not> is_command_node_variable y (cs ! n)) (cmdvec (cs ! q)))).
        list_all clean s"
      using tree_child [OF t r(1)] cmd by auto
    then show ?thesis
      unfolding command_complete_def c None command_complete_common_def Let_def prod.case option.case
      by (intro settles_bind [OF complete_common_clean]) (auto simp: clean_take_drop)
  next
    case (Some v)
    have "list_all clean (drop (length mw) (cmdstr (cs ! v)) @ '' '')"
      using cmd [OF r(2) [OF Some]] by (simp add: clean_take_drop)
    then show ?thesis
      using file_complete_clean [OF names, of mw]
      by (auto simp: command_complete_def c Some Let_def settles_def guardr_def clean_take_drop(1) split: option.split)
  qed
qed

lemma run_after_le: "p \<le> length t \<Longrightarrow> p + run_after d t p \<le> length t"
  using length_takeWhile_le [of "plain d" "drop p t"] by (simp add: run_after_def)

lemma completion_settles:
  assumes ok: "session_inv cs R sh" and t: "tree_ok cs" and names: "names_clean y cs"
  shows "settles (session_inv cs R) {NoMemory, OutOfBounds} (vty_command y call is_dir timer now mem K_completion sh)"
proof -
  note p = session_parts [OF ok]
  let ?e = "sh_cursor sh + run_after SHELL_WORD_DELIMITERS (shell_text sh) (sh_cursor sh)"
  have e: "?e \<le> sh_end sh" using run_after_le p(8) line_split(2) [OF p(1)] by metis
  from moveto_does [OF p(1) e] obtain b where b: "shell_moveto ?e sh = Inr b" "session_inv cs R b"
    using session_does [OF ok] by blast
  have "settles (session_inv cs R) {NoMemory, OutOfBounds}
      (bindr (command_complete y (cstr (sh_line b)) (sh_cursor b) cs) (\<lambda>s. shell_insert mem s b))"
    by (rule settles_bind [OF settles_mono [OF command_complete_clean [OF t names]]])
      (auto intro: settles_mono [OF session_insert [OF b(2)]])
  then show ?thesis
    by (simp add: command_shell_completion_def word_end_val [OF p(1,8)] b p(5))
qed

lemma file_ls_settles: "session_inv cs R sh \<Longrightarrow> settles (session_inv cs R) {} (file_ls_candidate y is_dir cols path sh)"
  by (simp add: file_ls_candidate_def Let_def case_prod_beta session_prints del: append.simps split: option.split)

lemma ls_nodes_settles:
  "session_inv cs R sh \<Longrightarrow> settles (session_inv cs R) {} (ls_nodes y is_dir cols tree word ns sh)"
proof (induction ns arbitrary: sh)
  case (Cons n ns)
  show ?case
    unfolding ls_nodes.simps
    by (rule settles_bind [of "session_inv cs R"], use Cons.prems session_prints in force)
      (rule settles_bind [of "session_inv cs R"], use file_ls_settles in force, rule Cons.IH)
qed auto

lemma ls_candidate_settles:
  assumes ok: "session_inv cs R sh"
  shows "settles (session_inv cs R) {} (vty_command y call is_dir timer now mem K_ls_candidate sh)"
proof -
  let ?go = "if sh_cursor sh \<noteq> sh_end sh
      then bindr (shell_linefeed (shell_format mem (shell_refresh (sh\<lparr>sh_cursor := sh_end sh\<rparr>)))) (\<lambda>sh. Inr (shell_refresh sh))
      else Inr sh"
  have "session_inv cs R (sh\<lparr>sh_cursor := sh_end sh\<rparr>)"
    using ok by (auto simp: session_inv_def vty_ok_def line_ok_def shell_text_def)
  then have "settles (session_inv cs R) {} (bindr
      (shell_linefeed (shell_format mem (shell_refresh (sh\<lparr>sh_cursor := sh_end sh\<rparr>)))) (\<lambda>sh. Inr (shell_refresh sh)))"
    unfolding shell_linefeed_def
    by (intro session_print_refresh session_format session_refresh)
  then have go: "settles (session_inv cs R) {} ?go" using ok by simp
  have rest: "settles (session_inv cs R) {} (bindr (shell_word_head (sh_cursor s) s) (\<lambda>(last_head, s).
      let line = cstr (sh_line s); word = drop last_head line
      in bindr (shell_linefeed s) (\<lambda>s.
         bindr (case command_match_node y (take last_head line) (vs_cmdset sh) of None \<Rightarrow> Inr s
                | Some m \<Rightarrow>
                  bindr (if last_head = sh_cursor s \<and> cmd_func (vs_cmdset sh ! m) \<noteq> None
                         then print_term (candidate_line ''<cr>'' (helpstr (vs_cmdset sh ! m)) (sh_nl s)) s else Inr s)
                    (ls_nodes y is_dir (unat (ws_col sh)) (vs_cmdset sh) word (cmdvec (vs_cmdset sh ! m)))) (\<lambda>s.
         bindr (shell_linefeed s) (\<lambda>s. Inr (shell_refresh s))))))" if s: "session_inv cs R s" for s
    unfolding shell_word_head_def word_head_val [OF session_parts(1,8) [OF s]] bindr_simps prod.case Let_def shell_linefeed_def
    by (rule settles_bind [OF session_prints [OF s]], rule settles_bind [of "session_inv cs R"])
      (auto split: option.split intro!: settles_bind [OF _ ls_nodes_settles] ls_nodes_settles session_prints session_print_refresh)
  show ?thesis
    unfolding vty_command.simps command_shell_ls_candidate_def
    by (rule settles_bind [OF go rest])
qed

lemma history_settles:
  assumes ok: "session_inv cs R sh" and k: "k = K_history_prev \<or> k = K_history_next"
  shows "settles (session_inv cs R) {NoMemory} (vty_command y call is_dir timer now mem k sh)"
proof -
  note p = session_parts [OF ok]
  from p(6) obtain ls i where r: "hist_rel (vs_history sh) ls i" "\<forall>l\<in>set ls. list_all clean l" by (auto simp: hist_ok_def)
  have "settles (\<lambda>(h, s). session_inv cs R s \<and> hist_ok h) {NoMemory} r'"
    if "browses (vs_history sh, sh) ls j r'" for j r'
    using that r(2) ok p(6) session_does [OF ok]
    by (auto simp: browses_def settles_def hist_ok_def split: option.splits) blast+
  then have b: "settles (\<lambda>(h, s). session_inv cs R s \<and> hist_ok h) {NoMemory}
      (if k = K_history_prev then command_history_prev mem (vs_history sh, sh) else command_history_next mem (vs_history sh, sh))"
    using history_prev_refines [OF r(1) p(1,2) r(2)] history_next_refines [OF r(1) p(1,2) r(2)] by auto
  have "settles (session_inv cs R) {NoMemory} (with_history
      (if k = K_history_prev then command_history_prev mem (vs_history sh, sh) else command_history_next mem (vs_history sh, sh)))"
    unfolding with_history_def by (rule settles_bind [OF b]) (auto intro: session_history)
  then show ?thesis using k by auto
qed

section \<open>One key of a session\<close>

lemma default_entry:
  assumes "i < 256" "default_keymap ! i = Some k"
  shows "k \<notin> {K_execute, K_completion, K_sb_end}" "k = K_input_char \<Longrightarrow> 32 \<le> i \<and> i < 127"
  using assms by (auto simp: default_keymap_def nth_append nth_Cons' split: if_splits)

lemma default_size: "length default_keymap = 256"
  by (simp add: default_keymap_def)

lemma session_keys_entry:
  assumes "km \<in> shell_keymaps" "i < 256" "km ! i = Some k"
  shows "k = K_execute \<Longrightarrow> i = 10 \<or> i = 13" "k = K_completion \<Longrightarrow> i = 9" "k \<noteq> K_sb_end" "k = K_input_char \<Longrightarrow> 32 \<le> i \<and> i < 127"
proof -
  from assms(1) consider "km = session_keys" | "km = console_keys" | "km = startup_keys" by (auto simp: shell_keymaps_def)
  then have "(k = K_execute \<longrightarrow> i = 10 \<or> i = 13) \<and> (k = K_completion \<longrightarrow> i = 9) \<and> k \<noteq> K_sb_end \<and> (k = K_input_char \<longrightarrow> 32 \<le> i \<and> i < 127)"
    by cases (use assms(2,3) default_entry [of i k] in \<open>auto simp: session_keys_def console_keys_def startup_keys_def nth_list_update
        default_size split: if_splits\<close>)
  then show "k = K_execute \<Longrightarrow> i = 10 \<or> i = 13" "k = K_completion \<Longrightarrow> i = 9" "k \<noteq> K_sb_end" "k = K_input_char \<Longrightarrow> 32 \<le> i \<and> i < 127"
    by blast+
qed

text \<open>What all three keymaps have: Enter, either code, and the characters.\<close>

lemma common_keys:
  assumes "km \<in> shell_keymaps"
  shows "km ! 10 = Some K_execute" "km ! 13 = Some K_execute"
    "32 \<le> i \<Longrightarrow> i < 127 \<Longrightarrow> i \<noteq> 63 \<Longrightarrow> km ! i = Some K_input_char" "length km = 256"
proof -
  from assms consider "km = session_keys" | "km = console_keys" | "km = startup_keys" by (auto simp: shell_keymaps_def)
  then have "km ! 10 = Some K_execute \<and> km ! 13 = Some K_execute \<and> length km = 256 \<and>
      (32 \<le> i \<and> i < 127 \<and> i \<noteq> 63 \<longrightarrow> km ! i = default_keymap ! i)"
    by cases (simp_all add: session_keys_def console_keys_def startup_keys_def default_size)
  moreover have "32 \<le> i \<and> i < 127 \<Longrightarrow> default_keymap ! i = Some K_input_char"
    by (auto simp: default_keymap_def nth_append nth_Cons')
  ultimately show "km ! 10 = Some K_execute" "km ! 13 = Some K_execute" "length km = 256"
    "32 \<le> i \<Longrightarrow> i < 127 \<Longrightarrow> i \<noteq> 63 \<Longrightarrow> km ! i = Some K_input_char" by simp_all
qed

lemma session_entry:
  assumes "session_inv cs R sh" "keymap_entry b sh = Some k"
  shows "k = K_execute \<Longrightarrow> b = 10 \<or> b = 13" "k = K_completion \<Longrightarrow> b = 9" "k = K_sb_end \<Longrightarrow> b = SE"
proof -
  have n: "unat b < 256" by (rule unat_u8)
  have "(k = K_execute \<longrightarrow> unat b = 10 \<or> unat b = 13) \<and> (k = K_completion \<longrightarrow> unat b = 9) \<and> (k = K_sb_end \<longrightarrow> unat b = unat SE)"
  proof (cases "sh_keymap sh")
    case Normal
    then have "sh_keymap_normal sh ! unat b = Some k" using assms(2) by (simp add: keymap_entry_def)
    from session_keys_entry [OF session_parts(7) [OF assms(1)] n this] show ?thesis by blast
  next
    case Iac1
    then show ?thesis using assms(2) n
      by (auto simp: keymap_entry_def key_func_iac_1_def nth_list_update telnet_consts split: if_splits)
  qed (use assms(2) n in \<open>auto simp: keymap_entry_def key_func_escape_1_def key_func_escape_2_def key_func_iac_2_def
      key_func_subnego_def nth_list_update telnet_consts split: if_splits\<close>)
  then show "k = K_execute \<Longrightarrow> b = 10 \<or> b = 13" "k = K_completion \<Longrightarrow> b = 9" "k = K_sb_end \<Longrightarrow> b = SE"
    by (auto simp: word_unat_eq_iff)
qed

text \<open>The faults a byte can end in: only Enter runs a command, only Tab reads past a name, only SE overflows.\<close>

definition session_faults :: "fault set \<Rightarrow> u8 \<Rightarrow> fault set" where
  "session_faults F b = {NoMemory} \<union> (if b = 10 \<or> b = 13 then insert Exited F else {}) \<union>
     (if b = 9 then {OutOfBounds} else {}) \<union> (if b = SE then {BufferOverflow} else {})"

lemma telnet_session:
  assumes ok: "session_inv cs R sh" and k: "k \<in> telnet_keys"
  shows "settles (session_inv cs R) (if k = K_sb_end then {BufferOverflow} else {}) (run_keyfunc command mem k sh)"
proof (cases "k = K_sb_end")
  case True
  let ?n = "sh\<lparr>sh_keymap := Normal\<rparr>"
  have n: "session_inv cs R ?n" using ok by simp
  have w: "session_inv cs R (shell_refresh (?n\<lparr>ws_row := r, ws_col := c\<rparr>))" for r c
    by (rule session_refresh) (use n in \<open>auto simp: session_inv_def vty_ok_def line_ok_def shell_text_def\<close>)
  from print_pieces_cases [of "subnego_pieces ?n" 0] show ?thesis
    using True session_refresh [OF n] w n
    by (auto simp: vty_shell_keyfunc_sb_end_def Let_def)
next
  case False
  have "session_inv cs R (vty_shell_keyfunc_subnego sh)" "session_inv cs R (vty_shell_keyfunc_sb_start sh)"
    using ok by (auto simp: vty_shell_keyfunc_subnego_def vty_shell_keyfunc_sb_start_def session_inv_def vty_ok_def
        line_ok_def shell_text_def)
  then show ?thesis
    using False k ok unfolding telnet_keys_def
    by (auto simp: shell_keyfunc_escape_def vty_shell_keyfunc_escape_1_def vty_shell_keyfunc_normal_def
        vty_shell_keyfunc_escape_2_def vty_shell_keyfunc_iac_start_def vty_shell_keyfunc_telnet_opt_def
        vty_shell_keyfunc_telnet_cmd_def)
qed

lemma session_after [simp]: "session_inv cs R (after_key k s) = session_inv cs R s"
  by (simp add: after_key_def vty_shell_keyfunc_normal_def)

text \<open>\<open>commands_settle\<close> asks of the functions behind the command keys what the other keys do by themselves.\<close>

definition commands_settle ::
  "(keyfunc \<Rightarrow> ('f, 'z) vshell_scheme \<Rightarrow> ('f, 'z) vshell_scheme res) \<Rightarrow> 'f command_set \<Rightarrow> ('z \<Rightarrow> bool) \<Rightarrow> fault set \<Rightarrow> bool" where
  "commands_settle c cs R F \<longleftrightarrow> (\<forall>k sh. session_inv cs R sh \<and> k \<in> command_keys \<and> keymap_entry (sh_inputch sh) sh = Some k \<longrightarrow>
     settles (session_inv cs R) (session_faults F (sh_inputch sh)) (c k sh))"

lemma session_key:
  assumes inv: "session_inv cs R sh" and k: "keymap_entry (sh_inputch sh) sh = Some k" and c: "commands_settle c cs R F"
  shows "settles (session_inv cs R) (session_faults F (sh_inputch sh)) (run_keyfunc c mem k sh)"
proof -
  note ok = inv
  note p = session_parts [OF ok] and entry = session_entry [OF ok k]
  note set = keymap_entry_ok [OF p(4) k]
  consider "k \<in> line_keys" | "k \<in> redraw_keys" | "k \<in> telnet_keys" | "k \<in> command_keys"
    using key_partition by blast
  then show ?thesis
  proof cases
    case 1
    have ch: "clean (char_of (unat (sh_inputch sh)))" if "k = K_input_char"
      using set that by (auto intro: clean_printable)
    have m: "NoMemory \<in> session_faults F (sh_inputch sh)" by (simp add: session_faults_def)
    show ?thesis
      by (rule disjE [OF line_key_outcome [where command = c and mem = mem, OF p(1,2) 1]], erule ch)
        (elim exE conjE, simp add: session_outcome [OF ok], elim conjE, simp add: m)
  next
    case 2
    from redraw_key_outcome [OF p(1,3) 2, of c mem undefined undefined] show ?thesis
      using session_kept [OF ok] by (elim exE conjE) simp
  next
    case 3
    show ?thesis
      by (rule settles_mono [OF telnet_session [OF ok 3]]) (use entry(3) in \<open>auto simp: session_faults_def\<close>)
  next
    case 4
    moreover have "run_keyfunc c mem k sh = c k sh" using 4 by (auto simp: command_keys_def)
    ultimately show ?thesis using c inv k by (simp add: commands_settle_def)
  qed
qed

lemma session_input:
  assumes inv: "session_inv cs R sh" and c: "commands_settle c cs R F"
  shows "settles (session_inv cs R) (session_faults F b) (shell_input c mem b sh)"
proof -
  let ?s = "sh\<lparr>sh_inputch := b\<rparr>"
  have s: "session_inv cs R ?s" using inv by simp
  have "settles (session_inv cs R) (session_faults F b) (case keymap_entry b ?s of None \<Rightarrow> Inr ?s
      | Some k \<Rightarrow> run_keyfunc c mem k ?s)"
    using session_key [OF s _ c] s by (auto split: option.split)
  then show ?thesis
    unfolding shell_input_def Let_def
    by (rule settles_bind) (auto intro: session_refresh)
qed

lemma session_bytes:
  assumes c: "commands_settle c cs R F"
  shows "session_inv cs R sh \<Longrightarrow> settles (session_inv cs R) (\<Union>b\<in>set bs. session_faults F b) (runr (shell_input c mem) bs sh)"
proof (induction bs arbitrary: sh)
  case (Cons b bs)
  show ?case
    unfolding runr.simps
    by (rule settles_bind [OF settles_mono [OF session_input [OF Cons.prems c]] settles_mono [OF Cons.IH]]) auto
qed simp

definition read_bytes :: "read_result \<Rightarrow> bytes" where
  "read_bytes r = (case r of ReadError \<Rightarrow> [] | ReadBytes bs \<Rightarrow> bs)"

lemma session_read:
  assumes inv: "session_inv cs R sh" and c: "commands_settle c cs R F"
  shows "settles (\<lambda>(ret, sh). session_inv cs R sh) (\<Union>b\<in>set (read_bytes r). session_faults F b)
    (shell_read_nowait c mem poll r sh)"
proof -
  let ?F = "\<Union>b\<in>set (read_bytes r). session_faults F b"
  have "settles (\<lambda>(ret, sh). session_inv cs R sh) ?F (shell_read c mem r sh)"
  proof (cases r)
    case ReadError
    then show ?thesis using inv by (simp add: shell_read_def)
  next
    case (ReadBytes bs)
    have "settles (\<lambda>(ret, sh). session_inv cs R sh) ?F (bindr (shell_linefeed sh) (\<lambda>sh. Inr (0 :: int, shell_read_close sh)))"
      unfolding shell_linefeed_def by (rule settles_bind [OF session_prints [OF inv]]) (simp add: shell_read_close_def)
    moreover have "settles (\<lambda>(ret, sh). session_inv cs R sh) ?F (bindr (runr (shell_input c mem) bs sh) (\<lambda>sh. Inr (0 :: int, sh)))"
      by (rule settles_bind [OF settles_mono [OF session_bytes [OF c inv]]]) (auto simp: read_bytes_def ReadBytes)
    ultimately show ?thesis unfolding shell_read_def ReadBytes by (cases "bs = []") simp_all
  qed
  then show ?thesis using inv by (simp add: shell_read_nowait_def)
qed

text \<open>The functions of the program behind the command keys.\<close>

lemma command_settles:
  assumes ok: "session_inv cs R sh" and k: "k \<in> command_keys" and e: "keymap_entry (sh_inputch sh) sh = Some k"
    and x: "k = K_execute \<Longrightarrow> settles (session_inv cs R) (insert Exited F) (vty_command y call is_dir timer now mem k sh)"
    and env: "tree_ok cs" "names_clean y cs"
  shows "settles (session_inv cs R) (session_faults F (sh_inputch sh)) (vty_command y call is_dir timer now mem k sh)"
proof -
  note entry = session_entry [OF ok e]
  from k consider "k = K_execute" | "k = K_completion" | "k = K_ls_candidate" | "k = K_history_prev \<or> k = K_history_next"
    | "k = K_clear_terminal" unfolding command_keys_def by blast
  then show ?thesis
  proof cases
    case 1
    show ?thesis by (rule settles_mono [OF x [OF 1]]) (use entry(1) 1 in \<open>auto simp: session_faults_def\<close>)
  next
    case 2
    show ?thesis
      unfolding 2 by (rule settles_mono [OF completion_settles [OF ok env]]) (use entry(2) 2 in \<open>auto simp: session_faults_def\<close>)
  next
    case 3
    show ?thesis unfolding 3 by (rule settles_mono [OF ls_candidate_settles [OF ok]]) auto
  next
    case 4
    show ?thesis by (rule settles_mono [OF history_settles [OF ok 4]]) (auto simp: session_faults_def)
  next
    case 5
    show ?thesis
      unfolding 5 vty_command.simps shell_keyfunc_clear_terminal_def by (rule session_print_refresh [OF ok])
  qed
qed

section \<open>Runs of a session\<close>

lemma session_keys_ok: "km \<in> shell_keymaps \<Longrightarrow> keymap_ok command_keys km"
  using session_keys_entry(4) common_keys(4) by (auto simp: keymap_ok_def)

lemma session_shell_keys: "sh_keymap_normal (session_shell cs mem fd cid) = session_keys"
  by (simp add: session_shell_def command_shell_keys_def session_keys_def shell_telnet_keyfunc_init_def IAC_def
      shell_escape_keyfunc_init_def shell_install_def shell_set_terminal_def shell_create_def shell_set_prompt_def Let_def)

lemma session_shell_state:
  "sh_keymap (session_shell cs mem fd cid) = Normal" "sh_flag (session_shell cs mem fd cid) = 0x10"
  "shell_text (session_shell cs mem fd cid) = []" "vs_history (session_shell cs mem fd cid) = None"
  "sh_cursor (session_shell cs mem fd cid) = 0"
  by (simp_all add: session_shell_def command_shell_keys_def shell_telnet_keyfunc_init_def shell_text_def
      shell_escape_keyfunc_init_def shell_install_def shell_set_terminal_def shell_create_def shell_set_prompt_def Let_def
      shell_flags flag_clear_def)

lemma session_shell_ok:
  assumes "0 \<le> fd"
  shows "session_ok cs (session_shell cs mem fd cid)"
proof -
  have "hist_ok None" unfolding hist_ok_def by (intro exI [of _ "[]"] exI [of _ 0]) (simp add: hist_rel_def)
  moreover have "session_keys \<in> shell_keymaps" by (simp add: shell_keymaps_def)
  ultimately show ?thesis
    using assms session_keys_ok [of session_keys]
    unfolding session_inv_def vty_ok_def session_shell_keys
    by (simp add: session_shell_def command_shell_keys_def shell_telnet_keyfunc_init_def line_ok_def shell_text_def
      shell_escape_keyfunc_init_def shell_install_def shell_set_terminal_def shell_create_def shell_set_prompt_def Let_def
      INITIAL_COMMAND_LINE_SIZE_def)
qed

definition received :: "turn \<Rightarrow> bytes" where
  "received t = read_bytes (tu_read t)"

lemma session_machine:
  assumes env: "tree_ok cs" "names_clean y cs" "commands_ok call cs F"
  shows "safe_machine (vty_turn y call is_dir timer) (\<lambda>(sh, loops). session_ok cs sh)
    (\<lambda>t. \<Union>b\<in>set (received t). session_faults F b)"
proof (unfold_locales, goal_cases)
  case (1 s t)
  obtain sh loops where s: "s = (sh, loops)" by (cases s)
  with 1 have ok: "session_inv cs (\<lambda>_. True) sh" by (simp add: session_inv_def)
  have "commands_settle (vty_command y call is_dir timer (tu_now t) (tu_mem t)) cs (\<lambda>_. True) F"
    unfolding commands_settle_def using command_settles [OF _ _ _ _ env(1,2)] execute_settles [OF _ env(3)] by blast
  from settles_bind [OF session_read [OF ok this], where k = "\<lambda>(ret, sh). Inr (sh, loops + 1)" and J = "\<lambda>(sh, loops). session_ok cs sh"]
  have "settles (\<lambda>(sh, loops). session_ok cs sh) (\<Union>b\<in>set (received t). session_faults F b) (vty_turn y call is_dir timer t s)"
    using ok by (auto simp: vty_turn_def s received_def session_inv_def)
  then show ?case by (auto simp: settles_def)
qed

section \<open>Typing a command\<close>

definition key_of :: "char \<Rightarrow> u8" where
  "key_of c = of_nat (of_char c)"

text \<open>Printable, and neither the help key nor the start of a comment.\<close>

definition typable :: "char \<Rightarrow> bool" where
  "typable c \<longleftrightarrow> 32 \<le> (of_char c :: nat) \<and> (of_char c :: nat) < 127 \<and> c \<notin> {CHR ''?'', CHR ''#'', CHR ''!''}"

text \<open>The shell waits for a key, with no debugging and no escape pending.\<close>

definition awaits_key :: "'z shell_scheme \<Rightarrow> bool" where
  "awaits_key sh \<longleftrightarrow> sh_keymap sh = Normal \<and> \<not> flag_check (sh_flag sh) SHELL_FLAG_DEBUG \<and>
     \<not> flag_check (sh_flag sh) SHELL_FLAG_ESCAPE"

lemma unat_key_of: "unat (key_of c) = of_char c"
  using nat_of_char_less_256 [of c] by (simp add: key_of_def unat_of_nat)

lemma typable_entry:
  assumes "typable c" "session_inv cs R sh" "awaits_key sh"
  shows "keymap_entry (key_of c) sh = Some K_input_char"
proof -
  define i where "i = (of_char c :: nat)"
  have "i \<noteq> 63"
  proof
    assume "i = 63"
    moreover have "of_char (CHR ''?'') = (63 :: nat)" by simp
    ultimately have "c = CHR ''?''" unfolding i_def by (metis of_char_eq_iff)
    with assms(1) show False by (simp add: typable_def)
  qed
  with assms(1) have i: "32 \<le> i" "i < 127" "i \<noteq> 63" by (simp_all add: i_def typable_def)
  then have "sh_keymap_normal sh ! i = Some K_input_char"
    using common_keys(3) [OF session_parts(7) [OF assms(2)]] by blast
  then show ?thesis using assms(3) by (simp add: keymap_entry_def awaits_key_def unat_key_of i_def)
qed

lemma typed_char:
  assumes ok: "session_inv cs R sh" "awaits_key sh" "typable c" and e: "sh_cursor sh = sh_end sh" "sh_end sh + 2 \<le> 2 ^ 30"
  shows "\<exists>sh'. shell_input command True (key_of c) sh = Inr sh' \<and> session_inv cs R sh' \<and> awaits_key sh' \<and>
    shell_text sh' = shell_text sh @ [c] \<and> sh_cursor sh' = sh_end sh' \<and> sh_end sh' = sh_end sh + 1 \<and> vs_history sh' = vs_history sh \<and>
    sh_flag sh' = sh_flag sh \<and> vshell.more sh' = vshell.more sh"
proof -
  let ?s = "sh\<lparr>sh_inputch := key_of c\<rparr>"
  have s: "session_inv cs R ?s" using ok(1) by simp
  have ch: "char_of (unat (key_of c)) = c" by (simp add: unat_key_of)
  have cl: "clean c" using clean_printable [of "of_char c"] ok(3) by (simp add: typable_def)
  have t: "shell_text ?s = shell_text sh" "length (shell_text sh) = sh_end sh"
    using line_split(2) [OF session_parts(1) [OF ok(1)]] by (simp_all add: shell_text_def)
  have "\<not> no_room True [c] ?s" using e(2) by (simp add: no_room_def)
  with line_key_outcome [where command = command and mem = True and k = K_input_char, OF session_parts(1,2) [OF s]] cl
  obtain s' where r: "run_keyfunc command True K_input_char ?s = Inr s'" "outcome ?s (ed_insert [c] (editor_of ?s)) s'"
    by (auto simp: line_keys_def ch after_key_def)
  have same: "sh_flag s' = sh_flag sh" "sh_keymap s' = sh_keymap sh" "vs_history s' = vs_history sh"
      "vshell.more s' = vshell.more sh"
    using outcome_kept [OF r(2)] vshell_fields(1,3) [of s' ?s] vshell_fields(3) [of ?s sh] by (simp_all add: kept_def)
  have "editor_of s' = (shell_text sh @ [c], sh_end sh + 1, sh_cut_buffer sh)"
    using outcome_editor [OF r(2)] e(1) t by (simp add: editor_of_def)
  then have tx: "shell_text s' = shell_text sh @ [c]" "sh_cursor s' = sh_end sh + 1" by (simp_all add: editor_of_def)
  have s': "session_inv cs R s'" by (rule session_outcome [OF s r(2)])
  have "sh_end s' = sh_end sh + 1" using line_split(2) [OF session_parts(1) [OF s']] tx(1) t(2) by simp
  moreover have "shell_input command True (key_of c) sh = Inr s'"
    using ok(2) by (intro input_step [OF _ _ typable_entry [OF ok(3,1,2)] r(1)]) (simp_all add: awaits_key_def same)
  ultimately show ?thesis
    using s' tx same ok(2) by (intro exI [of _ s']) (simp add: awaits_key_def)
qed

lemma typed_line:
  assumes "session_inv cs R sh" "awaits_key sh" "\<forall>c\<in>set s. typable c" "sh_cursor sh = sh_end sh" "sh_end sh + length s + 1 \<le> 2 ^ 30"
  shows "\<exists>sh'. runr (shell_input command True) (map key_of s) sh = Inr sh' \<and> session_inv cs R sh' \<and> awaits_key sh' \<and>
    shell_text sh' = shell_text sh @ s \<and> vs_history sh' = vs_history sh \<and> sh_flag sh' = sh_flag sh \<and>
    vshell.more sh' = vshell.more sh"
  using assms
proof (induction s arbitrary: sh)
  case (Cons c s)
  from typed_char [OF Cons.prems(1,2) _ Cons.prems(4), of c command] Cons.prems(3,5) obtain s1 where
    s1: "shell_input command True (key_of c) sh = Inr s1" "session_inv cs R s1" "awaits_key s1"
      "shell_text s1 = shell_text sh @ [c]" "sh_cursor s1 = sh_end s1" "sh_end s1 = sh_end sh + 1" "vs_history s1 = vs_history sh"
      "sh_flag s1 = sh_flag sh" "vshell.more s1 = vshell.more sh"
    by auto
  from Cons.IH [OF s1(2,3) _ s1(5)] Cons.prems(3,5) s1(1,4,6,7,8,9) show ?case by auto
qed auto

lemma squeeze_word: "CHR '' '' \<notin> set w \<Longrightarrow> w \<noteq> [] \<Longrightarrow> squeeze sp (w @ s) = w @ squeeze False s"
proof (induction w arbitrary: sp)
  case (Cons c w)
  then show ?case by (cases w) auto
qed simp

lemma squeeze_unwords:
  "\<forall>w\<in>set q. w \<noteq> [] \<and> CHR '' '' \<notin> set w \<Longrightarrow> squeeze True (unwords q) = unwords q"
proof (induction q rule: unwords.induct)
  case (2 w)
  then show ?case using squeeze_word [of w True "[]"] by simp
next
  case (3 w v ws)
  then show ?case using squeeze_word [of w True "CHR '' '' # unwords (v # ws)"] by simp
qed simp

lemma unwords_set: "set (unwords q) \<subseteq> insert (CHR '' '') (\<Union>w\<in>set q. set w)"
  by (induction q rule: unwords.induct) auto

lemma unwords_ne: "q \<noteq> [] \<Longrightarrow> \<forall>w\<in>set q. w \<noteq> [] \<Longrightarrow> unwords q \<noteq> []"
  by (induction q rule: unwords.induct) auto

text \<open>Enter, with the text \<open>s\<close> in the line, up to the call of the command.\<close>

lemma enter_prepares:
  assumes ok: "session_ok cs sh" and s: "shell_text sh = s" "\<forall>c\<in>set s. typable c" "squeeze True s = s"
  shows "\<exists>b. shell_linefeed (shell_format True (strip_comment sh)) = Inr b \<and> session_ok cs b \<and> cstr (sh_line b) = s \<and>
    shell_text b = s \<and> vs_history b = vs_history sh \<and> sh_keymap b = sh_keymap sh \<and> sh_flag b = sh_flag sh \<and>
    vshell.more b = vshell.more sh"
proof -
  note p = session_parts(1) [OF ok]
  have "\<forall>c\<in>set s. c \<noteq> CHR ''#'' \<and> c \<noteq> CHR ''!''" using s(2) by (auto simp: typable_def)
  then have "takeWhile (\<lambda>c. c \<noteq> CHR ''#'' \<and> c \<noteq> CHR ''!'') s = s" by (simp add: takeWhile_eq_all_conv)
  then have t: "shell_text (strip_comment sh) = s" using strip_comment_text(3) [OF p] s(1) by simp
  let ?f = "shell_format True (strip_comment sh)"
  have f: "session_ok cs ?f" by (intro session_format session_strip ok)
  have "shell_text ?f = s"
    using format_outcome(3) [OF strip_comment_text(1) [OF p], of True undefined undefined] t s(3) by (simp add: editor_of_def)
  moreover have "kept sh ?f"
    using strip_comment_text(2) [OF p] format_outcome(2) [OF strip_comment_text(1) [OF p]] kept_trans by blast
  moreover from session_print [OF f, of "{}" "sh_nl ?f"] obtain b where
    b: "shell_linefeed ?f = Inr b" "session_ok cs b" "quiet ?f b" unfolding shell_linefeed_def settles_def by blast
  ultimately have "shell_text b = s" "kept sh b" by (auto simp: quiet_def editor_of_def intro: kept_trans)
  with b vshell_fields(1,3) [of b sh] show ?thesis
    by (intro exI [of _ b]) (simp add: kept_def cstr_line [OF session_parts(1)])
qed

lemma fresh_state:
  assumes "session_ok cs s"
  shows "shell_text (shell_refresh (shell_prompt (shell_clear s))) = []"
    "sh_keymap (shell_refresh (shell_prompt (shell_clear s))) = sh_keymap s"
    "sh_flag (shell_refresh (shell_prompt (shell_clear s))) = sh_flag s"
    "vshell.more (shell_refresh (shell_prompt (shell_clear s))) = vshell.more s"
proof -
  note c = session_parts(1) [OF session_clear [OF assms]]
  note q = quiet_trans [OF quiet_prompt [OF c] quiet_refresh [OF quiet_ok [OF quiet_prompt [OF c]]]]
  have "editor_of (shell_clear s) = ([], 0, sh_cut_buffer s)" "kept s (shell_clear s)"
    by (auto simp: shell_clear_def shell_terminate_def editor_of_def shell_text_def kept_def)
  with q vshell_fields(3) [of "shell_refresh (shell_prompt (shell_clear s))" s]
  show "shell_text (shell_refresh (shell_prompt (shell_clear s))) = []"
    "sh_keymap (shell_refresh (shell_prompt (shell_clear s))) = sh_keymap s"
    "sh_flag (shell_refresh (shell_prompt (shell_clear s))) = sh_flag s"
    "vshell.more (shell_refresh (shell_prompt (shell_clear s))) = vshell.more s"
    by (simp_all add: quiet_def editor_of_def kept_def)
qed

text \<open>
  A session never leaves its well-formed states. For a well-formed tree of commands that keep the
  shell well formed or end in a fault of \<open>F\<close>, any sequence of turns of the session's loop, with any bytes
  received, any results of \<open>poll\<close> and \<open>read\<close> and any failing allocations, keeps the line, cursor, cut buffer, keymaps,
  subnegotiation buffer and history consistent, or stops in a fault one of the received bytes allows:
  exhausted memory, a fault of a command or the time limit after Enter, a read past a name after Tab,
  the dump of a long subnegotiation after SE. No other key can make the session fault.
\<close>

theorem session_well_formed:
  assumes "tree_ok cs" "names_clean y cs" "commands_ok call cs F" "0 \<le> fd"
  shows "(\<exists>sh n. runr (vty_turn y call is_dir timer) ts (session_shell cs mem fd cid, 0) = Inr (sh, n) \<and> session_ok cs sh) \<or>
    (\<exists>t\<in>set ts. \<exists>b\<in>set (received t). \<exists>f\<in>session_faults F b.
       runr (vty_turn y call is_dir timer) ts (session_shell cs mem fd cid, 0) = Inl f)"
  using safe_machine.run_ok [OF session_machine [OF assms(1-3)], of "(session_shell cs mem fd cid, 0)" is_dir timer ts]
    session_shell_ok [OF assms(4)] by fastforce

text \<open>
  Enter after the words of a command, with the function behind Enter that of the command shell as long as the
  further fields of the shell are those before.
\<close>

lemma enter_runs:
  assumes env: "tree_ok cs" "func_at cs q = Some g" "q \<noteq> []"
    and q: "\<forall>w\<in>set q. w \<noteq> [] \<and> CHR '' '' \<notin> set w \<and> \<not> takes_rest w \<and> (\<forall>c\<in>set w. typable c)"
    and a: "session_ok cs a" "awaits_key a" "shell_text a = unwords q" "hist_rel (vs_history a) ls k"
    and timer: "timer_check now timer = Inr ()"
    and enter: "enter = 10 \<or> enter = 13"
    and exec: "\<And>s. session_ok cs s \<Longrightarrow> shell_text s = unwords q \<Longrightarrow> awaits_key s \<Longrightarrow> sh_flag s = sh_flag a \<Longrightarrow>
      vshell.more s = vshell.more a \<Longrightarrow> c K_execute s = vty_command y call is_dir timer now True K_execute s"
  shows "\<exists>s. session_ok cs s \<and> shell_text s = unwords q \<and> vs_history s = vs_history a \<and> awaits_key s \<and> sh_flag s = sh_flag a \<and>
    vshell.more s = vshell.more a \<and>
    (\<forall>f. call g (map Some q) s = Inl f \<longrightarrow> shell_input c True enter a = Inl f) \<and>
    (\<forall>s'. call g (map Some q) s = Inr s' \<and> session_ok cs s' \<and> shell_text s' = unwords q \<and> shell_running s' \<and> awaits_key s' \<longrightarrow>
      (\<exists>sh'. shell_input c True enter a = Inr sh' \<and> session_ok cs sh' \<and> awaits_key sh' \<and> shell_text sh' = [] \<and>
        sh_flag sh' = sh_flag s' \<and> vshell.more sh' = vshell.more s' \<and>
        hist_rel (vs_history sh') (last_lines 127 (ls @ [unwords q])) 0))"
proof -
  have ty: "\<forall>c\<in>set (unwords q). typable c" using unwords_set [of q] q by (auto simp: typable_def)
  have sq: "squeeze True (unwords q) = unwords q" using q by (intro squeeze_unwords) blast
  let ?i = "a\<lparr>sh_inputch := enter\<rparr>"
  have i: "session_ok cs ?i" "shell_text ?i = unwords q" using a(1,3) by (simp_all add: shell_text_def)
  from enter_prepares [OF i ty sq] obtain b where
    b: "shell_linefeed (shell_format True (strip_comment ?i)) = Inr b" "session_ok cs b" "cstr (sh_line b) = unwords q"
      "shell_text b = unwords q" "vs_history b = vs_history a" "awaits_key b" "sh_flag b = sh_flag a" "vshell.more b = vshell.more a"
    using a(2) vshell_fields(3) [of ?i a] by (auto simp: awaits_key_def)
  have found: "command_execute y (unwords q) cs = Some (g, map Some q)"
    by (rule execute_spelled [OF env]) (use q in blast)
  have ne: "unwords q \<noteq> []" using unwords_ne env(3) q by blast
  have "keymap_entry enter a = Some K_execute"
    using a(2) common_keys(1,2) [OF session_parts(7) [OF a(1)]] enter by (auto simp: keymap_entry_def awaits_key_def)
  then have k: "shell_input c True enter a =
      bindr (c K_execute ?i) (\<lambda>sh. Inr (if flag_check (sh_flag sh) SHELL_FLAG_DEBUG then shell_refresh sh else sh))"
    using a(2) by (simp add: shell_input_def awaits_key_def)
  have cmd: "c K_execute ?i = with_history (bindr (call g (map Some q) b) (\<lambda>s. bindr (command_history_add (cstr (sh_line s)) (vs_history a)) (\<lambda>h.
      if \<not> shell_running s then Inr (Some h, s) else Inr (Some h, shell_refresh (shell_prompt (shell_clear s))))))"
    using session_parts(5) [OF a(1)] exec [OF i] a(2) vshell_fields(3) [of ?i a]
    by (simp add: awaits_key_def command_shell_execute_def b(1,3) ne timer found)
  have fin: "\<exists>sh'. shell_input c True enter a = Inr sh' \<and> session_ok cs sh' \<and> awaits_key sh' \<and> shell_text sh' = [] \<and>
      sh_flag sh' = sh_flag s' \<and> vshell.more sh' = vshell.more s' \<and>
      hist_rel (vs_history sh') (last_lines 127 (ls @ [unwords q])) 0"
    if s': "call g (map Some q) b = Inr s'" "session_ok cs s'" "shell_text s' = unwords q" "shell_running s'" "awaits_key s'" for s'
  proof -
    have cl: "cstr (sh_line s') = unwords q" using cstr_line [OF session_parts(1) [OF s'(2)]] s'(3) by simp
    let ?z = "shell_refresh (shell_prompt (shell_clear s'))"
    from history_add_refines [OF a(4), of "unwords q"] obtain h where
      h: "command_history_add (unwords q) (vs_history a) = Inr h" "hist_rel (Some h) (last_lines 127 (ls @ [unwords q])) 0" by blast
    moreover have "list_all clean (unwords q)" using session_parts(9) [OF s'(2)] s'(3) by simp
    ultimately have "hist_ok (Some h)" using hist_ok_add [OF session_parts(6) [OF a(1)]] by fastforce
    then have "session_ok cs (?z\<lparr>vs_history := Some h\<rparr>)" by (rule session_history [OF session_fresh [OF s'(2)]])
    moreover have "shell_input c True enter a = Inr (?z\<lparr>vs_history := Some h\<rparr>)" "awaits_key ?z"
      using k cmd s' h(1) cl fresh_state [OF s'(2)] by (simp_all add: with_history_def awaits_key_def)
    ultimately show ?thesis
      using h(2) fresh_state(1,3,4) [OF s'(2)]
      by (intro exI [of _ "?z\<lparr>vs_history := Some h\<rparr>"]) (simp add: awaits_key_def shell_text_def)
  qed
  show ?thesis using b fin k cmd by (intro exI [of _ b]) (auto simp: with_history_def)
qed

text \<open>
  C7: A command that is typed is run. On an empty line, the keys of the words of an installed command
  followed by Enter (either code of it) call its function exactly once, with the words as arguments, on a shell whose line is
  the command; if the command leaves the line and the shell running, the line is added to the history as the newest and the
  shell is left with an empty line, and if the command faults the fault is the result. The words may not
  be file names or values, nor hold the help key or the characters that start a comment.
\<close>

theorem typed_command_runs:
  assumes env: "tree_ok cs" "func_at cs q = Some g" "q \<noteq> []"
    and q: "\<forall>w\<in>set q. w \<noteq> [] \<and> CHR '' '' \<notin> set w \<and> \<not> takes_rest w \<and> (\<forall>c\<in>set w. typable c)" "length (unwords q) < 2 ^ 30"
    and sh: "session_ok cs sh" "awaits_key sh" "shell_text sh = []" "hist_rel (vs_history sh) ls k"
    and timer: "timer_check now timer = Inr ()"
    and enter: "enter = 10 \<or> enter = 13"
    and run: "r = runr (shell_input (vty_command y call is_dir timer now True) True) (map key_of (unwords q) @ [enter]) sh"
  shows "\<exists>s. session_ok cs s \<and> shell_text s = unwords q \<and> vs_history s = vs_history sh \<and> awaits_key s \<and> sh_flag s = sh_flag sh \<and>
    (\<forall>f. call g (map Some q) s = Inl f \<longrightarrow> r = Inl f) \<and>
    (\<forall>s'. call g (map Some q) s = Inr s' \<and> session_ok cs s' \<and> shell_text s' = unwords q \<and> shell_running s' \<and> awaits_key s' \<longrightarrow>
      (\<exists>sh'. r = Inr sh' \<and> session_ok cs sh' \<and> awaits_key sh' \<and> shell_text sh' = [] \<and>
        hist_rel (vs_history sh') (last_lines 127 (ls @ [unwords q])) 0))"
proof -
  let ?c = "vty_command y call is_dir timer now True"
  have "typable (CHR '' '')" by (simp add: typable_def)
  then have ty: "\<forall>c\<in>set (unwords q). typable c" using unwords_set [of q] q(1) by blast
  have "sh_end sh = 0" "sh_cursor sh = 0"
    using line_split(2) [OF session_parts(1) [OF sh(1)]] session_parts(8) [OF sh(1)] sh(3) by auto
  with typed_line [OF sh(1,2) ty, of ?c] q(2) sh(3) obtain a where
    a: "runr (shell_input ?c True) (map key_of (unwords q)) sh = Inr a" "session_ok cs a" "awaits_key a"
      "shell_text a = unwords q" "vs_history a = vs_history sh" "sh_flag a = sh_flag sh" by auto
  have h: "hist_rel (vs_history a) ls k" using sh(4) a(5) by simp
  have "r = shell_input ?c True enter a" by (simp add: run a(1))
  with enter_runs [where c = ?c, OF env q(1) a(2-4) h timer enter refl] show ?thesis
    unfolding a(5,6) by blast
qed

text \<open>A tree with one command, which prints.\<close>

definition hello_tree :: "nat command_set" where
  "hello_tree = [(command_node_create [] None)\<lparr>cmdvec := [1]\<rparr>, (command_node_create ''hi'' None)\<lparr>cmd_func := Some 7\<rparr>]"

definition hello :: "nat \<Rightarrow> string option list \<Rightarrow> 'z shell_scheme \<Rightarrow> 'z shell_scheme res" where
  "hello f argv sh = print_term ''hello'' sh"

definition no_limit :: timer where
  "no_limit = \<lparr>tm_duration = 0, tm_start = 0, tm_end = 0, tm_limit = 0\<rparr>"

lemma hello_env: "tree_ok hello_tree" "func_at hello_tree [''hi''] = Some 7" "names_clean no_system hello_tree"
    "commands_ok hello hello_tree {}"
proof -
  have two: "a < 2 \<longleftrightarrow> a = 0 \<or> a = 1" for a :: nat by auto
  have len: "length hello_tree = 2" by (simp add: hello_tree_def)
  show "tree_ok hello_tree"
    unfolding tree_ok_def len two by (auto simp: hello_tree_def command_node_create_def)
  show "func_at hello_tree [''hi''] = Some 7"
    by (simp add: func_at_def command_match_exact_def hello_tree_def command_node_create_def)
  show "names_clean no_system hello_tree"
    unfolding names_clean_def len two
    by (auto simp: hello_tree_def command_node_create_def no_system_def clean_def NUL_def BS_def)
  show "commands_ok hello hello_tree {}"
    by (simp add: commands_ok_def hello_def session_prints del: append.simps)
qed

theorem session_well_formed_witness:
  "(\<exists>sh n. runr (vty_turn no_system hello (\<lambda>_. False) no_limit)
      [\<lparr>tu_force_quit = False, tu_force_stop = False, tu_now = 5, tu_mem = False, tu_poll = 1, tu_read = ReadBytes []\<rparr>]
      (session_shell hello_tree True 4 1, 0) = Inr (sh, n) \<and> session_ok hello_tree sh)"
  using session_well_formed [OF hello_env(1,3,4), of 4 "\<lambda>_. False" "no_limit"
      "[\<lparr>tu_force_quit = False, tu_force_stop = False, tu_now = 5, tu_mem = False, tu_poll = 1, tu_read = ReadBytes []\<rparr>]" True 1]
  by (simp add: received_def read_bytes_def)

theorem typed_command_runs_witness:
  "\<exists>sh'. runr (shell_input (vty_command no_system hello (\<lambda>_. False) no_limit 5 True) True)
      (map key_of ''hi'' @ [13]) (session_shell hello_tree True 4 1) = Inr sh' \<and>
     shell_text sh' = [] \<and> hist_rel (vs_history sh') [''hi''] 0"
proof -
  let ?sh = "session_shell hello_tree True 4 1"
  let ?r = "runr (shell_input (vty_command no_system hello (\<lambda>_. False) no_limit 5 True) True) (map key_of (unwords [''hi'']) @ [13]) ?sh"
  have sh: "session_ok hello_tree ?sh" by (rule session_shell_ok) simp
  have aw: "awaits_key ?sh"
    by (simp add: awaits_key_def session_shell_state shell_flags flag_check_def)
  have q: "\<forall>w\<in>set [''hi'']. w \<noteq> [] \<and> CHR '' '' \<notin> set w \<and> \<not> takes_rest w \<and> (\<forall>c\<in>set w. typable c)"
    by (simp add: typable_def takes_rest_def line_spec_def file_spec_def)
  have h: "hist_rel (vs_history ?sh) [] 0" by (simp add: session_shell_state hist_rel_def)
  have ne: "[''hi''] \<noteq> []" "length (unwords [''hi'']) < 2 ^ 30" "timer_check 5 no_limit = Inr ()"
    by (simp_all add: timer_check_def no_limit_def)
  from typed_command_runs [OF hello_env(1,2) ne(1) q ne(2) sh aw session_shell_state(3) h ne(3) disjI2 [OF refl] refl,
      of hello no_system "\<lambda>_. False"]
  show ?thesis
  proof (elim exE conjE, goal_cases)
    case (1 s)
    note s = 1(1,2,4,5) and run = 1(7)
  from session_print [OF s(1), of "{}" "''hello''"] obtain s' where
      s': "print_term ''hello'' s = Inr s'" "session_ok hello_tree s'" "quiet s s'" by (auto simp: settles_def simp del: append.simps)
    have "shell_running s'" "awaits_key s'" "shell_text s' = unwords [''hi'']"
      using s'(3) s(2,3,4) by (simp_all add: session_shell_state quiet_def kept_def editor_of_def awaits_key_def shell_running_def shell_flags flag_check_def)
    with run s'(1,2) obtain sh' where "?r = Inr sh'" "shell_text sh' = []"
        "hist_rel (vs_history sh') (last_lines 127 ([] @ [unwords [''hi'']])) 0"
      unfolding hello_def by blast
    then show ?case by (intro exI [of _ sh']) (simp add: last_lines_def)
  qed
qed

end
