(* ===== verification/Pager.thy ===== *)
theory Pager
  imports Session
begin

text \<open>
  The pager of the command shell, \<open>lib/zcmdsh/command_shell.c\<close>: with the pager on, as it is in every new
  session, a command prints into a pipe to a child process, whose terminal is a pseudo-terminal
  the shell then bridges with the user's connection, one step per turn of the session's loop. The
  state has the descriptors of the process, since the pager opens and closes them. What the system answers (whether
  calls succeed, what \<open>poll\<close>, \<open>read\<close> and \<open>write\<close> return) is an argument; \<open>waitpid\<close> is taken to
  return. The debug output is left out.
\<close>

section \<open>Descriptors\<close>

text \<open>
  The table of open files of the process, of the length the limit on descriptors allows. As POSIX has
  it, a new descriptor is the lowest free one.
\<close>

datatype ofile = Pty_master | Pty_slave | Pipe_read | Pipe_write | Other nat

type_synonym fdtable = "ofile option list"

definition fd_open :: "ofile \<Rightarrow> fdtable \<Rightarrow> (int \<times> fdtable) option" where
  "fd_open f t = (case find (\<lambda>i. t ! i = None) [0..<length t] of
     None \<Rightarrow> None | Some i \<Rightarrow> Some (int i, t[i := Some f]))"

definition fd_close :: "int \<Rightarrow> fdtable \<Rightarrow> fdtable" where
  "fd_close fd t = (if 0 \<le> fd then t[nat fd := None] else t)"

definition fd_dup2 :: "int \<Rightarrow> int \<Rightarrow> fdtable \<Rightarrow> fdtable" where
  "fd_dup2 fd new t = (if 0 \<le> fd \<and> nat fd < length t \<and> t ! nat fd \<noteq> None then t[nat new := t ! nat fd] else t)"

text \<open>\<open>openpty\<close> and \<open>pipe\<close>: two descriptors or none.\<close>

definition fd_pair :: "ofile \<Rightarrow> ofile \<Rightarrow> fdtable \<Rightarrow> ((int \<times> int) \<times> fdtable) option" where
  "fd_pair f g t = (case fd_open f t of None \<Rightarrow> None
     | Some (a, t) \<Rightarrow> (case fd_open g t of None \<Rightarrow> None | Some (b, t) \<Rightarrow> Some ((a, b), t)))"

section \<open>The shell with a pager\<close>

text \<open>
  A stream or a descriptor the shell writes to is what was written to it. \<open>pg_saved_terminal\<close> and
  \<open>pg_saved_out\<close> are those of the session while a command prints into the pipe, \<open>pg_piped\<close> what the
  pager was given last. \<open>pg_to_pager\<close> and \<open>pg_to_client\<close> are the bytes the bridge wrote to the
  pseudo-terminal and to the connection.
\<close>

record 'f pshell = "'f vshell" +
  pg_pager :: bool
  pg_is_paging :: bool
  pg_saved_terminal :: "string option"
  pg_saved_writefd :: int
  pg_saved_out :: string
  pg_pid :: int
  pg_pipefd :: "int \<times> int"
  pg_master :: int
  pg_slave :: int
  pg_ttysize :: "u16 \<times> u16"
  pg_fds :: fdtable
  pg_piped :: "string \<times> string"
  pg_to_pager :: bytes
  pg_to_client :: bytes

text \<open>
  What the system answers. One side of the bridge: the events \<open>POLLIN\<close> and \<open>POLLHUP\<close>, the \<open>read\<close> from
  it, and how much of that the \<open>write\<close> to the other side took. \<open>pe_pclose\<close>: whether \<open>pclose\<close> on a
  stream that \<open>popen\<close> did not open closes its descriptor.
\<close>

record side =
  sd_in :: bool
  sd_hup :: bool
  sd_read :: read_result
  sd_written :: int

record pager_env =
  pe_openpty :: bool
  pe_pipe :: bool
  pe_fork :: int
  pe_fdopen :: bool
  pe_pclose :: bool
  pe_poll :: int
  pe_sides :: "side \<times> side"

definition pager_openpty :: "bool \<Rightarrow> ('f, 'z) pshell_scheme \<Rightarrow> ('f, 'z) pshell_scheme" where
  "pager_openpty ok sh = (case if ok then fd_pair Pty_master Pty_slave (pg_fds sh) else None of
      None \<Rightarrow> sh
    | Some ((m, s), t) \<Rightarrow> sh\<lparr>pg_master := m, pg_slave := s, pg_fds := t, pg_ttysize := (0, 0)\<rparr>)"

text \<open>The table the program of the child process starts with.\<close>

definition pager_child :: "('f, 'z) pshell_scheme \<Rightarrow> fdtable" where
  "pager_child sh =
    (let t = fd_close (pg_master sh) (fd_close (snd (pg_pipefd sh)) (pg_fds sh));
         t = fd_dup2 (fst (pg_pipefd sh)) 0 t;
         t = fd_dup2 (pg_slave sh) 1 t
     in fd_dup2 (pg_slave sh) 2 t)"

text \<open>The child process never returns: it runs the pager, or exits.\<close>

definition pager_start :: "pager_env \<Rightarrow> ('f, 'z) pshell_scheme \<Rightarrow> ('f, 'z) pshell_scheme res" where
  "pager_start e sh =
    (let sh = pager_openpty (pe_openpty e) (sh\<lparr>pg_is_paging := False\<rparr>);
         sh = (if ws_col sh \<noteq> 0 \<and> ws_row sh \<noteq> 0 then sh\<lparr>pg_ttysize := (ws_row sh, ws_col sh)\<rparr> else sh)
     in case if pe_pipe e then fd_pair Pipe_read Pipe_write (pg_fds sh) else None of
          None \<Rightarrow> Inr sh
        | Some ((r, w), t) \<Rightarrow>
          let sh = sh\<lparr>pg_pipefd := (r, w), pg_fds := t\<rparr>
          in if pe_fork e < 0
             then Inr (sh\<lparr>pg_fds := fd_close (pg_slave sh) (fd_close (pg_master sh) (fd_close w (fd_close r (pg_fds sh))))\<rparr>)
             else if pe_fork e = 0 then Inl Exited
             else Inr (sh\<lparr>pg_pid := pe_fork e,
                 pg_fds := fd_close (pg_slave sh) (fd_close r (pg_fds sh)),
                 pg_saved_terminal := (if sh_open sh then Some (sh_term sh) else None),
                 pg_saved_writefd := sh_writefd sh, pg_saved_out := sh_out sh,
                 sh_open := pe_fdopen e, sh_term := [], sh_writefd := w, sh_out := [],
                 pg_is_paging := True\<rparr>))"

text \<open>The end of the pipe is closed and the session has its terminal again.\<close>

definition pager_release :: "pager_env \<Rightarrow> ('f, 'z) pshell_scheme \<Rightarrow> ('f, 'z) pshell_scheme res" where
  "pager_release e sh =
    (let sh = sh\<lparr>pg_fds := fd_close (snd (pg_pipefd sh)) (pg_fds sh)\<rparr>
     in case pg_saved_terminal sh of None \<Rightarrow> Inr sh
        | Some t \<Rightarrow> guardr (sh_open sh) NullDeref
            (Inr (sh\<lparr>pg_fds := (if pe_pclose e then fd_close (snd (pg_pipefd sh)) (pg_fds sh) else pg_fds sh),
                 pg_piped := (sh_out sh, sh_term sh),
                 sh_term := t, sh_writefd := pg_saved_writefd sh, sh_out := pg_saved_out sh,
                 pg_saved_terminal := None, pg_saved_writefd := - 1\<rparr>)))"

text \<open>One side of the bridge: how often it was found closed, and what went to the other side.\<close>

definition bridge_side :: "bool \<Rightarrow> side \<Rightarrow> nat \<times> bytes" where
  "bridge_side hup_closes s =
    (if \<not> sd_in s \<and> \<not> sd_hup s then (0, [])
     else let closed = (if hup_closes \<and> sd_hup s then 1 else 0)
          in case sd_read s of ReadError \<Rightarrow> (closed + 1, [])
             | ReadBytes bs \<Rightarrow> if bs = [] then (closed + 1, []) else (closed, take (nat (sd_written s)) bs))"

definition bridge :: "bool \<Rightarrow> side \<times> side \<Rightarrow> ('f, 'z) pshell_scheme \<Rightarrow> nat \<times> ('f, 'z) pshell_scheme" where
  "bridge hup_closes sides sh =
    (let (c0, w0) = bridge_side hup_closes (fst sides); (c1, w1) = bridge_side hup_closes (snd sides)
     in (c0 + c1, sh\<lparr>pg_to_pager := pg_to_pager sh @ w0, pg_to_client := pg_to_client sh @ w1\<rparr>))"

definition shell_read_nowait_paging :: "pager_env \<Rightarrow> ('f, 'z) pshell_scheme \<Rightarrow> ('f, 'z) pshell_scheme res" where
  "shell_read_nowait_paging e sh =
    bindr (pager_release e sh) (\<lambda>sh.
      if pe_poll e < 0 then Inr sh
      else let (closed, sh) = bridge True (pe_sides e) sh
           in if closed = 0 then Inr sh
              else Inr (shell_refresh (shell_prompt (shell_clear (sh\<lparr>pg_is_paging := False\<rparr>)))))"

text \<open>
  The variant that bridges until one side is closed, which no function calls. \<open>es\<close> are the answers of the
  rounds; \<open>None\<close>: they do not suffice.
\<close>

fun bridge_rounds :: "pager_env list \<Rightarrow> ('f, 'z) pshell_scheme \<Rightarrow> ('f, 'z) pshell_scheme option" where
  "bridge_rounds [] sh = None"
| "bridge_rounds (e # es) sh =
    (if pe_poll e < 0 then Some sh
     else let (closed, sh) = bridge False (pe_sides e) sh
          in if closed = 0 then bridge_rounds es sh else Some sh)"

definition pager_end :: "pager_env list \<Rightarrow> pager_env \<Rightarrow> ('f, 'z) pshell_scheme \<Rightarrow> ('f, 'z) pshell_scheme option res" where
  "pager_end es e sh =
    guardr (pg_pid sh \<noteq> 0) Exited
      (bindr (pager_release e sh) (\<lambda>sh. Inr (map_option (\<lambda>sh. sh\<lparr>pg_is_paging := False\<rparr>) (bridge_rounds es sh))))"

section \<open>The session with a pager\<close>

text \<open>\<open>env\<close> answers for the system, for every state in which it is asked.\<close>

definition paged_execute ::
  "'d system \<Rightarrow> ('f \<Rightarrow> string option list \<Rightarrow> ('f, 'z) pshell_scheme \<Rightarrow> ('f, 'z) pshell_scheme res) \<Rightarrow> bool \<Rightarrow> int \<Rightarrow> timer \<Rightarrow>
   (('f, 'z) pshell_scheme \<Rightarrow> pager_env) \<Rightarrow> ('f, 'z) pshell_scheme \<Rightarrow> (command_history option \<times> ('f, 'z) pshell_scheme) res" where
  "paged_execute y call mem now timer env sh =
    bindr (shell_linefeed (shell_format mem (strip_comment sh))) (\<lambda>sh.
    bindr (timer_check now timer) (\<lambda>_.
      if cstr (sh_line sh) = [] then Inr (vs_history sh, shell_refresh (shell_prompt (shell_clear sh)))
      else bindr (if pg_pager sh then pager_start (env sh) sh else Inr sh) (\<lambda>sh.
           bindr (case command_execute y (cstr (sh_line sh)) (vs_cmdset sh) of
                    None \<Rightarrow> print_term (''no such command: '' @ cstr (sh_line sh) @ sh_nl sh) sh
                  | Some (f, argv) \<Rightarrow> call f argv sh) (\<lambda>sh.
           bindr (command_history_add (cstr (sh_line sh)) (vs_history sh)) (\<lambda>h.
           bindr (if pg_is_paging sh then shell_read_nowait_paging (env sh) sh else Inr sh) (\<lambda>sh.
             if \<not> shell_running sh then Inr (Some h, sh)
             else if \<not> pg_is_paging sh then Inr (Some h, shell_refresh (shell_prompt (shell_clear sh)))
             else Inr (Some h, sh)))))))"

definition paged_command ::
  "'d system \<Rightarrow> ('f \<Rightarrow> string option list \<Rightarrow> ('f, 'z) pshell_scheme \<Rightarrow> ('f, 'z) pshell_scheme res) \<Rightarrow> (string \<Rightarrow> bool) \<Rightarrow>
   timer \<Rightarrow> (('f, 'z) pshell_scheme \<Rightarrow> pager_env) \<Rightarrow> int \<Rightarrow> bool \<Rightarrow> keyfunc \<Rightarrow> ('f, 'z) pshell_scheme \<Rightarrow> ('f, 'z) pshell_scheme res" where
  "paged_command y call is_dir timer env now mem k sh =
    (if k = K_execute then with_history (paged_execute y call mem now timer env sh)
     else vty_command y call is_dir timer now mem k sh)"

text \<open>
  A turn of the loop. While the shell sleeps, the other threads of the process open and close files,
  \<open>tu_others\<close>.
\<close>

record 's pturn = turn +
  tu_env :: "'s \<Rightarrow> pager_env"
  tu_others :: "fdtable \<Rightarrow> fdtable"

definition paged_turn ::
  "'d system \<Rightarrow> ('f \<Rightarrow> string option list \<Rightarrow> ('f, 'z) pshell_scheme \<Rightarrow> ('f, 'z) pshell_scheme res) \<Rightarrow> (string \<Rightarrow> bool) \<Rightarrow>
   timer \<Rightarrow> (('f, 'z) pshell_scheme) pturn \<Rightarrow> ('f, 'z) pshell_scheme \<times> nat \<Rightarrow> (('f, 'z) pshell_scheme \<times> nat) res" where
  "paged_turn y call is_dir timer t = (\<lambda>(sh, loops).
    if \<not> tu_force_quit t \<and> \<not> tu_force_stop t \<and> shell_running sh
    then let sh = sh\<lparr>pg_fds := tu_others t (pg_fds sh)\<rparr>
         in bindr (if pg_is_paging sh then shell_read_nowait_paging (tu_env t sh) sh
              else bindr (shell_read_nowait (paged_command y call is_dir timer (tu_env t) (tu_now t) (tu_mem t)) (tu_mem t)
                     (tu_poll t) (tu_read t) sh) (\<lambda>(ret, sh). Inr sh))
              (\<lambda>sh. Inr (sh, loops + 1))
    else Inr (sh, loops))"

text \<open>A new session: the pager on, everything else zero.\<close>

definition pager_new :: "fdtable \<Rightarrow> unit pshell_ext" where
  "pager_new t =
     \<lparr>pg_pager = True, pg_is_paging = False, pg_saved_terminal = None, pg_saved_writefd = 0, pg_saved_out = [],
      pg_pid = 0, pg_pipefd = (0, 0), pg_master = 0, pg_slave = 0, pg_ttysize = (0, 0), pg_fds = t, pg_piped = ([], []),
      pg_to_pager = [], pg_to_client = []\<rparr>"

definition paged_shell :: "'f command_set \<Rightarrow> bool \<Rightarrow> int \<Rightarrow> nat \<Rightarrow> fdtable \<Rightarrow> 'f pshell" where
  "paged_shell cs mem fd cid t = vshell.extend (session_shell cs mem fd cid) (pager_new t)"

section \<open>The invariant with a pager\<close>

text \<open>Between two turns the session has its own terminal; a command runs with the one or the other.\<close>

definition pager_idle :: "('f, 'z) pshell_scheme \<Rightarrow> bool" where
  "pager_idle sh \<longleftrightarrow> pg_saved_terminal sh = None \<and> (pg_is_paging sh \<longrightarrow> 0 < pg_pid sh)"

definition pager_mid :: "('f, 'z) pshell_scheme \<Rightarrow> bool" where
  "pager_mid sh \<longleftrightarrow> (pg_saved_terminal sh \<noteq> None \<longrightarrow> pg_is_paging sh \<and> 0 \<le> pg_saved_writefd sh) \<and>
     (pg_is_paging sh \<longrightarrow> 0 < pg_pid sh)"

text \<open>What a command leaves alone: everything of the pager but whether it is on.\<close>

definition same_paging :: "('f, 'z) pshell_scheme \<Rightarrow> ('f, 'z) pshell_scheme \<Rightarrow> bool" where
  "same_paging a b \<longleftrightarrow> pg_is_paging b = pg_is_paging a \<and> pg_saved_terminal b = pg_saved_terminal a \<and>
     pg_saved_writefd b = pg_saved_writefd a \<and> pg_saved_out b = pg_saved_out a \<and> pg_pid b = pg_pid a \<and>
     pg_pipefd b = pg_pipefd a \<and> pg_master b = pg_master a \<and> pg_slave b = pg_slave a \<and> pg_fds b = pg_fds a"

definition paged_commands_ok ::
  "('f \<Rightarrow> string option list \<Rightarrow> ('f, 'z) pshell_scheme \<Rightarrow> ('f, 'z) pshell_scheme res) \<Rightarrow> 'f command_set \<Rightarrow> fault set \<Rightarrow> bool" where
  "paged_commands_ok call cs F \<longleftrightarrow>
     (\<forall>f argv sh. session_ok cs sh \<longrightarrow> settles (\<lambda>s. session_ok cs s \<and> same_paging sh s) F (call f argv sh))"

definition idle_ext :: "'z pshell_ext \<Rightarrow> bool" where
  "idle_ext x \<longleftrightarrow> pager_idle (vshell.extend (session_shell [] True 0 0 :: unit vshell) x)"

lemma idle_more: "idle_ext (vshell.more sh) = pager_idle sh"
  by (cases sh) (simp add: idle_ext_def pager_idle_def vshell.extend_def)

lemma idle_inv: "session_inv cs idle_ext sh \<longleftrightarrow> session_ok cs sh \<and> pager_idle sh"
  by (simp add: session_inv_def idle_more)

lemma pager_fields [simp]:
  "session_ok cs (sh\<lparr>pg_is_paging := b\<rparr>) = session_ok cs sh" "session_ok cs (sh\<lparr>pg_fds := t\<rparr>) = session_ok cs sh"
  "session_ok cs (sh\<lparr>pg_ttysize := z\<rparr>) = session_ok cs sh" "session_ok cs (sh\<lparr>pg_pipefd := p\<rparr>) = session_ok cs sh"
  "session_ok cs (sh\<lparr>pg_to_pager := u, pg_to_client := v\<rparr>) = session_ok cs sh"
  "session_ok cs (sh\<lparr>pg_master := i\<rparr>) = session_ok cs sh" "session_ok cs (sh\<lparr>pg_slave := i\<rparr>) = session_ok cs sh"
  by (simp_all add: session_inv_def vty_ok_def line_ok_def shell_text_def)

lemma more_paging:
  fixes a b :: "('f, 'z) pshell_scheme"
  assumes "vshell.more b = vshell.more a"
  shows "same_paging a b" "pg_pager b = pg_pager a" "pg_piped b = pg_piped a"
  using assms by (cases a; cases b; simp add: same_paging_def)+

lemma kept_paging:
  fixes a b :: "('f, 'z) pshell_scheme"
  assumes "kept a b"
  shows "same_paging a b" "pg_pager b = pg_pager a" "pg_piped b = pg_piped a"
proof -
  have "vshell.more b = vshell.more a" using assms vshell_fields(3) [of b a] by (simp add: kept_def)
  from more_paging [OF this] show "same_paging a b" "pg_pager b = pg_pager a" "pg_piped b = pg_piped a" .
qed

lemma same_mid: "same_paging a b \<Longrightarrow> pager_mid b = pager_mid a" "same_paging a b \<Longrightarrow> pager_idle b = pager_idle a"
  by (simp_all add: same_paging_def pager_mid_def pager_idle_def)

lemma idle_mid: "pager_idle sh \<Longrightarrow> pager_mid sh"
  by (simp add: pager_mid_def pager_idle_def)

lemma session_terminal:
  assumes "session_ok cs sh" "0 \<le> w"
  shows "session_ok cs (sh\<lparr>sh_open := True, sh_term := t, sh_writefd := w, sh_out := q\<rparr>)"
  using assms by (simp add: session_inv_def vty_ok_def line_ok_def shell_text_def)

text \<open>Descriptors handed out are fresh.\<close>

lemma fd_open_SomeD:
  assumes "fd_open f t = Some (a, t')"
  shows "0 \<le> a" "nat a < length t" "t ! nat a = None" "t' = t[nat a := Some f]"
proof -
  from assms obtain i where i: "find (\<lambda>i. t ! i = None) [0..<length t] = Some i" "a = int i" "t' = t[i := Some f]"
    by (auto simp: fd_open_def split: option.splits)
  from i(1) have "i < length t" "t ! i = None" by (auto simp: find_Some_iff)
  with i show "0 \<le> a" "nat a < length t" "t ! nat a = None" "t' = t[nat a := Some f]" by auto
qed

lemma fd_pair_SomeD:
  assumes "fd_pair f g t = Some ((a, b), t')"
  shows "0 \<le> a" "0 \<le> b" "a \<noteq> b" "nat a < length t" "nat b < length t" "t ! nat a = None" "t ! nat b = None"
    "t' = t[nat a := Some f, nat b := Some g]"
proof -
  from assms obtain u where u: "fd_open f t = Some (a, u)" "fd_open g u = Some (b, t')"
    by (auto simp: fd_pair_def split: option.splits)
  note a = fd_open_SomeD [OF u(1)] and b = fd_open_SomeD [OF u(2)]
  have "nat a \<noteq> nat b"
  proof
    assume "nat a = nat b"
    with a(2,4) b(3) show False by simp
  qed
  with a b show "0 \<le> a" "0 \<le> b" "a \<noteq> b" "nat a < length t" "nat b < length t" "t ! nat a = None" "t ! nat b = None"
    "t' = t[nat a := Some f, nat b := Some g]" by auto
qed

lemma start_settles:
  assumes ok: "session_ok cs sh" and idle: "pager_idle sh" and e: "pe_fdopen e"
  shows "settles (\<lambda>s. session_ok cs s \<and> pager_mid s) {Exited} (pager_start e sh)"
proof -
  define a where "a = pager_openpty (pe_openpty e) (sh\<lparr>pg_is_paging := False\<rparr>)"
  define b where "b = (if ws_col a \<noteq> 0 \<and> ws_row a \<noteq> 0 then a\<lparr>pg_ttysize := (ws_row a, ws_col a)\<rparr> else a)"
  have a: "session_ok cs a" "pg_saved_terminal a = None" "\<not> pg_is_paging a"
    using ok idle by (auto simp: a_def pager_openpty_def pager_idle_def split: option.split)
  then have b: "session_ok cs b" "pg_saved_terminal b = None" "\<not> pg_is_paging b" by (simp_all add: b_def)
  have start: "pager_start e sh = (case if pe_pipe e then fd_pair Pipe_read Pipe_write (pg_fds b) else None of
          None \<Rightarrow> Inr b
        | Some ((r, w), t) \<Rightarrow>
          let sh = b\<lparr>pg_pipefd := (r, w), pg_fds := t\<rparr>
          in if pe_fork e < 0
             then Inr (sh\<lparr>pg_fds := fd_close (pg_slave sh) (fd_close (pg_master sh) (fd_close w (fd_close r (pg_fds sh))))\<rparr>)
             else if pe_fork e = 0 then Inl Exited
             else Inr (sh\<lparr>pg_pid := pe_fork e,
                 pg_fds := fd_close (pg_slave sh) (fd_close r (pg_fds sh)),
                 pg_saved_terminal := (if sh_open sh then Some (sh_term sh) else None),
                 pg_saved_writefd := sh_writefd sh, pg_saved_out := sh_out sh,
                 sh_open := pe_fdopen e, sh_term := [], sh_writefd := w, sh_out := [],
                 pg_is_paging := True\<rparr>))"
    unfolding pager_start_def a_def b_def Let_def ..
  show ?thesis
  proof (cases "if pe_pipe e then fd_pair Pipe_read Pipe_write (pg_fds b) else None")
    case None
    then show ?thesis using b by (simp add: start pager_mid_def)
  next
    case (Some p)
    then obtain r w t where p: "p = ((r, w), t)" by (cases p) auto
    with Some have w: "0 \<le> w" using fd_pair_SomeD(2) by (auto split: if_splits)
    show ?thesis
      unfolding start Some p using b w e
      by (auto simp: Let_def pager_mid_def session_inv_def vty_ok_def line_ok_def shell_text_def)
  qed
qed

lemma release_settles:
  assumes "session_ok cs sh" "pager_mid sh"
  shows "\<exists>s. pager_release e sh = Inr s \<and> session_ok cs s \<and> pager_idle s \<and> pg_is_paging s = pg_is_paging sh"
  using assms session_parts(3) [OF assms(1)]
  by (auto simp: pager_release_def Let_def pager_mid_def pager_idle_def session_inv_def vty_ok_def line_ok_def shell_text_def
      split: option.split)

lemma idle_quiet: "pager_idle a \<Longrightarrow> kept a b \<Longrightarrow> pager_idle b"
  using kept_paging(1) same_mid(2) by blast

lemma kept_fresh:
  assumes "session_ok cs sh"
  shows "kept sh (shell_refresh (shell_prompt (shell_clear sh)))"
proof -
  have "kept sh (shell_clear sh)" by (simp add: shell_clear_def shell_terminate_def kept_def)
  moreover have "quiet (shell_clear sh) (shell_refresh (shell_prompt (shell_clear sh)))"
    using quiet_trans [OF quiet_prompt quiet_refresh] session_parts(1) session_clear [OF assms] session_prompt by blast
  ultimately show ?thesis unfolding quiet_def using kept_trans by blast
qed

lemma paging_settles:
  assumes "session_ok cs sh" "pager_mid sh"
  shows "\<exists>s. shell_read_nowait_paging e sh = Inr s \<and> session_ok cs s \<and> pager_idle s"
proof -
  from release_settles [OF assms, of e] obtain s where s: "pager_release e sh = Inr s" "session_ok cs s" "pager_idle s" by blast
  let ?b = "snd (bridge True (pe_sides e) s)"
  have b: "session_ok cs ?b" "pager_idle ?b" using s by (auto simp: bridge_def pager_idle_def split: prod.split)
  let ?f = "?b\<lparr>pg_is_paging := False\<rparr>"
  have f: "session_ok cs ?f" "pager_idle ?f" using b by (auto simp: pager_idle_def)
  show ?thesis
    using s b session_fresh [OF f(1)] idle_quiet [OF f(2) kept_fresh [OF f(1)]]
    by (auto simp: shell_read_nowait_paging_def split: prod.split)
qed

lemma paged_execute_settles:
  assumes ok: "session_ok cs sh" and idle: "pager_idle sh" and calls: "paged_commands_ok call cs F"
    and e: "\<And>s. pe_fdopen (env s)"
  shows "settles (\<lambda>(h, s). session_ok cs s \<and> pager_idle s \<and> hist_ok h) (insert Exited F) (paged_execute y call mem now timer env sh)"
proof -
  let ?s = "shell_format mem (strip_comment sh)"
  let ?I = "\<lambda>(h, s). session_ok cs s \<and> pager_idle s \<and> hist_ok h"
  have s: "session_ok cs ?s" by (intro session_format session_strip ok)
  have "kept sh ?s"
    using strip_comment_text(1,2) [OF session_parts(1) [OF ok]] format_outcome(2) kept_trans by blast
  then have si: "pager_idle ?s" using idle idle_quiet by blast
  from session_print [OF s] obtain b where b: "shell_linefeed ?s = Inr b" "session_ok cs b" "kept ?s b"
    unfolding shell_linefeed_def settles_def quiet_def by blast
  have bi: "pager_idle b" using si b(3) idle_quiet by blast
  have fresh: "?I (h, shell_refresh (shell_prompt (shell_clear s)))" if "session_ok cs s" "pager_idle s" "hist_ok h" for h s
    using that session_fresh idle_quiet kept_fresh by fastforce
  define rest where "rest s = bindr (command_history_add (cstr (sh_line s)) (vs_history s)) (\<lambda>h.
      bindr (if pg_is_paging s then shell_read_nowait_paging (env s) s else Inr s) (\<lambda>sh.
        if \<not> shell_running sh then Inr (Some h, sh)
        else if \<not> pg_is_paging sh then Inr (Some h, shell_refresh (shell_prompt (shell_clear sh)))
        else Inr (Some h, sh)))" for s
  have rest: "settles ?I (insert Exited F) (rest s)" if c: "session_ok cs s" "pager_mid s" for s
  proof -
    have "list_all clean (cstr (sh_line s))" using session_parts(1,9) [OF c(1)] by (simp add: cstr_line)
    from hist_ok_add [OF session_parts(6) [OF c(1)] this] obtain h where
      h: "command_history_add (cstr (sh_line s)) (vs_history s) = Inr h" "hist_ok (Some h)" by blast
    have "\<exists>u. (if pg_is_paging s then shell_read_nowait_paging (env s) s else Inr s) = Inr u \<and> session_ok cs u \<and> pager_idle u"
      using paging_settles [OF c, of "env s"] c by (auto simp: pager_mid_def pager_idle_def)
    then obtain u where u: "(if pg_is_paging s then shell_read_nowait_paging (env s) s else Inr s) = Inr u" "session_ok cs u" "pager_idle u"
      by blast
    show ?thesis
      unfolding rest_def h(1) bindr_simps u(1) using u(2,3) h(2) fresh [OF u(2,3) h(2)] by simp
  qed
  have run: "settles (\<lambda>s. session_ok cs s \<and> pager_mid s) (insert Exited F)
      (case command_execute y (cstr (sh_line s)) (vs_cmdset s) of
         None \<Rightarrow> print_term (''no such command: '' @ cstr (sh_line s) @ sh_nl s) s | Some (f, argv) \<Rightarrow> call f argv s)"
    if c: "session_ok cs s" "pager_mid s" for s
  proof (cases "command_execute y (cstr (sh_line s)) (vs_cmdset s)")
    case None
    have "settles (\<lambda>s'. session_ok cs s' \<and> pager_mid s') (insert Exited F) (print_term w s)" for w
      by (rule settles_mono [OF session_print [OF c(1)]])
        (use c(2) kept_paging(1) same_mid(1) in \<open>auto simp: quiet_def\<close>)
    then show ?thesis by (simp add: None del: append.simps)
  next
    case (Some p)
    have "settles (\<lambda>s'. session_ok cs s' \<and> same_paging s s') F (call (fst p) (snd p) s)"
      using calls c(1) unfolding paged_commands_ok_def by blast
    from settles_mono [OF this, of "\<lambda>s'. session_ok cs s' \<and> pager_mid s'" "insert Exited F"] show ?thesis
      using c(2) same_mid(1) by (auto simp: Some case_prod_beta)
  qed
  have start: "settles (\<lambda>s. session_ok cs s \<and> pager_mid s) (insert Exited F) (if pg_pager b then pager_start (env b) b else Inr b)"
    using settles_mono [OF start_settles [OF b(2) bi e]] b(2) idle_mid [OF bi] by auto
  have "settles ?I (insert Exited F) (bindr (if pg_pager b then pager_start (env b) b else Inr b) (\<lambda>sh.
      bindr (case command_execute y (cstr (sh_line sh)) (vs_cmdset sh) of
         None \<Rightarrow> print_term (''no such command: '' @ cstr (sh_line sh) @ sh_nl sh) sh | Some (f, argv) \<Rightarrow> call f argv sh) rest))"
    by (rule settles_bind [OF start settles_bind [OF run rest]]) auto
  moreover have "paged_execute y call mem now timer env sh = bindr (timer_check now timer) (\<lambda>_.
      if cstr (sh_line b) = [] then Inr (vs_history b, shell_refresh (shell_prompt (shell_clear b)))
      else bindr (if pg_pager b then pager_start (env b) b else Inr b) (\<lambda>sh.
        bindr (case command_execute y (cstr (sh_line sh)) (vs_cmdset sh) of
         None \<Rightarrow> print_term (''no such command: '' @ cstr (sh_line sh) @ sh_nl sh) sh | Some (f, argv) \<Rightarrow> call f argv sh) rest))"
    unfolding paged_execute_def b(1) bindr_simps rest_def [abs_def] ..
  ultimately show ?thesis
    using fresh [OF b(2) bi session_parts(6) [OF b(2)]] by (auto simp: timer_check_def guardr_def)
qed

lemma paged_command_settles:
  fixes call :: "'f \<Rightarrow> string option list \<Rightarrow> ('f, 'z) pshell_scheme \<Rightarrow> ('f, 'z) pshell_scheme res"
  assumes env: "tree_ok cs" "names_clean y cs" "paged_commands_ok call cs F" "\<And>s. pe_fdopen (env s)"
  shows "commands_settle (paged_command y call is_dir timer env now mem) cs idle_ext F"
  unfolding commands_settle_def
proof (intro allI impI, elim conjE)
  fix k and sh :: "('f, 'z) pshell_scheme"
  assume inv: "session_inv cs idle_ext sh" and k: "k \<in> command_keys" and e: "keymap_entry (sh_inputch sh) sh = Some k"
  from inv have ok: "session_ok cs sh" and idle: "pager_idle sh" by (simp_all add: idle_inv)
  show "settles (session_inv cs idle_ext) (session_faults F (sh_inputch sh)) (paged_command y call is_dir timer env now mem k sh)"
  proof (cases "k = K_execute")
    case True
    have "settles (session_inv cs idle_ext) (insert Exited F) (with_history (paged_execute y call mem now timer env sh))"
      unfolding with_history_def
      by (rule settles_bind [OF paged_execute_settles [OF ok idle env(3,4)]])
        (auto simp: idle_inv session_history pager_idle_def)
    then show ?thesis
      using session_entry(1) [OF ok e True] True by (auto simp: paged_command_def session_faults_def intro: settles_mono)
  next
    case False
    have "settles (session_inv cs idle_ext) (session_faults F (sh_inputch sh)) (vty_command y call is_dir timer now mem k sh)"
      by (rule command_settles [OF inv k e _ env(1,2)]) (use False in simp)
    then show ?thesis using False by (simp add: paged_command_def)
  qed
qed

lemma paged_machine:
  fixes call :: "'f \<Rightarrow> string option list \<Rightarrow> ('f, 'z) pshell_scheme \<Rightarrow> ('f, 'z) pshell_scheme res"
  assumes env: "tree_ok cs" "names_clean y cs" "paged_commands_ok call cs F"
  shows "safe_machine (\<lambda>t s. if \<forall>u. pe_fdopen (tu_env t u) then paged_turn y call is_dir timer t s else Inr s)
    (\<lambda>(sh, loops). session_ok cs sh \<and> pager_idle sh) (\<lambda>t. \<Union>b\<in>set (read_bytes (tu_read t)). session_faults F b)"
proof (unfold_locales, goal_cases)
  case (1 s t)
  obtain sh loops where s: "s = (sh, loops)" by (cases s)
  let ?F = "\<Union>b\<in>set (read_bytes (tu_read t)). session_faults F b"
  let ?J = "\<lambda>(sh, loops). session_ok cs sh \<and> pager_idle sh"
  define a where "a = sh\<lparr>pg_fds := tu_others t (pg_fds sh)\<rparr>"
  from 1 have sh: "session_ok cs sh" "pager_idle sh" by (simp_all add: s)
  then have a: "session_ok cs a" "pager_idle a" by (simp_all add: a_def pager_idle_def)
  have "settles ?J ?F (paged_turn y call is_dir timer t s)" if e: "\<And>u. pe_fdopen (tu_env t u)"
  proof -
    have "settles (\<lambda>sh. session_ok cs sh \<and> pager_idle sh) ?F (shell_read_nowait_paging (tu_env t a) a)"
      using paging_settles [OF a(1) idle_mid [OF a(2)], of "tu_env t a"] by (auto simp: settles_def)
    moreover have "settles (\<lambda>sh. session_ok cs sh \<and> pager_idle sh) ?F
        (bindr (shell_read_nowait (paged_command y call is_dir timer (tu_env t) (tu_now t) (tu_mem t)) (tu_mem t)
           (tu_poll t) (tu_read t) a) (\<lambda>(ret, sh). Inr sh))"
      by (rule settles_bind [OF session_read [OF _ paged_command_settles [OF env e]]])
        (use a in \<open>auto simp: idle_inv\<close>)
    ultimately have "settles (\<lambda>sh. session_ok cs sh \<and> pager_idle sh) ?F (if pg_is_paging a
        then shell_read_nowait_paging (tu_env t a) a
        else bindr (shell_read_nowait (paged_command y call is_dir timer (tu_env t) (tu_now t) (tu_mem t)) (tu_mem t)
           (tu_poll t) (tu_read t) a) (\<lambda>(ret, sh). Inr sh))" by simp
    from settles_bind [OF this, where k = "\<lambda>sh. Inr (sh, loops + 1)" and J = ?J] show ?thesis
      using sh by (simp add: paged_turn_def s Let_def a_def [symmetric])
  qed
  then show ?case using sh by (auto simp: settles_def s)
qed

lemma runr_cong: "(\<And>e s. e \<in> set es \<Longrightarrow> f e s = g e s) \<Longrightarrow> runr f es s = runr g es s"
proof (induction es arbitrary: s)
  case (Cons e es)
  then have "runr f es = runr g es" by (intro ext) simp
  then show ?case using Cons.prems by simp
qed simp

lemma paged_shell_ok:
  assumes "0 \<le> fd"
  shows "session_ok cs (paged_shell cs mem fd cid t)" "pager_idle (paged_shell cs mem fd cid t)"
proof -
  have "session_ok c (vshell.extend a x) = session_ok c a" for c and a :: "'g vshell" and x :: "'z pshell_ext"
    by (cases a) (simp add: vshell.extend_def session_inv_def vty_ok_def line_ok_def shell_text_def)
  from this [of cs "session_shell cs mem fd cid"] session_shell_ok [OF assms, of cs mem cid]
  show "session_ok cs (paged_shell cs mem fd cid t)" unfolding paged_shell_def by blast
  show "pager_idle (paged_shell cs mem fd cid t)"
    by (simp add: paged_shell_def pager_new_def pager_idle_def vshell.extend_def)
qed

section \<open>Descriptors and output of a command under the pager\<close>

lemma write_output: "sh_term (write_fd w sh) = sh_term sh" "sh_writefd (write_fd w sh) = sh_writefd sh"
  by (simp_all add: write_fd_def)

lemma terminate_output: "sh_term (shell_terminate sh) = sh_term sh" "sh_writefd (shell_terminate sh) = sh_writefd sh"
  by (simp_all add: shell_terminate_def)

lemma prompt_output: "sh_term (shell_prompt sh) = sh_term sh" "sh_writefd (shell_prompt sh) = sh_writefd sh"
  by (simp_all add: shell_prompt_def Let_def write_output)

lemma fresh_output:
  "sh_term (shell_refresh (shell_prompt (shell_clear sh))) = sh_term sh"
  "sh_writefd (shell_refresh (shell_prompt (shell_clear sh))) = sh_writefd sh"
  by (simp_all add: shell_refresh_def shell_clear_def Let_def prompt_output write_output terminate_output)

lemma four_updates:
  assumes "distinct [m, s, r, w]" "t ! s = None" "t ! r = None" "t ! w = None"
  shows "t[m := a, s := b, r := c, w := d, r := None, s := None, w := None] = t[m := a]"
proof (rule nth_equalityI)
  fix i assume i: "i < length (t[m := a, s := b, r := c, w := d, r := None, s := None, w := None])"
  consider "i = w" | "i = s" | "i = r" | "i = m" | "m \<noteq> i \<and> s \<noteq> i \<and> r \<noteq> i \<and> w \<noteq> i" by auto
  then show "t[m := a, s := b, r := c, w := d, r := None, s := None, w := None] ! i = t[m := a] ! i"
    using i assms by cases simp_all
qed simp

lemma started_fds:
  assumes p: "fd_pair Pty_master Pty_slave t = Some ((m, s), t1)" and q: "fd_pair Pipe_read Pipe_write t1 = Some ((r, w), t2)"
  shows "fd_close w (fd_close s (fd_close r t2)) = t[nat m := Some Pty_master]" "t ! nat m = None" "nat m < length t" "0 \<le> w"
    "nat w \<noteq> nat m"
proof -
  note a = fd_pair_SomeD [OF p] and b = fd_pair_SomeD [OF q]
  let ?m = "nat m" and ?s = "nat s" and ?r = "nat r" and ?w = "nat w"
  have t1: "t1 = t[?m := Some Pty_master, ?s := Some Pty_slave]" and t2: "t2 = t1[?r := Some Pipe_read, ?w := Some Pipe_write]"
    using a(8) b(8) by simp_all
  have ms: "?m \<noteq> ?s" and rw: "?r \<noteq> ?w" using a(1-3) b(1-3) by simp_all
  have set1: "t1 ! ?m \<noteq> None" "t1 ! ?s \<noteq> None" using t1 a(4,5) ms by simp_all
  then have ne: "?r \<noteq> ?m" "?r \<noteq> ?s" "?w \<noteq> ?m" "?w \<noteq> ?s" using b(6,7) by metis+
  then have old: "t ! ?r = None" "t ! ?w = None" using b(6,7) t1 by simp_all
  have cl: "fd_close w (fd_close s (fd_close r t2)) = t2[?r := None, ?s := None, ?w := None]"
    using a(2) b(1,2) by (simp add: fd_close_def)
  show "fd_close w (fd_close s (fd_close r t2)) = t[?m := Some Pty_master]"
    unfolding cl unfolding t2 t1 by (rule four_updates) (use ne ms rw old a(7) in simp_all)
  show "t ! nat m = None" "nat m < length t" "0 \<le> w" "nat w \<noteq> nat m" using a(4,6) b(2) ne by simp_all
qed

text \<open>A turn of the bridge neither opens nor keeps anything but the end of the pipe.\<close>

lemma release_effect:
  assumes "pager_release e sh = Inr s"
  shows "pg_fds s = fd_close (snd (pg_pipefd sh)) (pg_fds sh)" "pg_pipefd s = pg_pipefd sh"
    "pg_saved_terminal sh = Some t \<Longrightarrow> pg_piped s = (sh_out sh, sh_term sh) \<and> sh_term s = t \<and>
      sh_writefd s = pg_saved_writefd sh"
    "vs_history s = vs_history sh" "pg_saved_terminal s = None"
  using assms
  by (auto simp: pager_release_def Let_def guardr_eq_Inr fd_close_def split: option.splits if_splits)

lemma fresh_paging:
  assumes "session_ok cs sh"
  shows "same_paging sh (shell_refresh (shell_prompt (shell_clear sh)))"
    "pg_piped (shell_refresh (shell_prompt (shell_clear sh))) = pg_piped sh"
  using kept_paging [OF kept_fresh [OF assms]] by simp_all

lemma paging_effect:
  assumes ok: "session_ok cs sh" "pager_mid sh" and run: "shell_read_nowait_paging e sh = Inr s"
  shows "pg_fds s = fd_close (snd (pg_pipefd sh)) (pg_fds sh)" "pg_pipefd s = pg_pipefd sh"
    "pg_saved_terminal sh = Some t \<Longrightarrow> pg_piped s = (sh_out sh, sh_term sh) \<and> sh_term s = t \<and>
      sh_writefd s = pg_saved_writefd sh"
    "session_ok cs s" "pager_idle s"
proof -
  from release_settles [OF ok, of e] obtain r where r: "pager_release e sh = Inr r" "session_ok cs r" by blast
  let ?b = "snd (bridge True (pe_sides e) r)\<lparr>pg_is_paging := False\<rparr>"
  have b: "session_ok cs ?b" using r(2) by (auto simp: bridge_def split: prod.split)
  have "s = r \<or> s = snd (bridge True (pe_sides e) r) \<or> s = shell_refresh (shell_prompt (shell_clear ?b))"
    using run r(1) by (auto simp: shell_read_nowait_paging_def split: if_splits prod.splits)
  then show "pg_fds s = fd_close (snd (pg_pipefd sh)) (pg_fds sh)" "pg_pipefd s = pg_pipefd sh"
    "pg_saved_terminal sh = Some t \<Longrightarrow> pg_piped s = (sh_out sh, sh_term sh) \<and> sh_term s = t \<and>
      sh_writefd s = pg_saved_writefd sh"
    using release_effect [OF r(1)] fresh_paging [OF b] fresh_output [of ?b]
    by (auto simp: bridge_def same_paging_def split: prod.splits)
  show "session_ok cs s" "pager_idle s" using paging_settles [OF ok, of e] run by auto
qed

text \<open>The number of free descriptors.\<close>

definition free_fds :: "fdtable \<Rightarrow> nat" where
  "free_fds t = card {i. i < length t \<and> t ! i = None}"

lemma fd_open_room:
  assumes "0 < free_fds t"
  shows "\<exists>a u. fd_open f t = Some (a, u) \<and> free_fds u = free_fds t - 1"
proof -
  from assms have "{i. i < length t \<and> t ! i = None} \<noteq> {}" unfolding free_fds_def by (metis card.empty less_numeral_extra(3))
  then have "find (\<lambda>i. t ! i = None) [0..<length t] \<noteq> None" by (simp add: find_None_iff)
  then obtain a u where o: "fd_open f t = Some (a, u)" by (auto simp: fd_open_def)
  note d = fd_open_SomeD [OF o]
  have "{i. i < length u \<and> u ! i = None} = {i. i < length t \<and> t ! i = None} - {nat a}"
    using d(2,4) by (auto simp: nth_list_update)
  with o d(2,3) show ?thesis by (auto simp: free_fds_def)
qed

lemma fd_pair_room:
  assumes "1 < free_fds t"
  shows "\<exists>a b u. fd_pair f g t = Some ((a, b), u) \<and> free_fds u = free_fds t - 2"
proof -
  from fd_open_room [of t f] assms obtain a v where v: "fd_open f t = Some (a, v)" "free_fds v = free_fds t - 1" by auto
  with fd_open_room [of v g] assms obtain b u where "fd_open g v = Some (b, u)" "free_fds u = free_fds v - 1" by auto
  with v show ?thesis by (auto simp: fd_pair_def)
qed

lemma free_one_less:
  assumes "t ! m = None" "m < length t"
  shows "Suc (free_fds (t[m := Some f])) = free_fds t"
proof -
  define A where "A = {i. i < length t \<and> t ! i = None}"
  have "{i. i < length t \<and> t[m := Some f] ! i = None} = A - {m}"
    unfolding A_def using assms(2) by (auto simp: nth_list_update)
  moreover have "m \<in> A" "finite A" unfolding A_def using assms by simp_all
  ultimately show ?thesis
    unfolding free_fds_def length_list_update A_def [symmetric] by (simp only: card_Suc_Diff1)
qed

text \<open>The calls behind the pager succeed.\<close>

definition pager_works :: "pager_env \<Rightarrow> bool" where
  "pager_works e \<longleftrightarrow> pe_openpty e \<and> pe_pipe e \<and> 0 < pe_fork e \<and> pe_fdopen e"

lemma start_value:
  assumes sh: "session_ok cs sh" "pager_works e" and room: "4 \<le> free_fds (pg_fds sh)"
  shows "\<exists>p m. pager_start e sh = Inr p \<and> session_ok cs p \<and> pager_mid p \<and> pg_is_paging p \<and> sh_term p = [] \<and> sh_out p = [] \<and>
    pg_saved_terminal p = Some (sh_term sh) \<and> pg_saved_writefd p = sh_writefd sh \<and> sh_writefd p = snd (pg_pipefd p) \<and>
    pg_master p = int m \<and> pg_fds sh ! m = None \<and> m < length (pg_fds sh) \<and> nat (snd (pg_pipefd p)) \<noteq> m \<and>
    fd_close (snd (pg_pipefd p)) (pg_fds p) = (pg_fds sh)[m := Some Pty_master] \<and>
    vs_history p = vs_history sh \<and> shell_text p = shell_text sh \<and> sh_flag p = sh_flag sh \<and> sh_line p = sh_line sh"
proof -
  from fd_pair_room [of "pg_fds sh" Pty_master Pty_slave] room obtain m s t1 where
    p: "fd_pair Pty_master Pty_slave (pg_fds sh) = Some ((m, s), t1)" "free_fds t1 = free_fds (pg_fds sh) - 2" by auto
  have "1 < free_fds t1" using p(2) room by simp
  from fd_pair_room [OF this, of Pipe_read Pipe_write] obtain r w t2 where
    q: "fd_pair Pipe_read Pipe_write t1 = Some ((r, w), t2)" by blast
  note f = started_fds [OF p(1) q]
  note m = fd_pair_SomeD(1) [OF p(1)]
  let ?u = "sh\<lparr>pg_is_paging := False, pg_master := m, pg_slave := s, pg_fds := t1, pg_ttysize := (0, 0)\<rparr>"
  let ?v = "if ws_col sh \<noteq> 0 \<and> ws_row sh \<noteq> 0 then ?u\<lparr>pg_ttysize := (ws_row sh, ws_col sh)\<rparr> else ?u"
  let ?p = "?v\<lparr>pg_pipefd := (r, w), pg_fds := fd_close s (fd_close r t2), pg_pid := pe_fork e,
      pg_saved_terminal := Some (sh_term sh), pg_saved_writefd := sh_writefd sh, pg_saved_out := sh_out sh,
      sh_open := True, sh_term := [], sh_writefd := w, sh_out := [], pg_is_paging := True\<rparr>"
  have start: "pager_start e sh = Inr ?p"
    using sh(2) p(1) q session_parts(3) [OF sh(1)] by (simp add: pager_start_def pager_openpty_def pager_works_def Let_def)
  have "session_ok cs ?p" "pager_mid ?p"
    using sh f(4)
    by (simp_all add: session_inv_def vty_ok_def line_ok_def shell_text_def pager_mid_def pager_works_def)
  then show ?thesis
    using f m start by (intro exI [of _ ?p] exI [of _ "nat m"]) (simp add: shell_text_def)
qed

text \<open>
  A session with its pager on, as every session starts, is as safe as one without. Any sequence of
  turns of the session's loop, bridging the pager or reading keys, with any bytes received, any outcome of
  the system calls, any failing allocations, and any files opened and closed by other threads in between, keeps
  the shell well formed and, between two turns, the session's own terminal in place of the pipe, or stops in a
  fault that a received byte allows. Commands leave the fields of the pager alone, and \<open>fdopen\<close> does not fail.
\<close>

theorem paged_session:
  assumes env: "tree_ok cs" "names_clean y cs" "paged_commands_ok call cs F" "0 \<le> fd"
    and e: "\<forall>t\<in>set ts. \<forall>u. pe_fdopen (tu_env t u)"
  shows "(\<exists>sh n. runr (paged_turn y call is_dir timer) ts (paged_shell cs mem fd cid tbl, 0) = Inr (sh, n) \<and>
      session_ok cs sh \<and> pg_saved_terminal sh = None) \<or>
    (\<exists>t\<in>set ts. \<exists>b\<in>set (read_bytes (tu_read t)). \<exists>f\<in>session_faults F b.
       runr (paged_turn y call is_dir timer) ts (paged_shell cs mem fd cid tbl, 0) = Inl f)"
proof -
  let ?g = "\<lambda>t s. if \<forall>u. pe_fdopen (tu_env t u) then paged_turn y call is_dir timer t s else Inr s"
  have "runr (paged_turn y call is_dir timer) ts s = runr ?g ts s" for s
    by (rule runr_cong) (use e in auto)
  then show ?thesis
    using safe_machine.run_ok [OF paged_machine [OF env(1-3)], of "(paged_shell cs mem fd cid tbl, 0)" is_dir timer ts]
      paged_shell_ok [OF env(4)] by (auto simp: pager_idle_def) fastforce
qed

lemma paging_turns:
  assumes "session_ok cs s" "pager_idle s" "runr shell_read_nowait_paging es s = Inr s'"
    "pg_fds s = fd_close (snd (pg_pipefd s)) t"
  shows "pg_fds s' = pg_fds s"
  using assms
proof (induction es arbitrary: s)
  case (Cons e es)
  then obtain u where u: "shell_read_nowait_paging e s = Inr u" "runr shell_read_nowait_paging es u = Inr s'"
    by (auto simp: bindr_eq_Inr)
  note p = paging_effect [OF Cons.prems(1) idle_mid [OF Cons.prems(2)] u(1)]
  have "fd_close (snd (pg_pipefd s)) (pg_fds s) = pg_fds s"
    unfolding Cons.prems(4) by (simp add: fd_close_def)
  with p(1) have same: "pg_fds u = pg_fds s" by simp
  have "pg_fds u = fd_close (snd (pg_pipefd u)) t" using same p(2) Cons.prems(4) by simp
  from Cons.IH [OF p(4,5) u(2) this] same show ?case by simp
qed simp

text \<open>
  A failing \<open>openpty\<close> is not noticed: what is closed as its terminal is the number of an earlier one, or 0 in
  a new session, whatever file has this number now.
\<close>

lemma stale_slave_closed:
  assumes "\<not> pe_openpty e" "pe_pipe e" "0 < pe_fork e" "fd_pair Pipe_read Pipe_write (pg_fds sh) = Some ((r, w), t)"
    "pager_start e sh = Inr s"
  shows "pg_fds s = fd_close (pg_slave sh) (fd_close r t)"
  using assms by (auto simp: pager_start_def pager_openpty_def Let_def split: if_splits)

text \<open>
  C8: What a command does under the pager. When the line is not blank, the calls behind the pager succeed and four
  descriptors are free, the command runs once, on a shell with the same line whose stream and descriptor are the pipe, empty. If
  it returns, the pager was given exactly what it wrote, the session's own stream got nothing, the line is the
  newest of the history, and the descriptors of the process are as before but for one: the pseudo-terminal's
  master, on a number that was free. No later turn of the bridge closes it, so that each command leaves one descriptor fewer.
\<close>

theorem paged_command_runs:
  assumes sh: "session_ok cs sh" "pager_idle sh" "pg_pager sh" "hist_rel (vs_history sh) ls k"
    and b: "shell_linefeed (shell_format mem (strip_comment sh)) = Inr b" "cstr (sh_line b) \<noteq> []"
    and timer: "timer_check now timer = Inr ()" and e: "pager_works (env b)" and room: "4 \<le> free_fds (pg_fds sh)"
    and g: "command_execute y (cstr (sh_line b)) cs = Some (g, argv)"
  shows "\<exists>p. session_ok cs p \<and> sh_term p = [] \<and> sh_out p = [] \<and> shell_text p = shell_text b \<and> sh_writefd p = snd (pg_pipefd p) \<and>
    (\<forall>f. call g argv p = Inl f \<longrightarrow> paged_execute y call mem now timer env sh = Inl f) \<and>
    (\<forall>p'. call g argv p = Inr p' \<and> session_ok cs p' \<and> same_paging p p' \<and> vs_history p' = vs_history p \<longrightarrow>
      (\<exists>h s m. paged_execute y call mem now timer env sh = Inr (Some h, s) \<and>
        pg_piped s = (sh_out p', sh_term p') \<and> sh_term s = sh_term b \<and> sh_writefd s = sh_writefd sh \<and>
        hist_rel (Some h) (last_lines 127 (ls @ [cstr (sh_line p')])) 0 \<and>
        pg_fds sh ! m = None \<and> pg_fds s = (pg_fds sh)[m := Some Pty_master] \<and>
        Suc (free_fds (pg_fds s)) = free_fds (pg_fds sh) \<and>
        (\<forall>es s'. runr shell_read_nowait_paging es s = Inr s' \<longrightarrow> pg_fds s' = pg_fds s)))"
proof -
  let ?f = "shell_format mem (strip_comment sh)"
  have f: "session_ok cs ?f" by (intro session_format session_strip sh(1))
  have "kept sh ?f"
    using strip_comment_text(1,2) [OF session_parts(1) [OF sh(1)]] format_outcome(2) kept_trans by blast
  moreover from session_print [OF f, of "{}" "sh_nl ?f"] b(1) have ok: "session_ok cs b" "kept ?f b"
    by (auto simp: shell_linefeed_def quiet_def)
  ultimately have kb: "kept sh b" using kept_trans by blast
  note same = kept_paging [OF kb] vshell_fields [of b sh]
  have bf: "pg_fds b = pg_fds sh" "pg_pager b" "vs_history b = vs_history sh" "sh_writefd b = sh_writefd sh" "pager_idle b"
    using same kb sh(3) same_mid(2) [OF same(1)] sh(2) by (auto simp: same_paging_def kept_def)
  from start_value [OF ok(1) e] room bf(1) obtain p m where
    p: "pager_start (env b) b = Inr p" "session_ok cs p" "pager_mid p" "pg_is_paging p" "sh_term p = []" "sh_out p = []"
      "pg_saved_terminal p = Some (sh_term b)" "pg_saved_writefd p = sh_writefd b" "sh_writefd p = snd (pg_pipefd p)"
      and m: "pg_fds sh ! m = None" "m < length (pg_fds sh)"
      "fd_close (snd (pg_pipefd p)) (pg_fds p) = (pg_fds sh)[m := Some Pty_master]"
      and pb: "vs_history p = vs_history sh" "shell_text p = shell_text b" "sh_line p = sh_line b"
    using bf(3) by (auto simp: bf(1))
  define rest where "rest s = bindr (command_history_add (cstr (sh_line s)) (vs_history s)) (\<lambda>h.
      bindr (if pg_is_paging s then shell_read_nowait_paging (env s) s else Inr s) (\<lambda>sh.
        if \<not> shell_running sh then Inr (Some h, sh)
        else if \<not> pg_is_paging sh then Inr (Some h, shell_refresh (shell_prompt (shell_clear sh)))
        else Inr (Some h, sh)))" for s
  have ex: "paged_execute y call mem now timer env sh = bindr (call g argv p) rest"
    using b(2) bf(2) p(1) g session_parts(5) [OF p(2)] pb(3)
    by (simp add: paged_execute_def b(1) timer rest_def [abs_def])
  have fin: "\<exists>h s m. paged_execute y call mem now timer env sh = Inr (Some h, s) \<and>
        pg_piped s = (sh_out p', sh_term p') \<and> sh_term s = sh_term b \<and> sh_writefd s = sh_writefd sh \<and>
        hist_rel (Some h) (last_lines 127 (ls @ [cstr (sh_line p')])) 0 \<and>
        pg_fds sh ! m = None \<and> pg_fds s = (pg_fds sh)[m := Some Pty_master] \<and>
        Suc (free_fds (pg_fds s)) = free_fds (pg_fds sh) \<and>
        (\<forall>es s'. runr shell_read_nowait_paging es s = Inr s' \<longrightarrow> pg_fds s' = pg_fds s)"
    if c: "call g argv p = Inr p'" "session_ok cs p'" "same_paging p p'" "vs_history p' = vs_history p" for p'
  proof -
    from history_add_refines [OF sh(4)] obtain h where
      h: "command_history_add (cstr (sh_line p')) (vs_history p') = Inr h" "hist_rel (Some h) (last_lines 127 (ls @ [cstr (sh_line p')])) 0"
      using c(4) pb(1) by metis
    have mid: "pager_mid p'" "pg_is_paging p'" using same_mid(1) [OF c(3)] p(3,4) c(3) by (simp_all add: same_paging_def)
    from paging_settles [OF c(2) mid(1), of "env p'"] obtain u where u: "shell_read_nowait_paging (env p') p' = Inr u" by blast
    have sv: "pg_saved_terminal p' = Some (sh_term b)" using c(3) p(7) by (simp add: same_paging_def)
    note pe = paging_effect [OF c(2) mid(1) u] paging_effect(3) [OF c(2) mid(1) u sv]
    let ?z = "shell_refresh (shell_prompt (shell_clear u))"
    define s where "s = (if \<not> shell_running u then u else if \<not> pg_is_paging u then ?z else u)"
    have r: "paged_execute y call mem now timer env sh = Inr (Some h, s)"
      using mid(2) by (simp add: ex c(1) rest_def h(1) u s_def)
    have z: "same_paging u ?z" "pg_piped ?z = pg_piped u" "session_ok cs ?z"
      using fresh_paging [OF pe(4)] session_fresh [OF pe(4)] by simp_all
    have s: "pg_piped s = (sh_out p', sh_term p')" "sh_term s = sh_term b" "sh_writefd s = sh_writefd sh"
      "pg_fds s = pg_fds u" "pg_pipefd s = pg_pipefd u" "session_ok cs s" "pager_idle s"
      using pe z same_mid(2) [OF z(1)] c(3) p(8) bf(4) by (auto simp: s_def fresh_output same_paging_def)
    have fd: "pg_fds u = (pg_fds sh)[m := Some Pty_master]"
      using pe(1) c(3) m(3) by (simp add: same_paging_def)
    have "pg_fds s = fd_close (snd (pg_pipefd s)) (pg_fds p')" using pe(1,2) s(4,5) by simp
    from paging_turns [OF s(6,7) _ this]
    have turns: "runr shell_read_nowait_paging es s = Inr s' \<longrightarrow> pg_fds s' = pg_fds s" for es s' by blast
    show ?thesis
      using r s h(2) turns m(1,2) fd free_one_less [OF m(1,2)] by (intro exI [of _ h] exI [of _ s] exI [of _ m]) auto
  qed
  have "\<forall>f. call g argv p = Inl f \<longrightarrow> paged_execute y call mem now timer env sh = Inl f" by (simp add: ex)
  with p(2,5,6,9) pb(2) fin show ?thesis by (intro exI [of _ p]) blast
qed

text \<open>
  A session in a process that has the three standard files and the connection open, and a system where
  every call succeeds and the pager has nothing to say.
\<close>

definition four_open :: fdtable where
  "four_open = map Some [Other 0, Other 1, Other 2, Other 3] @ replicate 6 None"

definition calm :: pager_env where
  "calm = \<lparr>pe_openpty = True, pe_pipe = True, pe_fork = 99, pe_fdopen = True, pe_pclose = True, pe_poll = 0,
     pe_sides = (\<lparr>sd_in = False, sd_hup = False, sd_read = ReadError, sd_written = 0\<rparr>,
                 \<lparr>sd_in = False, sd_hup = False, sd_read = ReadError, sd_written = 0\<rparr>)\<rparr>"

lemma paged_hello: "paged_commands_ok hello hello_tree {}"
  unfolding paged_commands_ok_def hello_def
  by (auto intro!: settles_mono [OF session_print] simp: quiet_def kept_paging simp del: append.simps)

theorem paged_session_witness:
  "(\<exists>sh n. runr (paged_turn no_system hello (\<lambda>_. False) no_limit)
      [\<lparr>tu_force_quit = False, tu_force_stop = False, tu_now = 5, tu_mem = False, tu_poll = 1, tu_read = ReadBytes [],
        tu_env = \<lambda>_. calm, tu_others = \<lambda>t. t\<rparr>]
      (paged_shell hello_tree True 4 1 four_open, 0) = Inr (sh, n) \<and> session_ok hello_tree sh \<and> pg_saved_terminal sh = None)"
  using paged_session [OF hello_env(1,3) paged_hello, of 4
      "[\<lparr>tu_force_quit = False, tu_force_stop = False, tu_now = 5, tu_mem = False, tu_poll = 1, tu_read = ReadBytes [],
        tu_env = \<lambda>_. calm, tu_others = \<lambda>t. t\<rparr>]" "\<lambda>_. False" no_limit True 1 four_open]
  by (simp add: read_bytes_def calm_def)

lemma free_four_open: "free_fds four_open = 6"
proof -
  have "{i. i < length four_open \<and> four_open ! i = None} = {4..<10}"
    by (auto simp: four_open_def nth_append nth_Cons' split: if_splits)
  then show ?thesis by (simp add: free_fds_def)
qed

lemma paged_shell_state:
  "shell_text (paged_shell cs mem fd cid t) = []" "vs_history (paged_shell cs mem fd cid t) = None"
  "sh_cursor (paged_shell cs mem fd cid t) = 0" "pg_pager (paged_shell cs mem fd cid t)" "pg_fds (paged_shell cs mem fd cid t) = t"
  "sh_end (paged_shell cs mem fd cid t) = 0" "awaits_key (paged_shell cs mem fd cid t)"
proof -
  obtain a where a: "a = session_shell cs mem fd cid" by blast
  note st = session_shell_state [of cs mem fd cid, folded a]
  have e: "sh_end a = 0"
    by (simp add: a session_shell_def command_shell_keys_def shell_telnet_keyfunc_init_def shell_escape_keyfunc_init_def
        shell_install_def shell_set_terminal_def shell_create_def shell_set_prompt_def Let_def)
  show "shell_text (paged_shell cs mem fd cid t) = []" "vs_history (paged_shell cs mem fd cid t) = None"
    "sh_cursor (paged_shell cs mem fd cid t) = 0" "pg_pager (paged_shell cs mem fd cid t)" "pg_fds (paged_shell cs mem fd cid t) = t"
    "sh_end (paged_shell cs mem fd cid t) = 0" "awaits_key (paged_shell cs mem fd cid t)"
    unfolding paged_shell_def pager_new_def a [symmetric] using st e
    by (cases a; simp add: vshell.extend_def shell_text_def awaits_key_def flag_check_def shell_flags)+
qed

theorem paged_command_runs_witness:
  "\<exists>sh h s. runr (shell_input (paged_command no_system hello (\<lambda>_. False) no_limit (\<lambda>_. calm) 5 True) True) (map key_of ''hi'')
      (paged_shell hello_tree True 3 1 four_open) = Inr sh \<and>
     paged_execute no_system hello True 5 no_limit (\<lambda>_. calm) sh = Inr (Some h, s) \<and>
     snd (pg_piped s) = ''hello'' \<and> Suc (free_fds (pg_fds s)) = free_fds four_open"
proof -
  let ?sh = "paged_shell hello_tree True 3 1 four_open"
  let ?R = "\<lambda>x. x = vshell.more ?sh"
  let ?c = "paged_command no_system hello (\<lambda>_. False) no_limit (\<lambda>_. calm) 5 True"
  have inv: "session_inv hello_tree ?R ?sh"
    using paged_shell_ok(1) [of 3 hello_tree True 1 four_open] by (simp add: session_inv_def)
  have ty: "\<forall>c\<in>set ''hi''. typable c" by (simp add: typable_def)
  from typed_line [OF inv paged_shell_state(7) ty, of ?c] obtain a where
    a: "runr (shell_input ?c True) (map key_of ''hi'') ?sh = Inr a" "session_inv hello_tree ?R a"
      "shell_text a = ''hi''" "vs_history a = None"
    by (auto simp: paged_shell_state)
  have ok: "session_ok hello_tree a" using a(2) by (simp add: session_inv_def)
  have "vshell.more a = vshell.more ?sh" using a(2) by (simp add: session_inv_def)
  note more = more_paging [OF this]
  have pg: "pager_idle a" "pg_pager a" "pg_fds a = four_open"
    using same_mid(2) [OF more(1)] more paged_shell_ok(2) [of 3 hello_tree True 1 four_open]
      paged_shell_state(4,5) [of hello_tree True 3 1 four_open] by (simp_all add: same_paging_def)
  have sq: "squeeze True ''hi'' = ''hi''" using squeeze_unwords [of "[''hi'']"] by simp
  from enter_prepares [OF ok a(3) ty sq] obtain b where
    b: "shell_linefeed (shell_format True (strip_comment a)) = Inr b" "cstr (sh_line b) = ''hi''" by blast
  have found: "command_execute no_system (cstr (sh_line b)) hello_tree = Some (7, [Some ''hi''])"
    using execute_spelled [OF hello_env(1,2)] by (simp add: b(2) takes_rest_def line_spec_def file_spec_def)
  have hyps: "hist_rel (vs_history a) [] 0" "cstr (sh_line b) \<noteq> []" "timer_check 5 no_limit = Inr ()" "pager_works calm"
    "4 \<le> free_fds (pg_fds a)"
    by (simp_all add: a(4) b(2) hist_rel_def timer_check_def no_limit_def pager_works_def calm_def pg(3) free_four_open)
  show ?thesis
  proof (rule exE [OF paged_command_runs [OF ok pg(1,2) hyps(1) b(1) hyps(2-5) found, of hello]], elim conjE, goal_cases)
    case (1 p)
    from session_print [OF 1(1), of "{}" "''hello''"] obtain q where
      q: "print_term ''hello'' p = Inr q" "session_ok hello_tree q" "quiet p q" by (auto simp: settles_def simp del: append.simps)
    have "same_paging p q" "vs_history q = vs_history p"
      using q(3) kept_paging(1) [of p q] vshell_fields(1) [of q p] by (simp_all add: quiet_def kept_def)
    moreover have "sh_term q = ''hello''" using q(1) 1(2) by (auto simp: print_term_def guardr_eq_Inr)
    ultimately show ?case
      using 1(7) q(1,2) a(1) pg(3) unfolding hello_def by (metis snd_conv)
  qed
qed

end
