(* ===== verification/Debugging.thy ===== *)
theory Debugging
  imports Command_Tree Line_Edit Keyfunc Libc
begin

text \<open>
  Debugging and logging: \<open>lib/zcmdsh/debug_log.c\<close>, \<open>log.c\<close>, \<open>log_cmd.c\<close>, \<open>debug_cmd.c\<close>, \<open>debug_zcmdsh.c\<close>
  and \<open>sdplane/debug_sdplane.c\<close>.

  A line that is logged is given as the text \<open>printf\<close> makes of it. What is written to a stream is kept
  as a list of pairs of the sink and the text, the last one written at the end. The arguments of a
  variadic function are consumed once per sink; the code takes one copy for each.
\<close>

section \<open>The log of debugging\<close>

definition DEBUG_DEFAULT :: nat where "DEBUG_DEFAULT = 0"
definition DEBUG_ZCMDSH :: nat where "DEBUG_ZCMDSH = 1"
definition DEBUG_SDPLANE :: nat where "DEBUG_SDPLANE = 2"
definition DEBUG_CATEGORY_MAX :: nat where "DEBUG_CATEGORY_MAX = 3"

lemmas debug_categories = DEBUG_DEFAULT_def DEBUG_ZCMDSH_def DEBUG_SDPLANE_def DEBUG_CATEGORY_MAX_def

definition DEBUG_OUTPUT_STDOUT :: u64 where "DEBUG_OUTPUT_STDOUT = 1"
definition DEBUG_OUTPUT_STDERR :: u64 where "DEBUG_OUTPUT_STDERR = 2"
definition DEBUG_OUTPUT_SYSLOG :: u64 where "DEBUG_OUTPUT_SYSLOG = 4"
definition DEBUG_OUTPUT_FILE :: u64 where "DEBUG_OUTPUT_FILE = 8"

lemmas debug_outputs = DEBUG_OUTPUT_STDOUT_def DEBUG_OUTPUT_STDERR_def DEBUG_OUTPUT_SYSLOG_def DEBUG_OUTPUT_FILE_def

definition DEBUG_DEFAULT_LOGGING :: u64 where "DEBUG_DEFAULT_LOGGING = 1"
definition DEBUG_DEFAULT_BACKTRACE :: u64 where "DEBUG_DEFAULT_BACKTRACE = 2"

text \<open>The open streams are numbers; \<open>db_open\<close> holds those of files that were opened and not closed.\<close>

datatype sink = Stdout | Stderr | Syslog int | Stream nat

record debug =
  db_config :: "u64 list"
  db_output :: u64
  db_ident :: string
  db_filename :: "string option"
  db_file :: "nat option"
  db_open :: "nat list"
  db_written :: "(sink \<times> string) list"

definition debug_start :: debug where
  "debug_start = \<lparr>db_config = replicate DEBUG_CATEGORY_MAX 0, db_output = 0, db_ident = ''debug_log'',
     db_filename = None, db_file = None, db_open = [], db_written = []\<rparr>"

text \<open>The priority of the log, \<open>LOG_INFO | LOG_USER\<close>.\<close>

definition debug_priority :: int where "debug_priority = 14"

definition write_sink :: "sink \<Rightarrow> string \<Rightarrow> debug \<Rightarrow> debug" where
  "write_sink k s d = d\<lparr>db_written := db_written d @ [(k, s)]\<rparr>"

text \<open>\<open>time\<close> is what \<open>strftime\<close> made of the current time, \<open>pid\<close> the process.\<close>

definition debug_line :: "string \<Rightarrow> int \<Rightarrow> string \<Rightarrow> debug \<Rightarrow> string" where
  "debug_line time pid msg d = take 31 time @ '' '' @ db_ident d @ ''['' @ dec_int pid @ '']: '' @ msg @ [CHR ''\<newline>'']"

definition debug_vlog :: "string \<Rightarrow> int \<Rightarrow> string \<Rightarrow> debug \<Rightarrow> (nat \<times> debug) res" where
  "debug_vlog time pid msg d =
    (let ret = 0;
         (ret, d) = (if flag_check (db_output d) DEBUG_OUTPUT_STDOUT
           then (length (debug_line time pid msg d), write_sink Stdout (debug_line time pid msg d) d) else (ret, d));
         (ret, d) = (if flag_check (db_output d) DEBUG_OUTPUT_STDERR
           then (length (debug_line time pid msg d), write_sink Stderr (debug_line time pid msg d) d) else (ret, d));
         d = (if flag_check (db_output d) DEBUG_OUTPUT_SYSLOG then write_sink (Syslog debug_priority) msg d else d)
     in if flag_check (db_output d) DEBUG_OUTPUT_FILE
        then case db_file d of None \<Rightarrow> Inl NullDeref
             | Some f \<Rightarrow> Inr (length (debug_line time pid msg d), write_sink (Stream f) (debug_line time pid msg d) d)
        else Inr (ret, d))"

definition debug_log_open_syslog :: "debug \<Rightarrow> debug" where
  "debug_log_open_syslog d = d\<lparr>db_output := flag_set (db_output d) DEBUG_OUTPUT_SYSLOG\<rparr>"

definition debug_log_close_syslog :: "debug \<Rightarrow> debug" where
  "debug_log_close_syslog d = d\<lparr>db_output := flag_clear (db_output d) DEBUG_OUTPUT_SYSLOG\<rparr>"

text \<open>\<open>fopen\<close> and \<open>fclose\<close>; the result of \<open>fopen\<close> is given.\<close>

definition close_file :: "debug \<Rightarrow> debug" where
  "close_file d = (case db_file d of None \<Rightarrow> d | Some f \<Rightarrow> d\<lparr>db_open := remove1 f (db_open d)\<rparr>)"

definition open_file :: "nat option \<Rightarrow> debug \<Rightarrow> debug" where
  "open_file fp d = d\<lparr>db_file := fp, db_open := db_open d @ (case fp of None \<Rightarrow> [] | Some f \<Rightarrow> [f])\<rparr>"

definition debug_log_open_file :: "nat option \<Rightarrow> string option \<Rightarrow> debug \<Rightarrow> debug" where
  "debug_log_open_file fp filename d = (case filename of None \<Rightarrow> d
     | Some name \<Rightarrow> if name = [] then d
       else let d = d\<lparr>db_output := flag_set (db_output d) DEBUG_OUTPUT_FILE\<rparr>;
                d = d\<lparr>db_filename := Some name\<rparr>
            in open_file fp (close_file d))"

definition debug_log_close_file :: "debug \<Rightarrow> debug" where
  "debug_log_close_file d =
    (let d = d\<lparr>db_output := flag_clear (db_output d) DEBUG_OUTPUT_FILE\<rparr>;
         d = d\<lparr>db_filename := None\<rparr>
     in (close_file d)\<lparr>db_file := None\<rparr>)"

definition debug_log_rotate_file :: "nat option \<Rightarrow> debug \<Rightarrow> debug" where
  "debug_log_rotate_file fp d =
    (if \<not> flag_check (db_output d) DEBUG_OUTPUT_FILE then d
     else let d = close_file d
          in if db_filename d \<noteq> None then open_file fp d else d\<lparr>db_file := None\<rparr>)"

definition set_config :: "nat \<Rightarrow> (u64 \<Rightarrow> u64) \<Rightarrow> debug \<Rightarrow> debug" where
  "set_config cate f d = d\<lparr>db_config := (db_config d)[cate := f (db_config d ! cate)]\<rparr>"

text \<open>The name of the program without its directories, unless nothing is left.\<close>

definition debug_log_init :: "string option \<Rightarrow> debug \<Rightarrow> debug" where
  "debug_log_init progname d =
    (let d = (case progname of None \<Rightarrow> d
           | Some name \<Rightarrow>
             let p = (if CHR ''/'' \<in> set name then Some (rev (takeWhile (\<lambda>c. c \<noteq> CHR ''/'') (rev name))) else None)
             in d\<lparr>db_ident := (case p of Some (c # s) \<Rightarrow> c # s | _ \<Rightarrow> name)\<rparr>);
         d = set_config DEBUG_DEFAULT (\<lambda>v. flag_set v DEBUG_DEFAULT_LOGGING) d
     in set_config DEBUG_DEFAULT (\<lambda>v. flag_set v DEBUG_DEFAULT_BACKTRACE) d)"

text \<open>\<open>DEBUG_LOG\<close>: a line is logged when its type is on in its category.\<close>

definition DEBUG_LOG :: "nat \<Rightarrow> u64 \<Rightarrow> string \<Rightarrow> int \<Rightarrow> string \<Rightarrow> debug \<Rightarrow> debug res" where
  "DEBUG_LOG cate type time pid msg d =
    (if flag_check (db_config d ! cate) type then bindr (debug_vlog time pid msg d) (\<lambda>(ret, d). Inr d) else Inr d)"

section \<open>The commands for the log\<close>

definition enabled :: "u64 \<Rightarrow> debug \<Rightarrow> string" where
  "enabled f d = (if flag_check (db_output d) f then ''enabled'' else ''disabled'')"

definition show_logging :: "(nat \<Rightarrow> u64) \<Rightarrow> debug \<Rightarrow> 'z shell_scheme \<Rightarrow> 'z shell_scheme res" where
  "show_logging addr d sh = print_term
    (''log: syslog: '' @ enabled DEBUG_OUTPUT_SYSLOG d @ sh_nl sh @
     ''log: file: '' @ enabled DEBUG_OUTPUT_FILE d @ sh_nl sh @
     (case db_filename d of None \<Rightarrow> [] | Some name \<Rightarrow> ''log: file: filename: '' @ name @ '' fp: '' @
        ptr_word (case db_file d of None \<Rightarrow> 0 | Some f \<Rightarrow> addr f) @ sh_nl sh) @
     ''log: stdout: '' @ enabled DEBUG_OUTPUT_STDOUT d @ sh_nl sh @
     ''log: stderr: '' @ enabled DEBUG_OUTPUT_STDERR d @ sh_nl sh) sh"

text \<open>A leading \<open>no\<close>, and the rest of the words.\<close>

definition strip_no :: "string list \<Rightarrow> bool \<times> string list" where
  "strip_no argv = (if argv \<noteq> [] \<and> hd argv = ''no'' then (True, tl argv) else (False, argv))"

definition set_output :: "bool \<Rightarrow> u64 \<Rightarrow> debug \<Rightarrow> debug" where
  "set_output negate f d = d\<lparr>db_output := (if negate then flag_clear (db_output d) f else flag_set (db_output d) f)\<rparr>"

definition log_cmd :: "string list \<Rightarrow> debug \<Rightarrow> debug res" where
  "log_cmd argv d =
    (let (negate, argv) = strip_no argv
     in guardr (1 < length argv) OutOfBounds
       (if argv ! 1 = ''syslog'' then Inr (set_output negate DEBUG_OUTPUT_SYSLOG d)
        else if argv ! 1 = ''stdout'' then Inr (set_output negate DEBUG_OUTPUT_STDOUT d)
        else if argv ! 1 = ''stderr'' then Inr (set_output negate DEBUG_OUTPUT_STDERR d)
        else Inr d))"

definition log_file_cmd :: "nat option \<Rightarrow> string list \<Rightarrow> debug \<Rightarrow> debug res" where
  "log_file_cmd fp argv d = guardr (2 < length argv) OutOfBounds (Inr (debug_log_open_file fp (Some (argv ! 2)) d))"

definition no_log_file_cmd :: "debug \<Rightarrow> debug" where
  "no_log_file_cmd = debug_log_close_file"

section \<open>The older log\<close>

record loginfo =
  li_flags :: u32
  li_facility :: int
  li_maskpri :: int
  li_fp :: "nat option"

definition LOGINFO_FILE :: u32 where "LOGINFO_FILE = 0x01"
definition LOGINFO_STDOUT :: u32 where "LOGINFO_STDOUT = 0x02"
definition LOGINFO_STDERR :: u32 where "LOGINFO_STDERR = 0x04"
definition LOGINFO_SYSLOG :: u32 where "LOGINFO_SYSLOG = 0x08"

text \<open>The facility \<open>LOG_DAEMON\<close> is 24, the priorities are those of \<open>syslog\<close>.\<close>

definition log_default :: loginfo where
  "log_default = \<lparr>li_flags = LOGINFO_STDOUT, li_facility = 24, li_maskpri = 6, li_fp = None\<rparr>"

definition log_getmask :: "loginfo \<Rightarrow> int" where "log_getmask l = li_maskpri l"

definition log_setmask :: "int \<Rightarrow> loginfo \<Rightarrow> loginfo" where "log_setmask m l = l\<lparr>li_maskpri := m\<rparr>"

definition time_printbuf :: "string option \<Rightarrow> string" where
  "time_printbuf st = (case st of None \<Rightarrow> ''TIME Error'' | Some s \<Rightarrow> s)"

text \<open>The priority and the facility have no bit in common, so that their sum is their disjunction.\<close>

definition vlog :: "string option \<Rightarrow> int \<Rightarrow> string \<Rightarrow> loginfo \<Rightarrow> (sink \<times> string) list res" where
  "vlog st priority msg l =
    (let line = time_printbuf st @ '' '' @ msg @ [CHR ''\<newline>'']; on = (\<lambda>f. li_flags l AND f \<noteq> 0)
     in if li_maskpri l < priority then Inr []
        else bindr (if on LOGINFO_FILE then (case li_fp l of None \<Rightarrow> Inl NullDeref | Some f \<Rightarrow> Inr [(Stream f, line)]) else Inr [])
          (\<lambda>file. Inr ((if on LOGINFO_SYSLOG then [(Syslog (priority + li_facility l), msg)] else []) @ file @
             (if on LOGINFO_STDOUT then [(Stdout, line)] else []) @ (if on LOGINFO_STDERR then [(Stderr, line)] else []))))"

definition log_debug :: "string option \<Rightarrow> string \<Rightarrow> loginfo \<Rightarrow> (sink \<times> string) list res" where "log_debug t = vlog t 7"
definition log_info :: "string option \<Rightarrow> string \<Rightarrow> loginfo \<Rightarrow> (sink \<times> string) list res" where "log_info t = vlog t 6"
definition log_notice :: "string option \<Rightarrow> string \<Rightarrow> loginfo \<Rightarrow> (sink \<times> string) list res" where "log_notice t = vlog t 5"
definition log_warn :: "string option \<Rightarrow> string \<Rightarrow> loginfo \<Rightarrow> (sink \<times> string) list res" where "log_warn t = vlog t 4"

section \<open>The commands for debugging\<close>

type_synonym debug_type = "u64 \<times> string"

definition debug_zcmdsh_types :: "debug_type list" where
  "debug_zcmdsh_types =
    [(0x1, ''shell''), (0x2, ''command''), (0x4, ''pager''), (0x8, ''timer''),
     (0x10, ''unicode''), (0x20, ''termio''), (0x40, ''telnet'')]"

definition debug_sdplane_types :: "debug_type list" where
  "debug_sdplane_types =
    [(0x1, ''lthread''), (0x2, ''console''), (0x4, ''tap-handler''), (0x8, ''l2fwd''),
     (0x10, ''l3fwd''), (0x20, ''vty-server''), (0x40, ''vty-shell''), (0x80, ''telnet-opt''),
     (0x100, ''stat-collector''), (0x200, ''sched''), (0x400, ''vty''), (0x800, ''packet''),
     (0x1000, ''fdb''), (0x2000, ''fdb-change''), (0x4000, ''rcu-read''), (0x8000, ''rcu-write''),
     (0x10000, ''l2-repeater''), (0x20000, ''thread''), (0x40000, ''rib''), (0x80000, ''vswitch''),
     (0x100000, ''all''), (0x200000, ''rib-message''), (0x400000, ''rib-check''), (0x800000, ''internal-message''),
     (0x1000000, ''nettlp'')]"

text \<open>
  The specification and the help of the command of a category. The pieces are printed one after
  the other; a piece that starts behind the end of the buffer is a fault.
\<close>

fun pieces_into :: "nat \<Rightarrow> string list \<Rightarrow> string \<Rightarrow> string res" where
  "pieces_into bufsize [] buf = Inr (take (bufsize - 1) buf)"
| "pieces_into bufsize (p # ps) buf = guardr (length buf \<le> bufsize) BufferOverflow (pieces_into bufsize ps (buf @ p))"

fun barred :: "debug_type list \<Rightarrow> string list" where
  "barred [] = []"
| "barred [t] = [snd t]"
| "barred (t # ts) = (snd t @ ''|'') # barred ts"

definition debug_cmdstr_init :: "string \<Rightarrow> nat \<Rightarrow> debug_type list \<Rightarrow> string res" where
  "debug_cmdstr_init cate bufsize types =
    pieces_into bufsize ([''(|no) '', ''debug '', cate @ '' ''] @ (if 1 < length types then [''('' ] else []) @ barred types @
      (if 1 < length types then ['')''] else [])) []"

definition debug_helpstr_init :: "string \<Rightarrow> nat \<Rightarrow> debug_type list \<Rightarrow> string res" where
  "debug_helpstr_init cate bufsize types =
    pieces_into bufsize ([''disable command.'' @ [CHR ''\<newline>''], ''debug command.'' @ [CHR ''\<newline>''], ''debug '' @ cate @ ''.'' @ [CHR ''\<newline>'']] @
      map (\<lambda>t. ''debug '' @ cate @ '' '' @ snd t @ '' item.'' @ [CHR ''\<newline>'']) types) []"

definition set_item :: "bool \<Rightarrow> u64 \<Rightarrow> u64 \<Rightarrow> u64" where
  "set_item negate f v = (if negate then flag_clear v f else flag_set v f)"

text \<open>The loop over the types of a category; \<open>say\<close> is what is printed for a type that has the name.\<close>

fun debug_items ::
  "(debug_type \<Rightarrow> string) \<Rightarrow> bool \<Rightarrow> nat \<Rightarrow> string \<Rightarrow> debug_type list \<Rightarrow> debug \<times> 'z shell_scheme \<Rightarrow> (debug \<times> 'z shell_scheme) res" where
  "debug_items say negate cate word [] (d, sh) = Inr (d, sh)"
| "debug_items say negate cate word (t # ts) (d, sh) =
    (if word = snd t
     then bindr (print_term (say t) sh) (\<lambda>sh. debug_items say negate cate word ts (set_config cate (set_item negate (fst t)) d, sh))
     else debug_items say negate cate word ts (d, sh))"

definition able :: "bool \<Rightarrow> string" where
  "able negate = (if negate then ''disabled'' else ''enabled'')"

definition debug_zcmdsh_func :: "string list \<Rightarrow> debug \<times> 'z shell_scheme \<Rightarrow> (debug \<times> 'z shell_scheme) res" where
  "debug_zcmdsh_func argv = (\<lambda>(d, sh).
    let (negate, argv) = strip_no argv
    in guardr (2 < length argv) OutOfBounds
      (debug_items (\<lambda>t. ''debug: '' @ snd t @ '': '' @ able negate @ ''.'' @ sh_nl sh) negate DEBUG_ZCMDSH (argv ! 2)
        debug_zcmdsh_types (d, sh)))"

text \<open>\<open>%#x\<close> of the low 32 bits of a flag.\<close>

definition hex_flag :: "u64 \<Rightarrow> string" where
  "hex_flag f = (if (ucast f :: u32) = 0 then ''0'' else ''0x'' @ hex_word (ucast f :: u32))"

definition debug_sdplane_func :: "string list \<Rightarrow> debug \<times> 'z shell_scheme \<Rightarrow> (debug \<times> 'z shell_scheme) res" where
  "debug_sdplane_func argv = (\<lambda>(d, sh).
    let (negate, argv) = strip_no argv
    in guardr (2 < length argv) OutOfBounds
      (if argv ! 2 = ''all''
       then (if negate
             then bindr (print_term (''debug: sdplane: disable all.'' @ sh_nl sh) sh) (\<lambda>sh. Inr (set_config DEBUG_SDPLANE (\<lambda>_. 0) d, sh))
             else bindr (print_term (''debug: sdplane: enable all.'' @ sh_nl sh) sh)
               (\<lambda>sh. Inr (set_config DEBUG_SDPLANE (\<lambda>v. flag_set v 0xFFFFFFFFFFFFFFFF) d, sh)))
       else debug_items (\<lambda>t. ''debug: sdplane '' @ snd t @ '' ('' @ hex_flag (fst t) @ ''): '' @ able negate @ ''.'' @ sh_nl sh)
              negate DEBUG_SDPLANE (argv ! 2) debug_sdplane_types (d, sh)))"

definition show_debugging :: "string \<Rightarrow> nat \<Rightarrow> debug_type list \<Rightarrow> debug \<Rightarrow> string \<Rightarrow> string" where
  "show_debugging name cate types d nl = concat (map (\<lambda>t. ''debug: '' @ name @ '': '' @ snd t @ '': '' @
     (if flag_check (db_config d ! cate) (fst t) then ''on'' else ''off'') @ ''.'' @ nl) types)"

definition show_debug_zcmdsh :: "debug \<Rightarrow> 'z shell_scheme \<Rightarrow> 'z shell_scheme res" where
  "show_debug_zcmdsh d sh = print_term (show_debugging ''zcmdsh'' DEBUG_ZCMDSH debug_zcmdsh_types d (sh_nl sh)) sh"

definition show_debug_sdplane :: "debug \<Rightarrow> 'z shell_scheme \<Rightarrow> 'z shell_scheme res" where
  "show_debug_sdplane d sh = print_term (show_debugging ''sdplane'' DEBUG_SDPLANE debug_sdplane_types d (sh_nl sh)) sh"

text \<open>The specification and the help of the two commands, in buffers of 2048 and 8192 characters.\<close>

definition debug_zcmdsh_cmd_init :: "(string \<times> string) res" where
  "debug_zcmdsh_cmd_init = bindr (debug_cmdstr_init ''zcmdsh'' 2048 debug_zcmdsh_types) (\<lambda>c.
     bindr (debug_helpstr_init ''zcmdsh'' 8192 debug_zcmdsh_types) (\<lambda>h. Inr (c, h)))"

definition debug_sdplane_cmd_init :: "(string \<times> string) res" where
  "debug_sdplane_cmd_init = bindr (debug_cmdstr_init ''sdplane'' 2048 debug_sdplane_types) (\<lambda>c.
     bindr (debug_helpstr_init ''sdplane'' 8192 debug_sdplane_types) (\<lambda>h. Inr (c, h)))"

section \<open>What the command of a category spells\<close>

text \<open>A word without the characters that have a meaning in a specification.\<close>

definition plain_word :: "string \<Rightarrow> bool" where
  "plain_word w \<longleftrightarrow> w \<noteq> [] \<and> set w \<inter> {CHR '' '', CHR ''('', CHR ''|'', CHR '')''} = {}"

lemma plain_alternatives: "plain_word w \<Longrightarrow> alternatives w = [w]"
proof -
  assume "plain_word w"
  then have "CHR ''('' \<notin> set w" "CHR ''|'' \<notin> set w" "CHR '')'' \<notin> set w" by (auto simp: plain_word_def)
  moreover have tw: "takeWhile (\<lambda>x. x \<noteq> CHR '')'') w = w" by (rule takeWhile_eq_all_conv [THEN iffD2]) (use calculation in blast)
  ultimately show ?thesis by (simp add: alternatives_def after_char_def split_on_word tw)
qed

lemma barred_split:
  "types \<noteq> [] \<Longrightarrow> \<forall>t\<in>set types. CHR ''|'' \<notin> set (snd t) \<Longrightarrow> split_on (CHR ''|'') (concat (barred types)) = map snd types"
  by (induction types rule: barred.induct) (simp_all add: split_on_word split_on_append)

lemma barred_set: "set (concat (barred types)) \<subseteq> insert (CHR ''|'') (\<Union>t\<in>set types. set (snd t))"
  by (induction types rule: barred.induct) auto

lemma barred_alternatives:
  assumes "types \<noteq> []" "\<forall>t\<in>set types. plain_word (snd t)"
  shows "alternatives (CHR ''('' # concat (barred types) @ '')'') = map snd types"
    "CHR '' '' \<notin> set (concat (barred types))"
proof -
  let ?s = "concat (barred types)"
  have c: "\<forall>c\<in>set ?s. c \<noteq> CHR '')'' \<and> c \<noteq> CHR '' ''"
    using barred_set [of types] assms(2) by (fastforce simp: plain_word_def)
  then show "CHR '' '' \<notin> set ?s" by blast
  have tw: "takeWhile (\<lambda>x. x \<noteq> CHR '')'') (?s @ '')'') = ?s" by (rule takeWhile_stop) (use c in auto)
  have "\<forall>t\<in>set types. CHR ''|'' \<notin> set (snd t)" using assms(2) by (auto simp: plain_word_def)
  from barred_split [OF assms(1) this] show "alternatives (CHR ''('' # ?s @ '')'') = map snd types"
    by (simp add: alternatives_def after_char_def tw)
qed

text \<open>The specification as one text, and the commands it spells.\<close>

definition debug_spec :: "string \<Rightarrow> debug_type list \<Rightarrow> string" where
  "debug_spec cate types = ''(|no) debug '' @ cate @ '' ('' @ concat (barred types) @ '')''"

lemma debug_spec_words:
  assumes "plain_word cate" "types \<noteq> []" "\<forall>t\<in>set types. plain_word (snd t)"
  shows "split_on (CHR '' '') (debug_spec cate types) = [''(|no)'', ''debug'', cate, CHR ''('' # concat (barred types) @ '')'']"
proof -
  have "CHR '' '' \<notin> set cate" using assms(1) by (auto simp: plain_word_def)
  moreover have "CHR '' '' \<notin> set (CHR ''('' # concat (barred types) @ '')'')" using barred_alternatives(2) [OF assms(2,3)] by simp
  moreover have "debug_spec cate types = ''(|no)'' @ CHR '' '' # ''debug'' @ CHR '' '' # cate @ CHR '' '' #
      (CHR ''('' # concat (barred types) @ '')'')" by (simp add: debug_spec_def)
  ultimately show ?thesis
    by (simp only: split_on_append split_on_word) (simp add: split_on_append split_on_word)
qed

lemma extend_one: "w \<noteq> [] \<Longrightarrow> extend_paths [w] ps = map (\<lambda>p. p @ [w]) ps"
  by (simp add: extend_paths_def)

lemma extend_pair:
  "\<forall>t\<in>set types. snd t \<noteq> [] \<Longrightarrow> extend_paths (map snd types) [p, q] = concat (map (\<lambda>t. [p @ [snd t], q @ [snd t]]) types)"
  by (induction types) (simp_all add: extend_paths_def)

lemma debug_spec_spelled:
  assumes "plain_word cate" "types \<noteq> []" "\<forall>t\<in>set types. plain_word (snd t)"
  shows "spelled (debug_spec cate types) =
      concat (map (\<lambda>t. [[''debug'', cate, snd t], [''no'', ''debug'', cate, snd t]]) types)"
    and "distinct (map snd types) \<Longrightarrow> unambiguous (split_on (CHR '' '') (debug_spec cate types)) [[]]"
proof -
  note w = debug_spec_words [OF assms] barred_alternatives(1) [OF assms(2,3)] plain_alternatives [OF assms(1)]
  have no: "alternatives ''(|no)'' = [[], ''no'']" "alternatives ''debug'' = [''debug'']"
    by (simp_all add: alternatives_def after_char_def)
  have ne: "cate \<noteq> []" using assms(1) by (simp add: plain_word_def)
  note one = extend_one [of "''debug''"] extend_one [OF ne]
  have ext: "extend_paths (map snd types) [[''debug'', cate], [''no'', ''debug'', cate]] =
      concat (map (\<lambda>t. [[''debug'', cate, snd t], [''no'', ''debug'', cate, snd t]]) types)"
    using extend_pair [of types "[''debug'', cate]" "[''no'', ''debug'', cate]"] assms(3) by (simp add: plain_word_def)
  have start: "extend_paths [[], ''no''] [[]] = [[], [''no'']]" by (simp add: extend_paths_def)
  show "spelled (debug_spec cate types) =
      concat (map (\<lambda>t. [[''debug'', cate, snd t], [''no'', ''debug'', cate, snd t]]) types)"
    by (simp add: spelled_def w no start one ext)
  have "distinct (map snd types) \<Longrightarrow> distinct (concat (map (\<lambda>t. [[''debug'', cate, snd t], [''no'', ''debug'', cate, snd t]]) types))"
    by (induction types) auto
  then show "distinct (map snd types) \<Longrightarrow> unambiguous (split_on (CHR '' '') (debug_spec cate types)) [[]]"
    by (simp add: w no start one ext)
qed

lemma pieces_fit: "length buf + length (concat ps) < n \<Longrightarrow> pieces_into n ps buf = Inr (buf @ concat ps)"
  by (induction ps arbitrary: buf) auto

lemma debug_cmdstr_value:
  assumes "1 < length types" "length (debug_spec cate types) < n"
  shows "debug_cmdstr_init cate n types = Inr (debug_spec cate types)"
  unfolding debug_cmdstr_init_def
  using assms by (subst pieces_fit) (simp_all add: debug_spec_def)

text \<open>The tables: names without special characters, no name twice, and one bit each.\<close>

lemma debug_names:
  "\<forall>t\<in>set debug_sdplane_types. plain_word (snd t)" "\<forall>t\<in>set debug_zcmdsh_types. plain_word (snd t)"
  by (simp_all add: debug_sdplane_types_def debug_zcmdsh_types_def plain_word_def)

lemma debug_distinct: "distinct (map snd debug_sdplane_types)" "distinct (map snd debug_zcmdsh_types)"
  by (simp_all add: debug_sdplane_types_def debug_zcmdsh_types_def)

lemma debug_bits: "map fst debug_sdplane_types = map (\<lambda>i. 2 ^ i) [0..<25]"
  "map fst debug_zcmdsh_types = map (\<lambda>i. 2 ^ i) [0..<7]"
  by (simp_all add: debug_sdplane_types_def debug_zcmdsh_types_def upt_rec)

lemma debug_spec_fits: "length (debug_spec ''sdplane'' debug_sdplane_types) < 2048" "length (debug_spec ''zcmdsh'' debug_zcmdsh_types) < 2048"
  by (simp_all add: debug_spec_def debug_sdplane_types_def debug_zcmdsh_types_def)

lemma debug_help_fits: "\<exists>h. debug_helpstr_init ''sdplane'' 8192 debug_sdplane_types = Inr h"
  "\<exists>h. debug_helpstr_init ''zcmdsh'' 8192 debug_zcmdsh_types = Inr h"
  unfolding debug_helpstr_init_def
  by (subst pieces_fit; simp add: debug_sdplane_types_def debug_zcmdsh_types_def)+

lemma items_none:
  "word \<notin> snd ` set types \<Longrightarrow> debug_items say negate cate word types (d, sh) = Inr (d, sh)"
  by (induction types) auto

lemma items_one:
  assumes "distinct (map snd types)" "(flag, word) \<in> set types" "sh_open sh"
  shows "debug_items say negate cate word types (d, sh) =
    Inr (set_config cate (set_item negate flag) d, sh\<lparr>sh_term := sh_term sh @ say (flag, word)\<rparr>)"
  using assms(1,2)
proof (induction types)
  case Nil
  from Nil(2) show ?case by (simp only: list.set empty_iff)
next
  case (Cons t ts)
  show ?case
  proof (cases "word = snd t")
    case True
    have "word \<notin> snd ` set ts" using Cons.prems(1) True by simp
    moreover from this have "(flag, word) \<notin> set ts" by force
    ultimately have "t = (flag, word)" "word \<notin> snd ` set ts" using Cons.prems(2) by auto
    then show ?thesis using assms(3) items_none [of word ts] by (simp add: print_term_def)
  next
    case False
    then have "(flag, word) \<in> set ts" using Cons.prems(2) by auto
    with False Cons.IH Cons.prems(1) show ?thesis by simp
  qed
qed

lemma flag_check_bit: "n < 64 \<Longrightarrow> flag_check v (2 ^ n) = bit v n" for v :: u64
proof -
  assume n: "n < 64"
  have "bit (v AND 2 ^ n) m \<longleftrightarrow> m = n \<and> bit v n" for m using n by (auto simp: bit_simps)
  then have "v AND 2 ^ n = 0 \<longleftrightarrow> \<not> bit v n" by (metis bit_eqI bit_0_eq bot_apply bot_bool_def)
  then show ?thesis by (simp add: flag_check_def)
qed

lemma set_item_bit: "i < 64 \<Longrightarrow> j < 64 \<Longrightarrow>
    flag_check (set_item negate (2 ^ i) v) (2 ^ j) = (if i = j then \<not> negate else flag_check v (2 ^ j))" for v :: u64
  by (auto simp: flag_check_bit set_item_def flag_set_def flag_clear_def bit_simps)

lemma table_entry: "i < 25 \<Longrightarrow> (2 ^ i, snd (debug_sdplane_types ! i)) \<in> set debug_sdplane_types"
proof -
  assume i: "i < 25"
  have len: "length debug_sdplane_types = 25" by (simp add: debug_sdplane_types_def)
  have "map fst debug_sdplane_types ! i = 2 ^ i" using i by (simp add: debug_bits(1))
  then have "debug_sdplane_types ! i = (2 ^ i, snd (debug_sdplane_types ! i))"
    using i len by (simp add: prod_eq_iff)
  then show ?thesis using i len by (metis nth_mem)
qed

lemma sdplane_init_value: "\<exists>helps. debug_sdplane_cmd_init = Inr (debug_spec ''sdplane'' debug_sdplane_types, helps)"
  using debug_help_fits(1) debug_cmdstr_value [OF _ debug_spec_fits(1)]
  by (auto simp: debug_sdplane_cmd_init_def) (simp add: debug_sdplane_types_def)

lemma debug_ignores:
  "w \<notin> snd ` set debug_sdplane_types \<Longrightarrow> debug_sdplane_func [''debug'', ''sdplane'', w] (d, sh) = Inr (d, sh)"
  "debug_sdplane_func [''n'', ''debug'', ''sdplane'', w] (d, sh) = Inr (d, sh)"
proof -
  have "''all'' \<in> snd ` set debug_sdplane_types" "''sdplane'' \<notin> snd ` set debug_sdplane_types"
    by (simp_all add: debug_sdplane_types_def)
  then show "w \<notin> snd ` set debug_sdplane_types \<Longrightarrow> debug_sdplane_func [''debug'', ''sdplane'', w] (d, sh) = Inr (d, sh)"
    "debug_sdplane_func [''n'', ''debug'', ''sdplane'', w] (d, sh) = Inr (d, sh)"
    using items_none [of w debug_sdplane_types] items_none [of "''sdplane''" debug_sdplane_types]
    by (auto simp: debug_sdplane_func_def strip_no_def)
qed

text \<open>
  C39: The command for debugging switches one item. Its specification is built from the table of the
  types and fits the buffers; once it is installed, the line \<open>debug sdplane\<close> with a name of the table, and the same
  after \<open>no\<close>, runs it, and it sets or clears the bit of that name and no other bit of any category. A word that is
  not a name as it stands in the table, such as an abbreviation the command tree accepts, and an abbreviated \<open>no\<close> change nothing and are not reported.
\<close>

theorem debug_switches_item:
  assumes "tree_ok cs" "permutes_list qsort" "sh_open sh" "length (db_config d) = DEBUG_CATEGORY_MAX"
    and "i < 25" "name = snd (debug_sdplane_types ! i)" "name \<noteq> ''all''"
    and "words = (if negate then [''no''] else []) @ [''debug'', ''sdplane'', name]"
  shows "(\<exists>line helps cs' d' sh'. debug_sdplane_cmd_init = Inr (line, helps) \<and>
      command_install2 qsort line helps f cs = Inr cs' \<and>
      command_execute y (unwords words) cs' = Some (f, map Some words) \<and>
      debug_sdplane_func words (d, sh) = Inr (d', sh') \<and>
      (flag_check (db_config d' ! DEBUG_SDPLANE) (2 ^ i) \<longleftrightarrow> \<not> negate) \<and>
      (\<forall>j<64. j \<noteq> i \<longrightarrow> flag_check (db_config d' ! DEBUG_SDPLANE) (2 ^ j) = flag_check (db_config d ! DEBUG_SDPLANE) (2 ^ j)) \<and>
      d' = d\<lparr>db_config := (db_config d)[DEBUG_SDPLANE := db_config d' ! DEBUG_SDPLANE]\<rparr>) \<and>
    (\<forall>w. w \<notin> snd ` set debug_sdplane_types \<longrightarrow> debug_sdplane_func [''debug'', ''sdplane'', w] (d, sh) = Inr (d, sh)) \<and>
    (\<forall>w. debug_sdplane_func [''n'', ''debug'', ''sdplane'', w] (d, sh) = Inr (d, sh))"
proof -
  note entry = table_entry [OF assms(5), folded assms(6)]
  let ?line = "debug_spec ''sdplane'' debug_sdplane_types"
  have types: "debug_sdplane_types \<noteq> []" "plain_word ''sdplane''" by (simp_all add: debug_sdplane_types_def plain_word_def)
  note spec = debug_spec_spelled [OF types(2,1) debug_names(1)]
  obtain helps where init: "debug_sdplane_cmd_init = Inr (?line, helps)" using sdplane_init_value by blast
  from install2_outcome [OF assms(1,2), of ?line helps f] spec(2) [OF debug_distinct(1)] obtain cs' where
    cs': "command_install2 qsort ?line helps f cs = Inr cs'" "tree_ok cs'"
      "func_at cs' = (\<lambda>q. if q \<in> set (spelled ?line) then Some f else func_at cs q)" by auto
  have "words \<in> set (spelled ?line)" unfolding spec(1) using entry assms(8) by (auto intro!: bexI [OF _ entry])
  then have "func_at cs' words = Some f" using cs'(3) by simp
  moreover have "plain_word name" using entry debug_names(1) by force
  moreover have "\<not> takes_rest name"
    using entry by (auto simp: debug_sdplane_types_def takes_rest_def line_spec_def file_spec_def)
  ultimately have run: "command_execute y (unwords words) cs' = Some (f, map Some words)"
    using assms(8) by (intro execute_spelled [OF cs'(2)]) (auto simp: plain_word_def takes_rest_def line_spec_def file_spec_def)
  let ?d = "set_config DEBUG_SDPLANE (set_item negate (2 ^ i)) d"
  have strip: "strip_no words = (negate, [''debug'', ''sdplane'', name])" using assms(8) by (simp add: strip_no_def)
  obtain sh' where act: "debug_sdplane_func words (d, sh) = Inr (?d, sh')"
    using items_one [OF debug_distinct(1) entry assms(3)] assms(7) by (simp add: debug_sdplane_func_def strip)
  have upd: "db_config ?d ! DEBUG_SDPLANE = set_item negate (2 ^ i) (db_config d ! DEBUG_SDPLANE)"
    using assms(4) by (simp add: set_config_def debug_categories)
  show ?thesis
    using init cs'(1) run act upd debug_ignores [of _ d sh] set_item_bit [of i _ negate] assms(5)
    by (intro conjI exI [of _ ?line] exI [of _ helps] exI [of _ cs'] exI [of _ ?d] exI [of _ sh']) (simp_all add: set_config_def)
qed

theorem debug_switches_item_witness:
  "\<exists>d' sh'. debug_sdplane_func [''no'', ''debug'', ''sdplane'', ''rib''] (debug_start, shell_set_terminal True 3 3 (shell_create True ())) = Inr (d', sh') \<and>
     \<not> flag_check (db_config d' ! DEBUG_SDPLANE) (2 ^ 18)"
proof -
  have "snd (debug_sdplane_types ! 18) = ''rib''" by (simp add: debug_sdplane_types_def)
  moreover have "sh_open (shell_set_terminal True 3 3 (shell_create True ()))" by (simp add: shell_set_terminal_def)
  moreover have "permutes_list id" by (simp add: permutes_list_def)
  ultimately show ?thesis
    using debug_switches_item [OF tree_create(1), of id "shell_set_terminal True 3 3 (shell_create True ())" debug_start 18
        "''rib''" "[''no'', ''debug'', ''sdplane'', ''rib'']" True "7 :: nat" no_system]
    by (simp add: debug_start_def) blast
qed

section \<open>The file of the log\<close>

text \<open>What happens to the log: a command, a rotation (with the result of \<open>fopen\<close>), or a line.\<close>

datatype log_event =
    Log_cmd "string list"
  | Log_file "nat option" string
  | No_log_file
  | Rotate "nat option"
  | Log_line string int string

fun log_step :: "log_event \<Rightarrow> debug \<Rightarrow> debug res" where
  "log_step (Log_cmd argv) d = log_cmd argv d"
| "log_step (Log_file fp name) d = log_file_cmd fp [''log'', ''file'', name] d"
| "log_step No_log_file d = Inr (no_log_file_cmd d)"
| "log_step (Rotate fp) d = Inr (debug_log_rotate_file fp d)"
| "log_step (Log_line time pid msg) d = bindr (debug_vlog time pid msg d) (\<lambda>(ret, d). Inr d)"

text \<open>Opening the file fails.\<close>

fun open_fails :: "log_event \<Rightarrow> bool" where
  "open_fails (Log_file fp name) \<longleftrightarrow> fp = None"
| "open_fails (Rotate fp) \<longleftrightarrow> fp = None"
| "open_fails e \<longleftrightarrow> False"

text \<open>The stream of the log is the only open one, and a file that is logged to has a name.\<close>

definition log_ok :: "debug \<Rightarrow> bool" where
  "log_ok d \<longleftrightarrow> db_open d = (case db_file d of None \<Rightarrow> [] | Some f \<Rightarrow> [f]) \<and>
     (flag_check (db_output d) DEBUG_OUTPUT_FILE \<longleftrightarrow> db_filename d \<noteq> None) \<and>
     (db_filename d = None \<longrightarrow> db_file d = None)"

definition log_ready :: "debug \<Rightarrow> bool" where
  "log_ready d \<longleftrightarrow> log_ok d \<and> (db_filename d \<noteq> None \<longrightarrow> db_file d \<noteq> None)"

text \<open>A step whose file opens and whose words are complete.\<close>

fun goes_well :: "log_event \<Rightarrow> bool" where
  "goes_well (Log_cmd argv) \<longleftrightarrow> 1 < length (snd (strip_no argv))"
| "goes_well e \<longleftrightarrow> \<not> open_fails e"

lemma file_flag:
  "flag_check (flag_set v DEBUG_OUTPUT_FILE) DEBUG_OUTPUT_FILE" "\<not> flag_check (flag_clear v DEBUG_OUTPUT_FILE) DEBUG_OUTPUT_FILE"
  "f \<in> {DEBUG_OUTPUT_STDOUT, DEBUG_OUTPUT_STDERR, DEBUG_OUTPUT_SYSLOG} \<Longrightarrow>
    flag_check (if negate then flag_clear v f else flag_set v f) DEBUG_OUTPUT_FILE = flag_check v DEBUG_OUTPUT_FILE"
proof -
  have n: "DEBUG_OUTPUT_FILE = 2 ^ 3" by (simp add: debug_outputs)
  note b = set_item_bit [of _ 3, folded n, unfolded set_item_def]
  show "flag_check (flag_set v DEBUG_OUTPUT_FILE) DEBUG_OUTPUT_FILE" "\<not> flag_check (flag_clear v DEBUG_OUTPUT_FILE) DEBUG_OUTPUT_FILE"
    using b [of 3 False v] b [of 3 True v] unfolding n by simp_all
  have o: "{DEBUG_OUTPUT_STDOUT, DEBUG_OUTPUT_STDERR, DEBUG_OUTPUT_SYSLOG} = {2 ^ 0, 2 ^ 1, 2 ^ 2}"
    by (simp add: debug_outputs)
  assume "f \<in> {DEBUG_OUTPUT_STDOUT, DEBUG_OUTPUT_STDERR, DEBUG_OUTPUT_SYSLOG}"
  then obtain i :: nat where "f = 2 ^ i" "i < 3" unfolding o by (auto intro: that [of 0] that [of 1] that [of 2])
  with b [of i negate v] show "flag_check (if negate then flag_clear v f else flag_set v f) DEBUG_OUTPUT_FILE = flag_check v DEBUG_OUTPUT_FILE"
    by (cases negate) simp_all
qed

lemma log_ok_output: "log_ok (set_output negate f d) = log_ok d" "log_ready (set_output negate f d) = log_ready d" if "f \<in> {DEBUG_OUTPUT_STDOUT, DEBUG_OUTPUT_STDERR, DEBUG_OUTPUT_SYSLOG}"
  using that file_flag(3) [of f negate "db_output d"] by (simp_all add: log_ok_def log_ready_def set_output_def)

lemma vlog_fault: "log_ok d \<Longrightarrow> debug_vlog time pid msg d = Inl f \<longleftrightarrow> f = NullDeref \<and> db_filename d \<noteq> None \<and> db_file d = None"
  by (auto simp: debug_vlog_def log_ok_def write_sink_def Let_def split: option.splits)

lemma vlog_keeps: "debug_vlog time pid msg d = Inr (ret, d') \<Longrightarrow> log_ok d \<Longrightarrow> log_ok d' \<and> (log_ready d \<longrightarrow> log_ready d')"
  by (auto simp: debug_vlog_def Let_def write_sink_def log_ok_def log_ready_def split: if_splits option.splits)

lemma vlog_total: "log_ready d \<Longrightarrow> \<exists>ret d'. debug_vlog time pid msg d = Inr (ret, d')"
  by (auto simp: debug_vlog_def Let_def write_sink_def log_ok_def log_ready_def split: option.splits)

lemma log_file_steps:
  assumes "log_ok d"
  shows "log_ok (debug_log_open_file fp (Some name) d)" "log_ok (debug_log_close_file d)" "log_ok (debug_log_rotate_file fp d)"
    "log_ready (debug_log_close_file d)"
    "log_ready d \<or> name \<noteq> [] \<Longrightarrow> fp \<noteq> None \<Longrightarrow> log_ready (debug_log_open_file fp (Some name) d)"
    "fp \<noteq> None \<Longrightarrow> log_ready d \<Longrightarrow> log_ready (debug_log_rotate_file fp d)"
  using assms
  by (auto simp: debug_log_open_file_def debug_log_close_file_def debug_log_rotate_file_def open_file_def close_file_def
      log_ok_def log_ready_def Let_def file_flag split: option.splits)

lemma log_cmd_steps:
  "log_ok d \<Longrightarrow> log_cmd argv d = Inr d' \<Longrightarrow> log_ok d'"
  "log_ready d \<Longrightarrow> 1 < length (snd (strip_no argv)) \<Longrightarrow> \<exists>d'. log_cmd argv d = Inr d' \<and> log_ready d'"
  using log_ok_output [of _ "fst (strip_no argv)" d]
  by (auto simp: log_cmd_def case_prod_beta guardr_def split: if_splits)

lemma log_step_ok: "log_ok d \<Longrightarrow> log_step e d = Inr d' \<Longrightarrow> log_ok d'"
  by (cases e) (auto simp: log_cmd_steps(1) log_file_cmd_def no_log_file_cmd_def log_file_steps bindr_eq_Inr dest: vlog_keeps)

lemma log_step_ready: "log_ready d \<Longrightarrow> goes_well e \<Longrightarrow> \<exists>d'. log_step e d = Inr d' \<and> log_ready d'"
proof (cases e)
  case (Log_line time pid msg)
  assume r: "log_ready d"
  then obtain ret d' where "debug_vlog time pid msg d = Inr (ret, d')" using vlog_total by blast
  with r vlog_keeps [of time pid msg d ret d'] show ?thesis by (simp add: Log_line log_ready_def)
qed (auto simp: log_cmd_steps(2) log_file_cmd_def no_log_file_cmd_def log_file_steps log_ready_def [of d])

lemma log_runs:
  "log_ok d \<Longrightarrow> runr log_step es d = Inr d' \<Longrightarrow> log_ok d'"
  "log_ready d \<Longrightarrow> \<forall>e\<in>set es. goes_well e \<Longrightarrow> \<exists>d'. runr log_step es d = Inr d' \<and> log_ready d'"
  by (induction es arbitrary: d) (auto simp: bindr_eq_Inr dest: log_step_ok, use log_step_ready in fastforce)

lemma log_start: "log_ready debug_start"
  by (simp add: log_ready_def log_ok_def debug_start_def debug_outputs flag_check_def)

text \<open>
  The log loses no file and stops the program only after a file could not be opened. After any
  sequence of commands, rotations and lines the stream of the log is the only one that is open, so
  every file that was opened and replaced was closed. As long as every file opens, no line fails. A name whose file cannot be
  opened switches the output to the file on all the same, and the next line is written through a null stream.
\<close>

theorem log_file_guarded:
  "(runr log_step es debug_start = Inr d \<longrightarrow>
      db_open d = (case db_file d of None \<Rightarrow> [] | Some f \<Rightarrow> [f]) \<and>
      (log_step (Log_line time pid msg) d = Inl NullDeref \<longleftrightarrow> db_filename d \<noteq> None \<and> db_file d = None) \<and>
      (name \<noteq> [] \<longrightarrow> runr log_step [Log_file None name, Log_line time pid msg] d = Inl NullDeref)) \<and>
   ((\<forall>e\<in>set es. goes_well e) \<longrightarrow> (\<exists>d'. runr log_step es debug_start = Inr d' \<and>
      (\<exists>d''. log_step (Log_line time pid msg) d' = Inr d'')))"
proof (intro conjI impI)
  assume "runr log_step es debug_start = Inr d"
  then have ok: "log_ok d" using log_runs(1) log_start unfolding log_ready_def by blast
  then show "db_open d = (case db_file d of None \<Rightarrow> [] | Some f \<Rightarrow> [f])" by (simp add: log_ok_def)
  show "log_step (Log_line time pid msg) d = Inl NullDeref \<longleftrightarrow> db_filename d \<noteq> None \<and> db_file d = None"
    using vlog_fault [OF ok, of time pid msg NullDeref] by (cases "debug_vlog time pid msg d") auto
  assume "name \<noteq> []"
  then have "db_filename (debug_log_open_file None (Some name) d) \<noteq> None" "db_file (debug_log_open_file None (Some name) d) = None"
    by (auto simp: debug_log_open_file_def open_file_def close_file_def Let_def split: option.split)
  then show "runr log_step [Log_file None name, Log_line time pid msg] d = Inl NullDeref"
    using vlog_fault [OF log_file_steps(1) [OF ok, of None name], of time pid msg NullDeref] by (simp add: log_file_cmd_def)
next
  assume "\<forall>e\<in>set es. goes_well e"
  then show "\<exists>d'. runr log_step es debug_start = Inr d' \<and> (\<exists>d''. log_step (Log_line time pid msg) d' = Inr d'')"
    using log_runs(2) [OF log_start] log_step_ready [of _ "Log_line time pid msg"] by fastforce
qed

theorem log_file_guarded_witness:
  "runr log_step [Log_file (Some 5) ''a.log'', Log_line ''noon'' 1 ''x'', Log_file None ''b.log'', Log_line ''noon'' 1 ''x''] debug_start = Inl NullDeref \<and>
   (\<exists>d'. runr log_step [Log_file (Some 5) ''a.log'', Log_line ''noon'' 1 ''x''] debug_start = Inr d')"
proof -
  let ?es = "[Log_file (Some 5) ''a.log'', Log_line ''noon'' 1 ''x'']"
  have "\<forall>e\<in>set ?es. goes_well e" by simp
  with log_file_guarded [of ?es _ "''noon''" 1 "''x''" "''b.log''"] obtain d where d: "runr log_step ?es debug_start = Inr d" by blast
  with log_file_guarded [of ?es d "''noon''" 1 "''x''" "''b.log''"] have
    "runr log_step [Log_file None ''b.log'', Log_line ''noon'' 1 ''x''] d = Inl NullDeref" by blast
  with d have "runr log_step (?es @ [Log_file None ''b.log'', Log_line ''noon'' 1 ''x'']) debug_start = Inl NullDeref"
    by (simp only: runr_append bindr_simps)
  with d show ?thesis by (simp only: append.simps) blast
qed

end
