(* ===== verification/Command_Table.thy ===== *)
theory Command_Table
  imports Pager Debugging
begin

text \<open>
  The commands of the program and the three shells that have them: the console (\<open>sdplane/console_shell.c\<close>), the terminal
  sessions (\<open>vty_shell.c\<close>) and the startup configuration (\<open>startup_config.c\<close>). An entry is the specification, the help
  and the function of a command, as its \<open>CLI_COMMAND2\<close> or \<open>DEFINE_COMMAND\<close> has them; a shell installs a list of
  entries, in the order of the source, \<open>sdplane_cmd_init\<close> and the others included.
\<close>

section \<open>The entries\<close>

datatype log_command =
    Do_show_logging | Do_log_cmd | Do_log_file_cmd | Do_no_log_file_cmd

datatype debug_command =
    Do_debug_zcmdsh | Do_debug_sdplane | Do_show_debug_zcmdsh | Do_show_debug_sdplane

datatype leave_command =
    Do_exit_cmd | Do_vty_exit_cmd | Do_shutdown_cmd

datatype lcore_command =
    Do_set_worker | Do_start_stop_worker | Do_show_worker

datatype port_command =
    Do_start_stop_port | Do_show_port | Do_show_port_statistics | Do_show_port_promiscuous
   | Do_show_port_flowcontrol | Do_set_port_promiscuous | Do_set_port_flowcontrol | Do_set_port_dev_configure
   | Do_set_port_txrx_desc

datatype general_command =
    Do_show_version | Do_set_l3fwd_argv | Do_show_loop_count | Do_show_rcu | Do_show_fdb | Do_show_vswitch
   | Do_sleep_cmd | Do_show_rib

datatype thread_command =
    Do_show_thread_cmd | Do_show_thread_counter | Do_update_port_link_status | Do_update_port_status
   | Do_set_thread_lcore_port_queue | Do_show_thread_qconf | Do_set_worker_lthread_stat_collector
   | Do_set_worker_lthread_rib_manager

datatype tap_command =
    Do_set_tap_capture_ifname | Do_set_tap_capture_persistent

datatype nettlp_command =
    Do_nettlp_send_dma_write_read | Do_show_nettlp | Do_set_nettlp_ether_local_remote
   | Do_set_nettlp_ipv4_local_remote | Do_set_nettlp_bus_number | Do_set_nettlp_pci_tag
   | Do_set_nettlp_txportid | Do_set_nettlp_udp_port | Do_set_nettlp_memory_addr | Do_set_nettlp_payload_size
   | Do_set_nettlp_max_payload_size | Do_set_nettlp_payload_string | Do_set_nettlp_psmem_addr
   | Do_set_nettlp_psmem_size | Do_show_nettlp_psmem

datatype command =
    Default default_command | Log log_command | Debugging debug_command | Leave leave_command | Lcore lcore_command | Port port_command | General general_command | Thread thread_command | Tap tap_command | Nettlp nettlp_command

type_synonym spec = "string \<times> string \<times> command"

definition nl :: string where "nl = [CHR ''\<newline>'']"

definition ALL_HELP :: string where "ALL_HELP = ''all variables'' @ nl"
definition DISABLE_HELP :: string where "DISABLE_HELP = ''disable feature'' @ nl"
definition ENABLE_HELP :: string where "ENABLE_HELP = ''enable feature'' @ nl"
definition LCORE_ALL_HELP :: string where "LCORE_ALL_HELP = ''do for all lcores'' @ nl"
definition LCORE_HELP :: string where "LCORE_HELP = ''lcore information'' @ nl"
definition LCORE_NUMBER_HELP :: string where "LCORE_NUMBER_HELP = ''specify lcore number'' @ nl"
definition NO_HELP :: string where "NO_HELP = ''disable information.'' @ nl"
definition PORT_ALL_HELP :: string where "PORT_ALL_HELP = ''do for all ports'' @ nl"
definition PORT_HELP :: string where "PORT_HELP = ''port information'' @ nl"
definition PORT_NUMBER_HELP :: string where "PORT_NUMBER_HELP = ''specify port number'' @ nl"
definition QUEUE_HELP :: string where "QUEUE_HELP = ''queue information'' @ nl"
definition QUEUE_NUMBER_HELP :: string where "QUEUE_NUMBER_HELP = ''specify queue number'' @ nl"
definition RESET_HELP :: string where "RESET_HELP = ''reset information'' @ nl"
definition RESTART_HELP :: string where "RESTART_HELP = ''restart information'' @ nl"
definition SET_HELP :: string where "SET_HELP = ''set information'' @ nl"
definition SHOW_HELP :: string where "SHOW_HELP = ''show information.'' @ nl"
definition START_HELP :: string where "START_HELP = ''start information'' @ nl"
definition STOP_HELP :: string where "STOP_HELP = ''stop information'' @ nl"
definition WORKER_HELP :: string where "WORKER_HELP = ''worker information'' @ nl"

definition show_logging_entry :: spec where
  "show_logging_entry = (''show logging'',
    SHOW_HELP @ ''show logging information.'' @ nl, Log Do_show_logging)"

definition log_cmd_entry :: spec where
  "log_cmd_entry = (''(|no) log (syslog|stdout|stderr)'',
    NO_HELP @ ''logging information.'' @ nl @ ''log to syslog.'' @ nl @ ''log to stdout.'' @ nl @
    ''log to stderr.'' @ nl, Log Do_log_cmd)"

definition log_file_cmd_entry :: spec where
  "log_file_cmd_entry = (''log file <FILE>'',
    ''logging information.'' @ nl @ ''log to file.'' @ nl @ ''log filename.'' @ nl, Log Do_log_file_cmd)"

definition no_log_file_cmd_entry :: spec where
  "no_log_file_cmd_entry = (''no log file'',
    NO_HELP @ ''logging information.'' @ nl @ ''log to file.'' @ nl, Log Do_no_log_file_cmd)"

definition show_debug_zcmdsh_entry :: spec where
  "show_debug_zcmdsh_entry = (''show debugging zcmdsh'',
    SHOW_HELP @ ''show debugging information.'' @ nl @ ''zcmdsh'' @ nl, Debugging Do_show_debug_zcmdsh)"

definition show_debug_sdplane_entry :: spec where
  "show_debug_sdplane_entry = (''show debugging sdplane'',
    SHOW_HELP @ ''show debugging information.'' @ nl @ ''sdplane'' @ nl, Debugging Do_show_debug_sdplane)"

definition exit_cmd_entry :: spec where
  "exit_cmd_entry = (''(exit|quit)'',
    ''exit'' @ nl @ ''quite'' @ nl, Leave Do_exit_cmd)"

definition vty_exit_cmd_entry :: spec where
  "vty_exit_cmd_entry = (''(exit|quit|logout)'',
    ''exit'' @ nl @ ''quite'' @ nl @ ''logout'' @ nl, Leave Do_vty_exit_cmd)"

definition shutdown_cmd_entry :: spec where
  "shutdown_cmd_entry = (''shutdown'',
    ''shutdown'' @ nl, Leave Do_shutdown_cmd)"

definition set_worker_entry :: spec where
  "set_worker_entry = (''(set|reset|start|restart) worker lcore <0-16> (|none|l2fwd|l3fwd|l3fwd-lpm|tap-handler|l2-repeater|nettlp-thread)'',
    SET_HELP @ RESET_HELP @ START_HELP @ RESTART_HELP @
    WORKER_HELP @ LCORE_HELP @ LCORE_NUMBER_HELP @ ''set lcore not to launch anything'' @ nl @
    ''set lcore to launch l2fwd'' @ nl @ ''set lcore to launch l3fwd (default: lpm)'' @ nl @
    ''set lcore to launch l3fwd-lpm'' @ nl @ ''set lcore to launch tap-handler'' @ nl @
    ''set lcore to launch l2-repeater'' @ nl @ ''set lcore to launch nettlp-thread'' @ nl, Lcore Do_set_worker)"

definition start_stop_worker_entry :: spec where
  "start_stop_worker_entry = (''(start|stop|reset|restart) worker lcore (<0-16>|all)'',
    START_HELP @ STOP_HELP @ RESET_HELP @ RESTART_HELP @
    WORKER_HELP @ LCORE_HELP @ LCORE_NUMBER_HELP @ LCORE_ALL_HELP, Lcore Do_start_stop_worker)"

definition show_worker_entry :: spec where
  "show_worker_entry = (''show worker'',
    SHOW_HELP @ WORKER_HELP, Lcore Do_show_worker)"

definition start_stop_port_entry :: spec where
  "start_stop_port_entry = (''(start|stop|reset) port (|<0-16>|all)'',
    START_HELP @ STOP_HELP @ RESET_HELP @ PORT_HELP @
    PORT_NUMBER_HELP @ PORT_ALL_HELP, Port Do_start_stop_port)"

definition show_port_entry :: spec where
  "show_port_entry = (''show port (|<0-16>|all)'',
    SHOW_HELP @ PORT_HELP @ PORT_NUMBER_HELP @ PORT_ALL_HELP, Port Do_show_port)"

definition show_port_statistics_entry :: spec where
  "show_port_statistics_entry = (''show port statistics (pps|total|bps|total-bytes)'',
    SHOW_HELP @ PORT_HELP @ ''statistics'' @ nl @ ''pps'' @ nl @
    ''total packets'' @ nl @ ''bps'' @ nl @ ''total bytes'' @ nl, Port Do_show_port_statistics)"

definition show_port_promiscuous_entry :: spec where
  "show_port_promiscuous_entry = (''show port (<0-16>|all) promiscuous'',
    SHOW_HELP @ PORT_HELP @ PORT_NUMBER_HELP @ ALL_HELP @
    ''promiscuous'' @ nl, Port Do_show_port_promiscuous)"

definition show_port_flowcontrol_entry :: spec where
  "show_port_flowcontrol_entry = (''show port (<0-16>|all) flowcontrol'',
    SHOW_HELP @ PORT_HELP @ PORT_NUMBER_HELP @ ALL_HELP @
    ''flowcontrol'' @ nl, Port Do_show_port_flowcontrol)"

definition set_port_promiscuous_entry :: spec where
  "set_port_promiscuous_entry = (''set port (<0-16>|all) promiscuous (enable|disable)'',
    SET_HELP @ PORT_HELP @ PORT_NUMBER_HELP @ ALL_HELP @
    ''promiscuous'' @ nl @ ENABLE_HELP @ DISABLE_HELP, Port Do_set_port_promiscuous)"

definition set_port_flowcontrol_entry :: spec where
  "set_port_flowcontrol_entry = (''set port (<0-16>|all) flowcontrol (rx|tx|autoneg|send-xon|fwd-mac-ctrl) (on|off)'',
    SET_HELP @ PORT_HELP @ PORT_NUMBER_HELP @ ALL_HELP @
    ''flowcontrol'' @ nl @ ''flowcontrol rx'' @ nl @ ''flowcontrol tx'' @ nl @ ''flowcontrol autoneg'' @ nl @
    ''flowcontrol send-xon'' @ nl @ ''flowcontrol forward mac control frames'' @ nl @ ''flowcontrol on'' @ nl @
    ''flowcontrol off'' @ nl, Port Do_set_port_flowcontrol)"

definition set_port_dev_configure_entry :: spec where
  "set_port_dev_configure_entry = (''set port (<0-16>|all) dev-configure <0-64> <0-64>'',
    SHOW_HELP @ PORT_HELP @ PORT_NUMBER_HELP @ ALL_HELP @
    ''rte_eth_dev_configure.'' @ nl @ ''nb_rx_queue.'' @ nl @ ''nb_tx_queue.'' @ nl, Port Do_set_port_dev_configure)"

definition set_port_txrx_desc_entry :: spec where
  "set_port_txrx_desc_entry = (''set port (<0-16>|all) (nrxdesc|ntxdesc) <0-16384>'',
    SET_HELP @ PORT_HELP @ PORT_NUMBER_HELP @ ALL_HELP @
    ''set the number of rx descriptor for the port'' @ nl @ ''set the number of tx descriptor for the port'' @ nl @
    ''Specify the descriptor number.'' @ nl, Port Do_set_port_txrx_desc)"

definition show_version_entry :: spec where
  "show_version_entry = (''show version'',
    SHOW_HELP @ ''version'' @ nl, General Do_show_version)"

definition set_l3fwd_argv_entry :: spec where
  "set_l3fwd_argv_entry = (''set l3fwd argv <WORD> <WORD> <WORD> <WORD> <WORD> <WORD>'',
    SET_HELP @ ''set l3fwd-related information.'' @ nl @ ''set command-line arguments.'' @ nl @ ''arbitrary word'' @
    nl, General Do_set_l3fwd_argv)"

definition show_loop_count_entry :: spec where
  "show_loop_count_entry = (''show loop-count (console|vty-shell|l2fwd) (pps|total)'',
    SHOW_HELP @ ''loop count'' @ nl @ ''console shell'' @ nl @ ''vty shell'' @ nl @
    ''l2fwd loop'' @ nl @ ''pps'' @ nl @ ''total count'' @ nl, General Do_show_loop_count)"

definition show_rcu_entry :: spec where
  "show_rcu_entry = (''show rcu'',
    SHOW_HELP @ ''show rcu-information.'' @ nl, General Do_show_rcu)"

definition show_fdb_entry :: spec where
  "show_fdb_entry = (''show fdb'',
    SHOW_HELP @ ''show fdb-information.'' @ nl, General Do_show_fdb)"

definition show_vswitch_entry :: spec where
  "show_vswitch_entry = (''show vswitch'',
    SHOW_HELP @ ''show vswitch-information.'' @ nl, General Do_show_vswitch)"

definition sleep_cmd_entry :: spec where
  "sleep_cmd_entry = (''sleep <0-300>'',
    ''sleep command'' @ nl @ ''specify seconds to sleep.'' @ nl, General Do_sleep_cmd)"

definition show_rib_entry :: spec where
  "show_rib_entry = (''show rib'',
    SHOW_HELP @ ''rib information'' @ nl, General Do_show_rib)"

definition show_thread_cmd_entry :: spec where
  "show_thread_cmd_entry = (''show thread'',
    SHOW_HELP @ ''thread information'' @ nl, Thread Do_show_thread_cmd)"

definition show_thread_counter_entry :: spec where
  "show_thread_counter_entry = (''show thread counter'',
    SHOW_HELP @ ''thread information.'' @ nl @ ''counter information.'' @ nl, Thread Do_show_thread_counter)"

definition update_port_link_status_entry :: spec where
  "update_port_link_status_entry = (''update port link-status'',
    ''update information'' @ nl @ PORT_HELP @ ''link-status information'' @ nl, Thread Do_update_port_link_status)"

definition update_port_status_entry :: spec where
  "update_port_status_entry = (''update port status'',
    ''update information'' @ nl @ PORT_HELP @ ''port status information'' @ nl, Thread Do_update_port_status)"

definition set_thread_lcore_port_queue_entry :: spec where
  "set_thread_lcore_port_queue_entry = (''set thread <0-128> port <0-128> queue <0-128>'',
    SET_HELP @ ''thread-information'' @ nl @ ''thread-id (lcore-id)'' @ nl @ PORT_HELP @
    PORT_NUMBER_HELP @ QUEUE_HELP @ QUEUE_NUMBER_HELP, Thread Do_set_thread_lcore_port_queue)"

definition show_thread_qconf_entry :: spec where
  "show_thread_qconf_entry = (''show thread qconf'',
    SHOW_HELP @ ''thread information.'' @ nl @ ''queue configuration.'' @ nl, Thread Do_show_thread_qconf)"

definition set_worker_lthread_stat_collector_entry :: spec where
  "set_worker_lthread_stat_collector_entry = (''set worker lthread stat-collector'',
    SET_HELP @ WORKER_HELP @ ''lthread information'' @ nl @ ''stat-collector'' @ nl, Thread Do_set_worker_lthread_stat_collector)"

definition set_worker_lthread_rib_manager_entry :: spec where
  "set_worker_lthread_rib_manager_entry = (''set worker lthread rib-manager'',
    SET_HELP @ WORKER_HELP @ ''lthread information'' @ nl @ ''rib-manager'' @ nl, Thread Do_set_worker_lthread_rib_manager)"

definition set_tap_capture_ifname_entry :: spec where
  "set_tap_capture_ifname_entry = (''set tap capture ifname <WORD>'',
    SET_HELP @ ''tun/tap I/F information.'' @ nl @ ''tun/tap I/F capture information.'' @ nl @ ''set tun/tap I/F name.'' @ nl @
    ''Specify ifname string.'' @ nl, Tap Do_set_tap_capture_ifname)"

definition set_tap_capture_persistent_entry :: spec where
  "set_tap_capture_persistent_entry = (''(set|no|unset) tap capture persistent'',
    SET_HELP @ NO_HELP @ NO_HELP @ ''tun/tap I/F information.'' @ nl @
    ''tun/tap I/F capture information.'' @ nl @ ''set tun/tap capture I/F persistent.'' @ nl, Tap Do_set_tap_capture_persistent)"

definition nettlp_send_dma_write_read_entry :: spec where
  "nettlp_send_dma_write_read_entry = (''nettlp-send (dma-write|dma-read)'',
    ''NetTLP send command'' @ nl @ ''DMA write packet'' @ nl @ ''DMA read packet'' @ nl, Nettlp Do_nettlp_send_dma_write_read)"

definition show_nettlp_entry :: spec where
  "show_nettlp_entry = (''show nettlp'',
    SHOW_HELP @ ''NetTLP information.'' @ nl, Nettlp Do_show_nettlp)"

definition set_nettlp_ether_local_remote_entry :: spec where
  "set_nettlp_ether_local_remote_entry = (''set nettlp ether (local-addr|remote-addr) <WORD>'',
    SET_HELP @ ''NetTLP information.'' @ nl @ ''local ethernet source address.'' @ nl @
    ''remote ethernet destination address.'' @ nl @
    ''Specify ethernet address.'' @ nl, Nettlp Do_set_nettlp_ether_local_remote)"

definition set_nettlp_ipv4_local_remote_entry :: spec where
  "set_nettlp_ipv4_local_remote_entry = (''set nettlp ipv4 (local-addr|remote-addr) A.B.C.D'',
    SET_HELP @ ''NetTLP information.'' @ nl @ ''IPv information.'' @ nl @ ''local IPv4 source address.'' @ nl @
    ''remote IPv4 destination address.'' @ nl @ ''Specify IPv4 address.'' @ nl, Nettlp Do_set_nettlp_ipv4_local_remote)"

definition set_nettlp_bus_number_entry :: spec where
  "set_nettlp_bus_number_entry = (''set nettlp bus-number <0-65535> device-number <0-65535>'',
    SET_HELP @ ''NetTLP information.'' @ nl @ ''Set bus-number.'' @ nl @ ''Specify bus-number (i.e. 0x1234 in Hex).'' @ nl @
    ''Set device-number.'' @ nl @ ''Specify device-number (i.e. 0x1234 in Hex).'' @ nl, Nettlp Do_set_nettlp_bus_number)"

definition set_nettlp_pci_tag_entry :: spec where
  "set_nettlp_pci_tag_entry = (''set nettlp pci-tag <0-255>'',
    SET_HELP @ ''NetTLP information.'' @ nl @ ''Set PCI tag.'' @ nl @ ''Specify PCI tag.'' @ nl, Nettlp Do_set_nettlp_pci_tag)"

definition set_nettlp_txportid_entry :: spec where
  "set_nettlp_txportid_entry = (''set nettlp tx-portid <0-128>'',
    SET_HELP @ ''NetTLP information.'' @ nl @ ''Set transmission port-id.'' @ nl @ ''Specify transmission port-id.'' @
    nl, Nettlp Do_set_nettlp_txportid)"

definition set_nettlp_udp_port_entry :: spec where
  "set_nettlp_udp_port_entry = (''set nettlp udp (src-port|dst-port) <0-65535>'',
    SET_HELP @ ''NetTLP information.'' @ nl @ ''UDP information.'' @ nl @ ''Set UDP src port.'' @ nl @
    ''Set UDP dst port.'' @ nl @ ''Specify UDP port.'' @ nl, Nettlp Do_set_nettlp_udp_port)"

definition set_nettlp_memory_addr_entry :: spec where
  "set_nettlp_memory_addr_entry = (''set nettlp memory-address <WORD>'',
    SET_HELP @ ''NetTLP information.'' @ nl @ ''Set core memory address.'' @ nl @ ''Specify core memory address.'' @
    nl, Nettlp Do_set_nettlp_memory_addr)"

definition set_nettlp_payload_size_entry :: spec where
  "set_nettlp_payload_size_entry = (''set nettlp payload-size <0-4096>'',
    SET_HELP @ ''NetTLP information.'' @ nl @ ''Set payload-size.'' @ nl @ ''Specify size.'' @ nl, Nettlp Do_set_nettlp_payload_size)"

definition set_nettlp_max_payload_size_entry :: spec where
  "set_nettlp_max_payload_size_entry = (''set nettlp max-payload-size <0-4096>'',
    SET_HELP @ ''NetTLP information.'' @ nl @ ''Set Max Payload Size (mps).'' @ nl @ ''Specify Max Payload Size.'' @
    nl, Nettlp Do_set_nettlp_max_payload_size)"

definition set_nettlp_payload_string_entry :: spec where
  "set_nettlp_payload_string_entry = (''set nettlp payload-string <LINE>'',
    SET_HELP @ ''NetTLP information.'' @ nl @ ''Set payload string.'' @ nl @ ''Specify payload string.'' @
    nl, Nettlp Do_set_nettlp_payload_string)"

definition set_nettlp_psmem_addr_entry :: spec where
  "set_nettlp_psmem_addr_entry = (''set nettlp psmem-address <WORD>'',
    SET_HELP @ ''NetTLP information.'' @ nl @ ''Set psmem address.'' @ nl @ ''Specify memory address.'' @
    nl, Nettlp Do_set_nettlp_psmem_addr)"

definition set_nettlp_psmem_size_entry :: spec where
  "set_nettlp_psmem_size_entry = (''set nettlp psmem-size (<WORD>|256M)'',
    SET_HELP @ ''NetTLP information.'' @ nl @ ''Set psmem size.'' @ nl @ ''Specify memory size.'' @ nl @
    ''Specify memory size as 256MiB.'' @ nl, Nettlp Do_set_nettlp_psmem_size)"

definition show_nettlp_psmem_entry :: spec where
  "show_nettlp_psmem_entry = (''show nettlp psmem (|<WORD>)'',
    SHOW_HELP @ ''NetTLP information.'' @ nl @ ''Show psmem.'' @ nl @ ''Show from the specified start offset.'' @
    nl, Nettlp Do_show_nettlp_psmem)"

section \<open>The lists a shell installs\<close>

definition default_entries :: "spec list" where
  "default_entries = map (\<lambda>(line, helps, f). (line, helps, Default f)) default_commands"

definition log_cmd_init :: "spec list" where
  "log_cmd_init = [show_logging_entry, log_cmd_entry, log_file_cmd_entry, no_log_file_cmd_entry]"

definition dpdk_lcore_cmd_init :: "spec list" where
  "dpdk_lcore_cmd_init = [set_worker_entry, start_stop_worker_entry, show_worker_entry]"

definition dpdk_port_cmd_init :: "spec list" where
  "dpdk_port_cmd_init = [start_stop_port_entry, show_port_entry, show_port_statistics_entry, show_port_promiscuous_entry,
    show_port_flowcontrol_entry, set_port_promiscuous_entry, set_port_flowcontrol_entry, set_port_dev_configure_entry,
    set_port_txrx_desc_entry]"

definition thread_info_cmd_init :: "spec list" where
  "thread_info_cmd_init = [show_thread_cmd_entry, show_thread_counter_entry]"

definition queue_config_cmd_init :: "spec list" where
  "queue_config_cmd_init = [update_port_link_status_entry, update_port_status_entry, set_thread_lcore_port_queue_entry,
    show_thread_qconf_entry]"

definition lthread_cmd_init :: "spec list" where
  "lthread_cmd_init = [set_worker_lthread_stat_collector_entry, set_worker_lthread_rib_manager_entry]"

definition tap_cmd_init :: "spec list" where
  "tap_cmd_init = [set_tap_capture_ifname_entry, set_tap_capture_persistent_entry]"

definition nettlp_cmd_init :: "spec list" where
  "nettlp_cmd_init = [nettlp_send_dma_write_read_entry, show_nettlp_entry, set_nettlp_ether_local_remote_entry,
    set_nettlp_ipv4_local_remote_entry, set_nettlp_bus_number_entry, set_nettlp_pci_tag_entry, set_nettlp_txportid_entry,
    set_nettlp_udp_port_entry, set_nettlp_memory_addr_entry, set_nettlp_payload_size_entry,
    set_nettlp_max_payload_size_entry, set_nettlp_payload_string_entry, set_nettlp_psmem_addr_entry,
    set_nettlp_psmem_size_entry, show_nettlp_psmem_entry]"

definition sdplane_cmd_init :: "spec list" where
  "sdplane_cmd_init = dpdk_lcore_cmd_init @ dpdk_port_cmd_init @
    [set_l3fwd_argv_entry, show_loop_count_entry, show_version_entry, show_rcu_entry, show_fdb_entry, show_rib_entry,
     show_vswitch_entry, sleep_cmd_entry] @
    thread_info_cmd_init @ queue_config_cmd_init @ lthread_cmd_init @ tap_cmd_init @ nettlp_cmd_init"

text \<open>The specifications of the debugging commands are built at run time, \<open>dz\<close> and \<open>ds\<close>.\<close>

definition console_entries :: "string \<times> string \<Rightarrow> string \<times> string \<Rightarrow> spec list" where
  "console_entries dz ds = default_entries @ [exit_cmd_entry, show_worker_entry, set_worker_entry, start_stop_worker_entry,
     (fst dz, snd dz, Debugging Do_debug_zcmdsh), show_debug_zcmdsh_entry, (fst ds, snd ds, Debugging Do_debug_sdplane), show_debug_sdplane_entry] @
     log_cmd_init @ sdplane_cmd_init"

definition vty_entries :: "string \<times> string \<Rightarrow> string \<times> string \<Rightarrow> spec list" where
  "vty_entries dz ds = default_entries @ log_cmd_init @ [vty_exit_cmd_entry, shutdown_cmd_entry, show_worker_entry,
     set_worker_entry, start_stop_worker_entry, (fst dz, snd dz, Debugging Do_debug_zcmdsh), show_debug_zcmdsh_entry,
     (fst ds, snd ds, Debugging Do_debug_sdplane), show_debug_sdplane_entry] @ sdplane_cmd_init"

definition startup_entries :: "string \<times> string \<Rightarrow> string \<times> string \<Rightarrow> spec list" where
  "startup_entries dz ds = default_entries @ [set_worker_entry, start_stop_worker_entry, (fst dz, snd dz, Debugging Do_debug_zcmdsh),
     (fst ds, snd ds, Debugging Do_debug_sdplane)] @ log_cmd_init @ sdplane_cmd_init"

definition install_entries :: "(nat list \<Rightarrow> nat list) \<Rightarrow> spec list \<Rightarrow> command command_set res" where
  "install_entries qsort es = runr (\<lambda>(line, helps, f). command_install2 qsort line helps f) es command_set_create"

definition shell_commands ::
  "(nat list \<Rightarrow> nat list) \<Rightarrow> (string \<times> string \<Rightarrow> string \<times> string \<Rightarrow> spec list) \<Rightarrow> command command_set res" where
  "shell_commands qsort entries = bindr debug_zcmdsh_cmd_init (\<lambda>dz. bindr debug_sdplane_cmd_init (\<lambda>ds.
     install_entries qsort (entries dz ds)))"


section \<open>Checking a table\<close>

text \<open>
  A specification whose words each have different alternatives, the empty one in the last word at most, is
  unambiguous: its paths have as many words as it has.
\<close>

fun spec_fine :: "string list \<Rightarrow> bool" where
  "spec_fine [] = True"
| "spec_fine [w] = distinct (alternatives w)"
| "spec_fine (w # v # ws) = (distinct (alternatives w) \<and> [] \<notin> set (alternatives w) \<and> spec_fine (v # ws))"

lemma ext_eq:
  fixes s r :: string
  assumes len: "length p = length q" and eq: "(if s = [] then p else p @ [s]) = (if r = [] then q else q @ [r])"
  shows "s = r \<and> p = q"
proof (cases "s = []")
  case True
  with eq have e: "p = (if r = [] then q else q @ [r])" by simp
  have "r = []" using arg_cong [OF e, of length] len by (cases "r = []") simp_all
  with e True show ?thesis by simp
next
  case False
  with eq have e: "p @ [s] = (if r = [] then q else q @ [r])" by simp
  have "r \<noteq> []" using arg_cong [OF e, of length] len by (cases "r = []") simp_all
  with e False show ?thesis by simp
qed
lemma extend_distinct:
  assumes "distinct as" "distinct ps" "\<forall>p\<in>set ps. length p = n"
  shows "distinct (extend_paths as ps)"
proof -
  define g :: "string \<Rightarrow> string list \<Rightarrow> string list" where "g s p = (if s = [] then p else p @ [s])" for s p
  have same: "s = r \<and> p = q" if "p \<in> set ps" "q \<in> set ps" "g s p = g r q" for s r p q
    by (rule ext_eq [OF _ that(3) [unfolded g_def]]) (simp add: that(1,2) assms(3))
  have "inj_on (g s) (set ps)" for s using same by (auto simp: inj_on_def)
  then have d: "distinct (map (g s) ps)" for s using assms(2) by (simp add: distinct_map)
  have "distinct (concat (map (\<lambda>s. map (g s) ps) as))"
    using assms(1)
  proof (induction as)
    case (Cons s as)
    then show ?case using d [of s] same by auto
  qed simp
  then show ?thesis unfolding extend_paths_def g_def [abs_def] .
qed

lemma fine_unambiguous:
  "spec_fine ws \<Longrightarrow> distinct ps \<Longrightarrow> \<forall>p\<in>set ps. length p = n \<Longrightarrow> unambiguous ws ps"
proof (induction ws arbitrary: ps n rule: spec_fine.induct)
  case (3 w v ws)
  have "\<forall>p\<in>set (extend_paths (alternatives w) ps). length p = Suc n"
    using 3(2,4) by (auto simp: extend_paths_def)
  with 3 extend_distinct [of "alternatives w" ps n] show ?case by auto
qed (auto intro: extend_distinct)

text \<open>Installing adds no names but alternatives of the specification.\<close>

definition names_in :: "(string \<Rightarrow> bool) \<Rightarrow> 'f command_set \<Rightarrow> bool" where
  "names_in P cs \<longleftrightarrow> (\<forall>n<length cs. P (cmdstr (cs ! n)))"

lemma cmdstr_update: "cmdstr (cs[a := (cs ! a)\<lparr>cmdvec := v\<rparr>] ! n) = cmdstr (cs ! n)"
  by (cases "a < length cs") (auto simp: nth_list_update list_update_beyond not_less)

lemma names_find_or_add:
  assumes "names_in P cs" "P w" "find_or_add qsort a w h cs = (n, cs')"
  shows "names_in P cs'"
  using assms
  by (auto simp: names_in_def find_or_add_def add_child_def command_node_create_def nth_append cmdstr_update
      less_Suc_eq split: option.splits)

lemma names_below:
  "names_in P cs \<Longrightarrow> w \<noteq> [] \<longrightarrow> P w \<Longrightarrow> install_below qsort w h as (cs, ns) = Inr (cs', ns') \<Longrightarrow> names_in P cs'"
proof (induction as arbitrary: cs ns)
  case (Cons a as)
  show ?case
  proof (cases "w = []")
    case True
    with Cons show ?thesis by (auto simp: bindr_eq_Inr)
  next
    case False
    obtain n cs1 where f: "find_or_add qsort a w h cs = (n, cs1)" by (cases "find_or_add qsort a w h cs")
    from names_find_or_add [OF Cons.prems(1) _ f] Cons.prems(2) False have "names_in P cs1" by simp
    with Cons.IH [OF this Cons.prems(2)] Cons.prems(3) False f show ?thesis by (auto simp: bindr_eq_Inr)
  qed
qed simp

lemma names_alternatives:
  "names_in P cs \<Longrightarrow> \<forall>w\<in>set ws. w \<noteq> [] \<longrightarrow> P w \<Longrightarrow> install_alternatives qsort ps ws (cs, hs, ns) = Inr (cs', hs', ns') \<Longrightarrow>
   names_in P cs'"
proof (induction ws arbitrary: cs hs ns)
  case (Cons w ws)
  obtain h hs1 where h: "(if w = [] then (None, hs) else pop hs) = (h, hs1)" by (cases "if w = [] then (None, hs) else pop hs")
  from Cons.prems(3) obtain cs1 ns1 where
    c: "install_below qsort w h ps (cs, ns) = Inr (cs1, ns1)" "install_alternatives qsort ps ws (cs1, hs1, ns1) = Inr (cs', hs', ns')"
    by (auto simp: h bindr_eq_Inr)
  from names_below [OF Cons.prems(1) _ c(1)] Cons.prems(2) have "names_in P cs1" by simp
  from Cons.IH [OF this _ c(2)] Cons.prems(2) show ?case by simp
qed simp

lemma names_words:
  "names_in P cs \<Longrightarrow> \<forall>v\<in>set vs. \<forall>w\<in>set (alternatives v). w \<noteq> [] \<longrightarrow> P w \<Longrightarrow>
   install2_words qsort vs ps (cs, hs) = Inr (cs', ns) \<Longrightarrow> names_in P cs'"
proof (induction vs arbitrary: cs ps hs)
  case (Cons v vs)
  from Cons.prems(3) obtain cs1 hs1 ns1 where
    c: "install_alternatives qsort ps (alternatives v) (cs, hs, []) = Inr (cs1, hs1, ns1)"
      "install2_words qsort vs ns1 (cs1, hs1) = Inr (cs', ns)"
    by (auto simp: bindr_eq_Inr)
  from names_alternatives [OF Cons.prems(1) _ c(1)] Cons.prems(2) have "names_in P cs1" by simp
  from Cons.IH [OF this _ c(2)] Cons.prems(2) show ?case by simp
qed simp

lemma names_set_func: "names_in P (set_func f n cs) = names_in P cs"
  by (cases "n < length cs") (auto simp: names_in_def set_func_def nth_list_update)

lemma names_set_funcs: "names_in P (fold (set_func f) ns cs) = names_in P cs"
  by (induction ns arbitrary: cs) (simp_all add: names_set_func)

lemma set_split_on: "w \<in> set (split_on d s) \<Longrightarrow> set w \<subseteq> set s"
  by (induction s arbitrary: w) (auto split: if_splits list.splits, fastforce+)

lemma set_alternatives: "a \<in> set (alternatives w) \<Longrightarrow> set a \<subseteq> set w"
proof -
  assume a: "a \<in> set (alternatives w)"
  have "set (after_char c w) \<subseteq> set w" for c
    by (auto simp: after_char_def) (metis list.set_sel(2) set_dropWhileD tl_Nil list.set(1) empty_iff)
  with set_split_on [OF a [unfolded alternatives_def]] show ?thesis by (auto dest: set_takeWhileD)
qed

lemma names_install2:
  assumes "names_in (list_all clean) cs" "list_all clean line" "command_install2 qsort line helps f cs = Inr cs'"
  shows "names_in (list_all clean) cs'"
proof -
  from assms(3) obtain cs1 ns where
    c: "install2_words qsort (split_on (CHR '' '') line) [0] (cs, split_on (CHR ''\<newline>'') helps) = Inr (cs1, ns)"
      "cs' = fold (set_func f) ns cs1"
    by (auto simp: command_install2_def bindr_eq_Inr)
  have "\<forall>v\<in>set (split_on (CHR '' '') line). \<forall>w\<in>set (alternatives v). w \<noteq> [] \<longrightarrow> list_all clean w"
    using assms(2) set_split_on set_alternatives unfolding list_all_iff by blast
  from names_words [OF assms(1) this c(1)] c(2) show ?thesis by (simp add: names_set_funcs)
qed

definition spec_ok :: "spec \<Rightarrow> bool" where
  "spec_ok e \<longleftrightarrow> unambiguous (split_on (CHR '' '') (fst e)) [[]] \<and> list_all clean (fst e)"

lemma spec_okI: "spec_fine (split_on (CHR '' '') line) \<Longrightarrow> list_all clean line \<Longrightarrow> spec_ok (line, helps, f)"
  unfolding spec_ok_def using fine_unambiguous [of _ "[[]]" 0] by simp

lemmas entry_defs = show_logging_entry_def log_cmd_entry_def log_file_cmd_entry_def no_log_file_cmd_entry_def
   show_debug_zcmdsh_entry_def show_debug_sdplane_entry_def exit_cmd_entry_def vty_exit_cmd_entry_def
   shutdown_cmd_entry_def set_worker_entry_def start_stop_worker_entry_def show_worker_entry_def
   start_stop_port_entry_def show_port_entry_def show_port_statistics_entry_def show_port_promiscuous_entry_def
   show_port_flowcontrol_entry_def set_port_promiscuous_entry_def set_port_flowcontrol_entry_def
   set_port_dev_configure_entry_def set_port_txrx_desc_entry_def show_version_entry_def set_l3fwd_argv_entry_def
   show_loop_count_entry_def show_rcu_entry_def show_fdb_entry_def show_vswitch_entry_def sleep_cmd_entry_def
   show_rib_entry_def show_thread_cmd_entry_def show_thread_counter_entry_def update_port_link_status_entry_def
   update_port_status_entry_def set_thread_lcore_port_queue_entry_def show_thread_qconf_entry_def
   set_worker_lthread_stat_collector_entry_def set_worker_lthread_rib_manager_entry_def
   set_tap_capture_ifname_entry_def set_tap_capture_persistent_entry_def nettlp_send_dma_write_read_entry_def
   show_nettlp_entry_def set_nettlp_ether_local_remote_entry_def set_nettlp_ipv4_local_remote_entry_def
   set_nettlp_bus_number_entry_def set_nettlp_pci_tag_entry_def set_nettlp_txportid_entry_def
   set_nettlp_udp_port_entry_def set_nettlp_memory_addr_entry_def set_nettlp_payload_size_entry_def
   set_nettlp_max_payload_size_entry_def set_nettlp_payload_string_entry_def set_nettlp_psmem_addr_entry_def
   set_nettlp_psmem_size_entry_def show_nettlp_psmem_entry_def

lemma nettlp_ok: "\<forall>e\<in>set nettlp_cmd_init. spec_ok e"
  unfolding nettlp_cmd_init_def list.set ball_simps entry_defs
  by (intro conjI spec_okI TrueI) (simp_all add: alternatives_def after_char_def clean_def NUL_def BS_def)

lemma log_specs_ok: "\<forall>e\<in>set log_cmd_init. spec_ok e"
proof -
  have "spec_ok log_cmd_entry"
    unfolding spec_ok_def log_cmd_entry_def fst_conv
    by (rule conjI, simp add: alternatives_def after_char_def extend_paths_def, simp add: clean_def NUL_def BS_def)
  moreover have "\<forall>e\<in>set [show_logging_entry, log_file_cmd_entry, no_log_file_cmd_entry]. spec_ok e"
    unfolding list.set ball_simps entry_defs
    by (intro conjI spec_okI TrueI) (simp_all add: alternatives_def after_char_def clean_def NUL_def BS_def)
  ultimately show ?thesis by (simp add: log_cmd_init_def)
qed

text \<open>The function a table gives to a spelled-out command: that of the last entry that spells it.\<close>

definition entry_at :: "spec list \<Rightarrow> string list \<Rightarrow> command option" where
  "entry_at es q = fold (\<lambda>(line, helps, f) m. if q \<in> set (spelled line) then Some f else m) es None"

lemma entry_at_append: "entry_at (es @ fs) q = (case entry_at fs q of None \<Rightarrow> entry_at es q | Some f \<Rightarrow> Some f)"
proof -
  let ?g = "\<lambda>(line, helps, f) m. if q \<in> set (spelled line) then Some f else m"
  have "fold ?g fs m = (case fold ?g fs None of None \<Rightarrow> m | Some f \<Rightarrow> Some f)" for m
  proof (induction fs arbitrary: m)
    case (Cons e fs)
    obtain l h f where e: "e = (l, h, f)" by (cases e)
    show ?case
    proof (cases "q \<in> set (spelled l)")
      case True
      then have "fold ?g (e # fs) m = fold ?g fs (Some f)" for m by (simp add: e)
      then show ?thesis using Cons.IH [of "Some f"] by (simp split: option.splits)
    next
      case False
      then have "fold ?g (e # fs) m = fold ?g fs m" for m by (simp add: e)
      then show ?thesis using Cons.IH [of m] by simp
    qed
  qed simp
  then show ?thesis unfolding entry_at_def fold_append comp_apply .
qed

lemmas entry_eval = entry_at_def spelled_def alternatives_def after_char_def extend_paths_def

section \<open>The tables are in order\<close>

lemma lcore_ok: "\<forall>e\<in>set dpdk_lcore_cmd_init. spec_ok e"
  unfolding dpdk_lcore_cmd_init_def list.set ball_simps entry_defs
  by (intro conjI spec_okI TrueI) (simp_all add: alternatives_def after_char_def clean_def NUL_def BS_def)

lemma port_ok: "\<forall>e\<in>set dpdk_port_cmd_init. spec_ok e"
  unfolding dpdk_port_cmd_init_def list.set ball_simps entry_defs
  by (intro conjI spec_okI TrueI) (simp_all add: alternatives_def after_char_def clean_def NUL_def BS_def)

lemma general_ok: "\<forall>e\<in>set [set_l3fwd_argv_entry, show_loop_count_entry, show_version_entry, show_rcu_entry, show_fdb_entry,
    show_rib_entry, show_vswitch_entry, sleep_cmd_entry]. spec_ok e"
  unfolding list.set ball_simps entry_defs
  by (intro conjI spec_okI TrueI) (simp_all add: alternatives_def after_char_def clean_def NUL_def BS_def)

lemma thread_ok: "\<forall>e\<in>set (thread_info_cmd_init @ queue_config_cmd_init @ lthread_cmd_init @ tap_cmd_init). spec_ok e"
  unfolding thread_info_cmd_init_def queue_config_cmd_init_def lthread_cmd_init_def tap_cmd_init_def append.simps
    list.set ball_simps entry_defs
  by (intro conjI spec_okI TrueI) (simp_all add: alternatives_def after_char_def clean_def NUL_def BS_def)

lemma sdplane_ok: "\<forall>e\<in>set sdplane_cmd_init. spec_ok e"
  unfolding sdplane_cmd_init_def using lcore_ok port_ok general_ok thread_ok nettlp_ok
  by (simp only: set_append ball_Un) blast

lemma leave_ok: "\<forall>e\<in>set [exit_cmd_entry, vty_exit_cmd_entry, shutdown_cmd_entry, show_debug_zcmdsh_entry, show_debug_sdplane_entry].
    spec_ok e"
  unfolding list.set ball_simps entry_defs
  by (intro conjI spec_okI TrueI) (simp_all add: alternatives_def after_char_def clean_def NUL_def BS_def)

lemma default_ok: "\<forall>e\<in>set default_entries. spec_ok e"
proof -
  have "spec_ok (''(set|no|) pager'', helps, f)" "spec_ok (''set pager <FILE> (|<LINE>)'', helps, f)" for helps f
    unfolding spec_ok_def fst_conv
    by (rule conjI, simp add: alternatives_def after_char_def extend_paths_def, simp add: clean_def NUL_def BS_def)+
  moreover have "spec_ok (w, helps, f)" if "w \<in> {''exit'', ''quit'', ''logout'', ''list func-table'', ''list keymaps'', ''show history'', ''set pager default''}" for w helps f
    using that by (intro spec_okI) (auto simp: alternatives_def after_char_def clean_def NUL_def BS_def)
  ultimately show ?thesis by (simp add: default_entries_def default_commands_def)
qed

lemma zcmdsh_init_value: "\<exists>helps. debug_zcmdsh_cmd_init = Inr (debug_spec ''zcmdsh'' debug_zcmdsh_types, helps)"
  using debug_help_fits(2) debug_cmdstr_value [OF _ debug_spec_fits(2)]
  by (auto simp: debug_zcmdsh_cmd_init_def) (simp add: debug_zcmdsh_types_def)

lemma debug_ok: "spec_ok (debug_spec ''zcmdsh'' debug_zcmdsh_types, h, f)" "spec_ok (debug_spec ''sdplane'' debug_sdplane_types, h, f)"
proof -
  have t: "debug_sdplane_types \<noteq> []" "plain_word ''sdplane''" "debug_zcmdsh_types \<noteq> []" "plain_word ''zcmdsh''"
    by (simp_all add: debug_sdplane_types_def debug_zcmdsh_types_def plain_word_def)
  have "list_all clean (debug_spec ''zcmdsh'' debug_zcmdsh_types)" "list_all clean (debug_spec ''sdplane'' debug_sdplane_types)"
    by (simp_all add: debug_spec_def debug_zcmdsh_types_def debug_sdplane_types_def clean_def NUL_def BS_def)
  then show "spec_ok (debug_spec ''zcmdsh'' debug_zcmdsh_types, h, f)" "spec_ok (debug_spec ''sdplane'' debug_sdplane_types, h, f)"
    using debug_spec_spelled(2) [OF t(4,3) debug_names(2) debug_distinct(2)] debug_spec_spelled(2) [OF t(2,1) debug_names(1) debug_distinct(1)]
    by (simp_all add: spec_ok_def)
qed

lemma tables_ok:
  assumes "dz = (debug_spec ''zcmdsh'' debug_zcmdsh_types, hz)" "ds = (debug_spec ''sdplane'' debug_sdplane_types, hs)"
  shows "\<forall>e\<in>set (console_entries dz ds). spec_ok e" "\<forall>e\<in>set (vty_entries dz ds). spec_ok e" "\<forall>e\<in>set (startup_entries dz ds). spec_ok e"
  using default_ok log_specs_ok sdplane_ok leave_ok lcore_ok debug_ok
  by (auto simp: console_entries_def vty_entries_def startup_entries_def assms dpdk_lcore_cmd_init_def)

lemma install_entries_ok:
  assumes q: "permutes_list qsort" and ok: "\<forall>e\<in>set es. spec_ok e"
  shows "\<exists>cs. install_entries qsort es = Inr cs \<and> tree_ok cs \<and> names_in (list_all clean) cs \<and> func_at cs = entry_at es"
proof -
  let ?i = "\<lambda>(line, helps, f). command_install2 qsort line helps f"
  have "\<forall>(line, helps, f)\<in>set es. unambiguous (split_on (CHR '' '') line) [[]]" using ok by (auto simp: spec_ok_def)
  from installs_unambiguous [OF q tree_create(1) this] obtain cs where
    cs: "runr ?i es command_set_create = Inr cs" "tree_ok cs"
      "func_at cs = fold (\<lambda>(line, helps, f) m q. if q \<in> set (spelled line) then Some f else m q) es (func_at command_set_create)"
    by blast
  have "fold (\<lambda>(line, helps, f) m q. if q \<in> set (spelled line) then Some f else m q) es m p =
      fold (\<lambda>(line, helps, f) m. if p \<in> set (spelled line) then Some f else m) es (m p)" for m :: "string list \<Rightarrow> command option" and p
    by (induction es arbitrary: m) auto
  with cs(3) have "func_at cs = entry_at es" by (simp add: entry_at_def fun_eq_iff tree_create(2))
  moreover have "names_in (list_all clean) a \<Longrightarrow> runr ?i es a = Inr b \<Longrightarrow> names_in (list_all clean) b" for a b
    using ok
  proof (induction es arbitrary: a)
    case (Cons e es)
    obtain l h f where e: "e = (l, h, f)" by (cases e)
    from Cons.prems(2) obtain c where c: "command_install2 qsort l h f a = Inr c" "runr ?i es c = Inr b"
      by (auto simp: e bindr_eq_Inr)
    have "list_all clean l" using Cons.prems(3) by (simp add: e spec_ok_def)
    from names_install2 [OF Cons.prems(1) this c(1)] Cons.IH [OF _ c(2)] Cons.prems(3) show ?case by simp
  qed simp
  moreover have "names_in (list_all clean) command_set_create"
    by (simp add: names_in_def command_set_create_def command_node_create_def)
  ultimately show ?thesis using cs(1,2) by (auto simp: install_entries_def)
qed

section \<open>What the tables give\<close>

text \<open>The commands that several entries spell.\<close>

definition contested :: "string list list" where
  "contested = [[''exit''], [''quit''], [''logout'']] @
     map (\<lambda>w. [w, ''worker'', ''lcore'', ''<0-16>'']) [''set'', ''start'', ''reset'', ''restart'']"

lemma log_elsewhere: "\<forall>q\<in>set contested. entry_at log_cmd_init q = None"
  unfolding log_cmd_init_def entry_defs contested_def by (simp add: entry_eval)

lemma port_elsewhere: "\<forall>q\<in>set contested. entry_at dpdk_port_cmd_init q = None"
  unfolding dpdk_port_cmd_init_def entry_defs contested_def by (simp add: entry_eval)

lemma general_elsewhere: "\<forall>q\<in>set contested. entry_at [set_l3fwd_argv_entry, show_loop_count_entry, show_version_entry,
    show_rcu_entry, show_fdb_entry, show_rib_entry, show_vswitch_entry, sleep_cmd_entry] q = None"
  unfolding entry_defs contested_def by (simp add: entry_eval)

lemma thread_elsewhere: "\<forall>q\<in>set contested. entry_at (thread_info_cmd_init @ queue_config_cmd_init @ lthread_cmd_init @ tap_cmd_init) q = None"
  unfolding thread_info_cmd_init_def queue_config_cmd_init_def lthread_cmd_init_def tap_cmd_init_def append.simps
    entry_defs contested_def
  by (simp add: entry_eval)

lemma nettlp_elsewhere: "\<forall>q\<in>set contested. entry_at nettlp_cmd_init q = None"
  unfolding nettlp_cmd_init_def entry_defs contested_def by (simp add: entry_eval)

lemma lcore_at:
  "entry_at dpdk_lcore_cmd_init [w] = None"
  "w \<in> {''start'', ''reset'', ''restart''} \<Longrightarrow> entry_at dpdk_lcore_cmd_init [w, ''worker'', ''lcore'', ''<0-16>''] = Some (Lcore Do_start_stop_worker)"
  "entry_at dpdk_lcore_cmd_init [''set'', ''worker'', ''lcore'', ''<0-16>''] = Some (Lcore Do_set_worker)"
  unfolding dpdk_lcore_cmd_init_def entry_defs by (auto simp: entry_eval)

lemma entry_at_rest:
  "entry_at fs q = None \<Longrightarrow> entry_at (es @ fs) q = entry_at es q"
  "entry_at es q = None \<Longrightarrow> entry_at fs q = None \<Longrightarrow> entry_at (es @ fs) q = None"
  by (simp_all add: entry_at_append)

lemma sdplane_at:
  assumes "q \<in> set contested"
  shows "entry_at sdplane_cmd_init q = entry_at dpdk_lcore_cmd_init q"
proof -
  let ?g = "[set_l3fwd_argv_entry, show_loop_count_entry, show_version_entry, show_rcu_entry, show_fdb_entry,
    show_rib_entry, show_vswitch_entry, sleep_cmd_entry]"
  have "sdplane_cmd_init = dpdk_lcore_cmd_init @ dpdk_port_cmd_init @ ?g @
      (thread_info_cmd_init @ queue_config_cmd_init @ lthread_cmd_init @ tap_cmd_init) @ nettlp_cmd_init"
    by (simp add: sdplane_cmd_init_def)
  moreover have "entry_at (dpdk_port_cmd_init @ ?g @
      (thread_info_cmd_init @ queue_config_cmd_init @ lthread_cmd_init @ tap_cmd_init) @ nettlp_cmd_init) q = None"
    by (rule entry_at_rest(2) [OF bspec [OF port_elsewhere assms] entry_at_rest(2) [OF bspec [OF general_elsewhere assms]
      entry_at_rest(2) [OF bspec [OF thread_elsewhere assms] bspec [OF nettlp_elsewhere assms]]]])
  ultimately show ?thesis using entry_at_rest(1) by metis
qed

text \<open>The entries a shell has before those of \<open>sdplane_cmd_init\<close>.\<close>

lemma default_at: "entry_at default_entries [''exit''] = Some (Default Exit)" "entry_at default_entries [''logout''] = Some (Default Logout)"
  "entry_at default_entries [w, ''worker'', ''lcore'', ''<0-16>''] = None"
  unfolding default_entries_def default_commands_def by (auto simp: entry_eval)

lemma debug_at:
  assumes "fst dz = debug_spec ''zcmdsh'' debug_zcmdsh_types" "fst ds = debug_spec ''sdplane'' debug_sdplane_types" "q \<in> set contested"
  shows "q \<notin> set (spelled (fst dz))" "q \<notin> set (spelled (fst ds))"
proof -
  have t: "debug_sdplane_types \<noteq> []" "plain_word ''sdplane''" "debug_zcmdsh_types \<noteq> []" "plain_word ''zcmdsh''"
    by (simp_all add: debug_sdplane_types_def debug_zcmdsh_types_def plain_word_def)
  show "q \<notin> set (spelled (fst dz))" "q \<notin> set (spelled (fst ds))"
    unfolding assms(1,2) debug_spec_spelled(1) [OF t(4,3) debug_names(2)] debug_spec_spelled(1) [OF t(2,1) debug_names(1)]
    using assms(3) by (auto simp: contested_def)
qed

lemma leave_spelled:
  assumes "w \<in> {''exit'', ''quit'', ''logout''}"
  shows "snd (snd exit_cmd_entry) = Leave Do_exit_cmd"
    "[w] \<in> set (spelled (fst exit_cmd_entry)) \<longleftrightarrow> w \<noteq> ''logout''"
    "snd (snd vty_exit_cmd_entry) = Leave Do_vty_exit_cmd"
    "[w] \<in> set (spelled (fst vty_exit_cmd_entry))"
    "[w] \<notin> set (spelled (fst shutdown_cmd_entry))" "[w] \<notin> set (spelled (fst show_worker_entry))"
    "[w] \<notin> set (spelled (fst set_worker_entry))" "[w] \<notin> set (spelled (fst start_stop_worker_entry))"
    "[w] \<notin> set (spelled (fst show_debug_zcmdsh_entry))" "[w] \<notin> set (spelled (fst show_debug_sdplane_entry))"
  using assms unfolding entry_defs
  by (auto simp: spelled_def alternatives_def after_char_def extend_paths_def)

lemma shell_tables_at:
  assumes "fst dz = debug_spec ''zcmdsh'' debug_zcmdsh_types" "fst ds = debug_spec ''sdplane'' debug_sdplane_types"
  shows "w \<in> {''exit'', ''quit''} \<Longrightarrow> entry_at (console_entries dz ds) [w] = Some (Leave Do_exit_cmd)"
    "entry_at (console_entries dz ds) [''logout''] = Some (Default Logout)"
    "w \<in> {''exit'', ''quit'', ''logout''} \<Longrightarrow> entry_at (vty_entries dz ds) [w] = Some (Leave Do_vty_exit_cmd)"
    "entry_at (startup_entries dz ds) [''exit''] = Some (Default Exit)"
proof -
  have c: "[w] \<in> set contested" if "w \<in> {''exit'', ''quit'', ''logout''}" for w using that by (auto simp: contested_def)
  have none: "entry_at sdplane_cmd_init [w] = None" "entry_at log_cmd_init [w] = None"
    "entry_at (log_cmd_init @ sdplane_cmd_init) [w] = None" if "w \<in> {''exit'', ''quit'', ''logout''}" for w
    using sdplane_at [OF c [OF that]] lcore_at(1) bspec [OF log_elsewhere c [OF that]] by (simp_all add: entry_at_rest)
  note d = debug_at [OF assms c]
  have mid: "entry_at [exit_cmd_entry, show_worker_entry, set_worker_entry, start_stop_worker_entry, (fst dz, snd dz, Debugging Do_debug_zcmdsh),
      show_debug_zcmdsh_entry, (fst ds, snd ds, Debugging Do_debug_sdplane), show_debug_sdplane_entry] [w] =
      (if w = ''logout'' then None else Some (Leave Do_exit_cmd))"
    "entry_at [vty_exit_cmd_entry, shutdown_cmd_entry, show_worker_entry, set_worker_entry, start_stop_worker_entry,
      (fst dz, snd dz, Debugging Do_debug_zcmdsh), show_debug_zcmdsh_entry, (fst ds, snd ds, Debugging Do_debug_sdplane),
      show_debug_sdplane_entry] [w] = Some (Leave Do_vty_exit_cmd)"
    "entry_at [set_worker_entry, start_stop_worker_entry, (fst dz, snd dz, Debugging Do_debug_zcmdsh),
      (fst ds, snd ds, Debugging Do_debug_sdplane)] [w] = None"
    if w: "w \<in> {''exit'', ''quit'', ''logout''}" for w
    using d [OF w] leave_spelled [OF w] by (simp_all add: entry_at_def case_prod_beta)
  note console = trans [OF entry_at_rest(1) [OF none(3)] mid(1)] and startup = trans [OF entry_at_rest(1) [OF none(3)] mid(3)]
    and vty = trans [OF entry_at_rest(1) [OF none(1)] mid(2)]
  show "entry_at (console_entries dz ds) [w] = Some (Leave Do_exit_cmd)" if "w \<in> {''exit'', ''quit''}"
  proof -
    from that have w: "w \<in> {''exit'', ''quit'', ''logout''}" "w \<noteq> ''logout''" by auto
    show ?thesis
      unfolding console_entries_def append_assoc entry_at_append [of default_entries] console [OF w(1) w(1)] using w(2) by simp
  qed
  have l: "''logout'' \<in> {''exit'', ''quit'', ''logout''}" "''exit'' \<in> {''exit'', ''quit'', ''logout''}" by simp_all
  show "entry_at (console_entries dz ds) [''logout''] = Some (Default Logout)"
    unfolding console_entries_def append_assoc entry_at_append [of default_entries] console [OF l(1) l(1)] by (simp add: default_at)
  show "entry_at (vty_entries dz ds) [w] = Some (Leave Do_vty_exit_cmd)" if "w \<in> {''exit'', ''quit'', ''logout''}"
    unfolding vty_entries_def entry_at_append [of default_entries] entry_at_append [of log_cmd_init] vty [OF that that] by simp
  show "entry_at (startup_entries dz ds) [''exit''] = Some (Default Exit)"
    unfolding startup_entries_def entry_at_append [of default_entries] startup [OF l(2) l(2)] by (simp add: default_at)
qed

lemma workers_at:
  "w \<in> {''start'', ''reset'', ''restart''} \<Longrightarrow> entry_at (es @ sdplane_cmd_init) [w, ''worker'', ''lcore'', ''<0-16>''] =
     Some (Lcore Do_start_stop_worker)"
  "entry_at (es @ sdplane_cmd_init) [''set'', ''worker'', ''lcore'', ''<0-16>''] = Some (Lcore Do_set_worker)"
  using sdplane_at [of "[w, ''worker'', ''lcore'', ''<0-16>'']"] sdplane_at [of "[''set'', ''worker'', ''lcore'', ''<0-16>'']"]
    lcore_at(2,3) by (auto simp: entry_at_append contested_def)

lemma shell_commands_ok:
  assumes "permutes_list qsort" "entries \<in> {console_entries, vty_entries, startup_entries}"
  obtains cs hz hs where "shell_commands qsort entries = Inr cs" "tree_ok cs" "names_in (list_all clean) cs"
    "func_at cs = entry_at (entries (debug_spec ''zcmdsh'' debug_zcmdsh_types, hz) (debug_spec ''sdplane'' debug_sdplane_types, hs))"
proof -
  from zcmdsh_init_value sdplane_init_value obtain hz hs where
    i: "debug_zcmdsh_cmd_init = Inr (debug_spec ''zcmdsh'' debug_zcmdsh_types, hz)"
      "debug_sdplane_cmd_init = Inr (debug_spec ''sdplane'' debug_sdplane_types, hs)" by blast
  let ?es = "entries (debug_spec ''zcmdsh'' debug_zcmdsh_types, hz) (debug_spec ''sdplane'' debug_sdplane_types, hs)"
  have "\<forall>e\<in>set ?es. spec_ok e" using tables_ok [OF refl refl] assms(2) by blast
  from install_entries_ok [OF assms(1) this] that [of _ hz hs] show ?thesis by (auto simp: shell_commands_def i)
qed

text \<open>
  C9: The three shells of the program get their commands. Whatever order \<open>qsort\<close> makes, installing the entries of the
  console, of a session and of the startup configuration meets no assertion and gives a well-formed tree. Of the entries
  that spell the same command the last one is in force: \<open>exit\<close> ends a session by the session's own function, the console by the
  console's, which stops the lcores, but \<open>logout\<close> on the console and \<open>exit\<close> in the startup configuration are the shell's default
  ones. \<open>set_worker\<close>, which also takes \<open>start\<close>, \<open>reset\<close> and \<open>restart\<close>, runs for \<open>set worker lcore\<close> with a number alone; for the
  other three \<open>start_stop_worker\<close> runs.
\<close>

theorem shells_installed:
  assumes "permutes_list qsort"
  shows "\<exists>c v s. shell_commands qsort console_entries = Inr c \<and> shell_commands qsort vty_entries = Inr v \<and>
    shell_commands qsort startup_entries = Inr s \<and> tree_ok c \<and> tree_ok v \<and> tree_ok s \<and>
    func_at c [''exit''] = Some (Leave Do_exit_cmd) \<and> func_at c [''quit''] = Some (Leave Do_exit_cmd) \<and>
    func_at c [''logout''] = Some (Default Logout) \<and>
    (\<forall>w\<in>{''exit'', ''quit'', ''logout''}. func_at v [w] = Some (Leave Do_vty_exit_cmd)) \<and>
    func_at s [''exit''] = Some (Default Exit) \<and>
    (\<forall>cs\<in>{c, v, s}. func_at cs [''set'', ''worker'', ''lcore'', ''<0-16>''] = Some (Lcore Do_set_worker) \<and>
      (\<forall>w\<in>{''start'', ''reset'', ''restart''}. func_at cs [w, ''worker'', ''lcore'', ''<0-16>''] = Some (Lcore Do_start_stop_worker)))"
proof -
  let ?dz = "\<lambda>h. (debug_spec ''zcmdsh'' debug_zcmdsh_types, h)" and ?ds = "\<lambda>h. (debug_spec ''sdplane'' debug_sdplane_types, h)"
  obtain c z d where c: "shell_commands qsort console_entries = Inr c" "tree_ok c" "func_at c = entry_at (console_entries (?dz z) (?ds d))"
    by (rule shell_commands_ok [OF assms, of console_entries]) auto
  obtain v z' d' where v: "shell_commands qsort vty_entries = Inr v" "tree_ok v" "func_at v = entry_at (vty_entries (?dz z') (?ds d'))"
    by (rule shell_commands_ok [OF assms, of vty_entries]) auto
  obtain s z'' d'' where s: "shell_commands qsort startup_entries = Inr s" "tree_ok s" "func_at s = entry_at (startup_entries (?dz z'') (?ds d''))"
    by (rule shell_commands_ok [OF assms, of startup_entries]) auto
  have w: "func_at cs [''set'', ''worker'', ''lcore'', ''<0-16>''] = Some (Lcore Do_set_worker) \<and>
      (\<forall>w\<in>{''start'', ''reset'', ''restart''}. func_at cs [w, ''worker'', ''lcore'', ''<0-16>''] = Some (Lcore Do_start_stop_worker))"
    if "cs \<in> {c, v, s}" for cs
  proof -
    from that obtain es where "func_at cs = entry_at (es @ sdplane_cmd_init)"
      using c(3) v(3) s(3) unfolding console_entries_def vty_entries_def startup_entries_def append_assoc [symmetric] by blast
    then show ?thesis using workers_at by simp
  qed
  note at = shell_tables_at [of "?dz _" "?ds _", OF fst_conv fst_conv]
  show ?thesis
    using c(1,2) v(1,2) s(1,2) w at by (intro exI [of _ c] exI [of _ v] exI [of _ s]) (simp add: c(3) v(3) s(3))
qed

theorem shells_installed_witness:
  "\<exists>v. shell_commands id vty_entries = Inr v \<and> tree_ok v \<and> func_at v [''logout''] = Some (Leave Do_vty_exit_cmd)"
  using shells_installed [of id] by (auto simp: permutes_list_def)

text \<open>
  A terminal session of the program is safe. With the commands the program installs, in any order \<open>qsort\<close> makes, functions that
  keep the shell and leave the pager's fields alone, and names of files without a backspace, any sequence of turns
  of the session's loop with its pager, with any bytes received, any outcome of the system calls but a failing
  \<open>fdopen\<close>, any failing allocations and any files opened and closed by other threads, keeps the shell well
  formed and, between two turns, its own terminal in place of the pipe; or it stops in a fault that a received byte allows.
\<close>

theorem program_session:
  assumes "permutes_list qsort" "\<forall>d es. readdir y d = Some es \<longrightarrow> (\<forall>e\<in>set es. list_all clean e)"
    and "\<forall>cs. paged_commands_ok call cs F" "0 \<le> fd" "\<forall>t\<in>set ts. \<forall>u. pe_fdopen (tu_env t u)"
  shows "\<exists>cs. shell_commands qsort vty_entries = Inr cs \<and>
    ((\<exists>sh n. runr (paged_turn y call is_dir timer) ts (paged_shell cs mem fd cid tbl, 0) = Inr (sh, n) \<and>
        session_ok cs sh \<and> pg_saved_terminal sh = None) \<or>
     (\<exists>t\<in>set ts. \<exists>b\<in>set (read_bytes (tu_read t)). \<exists>f\<in>session_faults F b.
        runr (paged_turn y call is_dir timer) ts (paged_shell cs mem fd cid tbl, 0) = Inl f))"
proof -
  obtain cs hz hs where cs: "shell_commands qsort vty_entries = Inr cs" "tree_ok cs" "names_in (list_all clean) cs"
    by (rule shell_commands_ok [OF assms(1), of vty_entries]) auto
  then have "names_clean y cs" using assms(2) by (simp add: names_clean_def names_in_def)
  from paged_session [OF cs(2) this spec [OF assms(3)] assms(4,5)] cs(1) show ?thesis by blast
qed

theorem program_session_witness:
  "\<exists>cs sh n. shell_commands id vty_entries = Inr cs \<and>
     runr (paged_turn no_system (\<lambda>f argv. print_term ''hello'') (\<lambda>_. False) no_limit)
      [\<lparr>tu_force_quit = False, tu_force_stop = False, tu_now = 5, tu_mem = False, tu_poll = 1, tu_read = ReadBytes [],
        tu_env = \<lambda>_. calm, tu_others = \<lambda>t. t\<rparr>]
      (paged_shell cs True 4 1 four_open, 0) = Inr (sh, n) \<and> session_ok cs sh"
proof -
  have ok: "\<forall>cs. paged_commands_ok (\<lambda>f argv. print_term ''hello'') cs {}"
    unfolding paged_commands_ok_def
    by (auto intro!: settles_mono [OF session_print] simp: quiet_def kept_paging simp del: append.simps)
  have p: "permutes_list id" "\<forall>d es. readdir no_system d = Some es \<longrightarrow> (\<forall>e\<in>set es. list_all clean e)"
    by (auto simp: permutes_list_def no_system_def)
  show ?thesis
    using program_session [OF p ok, of 4
      "[\<lparr>tu_force_quit = False, tu_force_stop = False, tu_now = 5, tu_mem = False, tu_poll = 1, tu_read = ReadBytes [],
        tu_env = \<lambda>_. calm, tu_others = \<lambda>t. t\<rparr>]" "\<lambda>_. False" no_limit True 1 four_open]
    by (auto simp: read_bytes_def calm_def)
qed

end
