(* ===== verification/Vty_Server.thy ===== *)
theory Vty_Server
  imports Workers "HOL-Library.Multiset"
begin

text \<open>
  The server of terminal sessions, \<open>sdplane/vty_server.c\<close>: its five slots, the turn of its loop, and the
  part of a session (\<open>vty_shell\<close> in \<open>sdplane/vty_shell.c\<close>) that takes and gives back a slot, a connection and an
  entry of the thread registry. What the system answers (\<open>poll\<close>, \<open>accept\<close>, whether a thread can be
  created) is part of the events. Lightweight threads run one at a time and yield at their sleeps,
  so a turn is one step.
\<close>

section \<open>State\<close>

definition VTY_CLIENT_MAX :: nat where "VTY_CLIENT_MAX = 5"

record 'l vty_client =
  vc_id :: nat
  vc_peer :: string
  vc_fd :: int
  vc_lt :: "'l option"

text \<open>
  The thread of a slot: none, created but not run yet, or running with the id it got from the registry.
  \<open>sv_open\<close> are the connections accepted and not closed.
\<close>

datatype session = Absent | Created | Running int

record ('l, 'a, 'p) service =
  client_info :: "'l vty_client list"
  sessions :: "session list"
  client_size :: nat
  sv_loops :: nat
  sv_open :: "int list"
  sv_registry :: "(routine, 'l, 'a, 'p) registry"

datatype 'l service_event =
    Server_turn bool bool bool "int \<times> string" "'l option"
  | Session_runs nat
  | Session_ends nat

section \<open>The server\<close>

text \<open>
  The start: the results of \<open>socket\<close>, \<open>setsockopt\<close> and \<open>bind\<close>, and the address of the loop counter. \<open>None\<close>: the
  server returns without serving.
\<close>

definition vty_server_start :: "int \<Rightarrow> int \<Rightarrow> int \<Rightarrow> 'p \<Rightarrow> ('l, 'a, 'p) service \<Rightarrow> ('l, 'a, 'p) service option" where
  "vty_server_start sockfd optret bindret counter s =
    (if sockfd = -1 then None
     else if optret < 0 then None
     else if bindret < 0 then None
     else Some (s\<lparr>client_info := map (\<lambda>i. (client_info s ! i)\<lparr>vc_id := i, vc_fd := -1\<rparr>) [0..<VTY_CLIENT_MAX],
            client_size := 0,
            sv_registry := thread_register_loop_counter (thread_lookup Vty_server (sv_registry s)) counter (sv_registry s)\<rparr>))"

definition free_slot :: "'l vty_client list \<Rightarrow> nat option" where
  "free_slot cs = find (\<lambda>i. vc_fd (cs ! i) = -1) [0..<VTY_CLIENT_MAX]"

text \<open>
  A turn: whether the program or the lcore stops, whether the socket has an event, the connection and the address
  of its peer (negative: \<open>accept\<close> failed), and the new thread (\<open>None\<close>: it could not be created).
\<close>

definition vty_server_turn ::
  "bool \<Rightarrow> bool \<Rightarrow> bool \<Rightarrow> int \<times> string \<Rightarrow> 'l option \<Rightarrow> ('l, 'a, 'p) service \<Rightarrow> ('l, 'a, 'p) service" where
  "vty_server_turn quit stop event conn created s =
    (if quit \<or> stop then s
     else if \<not> event then s
     else let (client_fd, peer) = conn
       in if client_fd < 0 then s
          else let s = s\<lparr>sv_open := client_fd # sv_open s\<rparr>
            in case free_slot (client_info s) of
                 None \<Rightarrow> s\<lparr>sv_open := remove1 client_fd (sv_open s)\<rparr>
               | Some i \<Rightarrow>
                   let c = (client_info s ! i)\<lparr>vc_peer := peer, vc_fd := client_fd\<rparr>;
                       c = (case created of None \<Rightarrow> c | Some lt \<Rightarrow> c\<lparr>vc_lt := Some lt\<rparr>)
                   in s\<lparr>client_info := (client_info s)[i := c],
                        sessions := (case created of None \<Rightarrow> sessions s | Some _ \<Rightarrow> (sessions s)[i := Created]),
                        client_size := (if client_size s < i then i + 1 else client_size s),
                        sv_loops := sv_loops s + 1\<rparr>)"

section \<open>The sessions\<close>

definition vty_name :: "'l vty_client \<Rightarrow> string" where
  "vty_name c = take 255 (''vty['' @ dec (vc_id c) @ '']: '' @ vc_peer c)"

text \<open>A created thread reads its handle from its slot. Its first part runs up to the first sleep of its loop.\<close>

definition vty_shell_begin :: "int \<Rightarrow> 'p \<Rightarrow> nat \<Rightarrow> ('l, 'a, 'p) service \<Rightarrow> ('l, 'a, 'p) service" where
  "vty_shell_begin core counter i s =
    (let c = client_info s ! i;
         (t, r) = thread_register core (vc_lt c) (Some Vty_shell) (Some (vty_name c)) None (sv_registry s)
     in s\<lparr>sv_registry := thread_register_loop_counter t counter r, sessions := (sessions s)[i := Running t]\<rparr>)"

definition vty_shell_end :: "nat \<Rightarrow> int \<Rightarrow> ('l, 'a, 'p) service \<Rightarrow> ('l, 'a, 'p) service res" where
  "vty_shell_end i t s =
    (let c = client_info s ! i;
         s = s\<lparr>sv_open := remove1 (vc_fd c) (sv_open s), client_info := (client_info s)[i := c\<lparr>vc_fd := -1\<rparr>]\<rparr>
     in bindr (session_end t (sv_registry s)) (\<lambda>r. Inr (s\<lparr>sv_registry := r, sessions := (sessions s)[i := Absent]\<rparr>)))"

text \<open>The scheduler runs only threads that exist.\<close>

definition service_step :: "int \<Rightarrow> 'p \<Rightarrow> 'l service_event \<Rightarrow> ('l, 'a, 'p) service \<Rightarrow> ('l, 'a, 'p) service res" where
  "service_step core counter e s = (case e of
      Server_turn quit stop event conn created \<Rightarrow> Inr (vty_server_turn quit stop event conn created s)
    | Session_runs i \<Rightarrow> (if i < length (sessions s) \<and> sessions s ! i = Created then Inr (vty_shell_begin core counter i s) else Inr s)
    | Session_ends i \<Rightarrow> (if i < length (sessions s) then (case sessions s ! i of Running t \<Rightarrow> vty_shell_end i t s | _ \<Rightarrow> Inr s) else Inr s))"

text \<open>Before the server starts every slot is zero.\<close>

definition no_client :: "'l vty_client" where
  "no_client = \<lparr>vc_id = 0, vc_peer = [], vc_fd = 0, vc_lt = None\<rparr>"

definition service_zero :: "(routine, 'l, 'a, 'p) registry \<Rightarrow> ('l, 'a, 'p) service" where
  "service_zero r = \<lparr>client_info = replicate VTY_CLIENT_MAX no_client, sessions = replicate VTY_CLIENT_MAX Absent,
     client_size = 0, sv_loops = 0, sv_open = [], sv_registry = r\<rparr>"

section \<open>The invariant\<close>

text \<open>The connections the slots hold, and the ids of the running sessions.\<close>

definition held :: "'l vty_client list \<Rightarrow> int list" where
  "held cs = concat (map (\<lambda>c. if vc_fd c = -1 then [] else [vc_fd c]) cs)"

definition ids :: "session list \<Rightarrow> int list" where
  "ids ss = concat (map (\<lambda>x. case x of Running t \<Rightarrow> [t] | _ \<Rightarrow> []) ss)"

definition slots_ok :: "('l, 'a, 'p) service \<Rightarrow> bool" where
  "slots_ok s \<longleftrightarrow> length (client_info s) = VTY_CLIENT_MAX \<and> length (sessions s) = VTY_CLIENT_MAX \<and>
     mset (sv_open s) = mset (held (client_info s)) \<and>
     (\<forall>i<VTY_CLIENT_MAX. vc_id (client_info s ! i) = i \<and> -1 \<le> vc_fd (client_info s ! i) \<and>
        (sessions s ! i \<noteq> Absent \<longrightarrow> vc_fd (client_info s ! i) \<noteq> -1))"


definition running :: "session list \<Rightarrow> nat set" where
  "running ss = {j. int j \<in> set (ids ss)}"

definition others :: "('l, 'a, 'p) service \<Rightarrow> (nat \<times> (routine, 'l, 'a) thread_info) set" where
  "others s = {(j, u). (j, u) \<in> live (sv_registry s) \<and> j \<notin> running (sessions s)}"

definition registered_ok :: "(nat \<times> (routine, 'l, 'a) thread_info) set \<Rightarrow> ('l, 'a, 'p) service \<Rightarrow> bool" where
  "registered_ok L s \<longleftrightarrow> registry_ok (sv_registry s) \<and> others s = L \<and>
     (\<forall>t\<in>set (ids (sessions s)). 0 \<le> t \<and> (\<exists>u. (nat t, u) \<in> live (sv_registry s) \<and> ti_func u = Some Vty_shell)) \<and>
     distinct (ids (sessions s))"

lemma live_range: "registry_ok r \<Longrightarrow> live r \<subseteq> (\<lambda>j. (j, threads r ! j)) ` {..<16}"
  by (auto simp: live_def registry_ok_def THREAD_INFO_LIMIT_def)

lemma live_finite [simp]: "registry_ok r \<Longrightarrow> finite (live r)"
  using live_range finite_subset by blast

lemma full_live:
  assumes "registry_ok r" "thread_info_size r = THREAD_INFO_LIMIT" "\<forall>t\<in>set (threads r). ti_func t \<noteq> None"
  shows "card (live r) = 16"
proof -
  have "live r = (\<lambda>j. (j, threads r ! j)) ` {..<16}"
    using assms by (auto simp: live_def registry_ok_def THREAD_INFO_LIMIT_def)
  moreover have "inj_on (\<lambda>j. (j, threads r ! j)) {..<16}" by (auto simp: inj_on_def)
  ultimately show ?thesis by (simp add: card_image)
qed

text \<open>Registering and unregistering, as changes of the set of registered threads.\<close>

lemma register_live:
  assumes ok: "registry_ok r" and room: "card (live r) < 16"
  obtains i r' where "thread_register lcore lt (Some f) name arg r = (int i, r')" "i < 16"
    "registry_ok r'" "\<And>u. (i, u) \<notin> live r"
    "live r' = insert (i, \<lparr>ti_lcore_id = lcore, ti_lthread = lt, ti_func = Some f, ti_name = name, ti_arg = arg\<rparr>) (live r)"
proof (cases rule: register_spec [OF ok, of lcore lt "Some f" name arg, case_names full slot])
  case full
  with full_live [OF ok] room show ?thesis by simp
next
  case (slot i r')
  have 16: "i < 16" using slot(2) by (simp add: THREAD_INFO_LIMIT_def)
  have fresh: "(i, u) \<notin> live r" for u using slot(3) by (auto simp: live_def)
  have ok': "registry_ok r'" using ok slot(2) by (auto simp: slot(6) registry_ok_def THREAD_INFO_LIMIT_def)
  have "live r' = insert (i, \<lparr>ti_lcore_id = lcore, ti_lthread = lt, ti_func = Some f, ti_name = name, ti_arg = arg\<rparr>) (live r)"
    using ok slot(2,3,7) by (auto simp: slot(6) live_def registry_ok_def nth_list_update split: if_splits)
  with slot(1) 16 ok' fresh show ?thesis by (rule that)
qed

lemma unregister_live:
  assumes "registry_ok r" "i < 16"
  shows "\<exists>r'. session_end (int i) r = Inr r' \<and> registry_ok r' \<and> live r' = {(j, u). (j, u) \<in> live r \<and> j \<noteq> i}"
  using assms
  by (auto simp: session_end_def thread_unregister_def thread_unregister_loop_counter_def registry_ok_def
      THREAD_INFO_LIMIT_def live_def nth_list_update)

lemma counter_live [simp]:
  "live (thread_register_loop_counter i p r) = live r"
  "registry_ok (thread_register_loop_counter i p r) = registry_ok r"
  by (auto simp: thread_register_loop_counter_def live_def registry_ok_def)

text \<open>Slots.\<close>

lemma concat_update:
  "i < length xs \<Longrightarrow> mset (concat (map f (xs[i := x]))) + mset (f (xs ! i)) = mset (concat (map f xs)) + mset (f x)"
proof (induction xs arbitrary: i)
  case (Cons y xs)
  show ?case
  proof (cases i)
    case (Suc j)
    with Cons.IH [of j] Cons.prems show ?thesis by (simp add: union_assoc)
  qed (simp add: add.commute add.left_commute)
qed simp

lemma held_update:
  "i < length cs \<Longrightarrow> mset (held (cs[i := c])) + (if vc_fd (cs ! i) = -1 then {#} else {#vc_fd (cs ! i)#}) =
     mset (held cs) + (if vc_fd c = -1 then {#} else {#vc_fd c#})"
  using concat_update [of i cs "\<lambda>c. if vc_fd c = -1 then [] else [vc_fd c]" c]
  unfolding held_def by (simp split: if_splits)

lemma ids_update:
  "i < length ss \<Longrightarrow> mset (ids (ss[i := x])) + mset (case ss ! i of Running t \<Rightarrow> [t] | _ \<Rightarrow> []) =
     mset (ids ss) + mset (case x of Running t \<Rightarrow> [t] | _ \<Rightarrow> [])"
  unfolding ids_def by (rule concat_update)

lemma free_slot_spec:
  "free_slot cs = Some i \<Longrightarrow> i < VTY_CLIENT_MAX \<and> vc_fd (cs ! i) = -1"
  "free_slot cs = None \<longleftrightarrow> (\<forall>i<VTY_CLIENT_MAX. vc_fd (cs ! i) \<noteq> -1)"
  by (auto simp: free_slot_def find_Some_iff find_None_iff)

text \<open>A turn does nothing, refuses the connection, or puts it into a slot.\<close>

lemma turn_cases:
  obtains (nothing) "vty_server_turn quit stop event conn created s = s"
  | (refused) "0 \<le> fst conn" "free_slot (client_info s) = None"
      "vty_server_turn quit stop event conn created s = s"
  | (served) i where "0 \<le> fst conn" "free_slot (client_info s) = Some i"
      "vty_server_turn quit stop event conn created s = s\<lparr>sv_open := fst conn # sv_open s,
         client_info := (client_info s)[i := (client_info s ! i)\<lparr>vc_peer := snd conn, vc_fd := fst conn,
            vc_lt := (if created = None then vc_lt (client_info s ! i) else created)\<rparr>],
         sessions := (if created = None then sessions s else (sessions s)[i := Created]),
         client_size := (if client_size s < i then i + 1 else client_size s), sv_loops := sv_loops s + 1\<rparr>"
proof -
  obtain fd peer where c: "conn = (fd, peer)" by (cases conn)
  consider "quit \<or> stop \<or> \<not> event \<or> fd < 0" | "\<not> quit" "\<not> stop" "event" "0 \<le> fd" by force
  then show ?thesis
  proof cases
    case 1
    then have "vty_server_turn quit stop event conn created s = s" by (auto simp: vty_server_turn_def c)
    then show ?thesis by (rule nothing)
  next
    case 2
    then show ?thesis
    proof (cases "free_slot (client_info s)")
      case None
      with 2 show ?thesis by (intro refused) (simp_all add: vty_server_turn_def c)
    next
      case (Some i)
      with 2 show ?thesis
        by (intro served [of i]) (auto simp: vty_server_turn_def c Let_def split: option.split)
    qed
  qed
qed

lemma turn_slots:
  assumes ok: "slots_ok s"
  shows "slots_ok (vty_server_turn quit stop event conn created s)"
proof (cases quit stop event conn created s rule: turn_cases)
  case (served i)
  note i = free_slot_spec(1) [OF served(2)]
  have len: "i < length (client_info s)" using ok i by (simp add: slots_ok_def)
  note h = held_update [OF len, of "(client_info s ! i)\<lparr>vc_peer := snd conn, vc_fd := fst conn,
            vc_lt := (if created = None then vc_lt (client_info s ! i) else created)\<rparr>"]
  show ?thesis
    unfolding served(3) using h ok i served(1)
    by (auto simp: slots_ok_def nth_list_update)
qed (use ok in simp_all)

lemma live_unique: "(j, u) \<in> live r \<Longrightarrow> (j, v) \<in> live r \<Longrightarrow> u = v"
  by (simp add: live_def)

lemma ids_set: "t \<in> set (ids ss) \<longleftrightarrow> Running t \<in> set ss"
  by (induction ss) (auto simp: ids_def split: session.splits)

lemma running_finite [simp]: "finite (running ss)"
proof -
  have "running ss \<subseteq> nat ` set (ids ss)" by (force simp: running_def)
  then show ?thesis by (meson finite_imageI finite_set finite_subset)
qed

lemma ids_nth: "i < length ss \<Longrightarrow> ss ! i = Running t \<Longrightarrow> t \<in> set (ids ss)"
  by (metis ids_set nth_mem)

lemma ids_same:
  assumes "i < length ss" "\<And>t. ss ! i \<noteq> Running t" "\<And>t. x \<noteq> Running t"
  shows "mset (ids (ss[i := x])) = mset (ids ss)"
proof -
  have "(case y of Running t \<Rightarrow> [t] | _ \<Rightarrow> []) = []" if "\<And>t. y \<noteq> Running t" for y using that by (cases y) auto
  with ids_update [OF assms(1), of x] assms(2,3) show ?thesis by simp
qed

lemma ids_begin:
  assumes "i < length ss" "ss ! i = Created"
  shows "mset (ids (ss[i := Running t])) = add_mset t (mset (ids ss))"
  using ids_update [OF assms(1), of "Running t"] assms(2) by simp

lemma ids_end:
  assumes "i < length ss" "ss ! i = Running t"
  shows "add_mset t (mset (ids (ss[i := Absent]))) = mset (ids ss)"
  using ids_update [OF assms(1), of Absent] assms(2) by simp

lemma running_few:
  assumes "i < length ss" "ss ! i = Created" "length ss = VTY_CLIENT_MAX"
  shows "card (running ss) \<le> 4"
proof -
  let ?f = "\<lambda>x. case x of Running t \<Rightarrow> nat t | _ \<Rightarrow> 0"
  have "running ss \<subseteq> ?f ` (set ss - {Created})" by (force simp: running_def ids_set)
  moreover have "card (set ss) \<le> 5" using card_length [of ss] assms(3) by (simp add: VTY_CLIENT_MAX_def)
  moreover have "Created \<in> set ss" using assms(1,2) by (metis nth_mem)
  then have "card (set ss - {Created}) = card (set ss) - 1" by simp
  ultimately have "card (running ss) \<le> card (set ss - {Created})" "card (set ss - {Created}) \<le> 4"
    using surj_card_le [of "set ss - {Created}" "running ss" ?f] by simp_all
  then show ?thesis by simp
qed

lemma room_for_session:
  assumes r: "registered_ok L s" and s: "slots_ok s" and L: "card L \<le> 11"
    and i: "i < length (sessions s)" "sessions s ! i = Created"
  shows "card (live (sv_registry s)) < 16"
proof -
  let ?R = "live (sv_registry s)"
  have fin: "finite ?R" using r by (simp add: registered_ok_def)
  have sub: "?R \<subseteq> L \<union> {(j, u) \<in> ?R. j \<in> running (sessions s)}" using r by (auto simp: registered_ok_def others_def)
  have "L \<subseteq> ?R" using r by (auto simp: registered_ok_def others_def)
  with fin have fL: "finite L" by (rule finite_subset [rotated])
  have "card {(j, u) \<in> ?R. j \<in> running (sessions s)} \<le> card (running (sessions s))"
  proof (rule card_inj_on_le [where f = fst])
    show "inj_on fst {(j, u) \<in> ?R. j \<in> running (sessions s)}" by (auto simp: inj_on_def intro: live_unique)
  qed auto
  also have "\<dots> \<le> 4" using running_few [OF i] s by (simp add: slots_ok_def)
  finally have "card {(j, u) \<in> ?R. j \<in> running (sessions s)} \<le> 4" .
  moreover have "card ?R \<le> card (L \<union> {(j, u) \<in> ?R. j \<in> running (sessions s)})"
    using sub fL fin by (intro card_mono finite_UnI) (auto intro: finite_subset [of _ ?R])
  moreover have "\<dots> \<le> card L + card {(j, u) \<in> ?R. j \<in> running (sessions s)}" by (rule card_Un_le)
  ultimately show ?thesis using L by linarith
qed

lemma others_ids: "others s = {(j, u). (j, u) \<in> live (sv_registry s) \<and> int j \<notin> set (ids (sessions s))}"
  by (simp add: others_def running_def)

lemma registered_turn:
  assumes r: "registered_ok L s" and s: "slots_ok s"
  shows "registered_ok L (vty_server_turn quit stop event conn created s)"
proof (cases quit stop event conn created s rule: turn_cases)
  case (served i)
  note i = free_slot_spec(1) [OF served(2)]
  have len: "i < length (sessions s)" and ab: "sessions s ! i = Absent" using s i by (auto simp: slots_ok_def)
  have "mset (ids ((sessions s)[i := Created])) = mset (ids (sessions s))" using ids_same [OF len] ab by simp
  then have "set (ids ((sessions s)[i := Created])) = set (ids (sessions s))"
    "distinct (ids ((sessions s)[i := Created])) = distinct (ids (sessions s))"
    by (metis set_mset_mset, metis mset_eq_imp_distinct_iff)
  then show ?thesis unfolding served(3) using r by (simp add: registered_ok_def others_ids)
qed (use r in simp_all)

lemma begin_ok:
  assumes r: "registered_ok L s" and s: "slots_ok s" and L: "card L \<le> 11"
    and i: "i < length (sessions s)" "sessions s ! i = Created"
  shows "registered_ok L (vty_shell_begin core counter i s)" "slots_ok (vty_shell_begin core counter i s)"
    "client_info (vty_shell_begin core counter i s) = client_info s"
proof -
  let ?c = "client_info s ! i"
  have ok: "registry_ok (sv_registry s)" using r by (simp add: registered_ok_def)
  obtain t r' where reg: "thread_register core (vc_lt ?c) (Some Vty_shell) (Some (vty_name ?c)) None (sv_registry s) = (int t, r')"
      "t < 16" "registry_ok r'" "\<And>u. (t, u) \<notin> live (sv_registry s)"
      "live r' = insert (t, \<lparr>ti_lcore_id = core, ti_lthread = vc_lt ?c, ti_func = Some Vty_shell,
         ti_name = Some (vty_name ?c), ti_arg = None\<rparr>) (live (sv_registry s))"
    using register_live [OF ok room_for_session [OF r s L i]] by blast
  have b: "vty_shell_begin core counter i s = s\<lparr>sv_registry := thread_register_loop_counter (int t) counter r',
      sessions := (sessions s)[i := Running (int t)]\<rparr>"
    by (simp add: vty_shell_begin_def reg(1))
  note m = ids_begin [OF i, of "int t"]
  have set: "set (ids ((sessions s)[i := Running (int t)])) = insert (int t) (set (ids (sessions s)))"
    using arg_cong [OF m, of set_mset] by simp
  have fresh: "int t \<notin> set (ids (sessions s))" using r reg(4) by (auto simp: registered_ok_def)
  have "distinct (int t # ids (sessions s))" using fresh r by (simp add: registered_ok_def)
  moreover have "mset (int t # ids (sessions s)) = mset (ids ((sessions s)[i := Running (int t)]))" using m by simp
  ultimately have dist: "distinct (ids ((sessions s)[i := Running (int t)]))" using mset_eq_imp_distinct_iff by blast
  show "registered_ok L (vty_shell_begin core counter i s)"
    unfolding b using r reg(3,4,5) dist by (auto simp: registered_ok_def others_ids set)
  show "slots_ok (vty_shell_begin core counter i s)"
    unfolding b using s i by (auto simp: slots_ok_def nth_list_update)
  show "client_info (vty_shell_begin core counter i s) = client_info s" by (simp add: b)
qed

lemma end_ok:
  assumes r: "registered_ok L s" and s: "slots_ok s"
    and i: "i < length (sessions s)" "sessions s ! i = Running t"
  obtains s' where "vty_shell_end i t s = Inr s'" "registered_ok L s'" "slots_ok s'"
    "sv_open s' = remove1 (vc_fd (client_info s ! i)) (sv_open s)"
proof -
  let ?c = "client_info s ! i"
  have ok: "registry_ok (sv_registry s)" and t: "t \<in> set (ids (sessions s))"
    using r ids_nth [OF i] by (auto simp: registered_ok_def)
  from r t have "0 \<le> t" "nat t < 16"
    by (auto simp: registered_ok_def live_def registry_ok_def THREAD_INFO_LIMIT_def dest: bspec)
  with unregister_live [OF ok, of "nat t"] obtain r' where
    en: "session_end t (sv_registry s) = Inr r'" "registry_ok r'" "live r' = {(j, u). (j, u) \<in> live (sv_registry s) \<and> j \<noteq> nat t}"
    by auto
  define s' where "s' = s\<lparr>sv_open := remove1 (vc_fd ?c) (sv_open s), client_info := (client_info s)[i := ?c\<lparr>vc_fd := -1\<rparr>],
     sv_registry := r', sessions := (sessions s)[i := Absent]\<rparr>"
  have e: "vty_shell_end i t s = Inr s'" by (simp add: vty_shell_end_def Let_def en(1) s'_def)
  note m = ids_end [OF i]
  have set: "insert t (set (ids ((sessions s)[i := Absent]))) = set (ids (sessions s))"
    using arg_cong [OF m, of set_mset] by simp
  have "distinct (t # ids ((sessions s)[i := Absent])) = distinct (ids (sessions s))"
    using m by (intro mset_eq_imp_distinct_iff) simp
  then have dist: "t \<notin> set (ids ((sessions s)[i := Absent]))" "distinct (ids ((sessions s)[i := Absent]))"
    using r by (simp_all add: registered_ok_def)
  have rest: "x \<in> set (ids ((sessions s)[i := Absent])) \<longleftrightarrow> x \<in> set (ids (sessions s)) \<and> x \<noteq> t" for x
    using set dist(1) by blast
  have "others s' = others s" using \<open>0 \<le> t\<close> t by (auto simp: others_ids s'_def en(3) rest)
  moreover have "0 \<le> x \<and> (\<exists>u. (nat x, u) \<in> live r' \<and> ti_func u = Some Vty_shell)" if "x \<in> set (ids ((sessions s)[i := Absent]))" for x
    using that r \<open>0 \<le> t\<close> unfolding rest by (auto simp: registered_ok_def en(3) dest!: bspec [of _ _ x])
  ultimately have "registered_ok L s'" using r en(2) dist(2) by (auto simp: registered_ok_def s'_def)
  moreover have len: "i < length (client_info s)" and n: "i < VTY_CLIENT_MAX" "vc_fd ?c \<noteq> -1"
    using s i by (simp_all add: slots_ok_def)
  have "add_mset (vc_fd ?c) (mset (held ((client_info s)[i := ?c\<lparr>vc_fd := -1\<rparr>]))) = mset (held (client_info s))"
    using n held_update [OF len, of "?c\<lparr>vc_fd := -1\<rparr>"] by simp
  then have "mset (held (client_info s)) - {#vc_fd ?c#} = mset (held ((client_info s)[i := ?c\<lparr>vc_fd := -1\<rparr>]))"
    by (metis add_mset_remove_trivial)
  then have "slots_ok s'"
    using s n by (auto simp: slots_ok_def s'_def nth_list_update)
  ultimately show ?thesis using e by (intro that [of s']) (simp_all add: s'_def)
qed

section \<open>Runs of the server\<close>

definition service_ok :: "(nat \<times> (routine, 'l, 'a) thread_info) set \<Rightarrow> ('l, 'a, 'p) service \<Rightarrow> bool" where
  "service_ok L s \<longleftrightarrow> card L \<le> 11 \<and> slots_ok s \<and> registered_ok L s"

lemma service_step_ok:
  assumes "service_ok L s"
  shows "\<exists>s'. service_step core counter e s = Inr s' \<and> service_ok L s'"
proof (cases e)
  case (Server_turn quit stop event conn created)
  then show ?thesis using assms turn_slots [of s quit stop event conn created] registered_turn [of L s quit stop event conn created]
    by (simp add: service_step_def service_ok_def)
next
  case (Session_runs i)
  then show ?thesis using assms begin_ok by (auto simp: service_step_def service_ok_def)
next
  case (Session_ends i)
  show ?thesis
  proof (cases "i < length (sessions s) \<and> (\<exists>t. sessions s ! i = Running t)")
    case True
    then obtain t where i: "i < length (sessions s)" "sessions s ! i = Running t" by blast
    from end_ok [OF _ _ this] assms obtain s' where "vty_shell_end i t s = Inr s'" "registered_ok L s'" "slots_ok s'"
      unfolding service_ok_def by metis
    then show ?thesis using assms i Session_ends by (auto simp: service_step_def service_ok_def)
  next
    case False
    then show ?thesis using assms Session_ends
      by (cases "sessions s ! i") (auto simp: service_step_def)
  qed
qed

interpretation service: safe_machine "service_step core counter" "service_ok L" "\<lambda>_. {}" for core counter L
  by unfold_locales (rule disjI1, rule service_step_ok)

lemma started_ok:
  assumes "registry_ok r" "card (live r) \<le> 11" "vty_server_start sockfd optret bindret p (service_zero r) = Some s"
  shows "service_ok (live r) s"
proof -
  have s: "s = (service_zero r)\<lparr>client_info := map (\<lambda>i. no_client\<lparr>vc_id := i, vc_fd := -1\<rparr>) [0..<VTY_CLIENT_MAX],
     sv_registry := thread_register_loop_counter (thread_lookup Vty_server r) p r\<rparr>"
    using assms(3) by (auto simp: vty_server_start_def service_zero_def split: if_splits)
  show ?thesis unfolding s
    using assms(1,2)
    by (simp add: service_ok_def slots_ok_def registered_ok_def others_ids service_zero_def VTY_CLIENT_MAX_def held_def ids_def no_client_def)
qed

lemma open_length: "slots_ok s \<Longrightarrow> length (sv_open s) = length (held (client_info s))"
  unfolding slots_ok_def by (metis size_mset)

lemma held_all: "length (held cs) \<le> length cs" "length (held cs) = length cs \<longleftrightarrow> (\<forall>c\<in>set cs. vc_fd c \<noteq> -1)"
proof -
  have "length (held cs) \<le> length cs \<and> (length (held cs) = length cs \<longleftrightarrow> (\<forall>c\<in>set cs. vc_fd c \<noteq> -1))"
    by (induction cs) (auto simp: held_def)
  then show "length (held cs) \<le> length cs" "length (held cs) = length cs \<longleftrightarrow> (\<forall>c\<in>set cs. vc_fd c \<noteq> -1)" by simp_all
qed

lemma full_slots: "slots_ok s \<Longrightarrow> free_slot (client_info s) = None \<longleftrightarrow> length (sv_open s) = 5"
  using open_length [of s] held_all(2) [of "client_info s"]
  by (auto simp: free_slot_spec(2) slots_ok_def VTY_CLIENT_MAX_def all_set_conv_all_nth)

text \<open>
  C10: While at most eleven other threads are registered, the server runs for ever without a fault, whatever
  connections come and whenever sessions run and end. At most five connections are open, each in one slot;
  every running session is registered under an id of its own, and the other threads stay registered. A new
  connection is served, by a slot nobody has, unless five are open, and then it is closed at once.
\<close>

theorem service_runs:
  assumes "registry_ok r" "card (live r) \<le> 11"
    and "vty_server_start sockfd optret bindret p (service_zero r) = Some s0"
  shows "\<exists>s. runr (service_step core counter) es s0 = Inr s \<and>
    mset (sv_open s) = mset (held (client_info s)) \<and> length (sv_open s) \<le> 5 \<and>
    (\<forall>t\<in>set (ids (sessions s)). \<exists>u. (nat t, u) \<in> live (sv_registry s) \<and> ti_func u = Some Vty_shell) \<and>
    distinct (ids (sessions s)) \<and>
    {(j, u). (j, u) \<in> live (sv_registry s) \<and> int j \<notin> set (ids (sessions s))} = live r \<and>
    (\<forall>fd peer lt. 0 \<le> fd \<longrightarrow>
       (if length (sv_open s) = 5 then vty_server_turn False False True (fd, peer) (Some lt) s = s
        else let s' = vty_server_turn False False True (fd, peer) (Some lt) s
          in sv_open s' = fd # sv_open s \<and> (\<exists>i<5. vc_fd (client_info s ! i) = -1 \<and> sessions s' ! i = Created \<and>
               client_info s' ! i = \<lparr>vc_id = i, vc_peer = peer, vc_fd = fd, vc_lt = Some lt\<rparr>)))"
proof -
  from service.run_ok [OF started_ok [OF assms], of core counter es]
  obtain s where s: "runr (service_step core counter) es s0 = Inr s" "service_ok (live r) s" by auto
  then have sl: "slots_ok s" and rg: "registered_ok (live r) s" by (simp_all add: service_ok_def)
  have le: "length (sv_open s) \<le> 5"
    using open_length [OF sl] held_all(1) [of "client_info s"] sl by (simp add: slots_ok_def VTY_CLIENT_MAX_def)
  have turn: "if length (sv_open s) = 5 then vty_server_turn False False True (fd, peer) (Some lt) s = s
        else let s' = vty_server_turn False False True (fd, peer) (Some lt) s
          in sv_open s' = fd # sv_open s \<and> (\<exists>i<5. vc_fd (client_info s ! i) = -1 \<and> sessions s' ! i = Created \<and>
               client_info s' ! i = \<lparr>vc_id = i, vc_peer = peer, vc_fd = fd, vc_lt = Some lt\<rparr>)"
    if "0 \<le> fd" for fd peer lt
  proof (cases "free_slot (client_info s)")
    case None
    then show ?thesis using that full_slots [OF sl] by (simp add: vty_server_turn_def)
  next
    case (Some i)
    note i = free_slot_spec(1) [OF Some]
    have len: "i < length (client_info s)" "i < length (sessions s)" "vc_id (client_info s ! i) = i"
      using i sl by (simp_all add: slots_ok_def)
    have "length (sv_open s) \<noteq> 5" using Some full_slots [OF sl] by simp
    then show ?thesis using that Some i len
      by (auto simp: vty_server_turn_def Let_def VTY_CLIENT_MAX_def intro!: exI [of _ i])
  qed
  show ?thesis
    using s(1) sl rg le turn by (intro exI [of _ s]) (simp add: slots_ok_def registered_ok_def others_ids)
qed

text \<open>The slots below \<open>n\<close> are taken, without a session.\<close>

definition taken :: "nat \<Rightarrow> ('l, 'a, 'p) service \<Rightarrow> bool" where
  "taken n s \<longleftrightarrow> length (client_info s) = 5 \<and> sessions s = replicate 5 Absent \<and>
     (\<forall>i<5. vc_fd (client_info s ! i) = -1 \<longleftrightarrow> n \<le> i)"

lemma taken_slot: "taken n s \<Longrightarrow> n < 5 \<Longrightarrow> free_slot (client_info s) = Some n"
  by (auto simp: free_slot_def taken_def find_Some_iff VTY_CLIENT_MAX_def intro!: exI [of _ n])

lemma failing_turns:
  assumes "taken n s" "n + length fds \<le> 5" "\<forall>fd\<in>set fds. 0 \<le> fd"
  shows "\<exists>s'. runr (service_step core counter) (map (\<lambda>fd. Server_turn False False True (fd, peer) None) fds) s = Inr s' \<and>
    sv_open s' = rev fds @ sv_open s \<and> taken (n + length fds) s'"
  using assms
proof (induction fds arbitrary: n s)
  case (Cons fd fds)
  let ?s = "vty_server_turn False False True (fd, peer) None s"
  have "taken (Suc n) ?s" "sv_open ?s = fd # sv_open s"
    using Cons.prems taken_slot [OF Cons.prems(1)]
    by (auto simp: vty_server_turn_def taken_def nth_list_update Let_def)
  with Cons.IH [of "Suc n" ?s] Cons.prems show ?case by (simp add: service_step_def)
qed simp

lemma taken_stuck:
  assumes "taken 5 s"
  shows "service_step core counter e s = Inr s"
proof (cases e)
  case (Server_turn quit stop event conn created)
  have "free_slot (client_info s) = None"
    using assms by (auto simp: taken_def free_slot_def find_None_iff VTY_CLIENT_MAX_def)
  then have "vty_server_turn quit stop event conn created s = s"
    by (cases quit stop event conn created s rule: turn_cases) simp_all
  then show ?thesis by (simp add: Server_turn service_step_def)
qed (use assms in \<open>auto simp: service_step_def taken_def\<close>)

text \<open>
  C40: When threads cannot be created, five connections take the five slots for good: they stay open, without a
  session, and the server then refuses everyone, whatever happens.
\<close>

theorem slots_lost:
  assumes start: "vty_server_start sockfd optret bindret p (service_zero r) = Some s0"
    and fds: "length fds = 5" "\<forall>fd\<in>set fds. 0 \<le> fd"
  shows "\<exists>s. runr (service_step core counter) (map (\<lambda>fd. Server_turn False False True (fd, peer) None) fds) s0 = Inr s \<and>
    sv_open s = rev fds \<and> sessions s = replicate 5 Absent \<and> (\<forall>es. runr (service_step core counter) es s = Inr s)"
proof -
  have "taken 0 s0" "sv_open s0 = []"
    using start by (auto simp: vty_server_start_def service_zero_def taken_def VTY_CLIENT_MAX_def no_client_def split: if_splits)
  with failing_turns [of 0 s0 fds core counter peer] fds obtain s where
    s: "runr (service_step core counter) (map (\<lambda>fd. Server_turn False False True (fd, peer) None) fds) s0 = Inr s"
      "sv_open s = rev fds" "taken 5 s" by auto
  have "runr (service_step core counter) es s = Inr s" for es
    using taken_stuck [OF s(3)] by (induction es) simp_all
  with s show ?thesis by (auto simp: taken_def)
qed

section \<open>Witnesses\<close>

definition quiet_registry :: "(routine, nat, nat, nat) registry" where
  "quiet_registry = \<lparr>thread_info_size = 1,
     threads = replicate 16 \<lparr>ti_lcore_id = 1, ti_lthread = Some 5, ti_func = Some Vty_server, ti_name = Some ''vty_server'', ti_arg = None\<rparr>,
     thread_counters = replicate 16 \<lparr>loop_counter_ptr = None, current = 0, prev = 0, persec = 0\<rparr>\<rparr>"

lemma quiet_registry_ok: "registry_ok quiet_registry" "card (live quiet_registry) \<le> 11"
proof -
  have "live quiet_registry = {(0, threads quiet_registry ! 0)}" by (auto simp: live_def quiet_registry_def)
  then show "card (live quiet_registry) \<le> 11" by simp
qed (simp add: registry_ok_def quiet_registry_def THREAD_INFO_LIMIT_def)

text \<open>Three connections; the first has left again.\<close>

theorem service_runs_witness:
  "\<exists>s0 s. vty_server_start 3 0 0 4 (service_zero quiet_registry) = Some s0 \<and>
     runr (service_step 1 8) [Server_turn False False True (7, ''10.0.0.1'') (Some 21), Session_runs 0,
       Server_turn False False True (8, ''10.0.0.2'') (Some 22), Session_ends 0,
       Server_turn False False True (9, ''10.0.0.3'') (Some 23)] s0 = Inr s \<and>
     mset (sv_open s) = mset (held (client_info s)) \<and> length (sv_open s) \<le> 5"
proof -
  obtain s0 where s0: "vty_server_start 3 0 0 4 (service_zero quiet_registry) = Some s0" by (simp add: vty_server_start_def)
  from service_runs [OF quiet_registry_ok s0, of 1 8 "[Server_turn False False True (7, ''10.0.0.1'') (Some 21), Session_runs 0,
       Server_turn False False True (8, ''10.0.0.2'') (Some 22), Session_ends 0,
       Server_turn False False True (9, ''10.0.0.3'') (Some 23)]"] s0
  show ?thesis by blast
qed

theorem slots_lost_witness:
  "\<exists>s0 s. vty_server_start 3 0 0 4 (service_zero quiet_registry) = Some s0 \<and>
     runr (service_step 1 8) (map (\<lambda>fd. Server_turn False False True (fd, []) None) [7, 8, 9, 10, 11]) s0 = Inr s \<and>
     runr (service_step 1 8) [Server_turn False False True (12, []) (Some 21), Session_ends 0] s = Inr s"
proof -
  obtain s0 where s0: "vty_server_start 3 0 0 4 (service_zero quiet_registry) = Some s0" by (simp add: vty_server_start_def)
  from slots_lost [OF s0, of "[7, 8, 9, 10, 11]" 1 8 "[]"] s0 show ?thesis by fastforce
qed

end
