(* ===== verification/General.thy ===== *)
theory General
  imports Switching Thread_Info Cli_Args
begin

text \<open>
  The general commands of \<open>sdplane/sdplane.c\<close>, the loop counters of \<open>sdplane/stat_collector.c\<close> they show, and the
  tap interfaces: \<open>sdplane/tap.c\<close>, \<open>sdplane/tap_cmd.c\<close> and the start of \<open>tap_handler\<close>. A command
  gives the lines it prints, without their ends. \<open>grouped\<close> prints a number with the separators of the locale.
\<close>

section \<open>Words kept for l3fwd\<close>

definition L3FWD_ARGV_MAX :: nat where "L3FWD_ARGV_MAX = 16"

text \<open>
  \<open>l3fwd_argv\<close> has \<open>L3FWD_ARGV_MAX\<close> entries; \<open>ga_lost\<close> are the copies made by \<open>strdup\<close> that nothing points to any
  more. \<open>mem\<close>: \<open>strdup\<close> succeeds.
\<close>

record l3fwd_args =
  l3fwd_argv :: "string option list"
  l3fwd_argc :: nat
  ga_lost :: nat

definition set_l3fwd_word :: "bool \<Rightarrow> string \<Rightarrow> l3fwd_args \<Rightarrow> l3fwd_args res" where
  "set_l3fwd_word mem w s =
    guardr (l3fwd_argc s < length (l3fwd_argv s)) OutOfBounds
      (Inr (s\<lparr>l3fwd_argv := (l3fwd_argv s)[l3fwd_argc s := (if mem then Some w else None)], l3fwd_argc := l3fwd_argc s + 1\<rparr>))"

definition set_l3fwd_argv :: "bool \<Rightarrow> string list \<Rightarrow> l3fwd_args \<Rightarrow> (string list \<times> l3fwd_args) res" where
  "set_l3fwd_argv mem argv s =
    (if length argv - 2 \<ge> L3FWD_ARGV_MAX - 2
     then Inr ([''too many arguments: '' @ dec (length argv) @ ''.''], s)
     else let s = s\<lparr>ga_lost := ga_lost s + length (filter (\<lambda>x. x \<noteq> None) (tl (l3fwd_argv s))),
                    l3fwd_argv := (replicate L3FWD_ARGV_MAX None)[0 := Some ''sdplane''], l3fwd_argc := 1\<rparr>
       in bindr (runr (set_l3fwd_word mem) (drop 3 argv) s) (\<lambda>s.
            Inr (map (\<lambda>i. ''l3fwd_argv['' @ dec i @ '']: '' @
                   (case l3fwd_argv s ! i of None \<Rightarrow> ''(null)'' | Some w \<Rightarrow> w)) [0..<l3fwd_argc s], s)))"

section \<open>Loop counters\<close>

record loop_count =
  lc_prev :: u64
  lc_current :: u64
  lc_pps :: u64

text \<open>The counter of the console is not sampled; those of \<open>l2fwd\<close> are where a pointer was set.\<close>

record 'p loop_counts =
  lp_console :: loop_count
  lp_vty_shell :: loop_count
  lp_l2fwd :: "('p option \<times> loop_count) list"

definition next_count :: "u64 \<Rightarrow> loop_count \<Rightarrow> loop_count" where
  "next_count v c = \<lparr>lc_prev = lc_current c, lc_current = v, lc_pps = v - lc_current c\<rparr>"

definition collect_loops :: "('p \<Rightarrow> u64) \<Rightarrow> u64 \<Rightarrow> 'p loop_counts \<Rightarrow> 'p loop_counts" where
  "collect_loops read loop_vty_shell s =
    s\<lparr>lp_vty_shell := next_count loop_vty_shell (lp_vty_shell s),
      lp_l2fwd := map (\<lambda>(p, c). (p, case p of None \<Rightarrow> c | Some a \<Rightarrow> next_count (read a) c)) (lp_l2fwd s)\<rparr>"

definition no_count :: loop_count where "no_count = \<lparr>lc_prev = 0, lc_current = 0, lc_pps = 0\<rparr>"

definition loop_counts_zero :: "'p loop_counts" where
  "loop_counts_zero = \<lparr>lp_console = no_count, lp_vty_shell = no_count, lp_l2fwd = replicate RTE_MAX_LCORE (None, no_count)\<rparr>"

text \<open>The value asked for: by the second, or in total.\<close>

definition count_of :: "string \<Rightarrow> loop_count \<Rightarrow> u64 option" where
  "count_of what c = (if what = ''pps'' then Some (lc_pps c) else if what = ''total'' then Some (lc_current c) else None)"

definition count_line :: "(nat \<Rightarrow> string) \<Rightarrow> nat \<Rightarrow> string \<Rightarrow> string \<Rightarrow> loop_count \<Rightarrow> string list" where
  "count_line grouped w name what c = (case count_of what c of None \<Rightarrow> []
     | Some v \<Rightarrow> [pad_right w (take 31 name) @ '' '' @ pad_right 8 (grouped (unat v))])"

definition show_loop_count :: "(nat \<Rightarrow> string) \<Rightarrow> string \<Rightarrow> string \<Rightarrow> 'p loop_counts \<Rightarrow> string list" where
  "show_loop_count grouped which what s =
    (if which = ''console'' then count_line grouped 16 ''console:'' what (lp_console s)
     else if which = ''vty-shell'' then count_line grouped 16 ''vty-shell:'' what (lp_vty_shell s)
     else if which = ''l2fwd''
     then concat (map (\<lambda>i. let c = snd (lp_l2fwd s ! i)
            in if lc_current c \<noteq> 0 then count_line grouped 24 (''l2fwd: core['' @ dec i @ '']:'') what c else [])
          [0..<RTE_MAX_LCORE])
     else [])"

section \<open>Display\<close>

definition show_version :: "string \<Rightarrow> string list" where
  "show_version sdplane_version = [''sdplane version: '' @ sdplane_version]"

text \<open>\<open>setlocale\<close> answers with the name of the locale, or nothing. The command is not installed.\<close>

definition set_locale :: "(string \<Rightarrow> string option) \<Rightarrow> string list \<Rightarrow> string list" where
  "set_locale setlocale argv = (case setlocale (argv ! 2) of
      None \<Rightarrow> [''setlocale(): failed.''] | Some r \<Rightarrow> [''setlocale(): '' @ r @ ''.''])"

definition show_rcu :: "(nat \<Rightarrow> string) \<Rightarrow> u64 \<Rightarrow> string list" where
  "show_rcu grouped n = [''rib_rcu_replace: '' @ grouped (unat n)]"

text \<open>\<open>format_addr\<close> prints a MAC address (a function of DPDK).\<close>

definition show_fdb :: "(bytes \<Rightarrow> string) \<Rightarrow> fdb_entry list \<Rightarrow> string list" where
  "show_fdb format_addr es =
    concat (map (\<lambda>i. if l2addr (es ! i) \<noteq> zero_addr
       then [''fdb['' @ dec i @ '']: '' @ format_addr (l2addr (es ! i)) @ '' port '' @ dec_int (fdb_port (es ! i))] else [])
     [0..<length es])"

text \<open>\<open>address\<close> prints the rings of an entry, up and down.\<close>

definition vport_type :: "u8 \<Rightarrow> string" where
  "vport_type t = (if t = 0 then ''none'' else if t = VSWITCH_PORT_TYPE_DPDK_LCORE then ''dpdk-port''
     else if t = VSWITCH_PORT_TYPE_LINUX_TAP then ''linux-tap'' else ''unknown'')"

definition show_vswitch_cmd :: "((nat \<times> nat) option \<Rightarrow> string \<times> string) \<Rightarrow> vswitch \<Rightarrow> string list res" where
  "show_vswitch_cmd address vs =
    guardr (vs_size vs \<le> length (vs_ports vs)) OutOfBounds
      (Inr (map (\<lambda>i. let v = vs_ports vs ! i; (up, down) = address (vp_rings v)
         in ''vswport['' @ dec i @ '']: ['' @ dec (unat (vp_id v)) @ ''] '' @ pad_right 9 (vport_type (vp_type v)) @ '' '' @
            vp_name v @ '' sock: '' @ dec_int (sockfd v) @ '' lcore: '' @ dec_int (vp_lcore v) @
            '' ring['' @ up @ ''/'' @ down @ '']'') [0..<vs_size vs]))"

text \<open>The seconds left, on one line, with a second's sleep of the thread after each.\<close>

definition sleep_cmd :: "string list \<Rightarrow> string list" where
  "sleep_cmd argv = [concat (map (\<lambda>s. '' '' @ dec s) (rev [1..<nat (int_arg (argv ! 1)) + 1])) @ '' 0.'']"

section \<open>Tap interfaces\<close>

text \<open>
  What the system answers for the interface of a name: \<open>open\<close> and the two \<open>ioctl\<close> calls, \<open>socket\<close> and its two.
  The open descriptors are a list.
\<close>

definition IFNAMSIZ :: nat where "IFNAMSIZ = 16"

record tap_answers =
  ta_open :: int
  ta_setiff :: int
  ta_socket :: int
  ta_getflags :: int
  ta_setflags :: int

definition tap_open :: "(string \<Rightarrow> tap_answers) \<Rightarrow> string \<Rightarrow> int list \<Rightarrow> int \<times> int list" where
  "tap_open sys ifname fds =
    (let a = sys (take (IFNAMSIZ - 1) ifname); fd = ta_open a
     in if fd < 0 then (-1, fds)
        else let fds = fd # fds
          in if ta_setiff a < 0 then (-1, remove1 fd fds) else (fd, fds))"

definition tap_admin_up :: "(string \<Rightarrow> tap_answers) \<Rightarrow> string \<Rightarrow> int list \<Rightarrow> int list" where
  "tap_admin_up sys ifname fds =
    (let a = sys (take (IFNAMSIZ - 1) ifname); sock = ta_socket a
     in if sock < 0 then fds
        else let fds = sock # fds
          in if ta_getflags a < 0 then remove1 sock fds
             else if ta_setflags a < 0 then remove1 sock fds
             else fds)"

text \<open>The commands: the name and persistence of the capture interface.\<close>

record capture =
  capture_ifname :: string
  capture_if_persistent :: bool

definition set_tap_capture_ifname :: "string list \<Rightarrow> capture \<Rightarrow> capture" where
  "set_tap_capture_ifname argv s = s\<lparr>capture_ifname := take 63 (argv ! 4)\<rparr>"

definition set_tap_capture_persistent :: "string list \<Rightarrow> capture \<Rightarrow> capture" where
  "set_tap_capture_persistent argv s = s\<lparr>capture_if_persistent := True\<rparr>"

text \<open>
  The start of the tap handler: the capture interface with the name chosen or \<open>peek0\<close>, made persistent on demand, then
  one interface for each port. It gives the descriptor of the capture, whether \<open>TUNSETPERSIST\<close> was asked for,
  and the descriptors of the ports.
\<close>

definition capture_start :: "(string \<Rightarrow> tap_answers) \<Rightarrow> capture \<times> int list \<Rightarrow> (int \<times> bool) \<times> capture \<times> int list" where
  "capture_start sys = (\<lambda>(c, fds).
    let c = (if capture_ifname c = [] then c\<lparr>capture_ifname := ''peek0''\<rparr> else c);
        (fd, fds) = tap_open sys (capture_ifname c) fds
    in ((fd, capture_if_persistent c), c, tap_admin_up sys (capture_ifname c) fds))"

fun port_taps :: "(string \<Rightarrow> tap_answers) \<Rightarrow> nat list \<Rightarrow> int list \<Rightarrow> int list \<times> int list" where
  "port_taps sys [] fds = ([], fds)"
| "port_taps sys (p # ps) fds =
    (let (fd, fds) = tap_open sys (''port-dpdk'' @ dec p) fds;
         (rest, fds) = port_taps sys ps (tap_admin_up sys (''port-dpdk'' @ dec p) fds)
     in (fd # rest, fds))"

definition tap_handler_begin ::
  "(string \<Rightarrow> tap_answers) \<Rightarrow> nat \<Rightarrow> vswitch_port list \<Rightarrow> capture \<times> int list \<Rightarrow>
   ((int \<times> bool) \<times> (vswitch \<times> int list) \<times> capture \<times> int list) res" where
  "tap_handler_begin sys nb_ports old s =
    (let (cap, c, fds) = capture_start sys s; (taps, fds) = port_taps sys [0..<nb_ports] fds
     in bindr (tap_start (\<lambda>p. taps ! p) nb_ports old) (\<lambda>v. Inr (cap, v, c, fds)))"

section \<open>Properties\<close>

text \<open>The words are stored in bounds and ended by a null pointer.\<close>

lemma set_words:
  assumes "l3fwd_argc s + length ws \<le> length (l3fwd_argv s)"
  shows "runr (set_l3fwd_word True) ws s = Inr (s\<lparr>l3fwd_argv := take (l3fwd_argc s) (l3fwd_argv s) @ map Some ws @
     drop (l3fwd_argc s + length ws) (l3fwd_argv s), l3fwd_argc := l3fwd_argc s + length ws\<rparr>)"
  using assms
proof (induction ws arbitrary: s)
  case (Cons w ws)
  let ?s = "s\<lparr>l3fwd_argv := (l3fwd_argv s)[l3fwd_argc s := Some w], l3fwd_argc := Suc (l3fwd_argc s)\<rparr>"
  have "runr (set_l3fwd_word True) (w # ws) s = runr (set_l3fwd_word True) ws ?s"
    using Cons.prems by (simp add: set_l3fwd_word_def)
  with Cons.IH [of ?s] Cons.prems show ?case
    by (simp add: take_Suc_conv_app_nth [of "l3fwd_argc s"] list_update_append)
qed simp

lemma l3fwd_words:
  assumes "length argv < 16"
  shows "\<exists>out s'. set_l3fwd_argv True argv s = Inr (out, s') \<and>
    l3fwd_argv s' = Some ''sdplane'' # map Some (drop 3 argv) @ replicate (15 - length (drop 3 argv)) None \<and>
    l3fwd_argc s' = 1 + length (drop 3 argv) \<and> l3fwd_argc s' < L3FWD_ARGV_MAX"
proof -
  let ?s = "s\<lparr>ga_lost := ga_lost s + length (filter (\<lambda>x. x \<noteq> None) (tl (l3fwd_argv s))),
                    l3fwd_argv := (replicate L3FWD_ARGV_MAX None)[0 := Some ''sdplane''], l3fwd_argc := 1\<rparr>"
  have "l3fwd_argc ?s + length (drop 3 argv) \<le> length (l3fwd_argv ?s)" using assms by (simp add: L3FWD_ARGV_MAX_def)
  note w = set_words [OF this]
  have z: "(replicate L3FWD_ARGV_MAX None)[0 := x] = x # replicate 15 None" for x :: "string option"
    by (simp add: L3FWD_ARGV_MAX_def numeral_eq_Suc)
  have "\<not> L3FWD_ARGV_MAX - 2 \<le> length argv - 2" using assms by (simp add: L3FWD_ARGV_MAX_def)
  then show ?thesis
    using assms w by (simp add: set_l3fwd_argv_def z Let_def)
qed

lemma collect_keeps:
  "lp_console (collect_loops read v s) = lp_console s"
  "\<forall>(p, c)\<in>set (lp_l2fwd s). p = None \<and> c = no_count \<Longrightarrow> lp_l2fwd (collect_loops read v s) = lp_l2fwd s"
  by (auto simp: collect_loops_def intro!: map_idI)

definition samples :: "(('p \<Rightarrow> u64) \<times> u64) list \<Rightarrow> 'p loop_counts \<Rightarrow> 'p loop_counts" where
  "samples vs s = fold (\<lambda>(read, v). collect_loops read v) vs s"

lemma samples_keep:
  "lp_console (samples vs loop_counts_zero) = no_count"
  "lp_l2fwd (samples vs loop_counts_zero) = replicate RTE_MAX_LCORE (None, no_count)"
proof -
  have "lp_console (samples vs loop_counts_zero) = no_count \<and>
      lp_l2fwd (samples vs loop_counts_zero :: 'a loop_counts) = replicate RTE_MAX_LCORE (None, no_count)"
  proof (induction vs rule: rev_induct)
    case (snoc x vs)
    let ?s = "samples vs loop_counts_zero :: 'a loop_counts"
    have "\<forall>(p, c)\<in>set (lp_l2fwd ?s). p = None \<and> c = no_count" using snoc by simp
    from collect_keeps(2) [OF this] snoc show ?case
      by (cases x) (simp add: samples_def collect_keeps(1))
  qed (simp add: samples_def loop_counts_zero_def)
  then show "lp_console (samples vs loop_counts_zero) = no_count"
    "lp_l2fwd (samples vs loop_counts_zero :: 'a loop_counts) = replicate RTE_MAX_LCORE (None, no_count)" by simp_all
qed

text \<open>
  Whatever the threads count and however often it is sampled, \<open>show loop-count\<close> reports zero for the console and
  nothing for \<open>l2fwd\<close>. For the terminal sessions it reports the last sample, and as its rate the
  difference of the last two.
\<close>

theorem loop_counts_shown:
  shows "show_loop_count grouped ''console'' ''total'' (samples vs loop_counts_zero) =
      [pad_right 16 ''console:'' @ '' '' @ pad_right 8 (grouped 0)] \<and>
    show_loop_count grouped ''console'' ''pps'' (samples vs loop_counts_zero) =
      [pad_right 16 ''console:'' @ '' '' @ pad_right 8 (grouped 0)] \<and>
    show_loop_count grouped ''l2fwd'' what (samples vs loop_counts_zero) = [] \<and>
    show_loop_count grouped ''vty-shell'' ''total'' (samples (vs @ [(r1, v), (r2, w)]) loop_counts_zero) =
      [pad_right 16 ''vty-shell:'' @ '' '' @ pad_right 8 (grouped (unat w))] \<and>
    show_loop_count grouped ''vty-shell'' ''pps'' (samples (vs @ [(r1, v), (r2, w)]) loop_counts_zero) =
      [pad_right 16 ''vty-shell:'' @ '' '' @ pad_right 8 (grouped (unat (w - v)))]"
proof -
  have "show_loop_count grouped ''l2fwd'' what (samples vs loop_counts_zero) = []"
    by (simp add: show_loop_count_def samples_keep(2) no_count_def)
  moreover have "lp_vty_shell (samples (vs @ [(r1, v), (r2, w)]) loop_counts_zero) = \<lparr>lc_prev = v, lc_current = w, lc_pps = w - v\<rparr>"
    by (simp add: samples_def collect_loops_def next_count_def)
  ultimately show ?thesis
    by (simp add: show_loop_count_def samples_keep(1) no_count_def count_line_def count_of_def)
qed

section \<open>The descriptors of the tap handler\<close>

lemma tap_open_result:
  "tap_open sys n fds = (-1, fds) \<or> (\<exists>fd\<ge>0. tap_open sys n fds = (fd, fd # fds))"
  by (simp add: tap_open_def Let_def)

lemma admin_up_result:
  "tap_admin_up sys n fds = (let a = sys (take 15 n)
     in if 0 \<le> ta_socket a \<and> 0 \<le> ta_getflags a \<and> 0 \<le> ta_setflags a then ta_socket a # fds else fds)"
  by (simp add: tap_admin_up_def Let_def IFNAMSIZ_def)

text \<open>The sockets of the interfaces that came up.\<close>

definition up_sockets :: "(string \<Rightarrow> tap_answers) \<Rightarrow> string list \<Rightarrow> int list" where
  "up_sockets sys ns = map (\<lambda>n. ta_socket (sys (take 15 n)))
     (filter (\<lambda>n. let a = sys (take 15 n) in 0 \<le> ta_socket a \<and> 0 \<le> ta_getflags a \<and> 0 \<le> ta_setflags a) ns)"

lemma port_taps_fds:
  "port_taps sys ps fds = (taps, fds') \<Longrightarrow> length taps = length ps \<and>
   mset fds' = mset fds + mset (filter (\<lambda>fd. 0 \<le> fd) taps) + mset (up_sockets sys (map (\<lambda>p. ''port-dpdk'' @ dec p) ps))"
proof (induction ps arbitrary: fds taps)
  case (Cons p ps)
  define n where "n = ''port-dpdk'' @ dec p"
  obtain fd fds1 where o: "tap_open sys n fds = (fd, fds1)" by fastforce
  obtain rest where r: "port_taps sys ps (tap_admin_up sys n fds1) = (rest, fds')" "taps = fd # rest"
    using Cons.prems o unfolding n_def by (auto simp del: append.simps split: prod.splits)
  have "mset fds1 = mset fds + mset (filter (\<lambda>fd. 0 \<le> fd) [fd])"
    using tap_open_result [of sys n fds] o by auto
  with Cons.IH [OF r(1)] r(2) show ?case
    unfolding list.map up_sockets_def n_def [symmetric]
    by (simp add: admin_up_result Let_def split: if_splits)
qed (simp add: up_sockets_def)

lemma create_taps_fds:
  "length (snd (create_taps f ps (vs, pf))) = length pf \<and>
   (\<forall>q<length pf. snd (create_taps f ps (vs, pf)) ! q = (if q \<in> set ps then f q else pf ! q))"
proof (induction ps arbitrary: vs pf)
  case (Cons p ps)
  define v where "v = (if vs_size vs < vs_limit vs
       then vs\<lparr>vs_ports := (vs_ports vs)[vs_size vs := tap_vport (vs_size vs) (f p) p (vs_ports vs ! vs_size vs)],
               vs_size := vs_size vs + 1\<rparr> else vs)"
  have e: "create_taps f (p # ps) (vs, pf) = create_taps f ps (v, pf[p := f p])" by (simp add: v_def)
  show ?case unfolding e using Cons.IH [of v "pf[p := f p]"] by (auto simp: nth_list_update)
qed simp

text \<open>
  C26: The start of the tap handler opens a tap for the capture and one for every port, \<open>-1\<close> standing for one that failed and
  left nothing open; beside them it leaves open the socket of every interface it brought up, which nothing
  refers to any more.
\<close>

theorem tap_handler_descriptors:
  assumes "tap_handler_begin sys nb_ports old (c, fds) = Inr ((cap, persist), (vs, taps), c', fds')"
  shows "mset fds' = mset fds + mset (filter (\<lambda>fd. 0 \<le> fd) (cap # take nb_ports taps)) +
      mset (up_sockets sys (capture_ifname c' # map (\<lambda>p. ''port-dpdk'' @ dec p) [0..<nb_ports])) \<and>
    capture_ifname c' = (if capture_ifname c = [] then ''peek0'' else capture_ifname c) \<and>
    persist = capture_if_persistent c"
proof -
  define n where "n = (if capture_ifname c = [] then ''peek0'' else capture_ifname c)"
  obtain fd fds1 where o: "tap_open sys n fds = (fd, fds1)" by fastforce
  obtain ts fds2 where p: "port_taps sys [0..<nb_ports] (tap_admin_up sys n fds1) = (ts, fds2)" by fastforce
  have "nb_ports \<le> RTE_MAX_ETHPORTS" and ct: "create_taps (\<lambda>p. ts ! p) [0..<nb_ports]
      (\<lparr>vs_limit = VSWITCH_PORT_SIZE, vs_size = 0, vs_ports = old\<rparr>, replicate RTE_MAX_ETHPORTS (- 1)) = (vs, taps)"
    and c': "cap = fd" "persist = capture_if_persistent c" "capture_ifname c' = n" "fds' = fds2"
    using assms o p
    by (auto simp: tap_handler_begin_def capture_start_def Let_def n_def tap_start_def guardr_def split: if_splits prod.splits)
  note t = port_taps_fds [OF p]
  have "take nb_ports taps = ts"
  proof (rule nth_equalityI)
    note f = create_taps_fds [of "\<lambda>p. ts ! p" "[0..<nb_ports]" "\<lparr>vs_limit = VSWITCH_PORT_SIZE, vs_size = 0, vs_ports = old\<rparr>"
        "replicate RTE_MAX_ETHPORTS (- 1)", unfolded ct]
    show "length (take nb_ports taps) = length ts" using f t \<open>nb_ports \<le> RTE_MAX_ETHPORTS\<close> by simp
    show "take nb_ports taps ! i = ts ! i" if "i < length (take nb_ports taps)" for i
      using that f by simp
  qed
  moreover have "mset fds1 = mset fds + mset (filter (\<lambda>fd. 0 \<le> fd) [fd])"
    using tap_open_result [of sys n fds] o by auto
  ultimately show ?thesis
    using t unfolding c' n_def [symmetric] by (simp add: admin_up_result up_sockets_def Let_def split: if_splits)
qed

section \<open>Witnesses\<close>

text \<open>Every call answers with the next number; \<open>port-dpdk1\<close> cannot be created.\<close>

definition two_ports :: "string \<Rightarrow> tap_answers" where
  "two_ports n = (if n = ''peek0'' then \<lparr>ta_open = 5, ta_setiff = 0, ta_socket = 6, ta_getflags = 0, ta_setflags = 0\<rparr>
     else if n = ''port-dpdk0'' then \<lparr>ta_open = 7, ta_setiff = 0, ta_socket = 8, ta_getflags = 0, ta_setflags = 0\<rparr>
     else \<lparr>ta_open = 9, ta_setiff = -1, ta_socket = 9, ta_getflags = -1, ta_setflags = 0\<rparr>)"

theorem tap_handler_descriptors_witness:
  "\<exists>cap persist vs taps c' fds'.
     tap_handler_begin two_ports 2 (replicate 16 zero_vport) (\<lparr>capture_ifname = [], capture_if_persistent = True\<rparr>, [0, 1, 2]) =
       Inr ((cap, persist), (vs, taps), c', fds') \<and> persist \<and> mset fds' = {#0, 1, 2, 5, 6, 7, 8#}"
proof -
  have d: "dec 0 = ''0''" "dec (Suc 0) = ''1''" by (simp_all add: dec.simps digit_def char_of_def bit_simps)
  let ?r = "tap_handler_begin two_ports 2 (replicate 16 zero_vport) (\<lparr>capture_ifname = [], capture_if_persistent = True\<rparr>, [0, 1, 2])"
  have run: "\<exists>vs taps fds'. ?r = Inr ((5, True), (vs, taps), \<lparr>capture_ifname = ''peek0'', capture_if_persistent = True\<rparr>, fds') \<and>
      take 2 taps = [7, -1]"
    by (simp add: tap_handler_begin_def capture_start_def tap_open_def tap_admin_up_def two_ports_def tap_start_def d
        upt_rec RTE_MAX_ETHPORTS_def IFNAMSIZ_def numeral_eq_Suc)
  then obtain vs taps fds' where r: "?r = Inr ((5, True), (vs, taps), \<lparr>capture_ifname = ''peek0'', capture_if_persistent = True\<rparr>, fds')"
    "take 2 taps = [7, -1]" by blast
  have s: "up_sockets two_ports (''peek0'' # map (\<lambda>p. ''port-dpdk'' @ dec p) [0..<2]) = [6, 8]"
    by (simp add: up_sockets_def two_ports_def d numeral_2_eq_2 upt_rec)
  from tap_handler_descriptors [OF r(1)] r s show ?thesis by (auto simp: add_mset_commute)
qed

end
