(* ===== verification/Keymap_List.thy ===== *)
theory Keymap_List
  imports Session Thread_Info
begin

text \<open>
  The commands \<open>list func-table\<close> and \<open>list keymaps\<close> of \<open>lib/zcmdsh/command_shell.c\<close>: the names registered for
  functions, and the keys of a shell with the functions they run, a run of keys with the same function given by its
  ends. A function is known by its name in C; \<open>addr\<close> prints the address of the function with this name.
\<close>

section \<open>Names of functions\<close>

fun func_name :: "keyfunc \<Rightarrow> string" where
  "func_name K_input_char = ''shell_input_char''"
| "func_name K_forward_char = ''shell_keyfunc_forward_char''"
| "func_name K_backward_char = ''shell_keyfunc_backward_char''"
| "func_name K_move_to_begin = ''shell_keyfunc_move_to_begin''"
| "func_name K_move_to_end = ''shell_keyfunc_move_to_end''"
| "func_name K_delete_char = ''shell_keyfunc_delete_char''"
| "func_name K_backspace = ''shell_keyfunc_backspace''"
| "func_name K_kill_line = ''shell_keyfunc_kill_line''"
| "func_name K_kill_all = ''shell_keyfunc_kill_all''"
| "func_name K_yank = ''shell_keyfunc_yank''"
| "func_name K_clear_screen = ''shell_keyfunc_clear_screen''"
| "func_name K_refresh = ''shell_keyfunc_refresh''"
| "func_name K_empty_enter = ''shell_keyfunc_empty_enter''"
| "func_name K_insert_tab = ''shell_keyfunc_insert_tab''"
| "func_name K_escape = ''shell_keyfunc_escape''"
| "func_name K_delete_word_backward = ''shell_keyfunc_delete_word_backward''"
| "func_name K_delete_char_advanced = ''shell_keyfunc_delete_char_advanced''"
| "func_name K_normal = ''vty_shell_keyfunc_normal''"
| "func_name K_vty_word_backward = ''vty_shell_move_word_backward''"
| "func_name K_vty_word_forward = ''vty_shell_move_word_forward''"
| "func_name K_vty_delete_word = ''vty_shell_delete_word_backward''"
| "func_name K_escape_1 = ''vty_shell_keyfunc_escape_1''"
| "func_name K_escape_2 = ''vty_shell_keyfunc_escape_2''"
| "func_name K_iac_start = ''vty_shell_keyfunc_iac_start''"
| "func_name K_telnet_opt = ''vty_shell_keyfunc_telnet_opt''"
| "func_name K_telnet_cmd = ''vty_shell_keyfunc_telnet_cmd''"
| "func_name K_subnego = ''vty_shell_keyfunc_subnego''"
| "func_name K_sb_start = ''vty_shell_keyfunc_sb_start''"
| "func_name K_sb_end = ''vty_shell_keyfunc_sb_end''"
| "func_name K_clear_terminal = ''shell_keyfunc_clear_terminal''"
| "func_name K_execute = ''command_shell_execute''"
| "func_name K_completion = ''command_shell_completion''"
| "func_name K_ls_candidate = ''command_shell_ls_candidate''"
| "func_name K_history_prev = ''command_history_prev''"
| "func_name K_history_next = ''command_history_next''"

definition FUNC_TABLE_SIZE :: nat where "FUNC_TABLE_SIZE = 512"

text \<open>An entry is the pointer, for which the name stands, and the name; the registration and the lookup are in the theory Command_Shell.\<close>

definition func2str :: "(string option \<times> string) list" where
  "func2str = map (\<lambda>n. (Some n, n))
    [''shell_terminate'', ''shell_format'', ''shell_linefeed'', ''shell_clear'', ''shell_delete_word_backward'',
     ''shell_move_word_backward'', ''shell_move_word_forward'', ''shell_refresh'', ''shell_read'', ''shell_read_nowait'',
     ''shell_keyfunc_forward_char'', ''shell_keyfunc_backward_char'', ''shell_keyfunc_move_to_begin'',
     ''shell_keyfunc_move_to_end'', ''shell_keyfunc_delete_char'', ''shell_keyfunc_backspace'', ''shell_keyfunc_kill_line'',
     ''shell_keyfunc_kill_all'', ''shell_keyfunc_yank'', ''shell_keyfunc_clear_screen'', ''shell_keyfunc_refresh'',
     ''shell_keyfunc_empty_enter'', ''shell_keyfunc_insert_tab'', ''shell_keyfunc_escape'',
     ''shell_keyfunc_delete_word_backward'', ''shell_input_char'', ''command_shell_execute'', ''command_shell_execute'',
     ''command_shell_completion'', ''command_shell_ls_candidate'', ''command_history_prev'', ''command_history_next''] @
   replicate (FUNC_TABLE_SIZE - 32) (None, [])"

definition list_func_table :: "(string \<Rightarrow> string) \<Rightarrow> (string option \<times> string) list \<Rightarrow> string list" where
  "list_func_table addr t = concat (map (\<lambda>i. case fst (t ! i) of None \<Rightarrow> []
     | Some x \<Rightarrow> [''  func2str['' @ dec i @ '']: '' @ addr x @ '': '' @ snd (t ! i)]) [0..<length t])"

definition known_name :: "(string option \<times> string) list \<Rightarrow> keyfunc \<Rightarrow> string" where
  "known_name t f = (case func_table_lookup t (Some (func_name f)) of None \<Rightarrow> ''(name unknown)'' | Some i \<Rightarrow> snd (t ! i))"

section \<open>The listing\<close>

text \<open>
  The rows, from key \<open>i\<close>: the first key of a run that has begun, the key the row ends with, and the function. A run is open
  as \<open>start\<close>.
\<close>

fun keymap_rows :: "keyfunc option list \<Rightarrow> nat option \<Rightarrow> nat list \<Rightarrow> (nat option \<times> nat \<times> keyfunc) list" where
  "keymap_rows km start [] = []"
| "keymap_rows km start (i # is) = (case km ! i of None \<Rightarrow> keymap_rows km start is
     | Some f \<Rightarrow>
       if i + 1 \<le> 0xFF \<and> km ! (i + 1) = Some f
       then keymap_rows km (if start = None then Some i else start) is
       else (start, i, f) # keymap_rows km None is)"

text \<open>
  \<open>isalnum\<close> is defined for the values of an \<open>unsigned char\<close>; the locale takes no byte above 127 for a letter.
\<close>

definition key_alnum :: "nat \<Rightarrow> bool res" where
  "key_alnum c = guardr (c \<le> 0xFF) OutOfBounds
     (Inr ((48 \<le> c \<and> c \<le> 57) \<or> (65 \<le> c \<and> c \<le> 90) \<or> (97 \<le> c \<and> c \<le> 122)))"

definition key_strname :: "nat \<Rightarrow> string res" where
  "key_strname i = bindr (key_alnum (i + 0x40)) (\<lambda>alnum. Inr
     (if alnum then '' CONTROL('' @ [CHR 0x27, char_of (i + 0x40), CHR 0x27] @ '')''
      else if 32 \<le> i \<and> i \<le> 126 then '' ('' @ [CHR 0x27, char_of i, CHR 0x27] @ '')'' else []))"

definition key_text :: "nat \<Rightarrow> string res" where
  "key_text i = bindr (key_strname i) (\<lambda>n. Inr
     (''  key: 0x'' @ hex02 (of_nat i) @ '' ('' @ pad_right 3 (dec i) @ '')'' @ pad_left 14 n))"

text \<open>A row alone is one line; a run is its first key, its function and its last key.\<close>

definition row_lines :: "(string \<Rightarrow> string) \<Rightarrow> (string option \<times> string) list \<Rightarrow> nat option \<times> nat \<times> keyfunc \<Rightarrow> string list res" where
  "row_lines addr t = (\<lambda>(start, i, f). case start of
      None \<Rightarrow> bindr (key_text i) (\<lambda>k. Inr [k @ '' '' @ addr (func_name f) @ '': '' @ known_name t f])
    | Some s \<Rightarrow> bindr (key_text s) (\<lambda>k. bindr (key_text i) (\<lambda>l.
        Inr [k, pad_left 31 ''          :'' @ '' '' @ addr (func_name f) @ '': '' @ known_name t f, l])))"

definition list_keymaps :: "(string \<Rightarrow> string) \<Rightarrow> (string option \<times> string) list \<Rightarrow> keyfunc option list \<Rightarrow> string list res" where
  "list_keymaps addr t km =
    fold (\<lambda>r out. bindr out (\<lambda>ls. bindr (row_lines addr t r) (\<lambda>l. Inr (ls @ l)))) (keymap_rows km None [0..<256]) (Inr [])"

section \<open>The rows and the keys\<close>

text \<open>What a row says: every key from its first to its last runs the function.\<close>

fun row_keys :: "nat option \<times> nat \<times> keyfunc \<Rightarrow> (nat \<times> keyfunc) list" where
  "row_keys (None, i, f) = [(i, f)]"
| "row_keys (Some s, i, f) = map (\<lambda>j. (j, f)) [s..<i + 1]"

definition bound_keys :: "keyfunc option list \<Rightarrow> nat list \<Rightarrow> (nat \<times> keyfunc) list" where
  "bound_keys km is = concat (map (\<lambda>i. case km ! i of None \<Rightarrow> [] | Some f \<Rightarrow> [(i, f)]) is)"

lemma rows_complete:
  assumes "i \<le> 256" "start = None \<or> (\<exists>s f. start = Some s \<and> s < i \<and> i < 256 \<and> (\<forall>j. s \<le> j \<and> j \<le> i \<longrightarrow> km ! j = Some f))"
  shows "concat (map row_keys (keymap_rows km start [i..<256])) =
    bound_keys km (case start of None \<Rightarrow> [i..<256] | Some s \<Rightarrow> [s..<256])"
  using assms
proof (induction "256 - i" arbitrary: i start)
  case 0
  then show ?case by (auto simp: bound_keys_def)
next
  case (Suc n)
  then have i: "i < 256" "[i..<256] = i # [Suc i..<256]" "n = 256 - Suc i" by (auto simp: upt_rec)
  note IH = Suc.hyps(1) [OF i(3)]
  show ?case
  proof (cases "km ! i")
    case None
    then have "start = None" using Suc.prems(2) by auto
    with None IH [of None] i show ?thesis by (simp add: bound_keys_def)
  next
    case (Some f)
    define s where "s = (case start of None \<Rightarrow> i | Some s \<Rightarrow> s)"
    have s: "s \<le> i" "\<forall>j. s \<le> j \<and> j \<le> i \<longrightarrow> km ! j = Some f"
      using Suc.prems(2) Some by (auto simp: s_def)
    have "[s..<256] = [s..<Suc i] @ [Suc i..<256]"
      using upt_add_eq_append [of s "Suc i" "255 - i"] i(1) s(1) by simp
    then have goal: "(case start of None \<Rightarrow> [i..<256] | Some s \<Rightarrow> [s..<256]) = [s..<Suc i] @ [Suc i..<256]"
      by (simp add: s_def split: option.splits)
    have run: "bound_keys km [s..<Suc i] = map (\<lambda>j. (j, f)) [s..<Suc i]"
    proof -
      have "map (\<lambda>j. case km ! j of None \<Rightarrow> [] | Some f \<Rightarrow> [(j, f)]) [s..<Suc i] = map (\<lambda>j. [(j, f)]) [s..<Suc i]"
        using s(2) by (intro map_cong) auto
      then show ?thesis unfolding bound_keys_def by (simp only: concat_map_singleton)
    qed
    show ?thesis
    proof (cases "i + 1 \<le> 0xFF \<and> km ! (i + 1) = Some f")
      case True
      have "concat (map row_keys (keymap_rows km (Some s) [Suc i..<256])) = bound_keys km [s..<256]"
        using IH [of "Some s"] True s by (auto simp: le_Suc_eq)
      moreover have "(if start = None then Some i else start) = Some s" by (auto simp: s_def)
      moreover have "(case start of None \<Rightarrow> [i..<256] | Some s \<Rightarrow> [s..<256]) = [s..<256]" by (auto simp: s_def split: option.splits)
      ultimately show ?thesis using True Some i(2) by simp
    next
      case False
      have "row_keys (start, i, f) = map (\<lambda>j. (j, f)) [s..<Suc i]" by (cases start) (auto simp: s_def)
      moreover have "keymap_rows km start [i..<256] = (start, i, f) # keymap_rows km None [Suc i..<256]"
        unfolding i(2) keymap_rows.simps Some option.case if_not_P [OF False] ..
      ultimately have "concat (map row_keys (keymap_rows km start [i..<256])) = bound_keys km [s..<Suc i] @ bound_keys km [Suc i..<256]"
        using i(1) IH [of None] run by simp
      then show ?thesis unfolding goal by (simp add: bound_keys_def)
    qed
  qed
qed

lemma key_text_result: "key_text i = (if i \<le> 0xBF then Inr (projr (key_text i)) else Inl OutOfBounds)"
  by (simp add: key_text_def key_strname_def key_alnum_def guardr_def)

definition last_key :: "nat option \<times> nat \<times> keyfunc \<Rightarrow> nat" where
  "last_key r = max (case fst r of None \<Rightarrow> 0 | Some s \<Rightarrow> s) (fst (snd r))"

lemma row_lines_result:
  "row_lines addr t r = (if last_key r \<le> 0xBF then Inr (projr (row_lines addr t r)) else Inl OutOfBounds)"
proof -
  obtain start i f where r: "r = (start, i, f)" by (cases r)
  have ok: "j \<le> 0xBF \<Longrightarrow> \<exists>k. key_text j = Inr k" "\<not> j \<le> 0xBF \<Longrightarrow> key_text j = Inl OutOfBounds" for j
    using key_text_result [of j] by metis+
  show ?thesis
  proof (cases start)
    case None
    then show ?thesis using ok [of i] by (auto simp: r row_lines_def last_key_def)
  next
    case (Some s)
    then show ?thesis using ok [of i] ok [of s]
      by (cases "s \<le> 0xBF"; cases "i \<le> 0xBF") (auto simp: r row_lines_def last_key_def)
  qed
qed

lemma keymap_fold:
  "fold (\<lambda>r out. bindr out (\<lambda>ls. bindr (row_lines addr t r) (\<lambda>l. Inr (ls @ l)))) rs (Inr ls) =
    (if \<forall>r\<in>set rs. last_key r \<le> 0xBF then Inr (ls @ concat (map (\<lambda>r. projr (row_lines addr t r)) rs)) else Inl OutOfBounds)"
proof (induction rs arbitrary: ls)
  case (Cons r rs)
  have stuck: "fold (\<lambda>r out. bindr out (\<lambda>ls. bindr (row_lines addr t r) (\<lambda>l. Inr (ls @ l)))) rs (Inl x) = Inl x" for x rs
    by (induction rs) simp_all
  show ?case
  proof (cases "last_key r \<le> 0xBF")
    case True
    then obtain l where "row_lines addr t r = Inr l" using row_lines_result [of addr t r] by metis
    with True show ?thesis by (simp add: Cons.IH)
  next
    case False
    then have "row_lines addr t r = Inl OutOfBounds" using row_lines_result [of addr t r] by simp
    with False show ?thesis by (simp add: stuck)
  qed
qed simp

lemma row_keys_last: "(k, g) \<in> set (row_keys r) \<Longrightarrow> k \<le> last_key r"
  by (cases r rule: row_keys.cases) (auto simp: last_key_def)

lemma last_in_row: "row_keys r \<noteq> [] \<Longrightarrow> \<exists>g. (last_key r, g) \<in> set (row_keys r)"
  by (cases r rule: row_keys.cases) (auto simp: last_key_def max_def split: if_splits)

lemma rows_nonempty:
  "(case start of None \<Rightarrow> True | Some s \<Rightarrow> \<forall>i\<in>set is. s \<le> i) \<Longrightarrow> sorted is \<Longrightarrow> r \<in> set (keymap_rows km start is) \<Longrightarrow> row_keys r \<noteq> []"
proof (induction km start "is" rule: keymap_rows.induct)
  case (2 km start i js)
  then show ?case
    by (cases "km ! i") (fastforce split: if_splits option.splits)+
qed simp

text \<open>
  C27: The rows of \<open>list keymaps\<close> say of every bound key, once, which function it runs, and of no other key. The command prints
  them unless a key from 0xC0 on is bound, for which it calls \<open>isalnum\<close> outside its domain; in a terminal
  session such a key always is, the one that begins a telnet command.
\<close>

theorem keymaps_listed:
  shows "concat (map row_keys (keymap_rows km None [0..<256])) = bound_keys km [0..<256] \<and>
    list_keymaps addr t km =
      (if \<exists>k f. 0xC0 \<le> k \<and> k \<le> 0xFF \<and> km ! k = Some f then Inl OutOfBounds
       else Inr (concat (map (\<lambda>r. projr (row_lines addr t r)) (keymap_rows km None [0..<256])))) \<and>
    list_keymaps addr t session_keys = Inl OutOfBounds"
proof -
  have rows: "concat (map row_keys (keymap_rows km None [0..<256])) = bound_keys km [0..<256]" for km
    using rows_complete [of 0 None km] by simp
  have bound: "(\<exists>r\<in>set (keymap_rows km None [0..<256]). (k, f) \<in> set (row_keys r)) \<longleftrightarrow> k < 256 \<and> km ! k = Some f" for km k f
  proof -
    have "(\<exists>r\<in>set (keymap_rows km None [0..<256]). (k, f) \<in> set (row_keys r)) \<longleftrightarrow> (k, f) \<in> set (bound_keys km [0..<256])"
      unfolding rows [symmetric] by auto
    then show ?thesis by (auto simp: bound_keys_def split: option.splits)
  qed
  have high: "(\<forall>r\<in>set (keymap_rows km None [0..<256]). last_key r \<le> 0xBF) \<longleftrightarrow> \<not> (\<exists>k f. 0xC0 \<le> k \<and> k \<le> 0xFF \<and> km ! k = Some f)" for km
  proof
    assume low: "\<forall>r\<in>set (keymap_rows km None [0..<256]). last_key r \<le> 0xBF"
    show "\<not> (\<exists>k f. 0xC0 \<le> k \<and> k \<le> 0xFF \<and> km ! k = Some f)"
    proof
      assume "\<exists>k f. 0xC0 \<le> k \<and> k \<le> 0xFF \<and> km ! k = Some f"
      then obtain k f where k: "0xC0 \<le> k" "k < 256" "km ! k = Some f" by auto
      with bound [of km k f] obtain r where "r \<in> set (keymap_rows km None [0..<256])" "(k, f) \<in> set (row_keys r)" by blast
      with row_keys_last low k(1) show False by fastforce
    qed
  next
    assume none: "\<not> (\<exists>k f. 0xC0 \<le> k \<and> k \<le> 0xFF \<and> km ! k = Some f)"
    show "\<forall>r\<in>set (keymap_rows km None [0..<256]). last_key r \<le> 0xBF"
    proof
      fix r assume r: "r \<in> set (keymap_rows km None [0..<256])"
      from last_in_row [OF rows_nonempty [OF _ _ r]] obtain g where "(last_key r, g) \<in> set (row_keys r)" by auto
      with r have "last_key r < 256" "km ! last_key r = Some g" using bound [of km "last_key r" g] by blast+
      then have "last_key r \<le> 0xFF" "km ! last_key r = Some g" by simp_all
      with none have "\<not> 0xC0 \<le> last_key r" by blast
      then show "last_key r \<le> 0xBF" by simp
    qed
  qed
  have list: "list_keymaps addr t km = (if \<exists>k f. 0xC0 \<le> k \<and> k \<le> 0xFF \<and> km ! k = Some f then Inl OutOfBounds
       else Inr (concat (map (\<lambda>r. projr (row_lines addr t r)) (keymap_rows km None [0..<256]))))" for km
    unfolding list_keymaps_def keymap_fold high by simp
  have "session_keys ! 255 = Some K_iac_start" by (simp add: session_keys_def default_keymap_def)
  then have "list_keymaps addr t session_keys = Inl OutOfBounds" unfolding list by fastforce
  with rows list show ?thesis by blast
qed

end
