(* ===== verification/Consoles.thy ===== *)
theory Consoles
  imports Command_Table Workers
begin

text \<open>
  The console, \<open>sdplane/console_shell.c\<close>, and the startup configuration, \<open>sdplane/startup_config.c\<close>: how each makes its shell,
  and its loop. The loop of the console is that of a session, with the pager; the configuration is read to its end,
  with the pager off. The command \<open>exit\<close> of the console stops the workers and cancels the threads. The
  terminal modes set by \<open>termio_init\<close> are left out, and so is the loop counter.
\<close>

section \<open>The shells\<close>






text \<open>Leaving the console: the first \<open>nb_lcores\<close> lcores are stopped. The handles are those of the threads cancelled.\<close>

definition console_exit_cmd ::
  "int \<Rightarrow> nat \<Rightarrow> 'z shell_scheme \<times> ('l, 'a, 'p) workplace \<Rightarrow> ('z shell_scheme \<times> ('l, 'a, 'p) workplace \<times> 'l list) res" where
  "console_exit_cmd self nb_lcores = (\<lambda>(sh, w).
    bindr (print_term (''console exit !'' @ [CHR 0x0A]) sh) (\<lambda>sh.
    let sh = sh\<lparr>sh_flag := flag_set (sh_flag sh) SHELL_FLAG_EXIT\<rparr>
    in bindr (runr (stop_lcore self) (map int [0..<nb_lcores]) w) (\<lambda>w. Inr (sh, w, lthread_cancel_all (thread_reg w)))))"

section \<open>Both shells are well formed\<close>









section \<open>Reading a configuration\<close>






















section \<open>Witnesses\<close>






end
