(* ===== verification/Files.thy ===== *)
theory Files
  imports Command
begin

text \<open>
  The helpers of \<open>lib/zcmdsh/file.c\<close> (\<open>path_disassemble\<close> is in the theory Command): opening a file with the directories
  on its path, emptying a file, redirecting the standard streams, and directory entries. Only the entries are
  used by the program. The file system is a record of the system calls on a state of type \<open>'s\<close>.
\<close>

section \<open>The file system\<close>

text \<open>What \<open>stat\<close> finds: a regular file or another one, nothing (\<open>ENOENT\<close>), or another error.\<close>

datatype stat_answer = Regular | Special | Noent | Failed

record 's file_calls =
  fc_stat :: "'s \<Rightarrow> string \<Rightarrow> stat_answer"
  fc_mkdir :: "'s \<Rightarrow> string \<Rightarrow> bool \<times> 's"
  fc_fopen :: "'s \<Rightarrow> string \<Rightarrow> string \<Rightarrow> nat option \<times> 's"
  fc_open_trunc :: "'s \<Rightarrow> string \<Rightarrow> bool \<times> 's"

definition FILENAME_MAX :: nat where "FILENAME_MAX = 4096"

text \<open>A directory that does not exist is made.\<close>

definition need_dir :: "'s file_calls \<Rightarrow> string \<Rightarrow> 's \<Rightarrow> bool \<times> 's" where
  "need_dir y d s = (if fc_stat y s d = Noent then fc_mkdir y s d else (True, s))"

fun need_dirs :: "'s file_calls \<Rightarrow> string list \<Rightarrow> 's \<Rightarrow> bool \<times> 's" where
  "need_dirs y [] s = (True, s)"
| "need_dirs y (d # ds) s = (let (ok, s) = need_dir y d s in if ok then need_dirs y ds s else (False, s))"

text \<open>The parts of a path that end before a slash, and all of it.\<close>

definition dir_prefixes :: "string \<Rightarrow> string list" where
  "dir_prefixes d = map (\<lambda>i. take i d) (filter (\<lambda>i. d ! i = CHR ''/'') [0..<length d]) @ [d]"

text \<open>
  The buffer has no terminator when the name fills it, and \<open>strrchr\<close> runs past it. When the only slash is the first
  character, the directory is the string literal \<open>"/"\<close>, and the loop writes where it may not; both are \<open>OutOfBounds\<close>.
\<close>

definition in_root :: "string \<Rightarrow> bool" where
  "in_root name \<longleftrightarrow> name \<noteq> [] \<and> hd name = CHR ''/'' \<and> CHR ''/'' \<notin> set (tl name)"

definition fopen_create :: "'s file_calls \<Rightarrow> string \<Rightarrow> string \<Rightarrow> 's \<Rightarrow> (nat option \<times> 's) res" where
  "fopen_create y name mode s =
    guardr (length name < FILENAME_MAX + 1) OutOfBounds
      (guardr (\<not> in_root name) OutOfBounds
        (let (dirname, filename) = path_disassemble name; (ok, s) = need_dirs y (dir_prefixes dirname) s
         in Inr (if ok then fc_fopen y s name mode else (None, s))))"

definition file_truncate :: "'s file_calls \<Rightarrow> string \<Rightarrow> 's \<Rightarrow> int \<times> 's" where
  "file_truncate y name s =
    (if fc_stat y s name = Noent \<or> fc_stat y s name = Failed then (-1, s)
     else if fc_stat y s name \<noteq> Regular then (-1, s)
     else let (ok, s) = fc_open_trunc y s name in if ok then (0, s) else (-1, s))"

section \<open>The standard streams\<close>

text \<open>Streams are pointers, \<open>None\<close> the null one; nothing is saved at first.\<close>

record 'p stdio =
  std_in :: "'p option"
  std_out :: "'p option"
  std_err :: "'p option"
  save_stdin :: "'p option"
  save_stdout :: "'p option"
  save_stderr :: "'p option"

definition redirect_stdio :: "'p option \<Rightarrow> 'p option \<Rightarrow> 'p stdio \<Rightarrow> 'p stdio" where
  "redirect_stdio std fp s =
    (if std = std_in s then s\<lparr>save_stdin := std_in s, std_in := fp\<rparr>
     else if std = std_out s then s\<lparr>save_stdout := std_out s, std_out := fp\<rparr>
     else if std = std_err s then s\<lparr>save_stderr := std_err s, std_err := fp\<rparr>
     else s)"

definition restore_stdio :: "'p stdio \<Rightarrow> 'p stdio" where
  "restore_stdio s = s\<lparr>std_in := save_stdin s, std_out := save_stdout s, std_err := save_stderr s\<rparr>"

section \<open>Directory entries\<close>

record dirent =
  d_ino :: u64
  d_type :: u8
  d_name :: string

text \<open>\<open>strcmp\<close> compares the characters as unsigned numbers; only the sign of the result is defined.\<close>

fun dirent_cmp_names :: "string \<Rightarrow> string \<Rightarrow> int" where
  "dirent_cmp_names [] [] = 0"
| "dirent_cmp_names [] (b # bs) = -1"
| "dirent_cmp_names (a # as) [] = 1"
| "dirent_cmp_names (a # as) (b # bs) =
    (if a = b then dirent_cmp_names as bs else if (of_char a :: nat) < of_char b then -1 else 1)"

definition dirent_cmp :: "dirent \<Rightarrow> dirent \<Rightarrow> int" where
  "dirent_cmp a b = dirent_cmp_names (d_name a) (d_name b)"

text \<open>The copy has the size of the entry in use; \<open>mem\<close>: the memory for it.\<close>

definition dirent_copy :: "bool \<Rightarrow> dirent \<Rightarrow> dirent option" where
  "dirent_copy mem d = (if mem then Some d else None)"

section \<open>Properties\<close>

lemma cmp_names_zero: "dirent_cmp_names as bs = 0 \<longleftrightarrow> as = bs"
  by (induction as bs rule: dirent_cmp_names.induct) auto

lemma cmp_names_antisym: "dirent_cmp_names bs as = - dirent_cmp_names as bs"
proof (induction as bs rule: dirent_cmp_names.induct)
  case (4 a as b bs)
  have "a \<noteq> b \<Longrightarrow> (of_char a :: nat) \<noteq> of_char b" by simp
  with 4 show ?case by auto
qed simp_all

text \<open>A stream that was not redirected is lost when the streams are restored.\<close>

lemma restore_loses:
  assumes "std_in s \<noteq> std_out s" "save_stdin s = None"
  shows "std_in (restore_stdio (redirect_stdio (std_out s) fp s)) = None"
    "std_out (restore_stdio (redirect_stdio (std_out s) fp s)) = std_out s"
  using assms by (simp_all add: redirect_stdio_def restore_stdio_def)

text \<open>What is used of the file system: there is nothing under the empty path, and making a directory keeps what there is.\<close>

definition directories_stay :: "'s file_calls \<Rightarrow> bool" where
  "directories_stay y \<longleftrightarrow>
     (\<forall>s. fc_stat y s [] = Noent \<and> fc_mkdir y s [] = (False, s)) \<and>
     (\<forall>s d. fst (fc_mkdir y s d) \<longrightarrow> fc_stat y (snd (fc_mkdir y s d)) d \<noteq> Noent) \<and>
     (\<forall>s d e. fc_stat y s e \<noteq> Noent \<longrightarrow> fc_stat y (snd (fc_mkdir y s d)) e \<noteq> Noent)"

lemma need_dir_keeps:
  "directories_stay y \<Longrightarrow> fc_stat y s e \<noteq> Noent \<Longrightarrow> fc_stat y (snd (need_dir y d s)) e \<noteq> Noent"
  by (simp add: need_dir_def directories_stay_def)

lemma need_dirs_made:
  assumes "directories_stay y" "need_dirs y ds s = (ok, s')"
  shows "(\<forall>e. fc_stat y s e \<noteq> Noent \<longrightarrow> fc_stat y s' e \<noteq> Noent) \<and> (ok \<longrightarrow> (\<forall>d\<in>set ds. fc_stat y s' d \<noteq> Noent)) \<and>
    ((\<forall>d\<in>set ds. fc_stat y s d \<noteq> Noent) \<longrightarrow> ok \<and> s' = s)"
  using assms(2)
proof (induction ds arbitrary: s)
  case (Cons d ds)
  obtain k u where u: "need_dir y d s = (k, u)" by fastforce
  have keep: "fc_stat y s e \<noteq> Noent \<Longrightarrow> fc_stat y u e \<noteq> Noent" for e
    using need_dir_keeps [OF assms(1), of s e d] u by simp
  have made: "k \<Longrightarrow> fc_stat y u d \<noteq> Noent"
    using u assms(1) by (auto simp: need_dir_def directories_stay_def split: if_splits) (metis fst_conv snd_conv)
  have same: "fc_stat y s d \<noteq> Noent \<Longrightarrow> k \<and> u = s" using u by (auto simp: need_dir_def)
  show ?case
  proof (cases k)
    case True
    with Cons.prems u have "need_dirs y ds u = (ok, s')" by simp
    from Cons.IH [OF this] keep made [OF True] same show ?thesis by auto
  next
    case False
    with Cons.prems u keep same show ?thesis by auto
  qed
qed simp

lemma path_split:
  assumes "CHR ''/'' \<in> set name"
  obtains d f where "name = d @ CHR ''/'' # f" "CHR ''/'' \<notin> set f" "path_disassemble name = (if d = [] then ''/'' else d, f)"
proof -
  from split_list_last [OF assms] obtain d f where s: "name = d @ CHR ''/'' # f" "CHR ''/'' \<notin> set f" by blast
  then have "CHR ''/'' \<notin> set (rev f)" by simp
  then have "takeWhile (\<lambda>x. x \<noteq> CHR ''/'') (rev name) = rev f" "dropWhile (\<lambda>x. x \<noteq> CHR ''/'') (rev name) = CHR ''/'' # rev d"
    unfolding s(1) by (subst rev_append, simp, subst takeWhile_append2, auto) (subst dropWhile_append2, auto)
  with s show ?thesis by (intro that [of d f]) (simp_all add: path_disassemble_def)
qed

text \<open>
  \<open>fopen_create\<close> never opens a file by an absolute path: directly under the root it writes into a string literal, and below it
  gives up because there is nothing under the empty path that comes before the first slash. With a relative path it
  opens the file once every directory on the path exists, having made the missing ones, and makes none when all exist; when one
  cannot be made it gives up.
\<close>

theorem fopen_create_paths:
  assumes "directories_stay y" "name \<noteq> []" "length name \<le> 4096"
  shows "if hd name = CHR ''/''
    then fopen_create y name mode s = (if CHR ''/'' \<in> set (tl name) then Inr (None, s) else Inl OutOfBounds)
    else \<exists>s'. let dirs = dir_prefixes (fst (path_disassemble name)) in
      (fopen_create y name mode s = Inr (None, s') \<or>
       fopen_create y name mode s = Inr (fc_fopen y s' name mode) \<and> (\<forall>d\<in>set dirs. fc_stat y s' d \<noteq> Noent)) \<and>
      ((\<forall>d\<in>set dirs. fc_stat y s d \<noteq> Noent) \<longrightarrow> fopen_create y name mode s = Inr (fc_fopen y s name mode))"
proof (cases "hd name = CHR ''/''")
  case True
  have len: "length name < FILENAME_MAX + 1" using assms(3) by (simp add: FILENAME_MAX_def)
  show ?thesis
  proof (cases "CHR ''/'' \<in> set (tl name)")
    case deep: True
    obtain x xs where n: "name = x # xs" using assms(2) by (cases name) auto
    obtain d f where s: "name = d @ CHR ''/'' # f" "CHR ''/'' \<notin> set f" "path_disassemble name = (if d = [] then ''/'' else d, f)"
      by (rule path_split [of name]) (use deep n in auto)
    have "d \<noteq> []" using s(1,2) deep n by auto
    then have h: "hd d = CHR ''/''" using True s(1) by simp
    then obtain ds where ds: "dir_prefixes d = [] # ds"
      using \<open>d \<noteq> []\<close> by (simp add: dir_prefixes_def upt_conv_Cons hd_conv_nth)
    have nd: "need_dir y [] s = (False, s)" using assms(1) by (simp add: need_dir_def directories_stay_def)
    have nr: "\<not> in_root name" using deep by (simp add: in_root_def)
    have p: "path_disassemble name = (d, f)" using s(3) \<open>d \<noteq> []\<close> by simp
    have "need_dirs y (dir_prefixes d) s = (False, s)" unfolding ds by (simp add: nd)
    then have "fopen_create y name mode s = Inr (None, s)"
      unfolding fopen_create_def p guardr_def by (simp only: len nr if_True not_False_eq_True case_prod_conv Let_def if_False)
    then show ?thesis unfolding if_P [OF True] if_P [OF deep] .
  next
    case False
    then show ?thesis using True len assms(2) by (simp add: fopen_create_def in_root_def)
  qed
next
  case False
  obtain dir f where p: "path_disassemble name = (dir, f)" by fastforce
  obtain ok s' where nd: "need_dirs y (dir_prefixes dir) s = (ok, s')" by fastforce
  note m = need_dirs_made [OF assms(1) nd]
  have e: "fopen_create y name mode s = Inr (if ok then fc_fopen y s' name mode else (None, s'))"
    using False assms(3) by (simp add: fopen_create_def FILENAME_MAX_def in_root_def p nd)
  show ?thesis
    unfolding if_not_P [OF False] p fst_conv Let_def e using m by (intro exI [of _ s']) auto
qed

text \<open>A file system of directories only, in which a directory can be made where its parent is.\<close>

definition some_dirs :: "string list file_calls" where
  "some_dirs = \<lparr>fc_stat = \<lambda>s d. if d \<noteq> [] \<and> d \<in> set s then Special else Noent,
     fc_mkdir = \<lambda>s d. if d \<noteq> [] \<and> fst (path_disassemble d) \<in> set s then (True, d # s) else (False, s),
     fc_fopen = \<lambda>s n mode. (Some 1, s), fc_open_trunc = \<lambda>s n. (False, s)\<rparr>"

theorem fopen_create_paths_witness:
  "fopen_create some_dirs ''/etc/x/y'' ''w'' [''.'', ''/etc''] = Inr (None, [''.'', ''/etc'']) \<and>
   fopen_create some_dirs ''/y'' ''w'' [''.'', ''/etc''] = Inl OutOfBounds \<and>
   fopen_create some_dirs ''log/y'' ''w'' [''.'', ''log''] = Inr (Some 1, [''.'', ''log''])"
proof -
  have y: "directories_stay some_dirs" by (simp add: directories_stay_def some_dirs_def)
  have d: "dir_prefixes (fst (path_disassemble ''log/y'')) = [''log'']"
    by (simp add: path_disassemble_def dir_prefixes_def upt_rec)
  have e: "fc_stat some_dirs [''.'', ''log''] ''log'' \<noteq> Noent" "fc_fopen some_dirs [''.'', ''log''] ''log/y'' ''w'' = (Some 1, [''.'', ''log''])"
    by (simp_all add: some_dirs_def)
  have "fopen_create some_dirs ''log/y'' ''w'' [''.'', ''log''] = Inr (Some 1, [''.'', ''log''])"
    using fopen_create_paths [OF y, of "''log/y''" "''w''" "[''.'', ''log'']"] e unfolding d by (auto simp: Let_def)
  moreover have "fopen_create some_dirs ''/etc/x/y'' ''w'' [''.'', ''/etc''] = Inr (None, [''.'', ''/etc''])"
    using fopen_create_paths [OF y, of "''/etc/x/y''" "''w''" "[''.'', ''/etc'']"] by simp
  moreover have "fopen_create some_dirs ''/y'' ''w'' [''.'', ''/etc''] = Inl OutOfBounds"
    using fopen_create_paths [OF y, of "''/y''" "''w''" "[''.'', ''/etc'']"] by simp
  ultimately show ?thesis by blast
qed

end
