(* ===== verification/Spec2Isabelle.thy ===== *)
theory Spec2Isabelle
  imports Tlp Vector Vty_Keys Rib_Manager Nettlp_Window Switching Workers Ports Command_Tree Session Pager
    Debugging Command_Table Vty_Server General Keymap_List Consoles Files
begin

text \<open>
  A model of \<open>sdplane\<close>, a DPDK data plane with a NetTLP adapter, and of \<open>zcmdsh\<close>, its command shell.
  All paths are below \<open>src/\<close>. Every definition is the shallow translation of the C code named at its place;
  its name is the one in the source where Isabelle allows it.


  The program. \<open>sdplane/main.c\<close> starts DPDK and runs a worker function on every lcore. One lcore runs light-weight
  threads (\<open>lthread_main.c\<close>): the console, the terminal server with one session per connection, the manager of the
  routing information base, the statistics. The others forward packets: the L2 repeater, the virtual switch
  with its tap devices, the NetTLP adapter. The threads share tables (workers, threads, ports,
  receive queues) and exchange messages through rings; the forwarding threads read the rib, which the
  manager replaces as a whole. Users act through the commands of a shell, on the console, over a
  telnet connection or from the startup configuration.


  The theories and the code they model.

  \<^item> Prelude: machine words, faults as values (\<open>res\<close>, \<open>bindr\<close>), bytes in memory, network byte order,
    the contracts \<open>preserving\<close> and \<open>safe_machine\<close> of a state machine.
  \<^item> Libc, Cli_Args: the functions of the C library on numbers and addresses, and the numbers commands take
    from their words (\<open>strtol (argv[i], NULL, 0)\<close> in all the command files).
  \<^item> Tlp: headers, byte enables and paddings of PCIe transactions, \<open>sdplane/tlp.h\<close> and \<open>nettlp_support.c\<close>.
  \<^item> Nettlp, Nettlp_Window: \<open>sdplane/nettlp.c\<close>, the sending of DMA requests, the memory window behind the
    receiver, the thread and the commands.
  \<^item> Queue_Config, Internal_Message, Rib_Manager: \<open>sdplane/queue_config.c\<close>, \<open>internal_message.c\<close>, \<open>rib.c\<close> and
    \<open>rib_manager.c\<close>, the assignment of queues, the messages, and the update of the rib.
  \<^item> Switching: \<open>sdplane/tap_handler.c\<close> and \<open>l2_repeater.c\<close>, the virtual switch, the forwarding database, the repeater.
  \<^item> General: the commands of \<open>sdplane/sdplane.c\<close>, the loop counters of \<open>stat_collector.c\<close>, \<open>tap.c\<close>, \<open>tap_cmd.c\<close> and the
    start of \<open>tap_handler\<close>.
  \<^item> Thread_Info: \<open>sdplane/thread_info.c\<close>, the sampling in \<open>stat_collector.c\<close>, and the entry a session takes in the registry.
  \<^item> Workers: \<open>sdplane/dpdk_lcore_cmd.c\<close>, \<open>main.c\<close>, \<open>lthread_main.c\<close> and \<open>sdplane_init\<close>.
  \<^item> Port_Flags, Ports: \<open>sdplane/snprintf_flags.c\<close>, the flag tables and the commands of \<open>dpdk_port_cmd.c\<close>.
  \<^item> Vector: \<open>lib/zcmdsh/vector.c\<close>, growable arrays, their search and iteration.
  \<^item> Shell, Line_Edit, Keyfunc, Telnet, Vty_Keys: \<open>lib/zcmdsh/shell.c\<close>, \<open>shell_keyfunc.c\<close>, \<open>shell_telnet.c\<close>: the line
    editor, the keys, the telnet negotiation.
  \<^item> Command, Command_Tree: \<open>lib/zcmdsh/command.c\<close>, the tree of commands.
  \<^item> Command_Shell, Keymap_List, Pager: \<open>lib/zcmdsh/command_shell.c\<close>, the history, running and completing lines, the
    listing of keys, the pager.
  \<^item> Session, Consoles: the loops of \<open>sdplane/vty_shell.c\<close>, \<open>console_shell.c\<close> and \<open>startup_config.c\<close>, and the keys of their shells.
  \<^item> Command_Table: the specification, help and function of every command, and the lists the three shells install.
  \<^item> Vty_Server: \<open>sdplane/vty_server.c\<close> and the part of \<open>vty_shell\<close> that takes and gives back a slot.
  \<^item> Debugging: \<open>lib/zcmdsh/debug_log.c\<close>, \<open>log.c\<close>, \<open>log_cmd.c\<close>, \<open>debug_cmd.c\<close>, \<open>debug_zcmdsh.c\<close> and
    \<open>sdplane/debug_sdplane.c\<close>.
  \<^item> Files: \<open>lib/zcmdsh/file.c\<close>.


  State and operations. A structure of the source is a record with its fields; globals an operation shares are
  fields of a record of the component (\<open>workplace\<close>, \<open>nettlp\<close>, \<open>service\<close> and the like), passed and returned. A pointer is an option when
  it may be null, the index of its target when it points into a table, and a value of a type variable when it is only handed on.
  An access that C leaves undefined (a null pointer, an index outside an array), a failed assertion and memory the code
  needs and does not get are values \<open>Inl\<close> of the type of faults, and never a made-up result; so \<open>Inr\<close> in a theorem says that the operation met none. Machine
  integers have their width, and conversions are written as the compiler makes them on a little-endian 64-bit machine.


  What the groups of lemmas show.

  \<^item> Editing: every key keeps the line well formed (\<open>vty_ok\<close>), implements the abstract editor on text, cursor and cut buffer
    and keeps the terminal's line equal to it. The locale \<open>safe_machine\<close> turns this into safety for any input.
  \<^item> Commands: installing a specification refines the update of a map from lines to functions, looking a line up
    refines the lookup; sessions, the console and the configuration are built on both, so that a typed line calls the function
    installed for it.
  \<^item> Rib: a message is carried out as a whole or rejected, and readers see a complete rib or none.
  \<^item> Packets: the DMA requests and completions decode to what was sent, requests stay inside the window (with the exceptions
    stated), the repeater and the switch handle each packet once.
  \<^item> Tables: workers, threads, slots and queues keep their invariants under all commands and events, and the
    theorems of kind error state where the code itself breaks them or leaks.


  Bounds and fuel. The ring of the history is walked with \<open>HISTORY_SIZE\<close> steps and the vector with a fuel for which a lemma
  shows that it suffices; the loop that answers a read is a \<open>partial_function\<close>, and that it ends (or does not) is a
  theorem. All other loops are structural or have a termination proof. Bounds of the source (sixteen threads, five
  slots, 64 bytes of a completion) are definitions with their names.


  Parameters. DPDK, the C library's allocator, system calls and the peer are not part of the sources. What they answer is an
  argument of the operation or part of an event, and calls that only have an effect outside are recorded in order. Laws that
  are needed are named predicates (\<open>mbuf_laws\<close> for the packet buffers, for instance), each with a witness that meets it.
  The light-weight threads run one at a time and yield at their sleeps, so that a turn of a loop is a step; the lock of the
  registry of threads makes each of its operations one step.


  Not modelled. \<open>lib/zcmdsh/shell_fselect.c\<close> is not built into the program. \<open>termio.c\<close> only sets the modes of the terminal.
  Operations that only free memory (\<open>vector_delete\<close>, \<open>shell_delete\<close>, \<open>command_shell_delete\<close>, \<open>command_set_delete\<close>) have no counterpart,
  and the macros that print debug output or backtraces (\<open>log_packet.h\<close>, \<open>debug_backtrace.h\<close>) have no effect on the
  state. Build files, scripts and documents hold no logic of the program.
\<close>

end
